(* ===== verification/Prelude.thy ===== *)
theory Prelude
  imports Main "HOL-Library.Word"
begin

text \<open>
  Shared vocabulary of the development: the C integer types the emulator uses, the ways a C
  function can fail to return (a failed \<^verbatim>\<open>assert\<close>, a null dereference, an access outside an
  array, a division by zero, \<^verbatim>\<open>abort\<close>/\<^verbatim>\<open>exit\<close>, a jump to an address that was never patched, an
  undefined shift, a loop that exceeds its bound), the result type with its sequencing operator, and the lemmas on words, masks, lists and results that
  the component theories share.
\<close>

unbundle bit_operations_syntax

section \<open>C types\<close>

type_synonym u8 = "8 word"
type_synonym u16 = "16 word"
type_synonym u32 = "32 word"
type_synonym u64 = "64 word"

section \<open>Faults and results\<close>

datatype fault =
    AssertFail      \<comment> \<open>a failed \<^verbatim>\<open>assert\<close>\<close>
  | NullDeref       \<comment> \<open>a dereference of \<^verbatim>\<open>NULL\<close>\<close>
  | OutOfBounds     \<comment> \<open>an access outside a C array\<close>
  | DivByZero       \<comment> \<open>a division or remainder by zero\<close>
  | AbortCall       \<comment> \<open>\<^verbatim>\<open>tcg_abort\<close> or \<^verbatim>\<open>cpu_abort\<close>\<close>
  | ExitCall        \<comment> \<open>\<^verbatim>\<open>exit\<close> after an error message\<close>
  | WildJump        \<comment> \<open>a jump whose displacement was never written\<close>
  | UndefShift      \<comment> \<open>a shift by a negative count or by the operand's width or more\<close>
  | OutOfFuel       \<comment> \<open>a loop that did not end within its bound\<close>

type_synonym 'a result = "fault + 'a"

fun res_bind :: "'a result \<Rightarrow> ('a \<Rightarrow> 'b result) \<Rightarrow> 'b result" where
  "res_bind (Inl e) f = Inl e"
| "res_bind (Inr x) f = f x"

definition check :: "bool \<Rightarrow> fault \<Rightarrow> 'a result \<Rightarrow> 'a result" where
  "check b e r = (if b then r else Inl e)"

named_theorems res_simps \<open>unfolding of results and guards\<close>

lemma res_bind_eq_Inr_iff [simp]:
  "res_bind m f = Inr y \<longleftrightarrow> (\<exists>x. m = Inr x \<and> f x = Inr y)"
  by (cases m) auto

lemma res_bind_eq_Inl_iff:
  "res_bind m f = Inl e \<longleftrightarrow> m = Inl e \<or> (\<exists>x. m = Inr x \<and> f x = Inl e)"
  by (cases m) auto

lemma res_bind_assoc: "res_bind (res_bind m f) g = res_bind m (\<lambda>x. res_bind (f x) g)"
  by (cases m) auto

lemma check_True [simp]: "check True e r = r"
  by (simp add: check_def)

lemma check_False [simp]: "check False e r = Inl e"
  by (simp add: check_def)

lemma check_eq_Inr_iff [simp]: "check b e r = Inr x \<longleftrightarrow> b \<and> r = Inr x"
  by (simp add: check_def)

lemmas [res_simps] = res_bind_eq_Inl_iff res_bind_assoc check_def

section \<open>Words and masks\<close>

named_theorems word_mask \<open>bounds of masked words\<close>

lemma unat_and_mask_less [word_mask]:
  fixes x :: "'a::len word"
  shows "unat (x AND mask n) < 2 ^ n"
proof -
  have "unat (x AND mask n) = take_bit n (unat x)"
    by (simp add: unsigned_take_bit_eq flip: take_bit_eq_mask)
  then show ?thesis by simp
qed

lemma mask_numeral_4095: "(4095 :: 'a::len word) = mask 12"
  by (simp add: mask_eq_exp_minus_1)

lemma unat_and_4095_less [word_mask]: "unat ((x :: 'a::len word) AND 4095) < 4096"
  using unat_and_mask_less [of x 12] by (simp add: mask_numeral_4095)

lemma of_nat_inj_bounded:
  assumes "i < n" "j < n" "n \<le> 2 ^ LENGTH('a::len)"
    and "(of_nat i :: 'a word) = of_nat j"
  shows "i = j"
proof -
  have "unat (of_nat i :: 'a word) = i" "unat (of_nat j :: 'a word) = j"
    using assms(1-3) by (simp_all add: unat_of_nat)
  with assms(4) show ?thesis by metis
qed

section \<open>Narrowing, extension and rotation\<close>

lemma mask32: "(x :: u64) AND 0xffffffff = ucast (ucast x :: u32)"
proof -
  have "(0xffffffff :: u64) = mask 32" by (simp add: mask_eq_exp_minus_1)
  then have "x AND 0xffffffff = x AND mask 32" by (rule arg_cong)
  also have "\<dots> = ucast (ucast x :: u32)" by (rule bit_word_eqI) (auto simp: bit_simps)
  finally show ?thesis .
qed

lemma take_bit_32_64:
  fixes x y :: int
  shows "take_bit 32 (take_bit 64 x + take_bit 64 y) = take_bit 32 (x + y)"
    "take_bit 32 (take_bit 64 x - take_bit 64 y) = take_bit 32 (x - y)"
    "take_bit 32 (take_bit 64 x * take_bit 64 y) = take_bit 32 (x * y)"
    "take_bit 32 (- take_bit 64 x) = take_bit 32 (- x)"
proof -
  have e: "take_bit 32 (take_bit 64 z) = take_bit 32 z" for z :: int by simp
  show "take_bit 32 (take_bit 64 x + take_bit 64 y) = take_bit 32 (x + y)" by (metis e take_bit_add)
  show "take_bit 32 (take_bit 64 x - take_bit 64 y) = take_bit 32 (x - y)" by (metis e take_bit_diff)
  show "take_bit 32 (take_bit 64 x * take_bit 64 y) = take_bit 32 (x * y)" by (metis e take_bit_mult)
  show "take_bit 32 (- take_bit 64 x) = take_bit 32 (- x)" by (metis e take_bit_minus)
qed

lemma low_arith:
  fixes x y :: u64
  shows "(ucast (x + y) :: u32) = ucast x + ucast y" "(ucast (x - y) :: u32) = ucast x - ucast y"
    "(ucast (x * y) :: u32) = ucast x * ucast y" "(ucast (- x) :: u32) = - ucast x"
  by (transfer, simp add: take_bit_32_64)+

lemma low_bits:
  fixes x y :: u64
  shows "(ucast (x AND y) :: u32) = ucast x AND ucast y" "(ucast (x OR y) :: u32) = ucast x OR ucast y"
    "(ucast (x XOR y) :: u32) = ucast x XOR ucast y" "(ucast (NOT x) :: u32) = NOT (ucast x)"
  by (rule bit_word_eqI, simp add: bit_simps)+

lemma low_ext:
  fixes x :: u64
  shows "(ucast (scast (ucast x :: u8) :: u64) :: u32) = signed_take_bit 7 (ucast x)"
    "(ucast (scast (ucast x :: u16) :: u64) :: u32) = signed_take_bit 15 (ucast x)"
    "(ucast (ucast (ucast x :: u8) :: u64) :: u32) = take_bit 8 (ucast x)"
    "(ucast (ucast (ucast x :: u16) :: u64) :: u32) = take_bit 16 (ucast x)"
  by (rule bit_word_eqI, auto simp: bit_simps min_def not_less)+

lemma ucast_32_64_32 [simp]: "(ucast (ucast (x :: u32) :: u64) :: u32) = x"
  "(ucast (scast (x :: u32) :: u64) :: u32) = x"
  by (rule bit_word_eqI, simp add: bit_simps min_absorb2)+

lemma ext_64:
  fixes x :: u64
  shows "(scast (ucast x :: u8) :: u64) = signed_take_bit 7 x"
    "(scast (ucast x :: u16) :: u64) = signed_take_bit 15 x"
    "(scast (ucast x :: u32) :: u64) = signed_take_bit 31 x"
    "(ucast (ucast x :: u8) :: u64) = take_bit 8 x"
    "(ucast (ucast x :: u16) :: u64) = take_bit 16 x"
    "(ucast (ucast x :: u32) :: u64) = take_bit 32 x"
  by (rule bit_word_eqI, auto simp: bit_simps min_def not_less)+

lemma rot_shifts:
  fixes x :: "'a::len word"
  assumes "0 < n" "n < LENGTH('a)"
  shows "word_rotr n x = push_bit (LENGTH('a) - n) x OR drop_bit n x"
    and "word_rotl n x = push_bit n x OR drop_bit (LENGTH('a) - n) x"
proof -
  show "word_rotr n x = push_bit (LENGTH('a) - n) x OR drop_bit n x"
  proof (rule bit_word_eqI)
    fix k assume "k < LENGTH('a)"
    then show "bit (word_rotr n x) k = bit (push_bit (LENGTH('a) - n) x OR drop_bit n x) k"
      using assms by (auto simp: bit_simps mod_if add.commute dest: bit_imp_le_length)
  qed
  show "word_rotl n x = push_bit n x OR drop_bit (LENGTH('a) - n) x"
  proof (rule bit_word_eqI)
    fix k assume "k < LENGTH('a)"
    then show "bit (word_rotl n x) k = bit (push_bit n x OR drop_bit (LENGTH('a) - n) x) k"
      using assms by (auto simp: bit_simps mod_if add.commute dest: bit_imp_le_length)
  qed
qed


lemma minus_count:
  assumes "unat (y :: u64) < n" "n \<le> 64" "unat (of_nat n - y) < n"
  shows "0 < unat y" "unat (of_nat n - y) = n - unat y"
proof -
  have "unat (of_nat n :: u64) = n" using assms(2) by (subst unat_of_nat) simp
  moreover have "y \<le> of_nat n" using assms calculation by (simp add: word_le_nat_alt)
  ultimately show *: "unat (of_nat n - y) = n - unat y" by (simp add: unat_sub)
  with assms(3) show "0 < unat y" by simp
qed

lemma unat_low32: "unat (y :: u64) < 32 \<Longrightarrow> unat (ucast y :: u32) = unat y"
  by (simp add: unsigned_ucast_eq take_bit_eq_mod)

section \<open>Lists\<close>

lemma nth_list_update_iff:
  "i < length xs \<Longrightarrow> xs[i := v] ! j = (if i = j then v else xs ! j)"
  by simp

end
