(* ===== verification/Trace.thy ===== *)
theory Trace
  imports Prelude
begin

text \<open>
  The instruction trace of one translation block (\<^verbatim>\<open>src/emul/qemu/cpu-exec.c\<close>, with the structs of
  \<^verbatim>\<open>cpu-defs.h\<close>). Generated code fills \<^verbatim>\<open>xtrace_op_tp[1..xtrace_op_cnt]\<close>; the loop then checks the
  records (\<^verbatim>\<open>xtrm_trace_sanity_check\<close>), expands each into one record per memory operand
  (\<^verbatim>\<open>xtrm_trace_expand\<close>) and resets them. The theory shows that expansion writes exactly the
  concatenation of the per-instruction expansions, when it stays inside the buffers, and that a
  reset buffer passes the sanity check.
\<close>

section \<open>Records\<close>

record CPUTracePoint =
  tp_pc :: u32
  tp_opcode :: u32
  tp_has_imm :: u32
  tp_src_imm :: u32
  tp_is_branch :: u32
  tp_is_cond :: u32
  tp_is_taken :: u32
  tp_target :: u32
  tp_rn_regn :: u32
  tp_rm_regn :: u32
  tp_rs_regn :: u32
  tp_rd_regn :: u32
  tp_df_regn :: u32
  tp_rn_regv :: u32
  tp_rm_regv :: u32
  tp_rs_regv :: u32
  tp_rd_regv :: u32
  tp_df_regv :: u32
  tp_memadd_cnt :: u32
  tp_memval_cnt :: u32
  tp_memadd :: "u32 list"
  tp_memval :: "u32 list"
  tp_is_lsm :: u32
  tp_lsm_regn :: "u32 list"
  tp_lsm_regv :: "u32 list"
  tp_lsm_memadd :: "u32 list"
  tp_lsm_memval :: "u32 list"

record ExpandedCPUTracePoint =
  xp_pc :: u32
  xp_opcode :: u32
  xp_has_imm :: u32
  xp_src_imm :: u32
  xp_is_branch :: u32
  xp_is_cond :: u32
  xp_is_taken :: u32
  xp_target :: u32
  xp_rn_regn :: u32
  xp_rm_regn :: u32
  xp_rs_regn :: u32
  xp_rd_regn :: u32
  xp_df_regn :: u32
  xp_rn_regv :: u32
  xp_rm_regv :: u32
  xp_rs_regv :: u32
  xp_rd_regv :: u32
  xp_df_regv :: u32
  xp_hasmem :: u32
  xp_memadd :: u32
  xp_memval :: u32

definition INVALID_REG :: u32 where "INVALID_REG = 16"
definition INVALID_MEMADD :: u32 where "INVALID_MEMADD = - 1"
definition MAX_REG_PER_INSN :: nat where "MAX_REG_PER_INSN = 16"

definition IS_VALID_ARCH_REG :: "u32 \<Rightarrow> bool" where
  "IS_VALID_ARCH_REG x \<longleftrightarrow> x < INVALID_REG"

definition IS_VALID_OR_NULL_ARCH_REG :: "u32 \<Rightarrow> bool" where
  "IS_VALID_OR_NULL_ARCH_REG x \<longleftrightarrow> IS_VALID_ARCH_REG x \<or> INVALID_REG = x"

text \<open>
  The two buffers behind \<^verbatim>\<open>env->xtrace_op_tp\<close> and \<^verbatim>\<open>env->xtrace_xp_op_tp\<close> and the program counters
  and instruction words recorded by generated code, and the fields of the CPU state that count
  records.
\<close>

record trace_buf =
  xtrace_op_tp :: "CPUTracePoint list"
  xtrace_xp_op_tp :: "ExpandedCPUTracePoint list"
  op_pc :: "u32 list"
  op_insn :: "u32 list"

record trace_cnt =
  xtrace_op_cnt :: u32
  op_cnt :: u32
  bogus_record :: u32

text \<open>The counters are copied into variables of type \<^verbatim>\<open>int\<close> before they bound a loop, hence \<open>sint\<close>.\<close>

section \<open>Reset\<close>

definition xtrace_reset_trace_point :: "CPUTracePoint \<Rightarrow> CPUTracePoint" where
  "xtrace_reset_trace_point tp =
     tp\<lparr>tp_pc := 0, tp_opcode := 0, tp_is_branch := 0, tp_is_taken := 0, tp_is_cond := 0,
        tp_has_imm := 0, tp_is_lsm := 0, tp_memadd_cnt := 0, tp_memval_cnt := 0,
        tp_rn_regn := INVALID_REG, tp_rm_regn := INVALID_REG, tp_rs_regn := INVALID_REG,
        tp_rd_regn := INVALID_REG, tp_df_regn := INVALID_REG,
        tp_lsm_regn := replicate MAX_REG_PER_INSN INVALID_REG\<rparr>"

text \<open>The loop \<^verbatim>\<open>for (i = 0; i <= cnt; ++i)\<close>, from \<open>i\<close> with \<open>k\<close> rounds to go.\<close>

fun reset_loop :: "nat \<Rightarrow> nat \<Rightarrow> CPUTracePoint list \<Rightarrow> CPUTracePoint list result" where
  "reset_loop i 0 tps = Inr tps"
| "reset_loop i (Suc k) tps =
     check (i < length tps) OutOfBounds
       (reset_loop (Suc i) k (tps[i := xtrace_reset_trace_point (tps ! i)]))"

definition xtrace_reset_trace_points ::
  "'a trace_cnt_scheme \<Rightarrow> trace_buf \<Rightarrow> ('a trace_cnt_scheme \<times> trace_buf) result" where
  "xtrace_reset_trace_points env buf =
     res_bind (reset_loop 0 (nat (sint (xtrace_op_cnt env) + 1)) (xtrace_op_tp buf)) (\<lambda>tps.
     Inr (env\<lparr>xtrace_op_cnt := 0, bogus_record := 0\<rparr>, buf\<lparr>xtrace_op_tp := tps\<rparr>))"

section \<open>Sanity check\<close>

text \<open>The three loops with assertions of \<^verbatim>\<open>xtrm_trace_sanity_check\<close>.\<close>

fun pc_check_loop :: "nat \<Rightarrow> nat \<Rightarrow> u32 \<Rightarrow> CPUTracePoint list \<Rightarrow> unit result" where
  "pc_check_loop i 0 curr_pc tps = Inr ()"
| "pc_check_loop i (Suc k) curr_pc tps =
     check (i < length tps) OutOfBounds
       (let last_pc = curr_pc; curr_pc = tp_pc (tps ! i); diff = curr_pc - last_pc
        in check (diff < 5 \<and> last_pc \<noteq> 0 \<longrightarrow> diff = 4 \<or> diff = 2) AssertFail
             (pc_check_loop (Suc i) k curr_pc tps))"

fun reg_check_loop :: "nat \<Rightarrow> nat \<Rightarrow> CPUTracePoint list \<Rightarrow> unit result" where
  "reg_check_loop i 0 tps = Inr ()"
| "reg_check_loop i (Suc k) tps =
     check (i < length tps) OutOfBounds
       (check (IS_VALID_OR_NULL_ARCH_REG (tp_rn_regn (tps ! i))) AssertFail
       (check (IS_VALID_OR_NULL_ARCH_REG (tp_rm_regn (tps ! i))) AssertFail
       (check (IS_VALID_OR_NULL_ARCH_REG (tp_rs_regn (tps ! i))) AssertFail
       (check (IS_VALID_OR_NULL_ARCH_REG (tp_rd_regn (tps ! i))) AssertFail
       (reg_check_loop (Suc i) k tps)))))"

text \<open>\<^verbatim>\<open>lctr\<close>: the valid registers among the first \<^verbatim>\<open>MAX_REG_PER_INSN\<close> of \<^verbatim>\<open>lsm_regn\<close>.\<close>

fun lsm_count_loop :: "nat \<Rightarrow> nat \<Rightarrow> nat \<Rightarrow> u32 list \<Rightarrow> nat" where
  "lsm_count_loop k 0 lctr regs = lctr"
| "lsm_count_loop k (Suc m) lctr regs =
     lsm_count_loop (Suc k) m (if IS_VALID_ARCH_REG (regs ! k) then Suc lctr else lctr) regs"

fun lsm_check_loop :: "nat \<Rightarrow> nat \<Rightarrow> CPUTracePoint list \<Rightarrow> unit result" where
  "lsm_check_loop i 0 tps = Inr ()"
| "lsm_check_loop i (Suc k) tps =
     check (i < length tps) OutOfBounds
       (if tp_is_lsm (tps ! i) \<noteq> 0 then
          check (length (tp_lsm_regn (tps ! i)) = MAX_REG_PER_INSN) OutOfBounds
          (check (lsm_count_loop 0 MAX_REG_PER_INSN 0 (tp_lsm_regn (tps ! i)) \<le> MAX_REG_PER_INSN)
             AssertFail (lsm_check_loop (Suc i) k tps))
        else lsm_check_loop (Suc i) k tps)"

text \<open>
  The remaining two loops of the function have empty bodies. \<^verbatim>\<open>total_cnt\<close> is the function's static
  counter; its heartbeat message is commented out in the source.
\<close>

definition xtrm_trace_sanity_check :: "'a trace_cnt_scheme \<Rightarrow> trace_buf \<Rightarrow> u64 \<Rightarrow> u64 result" where
  "xtrm_trace_sanity_check env buf total_cnt =
     (let cnt = sint (xtrace_op_cnt env); tps = xtrace_op_tp buf
      in res_bind (pc_check_loop 1 (nat cnt) 0 tps) (\<lambda>_.
         res_bind (reg_check_loop 0 (nat (cnt + 1)) tps) (\<lambda>_.
         res_bind (lsm_check_loop 0 (nat (cnt + 1)) tps) (\<lambda>_.
         Inr (total_cnt + of_int cnt)))))"

section \<open>Expansion\<close>

text \<open>The fields both expansions copy.\<close>

definition expand_copy :: "CPUTracePoint \<Rightarrow> ExpandedCPUTracePoint \<Rightarrow> ExpandedCPUTracePoint" where
  "expand_copy tp x =
     x\<lparr>xp_pc := tp_pc tp, xp_opcode := tp_opcode tp, xp_has_imm := tp_has_imm tp,
       xp_src_imm := tp_src_imm tp, xp_is_branch := tp_is_branch tp,
       xp_is_cond := tp_is_cond tp, xp_is_taken := tp_is_taken tp,
       xp_target := tp_target tp,
       xp_rn_regn := tp_rn_regn tp, xp_rm_regn := tp_rm_regn tp, xp_rs_regn := tp_rs_regn tp,
       xp_rd_regn := tp_rd_regn tp, xp_df_regn := tp_df_regn tp,
       xp_rn_regv := tp_rn_regv tp, xp_rm_regv := tp_rm_regv tp, xp_rs_regv := tp_rs_regv tp,
       xp_rd_regv := tp_rd_regv tp, xp_df_regv := tp_df_regv tp\<rparr>"

text \<open>\<^verbatim>\<open>memval\<close> keeps what the slot held before.\<close>

definition xtrm_trace_expand_single_nomem ::
  "nat \<Rightarrow> 'a trace_cnt_scheme \<Rightarrow> trace_buf \<Rightarrow> ('a trace_cnt_scheme \<times> trace_buf) result" where
  "xtrm_trace_expand_single_nomem idx env buf =
     check (idx < length (xtrace_op_tp buf)) OutOfBounds
     (check (unat (op_cnt env) < length (xtrace_xp_op_tp buf)) OutOfBounds
       (let tp = xtrace_op_tp buf ! idx; slot = unat (op_cnt env);
            curr_x = (expand_copy tp (xtrace_xp_op_tp buf ! slot))
                       \<lparr>xp_memadd := INVALID_MEMADD, xp_hasmem := 0\<rparr>
        in Inr (env\<lparr>op_cnt := op_cnt env + 1\<rparr>,
                buf\<lparr>xtrace_xp_op_tp := (xtrace_xp_op_tp buf)[slot := curr_x]\<rparr>)))"

definition xtrm_trace_expand_single_mem ::
  "nat \<Rightarrow> nat \<Rightarrow> 'a trace_cnt_scheme \<Rightarrow> trace_buf \<Rightarrow> ('a trace_cnt_scheme \<times> trace_buf) result" where
  "xtrm_trace_expand_single_mem idx midx env buf =
     check (idx < length (xtrace_op_tp buf)) OutOfBounds
     (check (unat (op_cnt env) < length (xtrace_xp_op_tp buf)) OutOfBounds
       (let tp = xtrace_op_tp buf ! idx; slot = unat (op_cnt env)
        in check (midx < length (tp_memadd tp) \<and> midx < length (tp_memval tp)) OutOfBounds
            (let curr_x = (expand_copy tp (xtrace_xp_op_tp buf ! slot))
                       \<lparr>xp_memadd := tp_memadd tp ! midx, xp_memval := tp_memval tp ! midx,
                        xp_hasmem := 1\<rparr>
             in Inr (env\<lparr>op_cnt := op_cnt env + 1\<rparr>,
                     buf\<lparr>xtrace_xp_op_tp := (xtrace_xp_op_tp buf)[slot := curr_x]\<rparr>))))"

fun expand_mem_loop ::
  "nat \<Rightarrow> nat \<Rightarrow> nat \<Rightarrow> 'a trace_cnt_scheme \<Rightarrow> trace_buf \<Rightarrow> ('a trace_cnt_scheme \<times> trace_buf) result" where
  "expand_mem_loop idx k 0 env buf = Inr (env, buf)"
| "expand_mem_loop idx k (Suc m) env buf =
     res_bind (xtrm_trace_expand_single_mem idx k env buf) (\<lambda>(env', buf').
     expand_mem_loop idx (Suc k) m env' buf')"

definition expand_one ::
  "nat \<Rightarrow> 'a trace_cnt_scheme \<Rightarrow> trace_buf \<Rightarrow> ('a trace_cnt_scheme \<times> trace_buf) result" where
  "expand_one i env buf =
     check (i < length (xtrace_op_tp buf)) OutOfBounds
       (let ctr = unat (tp_memadd_cnt (xtrace_op_tp buf ! i))
        in if ctr = 0 then xtrm_trace_expand_single_nomem i env buf
           else expand_mem_loop i 0 ctr env buf)"

fun expand_loop ::
  "nat \<Rightarrow> nat \<Rightarrow> 'a trace_cnt_scheme \<Rightarrow> trace_buf \<Rightarrow> ('a trace_cnt_scheme \<times> trace_buf) result" where
  "expand_loop i 0 env buf = Inr (env, buf)"
| "expand_loop i (Suc n) env buf =
     res_bind (expand_one i env buf) (\<lambda>(env', buf'). expand_loop (Suc i) n env' buf')"

definition xtrm_trace_expand ::
  "'a trace_cnt_scheme \<Rightarrow> trace_buf \<Rightarrow> ('a trace_cnt_scheme \<times> trace_buf) result" where
  "xtrm_trace_expand env buf = expand_loop 1 (nat (sint (xtrace_op_cnt env))) env buf"

section \<open>Expansion is concatenation\<close>

text \<open>
  The reference: one record per memory operand, one record without memory operand for an
  instruction that has none. Such a record's \<^verbatim>\<open>memval\<close> is not meaningful (the code leaves the old
  one), so records are compared after \<open>norm_xp\<close>.
\<close>

definition norm_xp :: "ExpandedCPUTracePoint \<Rightarrow> ExpandedCPUTracePoint" where
  "norm_xp x = (if xp_hasmem x = 0 then x\<lparr>xp_memval := 0\<rparr> else x)"

definition blank_xp :: ExpandedCPUTracePoint where
  "blank_xp = \<lparr>xp_pc = 0, xp_opcode = 0, xp_has_imm = 0, xp_src_imm = 0, xp_is_branch = 0,
     xp_is_cond = 0, xp_is_taken = 0, xp_target = 0, xp_rn_regn = 0, xp_rm_regn = 0,
     xp_rs_regn = 0, xp_rd_regn = 0, xp_df_regn = 0, xp_rn_regv = 0, xp_rm_regv = 0,
     xp_rs_regv = 0, xp_rd_regv = 0, xp_df_regv = 0, xp_hasmem = 0, xp_memadd = 0, xp_memval = 0\<rparr>"

definition expand_mem_rec :: "CPUTracePoint \<Rightarrow> nat \<Rightarrow> ExpandedCPUTracePoint" where
  "expand_mem_rec tp k =
     (expand_copy tp blank_xp)
       \<lparr>xp_memadd := tp_memadd tp ! k, xp_memval := tp_memval tp ! k, xp_hasmem := 1\<rparr>"

definition expand_point :: "CPUTracePoint \<Rightarrow> ExpandedCPUTracePoint list" where
  "expand_point tp =
     (if tp_memadd_cnt tp = 0
      then [(expand_copy tp blank_xp)\<lparr>xp_memadd := INVALID_MEMADD, xp_hasmem := 0\<rparr>]
      else map (expand_mem_rec tp) [0..<unat (tp_memadd_cnt tp)])"

definition point_ok :: "CPUTracePoint \<Rightarrow> bool" where
  "point_ok tp \<longleftrightarrow>
     unat (tp_memadd_cnt tp) \<le> length (tp_memadd tp) \<and>
     unat (tp_memadd_cnt tp) \<le> length (tp_memval tp)"

text \<open>\<open>emits env buf rs env' buf'\<close>: the records \<open>rs\<close> were appended at position \<^verbatim>\<open>op_cnt\<close>.\<close>

definition emits ::
  "'a trace_cnt_scheme \<Rightarrow> trace_buf \<Rightarrow> ExpandedCPUTracePoint list
   \<Rightarrow> 'a trace_cnt_scheme \<Rightarrow> trace_buf \<Rightarrow> bool" where
  "emits env buf rs env' buf' \<longleftrightarrow>
     (\<exists>ys. map norm_xp ys = rs \<and>
        env' = env\<lparr>op_cnt := op_cnt env + of_nat (length rs)\<rparr> \<and>
        buf' = buf\<lparr>xtrace_xp_op_tp :=
          take (unat (op_cnt env)) (xtrace_xp_op_tp buf) @ ys @
          drop (unat (op_cnt env) + length rs) (xtrace_xp_op_tp buf)\<rparr>)"

definition room :: "'a trace_cnt_scheme \<Rightarrow> trace_buf \<Rightarrow> nat \<Rightarrow> bool" where
  "room env buf n \<longleftrightarrow>
     unat (op_cnt env) + n \<le> length (xtrace_xp_op_tp buf) \<and> length (xtrace_xp_op_tp buf) < 2 ^ 32"

lemma room_mono: "room env buf n \<Longrightarrow> m \<le> n \<Longrightarrow> room env buf m"
  by (simp add: room_def)

lemma unat_op_cnt_add:
  "room env buf n \<Longrightarrow> unat (op_cnt env + of_nat n) = unat (op_cnt env) + n"
  by (simp add: room_def unat_word_ariths unat_of_nat)

lemma emits_Nil [simp]: "emits env buf [] env buf"
  by (simp add: emits_def)

lemma emits_tps: "emits env buf rs env' buf' \<Longrightarrow> xtrace_op_tp buf' = xtrace_op_tp buf"
  by (auto simp: emits_def)

lemma emits_cnt: "emits env buf rs env' buf' \<Longrightarrow> xtrace_op_cnt env' = xtrace_op_cnt env"
  by (auto simp: emits_def)

lemma emits_room:
  assumes "emits env buf rs env' buf'" and "room env buf (length rs + n)"
  shows "room env' buf' n"
proof -
  have "room env buf (length rs)" using assms(2) by (rule room_mono) simp
  from unat_op_cnt_add [OF this] assms show ?thesis
    by (auto simp: emits_def room_def)
qed

lemma emits_append:
  assumes "emits env buf rs env' buf'" and "emits env' buf' rs' env'' buf''"
    and "room env buf (length rs + length rs')"
  shows "emits env buf (rs @ rs') env'' buf''"
proof -
  let ?o = "unat (op_cnt env)" and ?xs = "xtrace_xp_op_tp buf"
  obtain ys where ys: "map norm_xp ys = rs" "env' = env\<lparr>op_cnt := op_cnt env + of_nat (length rs)\<rparr>"
    "buf' = buf\<lparr>xtrace_xp_op_tp := take ?o ?xs @ ys @ drop (?o + length rs) ?xs\<rparr>"
    using assms(1) by (auto simp: emits_def)
  have "room env buf (length rs)" using assms(3) by (rule room_mono) simp
  then have o': "unat (op_cnt env') = ?o + length rs"
    unfolding ys(2) by (simp add: unat_op_cnt_add)
  have len: "length ys = length rs" "?o \<le> length ?xs"
    using ys(1) assms(3) by (auto simp: room_def)
  obtain zs where zs: "map norm_xp zs = rs'" "env'' = env'\<lparr>op_cnt := op_cnt env' + of_nat (length rs')\<rparr>"
    "buf'' = buf'\<lparr>xtrace_xp_op_tp := take (?o + length rs) (xtrace_xp_op_tp buf') @ zs @
        drop (?o + length rs + length rs') (xtrace_xp_op_tp buf')\<rparr>"
    using assms(2) o' by (auto simp: emits_def)
  have "take (?o + length rs) (xtrace_xp_op_tp buf') = take ?o ?xs @ ys"
    using ys(3) len by simp
  moreover have "drop (?o + length rs + length rs') (xtrace_xp_op_tp buf') =
      drop (?o + length rs + length rs') ?xs"
    using ys(3) len by (simp add: add.commute add.left_commute)
  ultimately show ?thesis
    unfolding emits_def using ys zs
    by (intro exI [of _ "ys @ zs"]) (simp add: add.assoc)
qed

lemma emits_single:
  assumes "room env buf 1"
  shows "emits env buf [norm_xp x] (env\<lparr>op_cnt := op_cnt env + 1\<rparr>)
           (buf\<lparr>xtrace_xp_op_tp := (xtrace_xp_op_tp buf)[unat (op_cnt env) := x]\<rparr>)"
proof -
  have "unat (op_cnt env) < length (xtrace_xp_op_tp buf)"
    using assms by (simp add: room_def)
  then show ?thesis
    unfolding emits_def by (intro exI [of _ "[x]"]) (simp add: upd_conv_take_nth_drop)
qed

lemma norm_xp_simps:
  "norm_xp ((expand_copy tp x)\<lparr>xp_memadd := INVALID_MEMADD, xp_hasmem := 0\<rparr>) =
     (expand_copy tp blank_xp)\<lparr>xp_memadd := INVALID_MEMADD, xp_hasmem := 0\<rparr>"
  "norm_xp ((expand_copy tp x)\<lparr>xp_memadd := tp_memadd tp ! k, xp_memval := tp_memval tp ! k,
      xp_hasmem := 1\<rparr>) = expand_mem_rec tp k"
  by (cases x, simp add: norm_xp_def expand_copy_def blank_xp_def expand_mem_rec_def)+

lemma expand_single_nomem_emits:
  assumes "room env buf 1" and "i < length (xtrace_op_tp buf)"
    and "tp_memadd_cnt (xtrace_op_tp buf ! i) = 0"
  obtains env' buf' where "xtrm_trace_expand_single_nomem i env buf = Inr (env', buf')"
    and "emits env buf (expand_point (xtrace_op_tp buf ! i)) env' buf'"
proof -
  let ?tp = "xtrace_op_tp buf ! i"
  let ?x = "(expand_copy ?tp (xtrace_xp_op_tp buf ! unat (op_cnt env)))
              \<lparr>xp_memadd := INVALID_MEMADD, xp_hasmem := 0\<rparr>"
  have "xtrm_trace_expand_single_nomem i env buf =
      Inr (env\<lparr>op_cnt := op_cnt env + 1\<rparr>,
           buf\<lparr>xtrace_xp_op_tp := (xtrace_xp_op_tp buf)[unat (op_cnt env) := ?x]\<rparr>)"
    using assms by (simp add: xtrm_trace_expand_single_nomem_def room_def Let_def)
  moreover have "expand_point ?tp = [norm_xp ?x]"
    using assms(3) by (simp add: expand_point_def norm_xp_simps)
  ultimately show ?thesis using that emits_single [OF assms(1), of ?x] by simp
qed

lemma expand_single_mem_emits:
  assumes "room env buf 1" and "i < length (xtrace_op_tp buf)"
    and "k < length (tp_memadd (xtrace_op_tp buf ! i))"
    and "k < length (tp_memval (xtrace_op_tp buf ! i))"
  obtains env' buf' where "xtrm_trace_expand_single_mem i k env buf = Inr (env', buf')"
    and "emits env buf [expand_mem_rec (xtrace_op_tp buf ! i) k] env' buf'"
proof -
  let ?tp = "xtrace_op_tp buf ! i"
  let ?x = "(expand_copy ?tp (xtrace_xp_op_tp buf ! unat (op_cnt env)))
       \<lparr>xp_memadd := tp_memadd ?tp ! k, xp_memval := tp_memval ?tp ! k, xp_hasmem := 1\<rparr>"
  have "xtrm_trace_expand_single_mem i k env buf =
      Inr (env\<lparr>op_cnt := op_cnt env + 1\<rparr>,
           buf\<lparr>xtrace_xp_op_tp := (xtrace_xp_op_tp buf)[unat (op_cnt env) := ?x]\<rparr>)"
    using assms by (simp add: xtrm_trace_expand_single_mem_def room_def Let_def)
  moreover have "norm_xp ?x = expand_mem_rec ?tp k" by (rule norm_xp_simps)
  ultimately show ?thesis using that emits_single [OF assms(1), of ?x] by simp
qed

lemma expand_mem_loop_emits:
  assumes "room env buf m" and "i < length (xtrace_op_tp buf)"
    and "xtrace_op_tp buf ! i = tp"
    and "k + m \<le> length (tp_memadd tp)" and "k + m \<le> length (tp_memval tp)"
  shows "\<exists>env' buf'. expand_mem_loop i k m env buf = Inr (env', buf') \<and>
     emits env buf (map (expand_mem_rec tp) [k..<k + m]) env' buf'"
  using assms
proof (induction m arbitrary: k env buf)
  case 0
  then show ?case by simp
next
  case (Suc m)
  let ?rest = "map (expand_mem_rec tp) [Suc k..<Suc k + m]"
  have "room env buf 1" using Suc.prems(1) by (rule room_mono) simp
  then obtain e b where one: "xtrm_trace_expand_single_mem i k env buf = Inr (e, b)"
    "emits env buf [expand_mem_rec tp k] e b"
    using expand_single_mem_emits [of env buf i k] Suc.prems(2-5) by auto
  have tps: "xtrace_op_tp b = xtrace_op_tp buf" using one(2) by (rule emits_tps)
  have rm: "room env buf (length [expand_mem_rec tp k] + length ?rest)"
    using Suc.prems(1) by (simp del: upt_Suc)
  have "room e b m" using emits_room [OF one(2) rm] by (simp del: upt_Suc)
  with Suc.prems(2-5) obtain env' buf' where r: "expand_mem_loop i (Suc k) m e b = Inr (env', buf')"
    "emits e b ?rest env' buf'"
    using Suc.IH [of e b "Suc k"] by (auto simp: tps simp del: upt_Suc)
  have "emits env buf ([expand_mem_rec tp k] @ ?rest) env' buf'"
    using one(2) r(2) rm by (rule emits_append)
  moreover have "[k..<k + Suc m] = k # [Suc k..<Suc k + m]"
    by (simp add: upt_conv_Cons del: upt_Suc)
  ultimately show ?case using one(1) r(1) by (simp del: upt_Suc)
qed

lemma expand_one_emits:
  assumes "i < length (xtrace_op_tp buf)" and "point_ok (xtrace_op_tp buf ! i)"
    and "room env buf (length (expand_point (xtrace_op_tp buf ! i)))"
  obtains env' buf' where "expand_one i env buf = Inr (env', buf')"
    and "emits env buf (expand_point (xtrace_op_tp buf ! i)) env' buf'"
proof (cases "tp_memadd_cnt (xtrace_op_tp buf ! i) = 0")
  case True
  with assms have "room env buf 1" by (simp add: expand_point_def)
  from expand_single_nomem_emits [OF this assms(1) True] show ?thesis
    using that assms(1) True by (auto simp: expand_one_def)
next
  case False
  then have "unat (tp_memadd_cnt (xtrace_op_tp buf ! i)) \<noteq> 0" by (simp add: unat_eq_0)
  with expand_mem_loop_emits [of env buf "unat (tp_memadd_cnt (xtrace_op_tp buf ! i))" i, OF _ assms(1) refl, of 0]
    assms(2,3) False
  obtain env' buf' where
    "expand_mem_loop i 0 (unat (tp_memadd_cnt (xtrace_op_tp buf ! i))) env buf = Inr (env', buf')"
    "emits env buf (expand_point (xtrace_op_tp buf ! i)) env' buf'"
    by (auto simp: point_ok_def expand_point_def)
  with assms(1) False show ?thesis
    by (intro that [of env' buf']) (simp_all add: expand_one_def unat_eq_0)
qed

lemma expand_loop_emits:
  assumes "i + n \<le> length (xtrace_op_tp buf)"
    and "\<forall>j. i \<le> j \<and> j < i + n \<longrightarrow> point_ok (xtrace_op_tp buf ! j)"
    and "room env buf (length (concat (map (\<lambda>j. expand_point (xtrace_op_tp buf ! j)) [i..<i + n])))"
  shows "\<exists>env' buf'. expand_loop i n env buf = Inr (env', buf') \<and>
     emits env buf (concat (map (\<lambda>j. expand_point (xtrace_op_tp buf ! j)) [i..<i + n])) env' buf'"
  using assms
proof (induction n arbitrary: i env buf)
  case 0
  then show ?case by simp
next
  case (Suc n)
  let ?P = "\<lambda>j. expand_point (xtrace_op_tp buf ! j)"
  let ?rest = "concat (map ?P [Suc i..<Suc i + n])"
  have upt: "[i..<i + Suc n] = i # [Suc i..<Suc i + n]"
    by (simp add: upt_conv_Cons del: upt_Suc)
  have rm: "room env buf (length (?P i) + length ?rest)"
    using Suc.prems(3) unfolding upt by simp
  have "room env buf (length (?P i))" using rm by (rule room_mono) simp
  then obtain e b where one: "expand_one i env buf = Inr (e, b)" "emits env buf (?P i) e b"
    using expand_one_emits [of i buf env] Suc.prems(1,2) by auto
  have tps: "xtrace_op_tp b = xtrace_op_tp buf" using one(2) by (rule emits_tps)
  have "room e b (length ?rest)" using one(2) rm by (rule emits_room)
  with Suc.IH [of "Suc i" b e] Suc.prems(1,2) obtain env' buf' where
    r: "expand_loop (Suc i) n e b = Inr (env', buf')" "emits e b ?rest env' buf'"
    by (auto simp: tps simp del: upt_Suc)
  have "emits env buf (?P i @ ?rest) env' buf'"
    using one(2) r(2) rm by (rule emits_append)
  then show ?case using one(1) r(1) unfolding upt by simp
qed

text \<open>The records of a whole trace; record 0 of the buffer is a placeholder and is not expanded.\<close>

definition trace_records :: "'a trace_cnt_scheme \<Rightarrow> trace_buf \<Rightarrow> ExpandedCPUTracePoint list" where
  "trace_records env buf =
     concat (map (\<lambda>j. expand_point (xtrace_op_tp buf ! j)) [1..<1 + nat (sint (xtrace_op_cnt env))])"

section \<open>The sanity check as a predicate\<close>

definition pc_step_ok :: "u32 \<Rightarrow> u32 \<Rightarrow> bool" where
  "pc_step_ok last_pc curr_pc \<longleftrightarrow>
     (curr_pc - last_pc < 5 \<and> last_pc \<noteq> 0 \<longrightarrow> curr_pc - last_pc = 4 \<or> curr_pc - last_pc = 2)"

definition regs_ok :: "CPUTracePoint \<Rightarrow> bool" where
  "regs_ok tp \<longleftrightarrow>
     tp_rn_regn tp \<le> 16 \<and> tp_rm_regn tp \<le> 16 \<and> tp_rs_regn tp \<le> 16 \<and> tp_rd_regn tp \<le> 16"

lemma pc_step_ok_0: "pc_step_ok 0 x"
  by (simp add: pc_step_ok_def)

lemma IS_VALID_OR_NULL_iff: "IS_VALID_OR_NULL_ARCH_REG x \<longleftrightarrow> x \<le> 16"
  by (auto simp: IS_VALID_OR_NULL_ARCH_REG_def IS_VALID_ARCH_REG_def INVALID_REG_def)

lemma pc_check_loop_cases:
  assumes "i + k \<le> length tps"
  shows "pc_check_loop i k lpc tps =
    (if \<forall>j < k. pc_step_ok (if j = 0 then lpc else tp_pc (tps ! (i + j - 1))) (tp_pc (tps ! (i + j)))
     then Inr () else Inl AssertFail)"
  using assms
proof (induction k arbitrary: i lpc)
  case 0
  then show ?case by simp
next
  case (Suc k)
  let ?ok = "\<lambda>i lpc j. pc_step_ok (if j = 0 then lpc else tp_pc (tps ! (i + j - 1))) (tp_pc (tps ! (i + j)))"
  have shift: "?ok i lpc (Suc j) = ?ok (Suc i) (tp_pc (tps ! i)) j" for j
    by (cases j) auto
  have all: "(\<forall>j < Suc k. ?ok i lpc j) \<longleftrightarrow>
      pc_step_ok lpc (tp_pc (tps ! i)) \<and> (\<forall>j < k. ?ok (Suc i) (tp_pc (tps ! i)) j)"
    unfolding All_less_Suc2 shift by simp
  have step: "pc_check_loop i (Suc k) lpc tps =
      check (pc_step_ok lpc (tp_pc (tps ! i))) AssertFail
        (pc_check_loop (Suc i) k (tp_pc (tps ! i)) tps)"
    using Suc.prems by (simp add: Let_def pc_step_ok_def)
  have IH: "pc_check_loop (Suc i) k (tp_pc (tps ! i)) tps =
      (if \<forall>j < k. ?ok (Suc i) (tp_pc (tps ! i)) j then Inr () else Inl AssertFail)"
    by (rule Suc.IH) (use Suc.prems in simp)
  show ?case unfolding step IH all by (simp add: check_def)
qed

lemma reg_check_loop_cases:
  assumes "i + k \<le> length tps"
  shows "reg_check_loop i k tps =
    (if \<forall>j < k. regs_ok (tps ! (i + j)) then Inr () else Inl AssertFail)"
  using assms
proof (induction k arbitrary: i)
  case 0
  then show ?case by simp
next
  case (Suc k)
  have all: "(\<forall>j < Suc k. regs_ok (tps ! (i + j))) \<longleftrightarrow>
      regs_ok (tps ! i) \<and> (\<forall>j < k. regs_ok (tps ! (Suc i + j)))"
    unfolding All_less_Suc2 by simp
  have step: "reg_check_loop i (Suc k) tps =
      check (regs_ok (tps ! i)) AssertFail (reg_check_loop (Suc i) k tps)"
    using Suc.prems by (auto simp: regs_ok_def IS_VALID_OR_NULL_iff check_def)
  show ?case unfolding step all using Suc.IH [of "Suc i"] Suc.prems by (auto simp: check_def)
qed

text \<open>The assertion on the number of load/store-multiple registers cannot fail.\<close>

lemma lsm_count_loop_le: "lsm_count_loop k m lctr regs \<le> lctr + m"
proof (induction k m lctr regs rule: lsm_count_loop.induct)
  case (2 k m lctr regs)
  then show ?case by (simp split: if_splits)
qed simp

lemma lsm_check_loop_ok:
  assumes "i + k \<le> length tps"
    and "\<forall>tp \<in> set tps. length (tp_lsm_regn tp) = MAX_REG_PER_INSN"
  shows "lsm_check_loop i k tps = Inr ()"
  using assms
proof (induction k arbitrary: i)
  case (Suc k)
  have "lsm_count_loop 0 MAX_REG_PER_INSN 0 (tp_lsm_regn (tps ! i)) \<le> MAX_REG_PER_INSN"
    using lsm_count_loop_le [of 0 MAX_REG_PER_INSN 0] by simp
  with Suc show ?case by simp
qed simp

text \<open>Reset records are clean, whatever they held.\<close>

lemma reset_loop_eq:
  assumes "i + k \<le> length tps"
  shows "reset_loop i k tps =
    Inr (take i tps @ map xtrace_reset_trace_point (take k (drop i tps)) @ drop (i + k) tps)"
  using assms
proof (induction k arbitrary: i tps)
  case 0
  then show ?case by simp
next
  case (Suc k)
  then have "i < length tps" by simp
  with Suc show ?case
    by (simp add: take_Suc_conv_app_nth take_update_cancel drop_update_cancel
        flip: Cons_nth_drop_Suc)
qed

section \<open>Properties\<close>

text \<open>
  C21. Expanding a trace whose records and result fit the buffers returns, advances \<^verbatim>\<open>op_cnt\<close> by the
  number of records produced, writes at the old \<^verbatim>\<open>op_cnt\<close> exactly the concatenation of the
  per-instruction expansions (one record per memory operand, one without memory for an instruction
  that has none), in program order, and changes no other slot and no trace point.
\<close>

theorem trace_expand_concat:
  assumes "nat (sint (xtrace_op_cnt env)) < length (xtrace_op_tp buf)"
    and "\<forall>tp \<in> set (xtrace_op_tp buf). point_ok tp"
    and "room env buf (length (trace_records env buf))"
  shows "\<exists>env' buf' ys.
     xtrm_trace_expand env buf = Inr (env', buf') \<and>
     env' = env\<lparr>op_cnt := op_cnt env + of_nat (length (trace_records env buf))\<rparr> \<and>
     map norm_xp ys = trace_records env buf \<and>
     xtrace_xp_op_tp buf' =
       take (unat (op_cnt env)) (xtrace_xp_op_tp buf) @ ys @
       drop (unat (op_cnt env) + length (trace_records env buf)) (xtrace_xp_op_tp buf) \<and>
     xtrace_op_tp buf' = xtrace_op_tp buf"
proof -
  have "\<exists>env' buf'. expand_loop 1 (nat (sint (xtrace_op_cnt env))) env buf = Inr (env', buf') \<and>
      emits env buf (trace_records env buf) env' buf'"
    unfolding trace_records_def
    by (rule expand_loop_emits) (use assms in \<open>auto simp: trace_records_def\<close>)
  then show ?thesis
    unfolding xtrm_trace_expand_def emits_def by fastforce
qed

text \<open>
  C22. The sanity check of a trace inside its buffer returns exactly when every program counter
  follows its predecessor by 2 or 4, or by 5 or more (modulo \<open>2^32\<close>), or follows a zero one, and every
  register number is at most 16 (16 stands for no register); otherwise an assertion fails. The
  assertion on the number of load/store-multiple registers never fails. This is less than the comments
  of the function ask for: the difference of two consecutive program counters \<^verbatim>\<open>has to be 2 or 4\<close>, where
  the code accepts every step of 5 or more, and the number of load/store-multiple registers \<^verbatim>\<open>must be the
  same as the number of memory operands\<close>, where the code never compares the two.
\<close>

theorem trace_sanity_check_iff:
  assumes "0 \<le> sint (xtrace_op_cnt env)"
    and "nat (sint (xtrace_op_cnt env)) < length (xtrace_op_tp buf)"
    and "\<forall>tp \<in> set (xtrace_op_tp buf). length (tp_lsm_regn tp) = MAX_REG_PER_INSN"
  shows "xtrm_trace_sanity_check env buf total_cnt =
    (if (\<forall>i. 1 \<le> i \<and> i < nat (sint (xtrace_op_cnt env)) \<longrightarrow>
            pc_step_ok (tp_pc (xtrace_op_tp buf ! i)) (tp_pc (xtrace_op_tp buf ! Suc i))) \<and>
        (\<forall>i \<le> nat (sint (xtrace_op_cnt env)). regs_ok (xtrace_op_tp buf ! i))
     then Inr (total_cnt + of_int (sint (xtrace_op_cnt env)))
     else Inl AssertFail)"
proof -
  define n where "n = nat (sint (xtrace_op_cnt env))"
  define tps where "tps = xtrace_op_tp buf"
  have n: "nat (sint (xtrace_op_cnt env) + 1) = Suc n" and len: "n < length tps"
    using assms(1,2) by (simp_all add: n_def tps_def nat_add_distrib)
  have "(\<forall>j < n. pc_step_ok (if j = 0 then 0 else tp_pc (tps ! (1 + j - 1))) (tp_pc (tps ! (1 + j)))) \<longleftrightarrow>
      (\<forall>i. 1 \<le> i \<and> i < n \<longrightarrow> pc_step_ok (tp_pc (tps ! i)) (tp_pc (tps ! Suc i)))"
    by (auto simp: pc_step_ok_0 Suc_le_eq)
  then have pcs: "pc_check_loop 1 n 0 tps =
      (if \<forall>i. 1 \<le> i \<and> i < n \<longrightarrow> pc_step_ok (tp_pc (tps ! i)) (tp_pc (tps ! Suc i))
       then Inr () else Inl AssertFail)"
    using pc_check_loop_cases [of 1 n tps 0] len by simp
  have regs: "reg_check_loop 0 (Suc n) tps =
      (if \<forall>i \<le> n. regs_ok (tps ! i) then Inr () else Inl AssertFail)"
    using reg_check_loop_cases [of 0 "Suc n" tps] len by (simp add: less_Suc_eq_le)
  have lsm: "lsm_check_loop 0 (Suc n) tps = Inr ()"
    by (rule lsm_check_loop_ok) (use len assms(3) in \<open>simp_all add: tps_def\<close>)
  show ?thesis
    unfolding xtrm_trace_sanity_check_def Let_def n n_def [symmetric] tps_def [symmetric] pcs regs lsm
    by simp
qed

text \<open>
  A trace of two instructions for the witnesses: one without memory operands and one with two, after
  the placeholder record.
\<close>

definition ex_tp :: "u32 \<Rightarrow> u32 \<Rightarrow> CPUTracePoint" where
  "ex_tp pc n = \<lparr>tp_pc = pc, tp_opcode = 0, tp_has_imm = 0, tp_src_imm = 0, tp_is_branch = 0,
     tp_is_cond = 0, tp_is_taken = 0, tp_target = 0,
     tp_rn_regn = 1, tp_rm_regn = 2, tp_rs_regn = 16, tp_rd_regn = 3, tp_df_regn = 16,
     tp_rn_regv = 0, tp_rm_regv = 0, tp_rs_regv = 0, tp_rd_regv = 0, tp_df_regv = 0,
     tp_memadd_cnt = n, tp_memval_cnt = n, tp_memadd = [4096, 4100], tp_memval = [7, 8],
     tp_is_lsm = 0, tp_lsm_regn = replicate 16 16, tp_lsm_regv = [], tp_lsm_memadd = [],
     tp_lsm_memval = []\<rparr>"

definition ex_cnt :: trace_cnt where
  "ex_cnt = \<lparr>xtrace_op_cnt = 2, op_cnt = 1, bogus_record = 0\<rparr>"

definition ex_buf :: trace_buf where
  "ex_buf = \<lparr>xtrace_op_tp = [ex_tp 0 0, ex_tp 32768 0, ex_tp 32772 2],
     xtrace_xp_op_tp = replicate 5 blank_xp, op_pc = [], op_insn = []\<rparr>"

theorem trace_expand_concat_witness:
  "\<exists>env' buf' ys.
     xtrm_trace_expand ex_cnt ex_buf = Inr (env', buf') \<and> op_cnt env' = 4 \<and>
     map norm_xp ys = trace_records ex_cnt ex_buf \<and>
     map xp_memadd (map norm_xp ys) = [INVALID_MEMADD, 4096, 4100] \<and>
     xtrace_xp_op_tp buf' = [blank_xp] @ ys @ [blank_xp]"
proof -
  have rs: "trace_records ex_cnt ex_buf = expand_point (ex_tp 32768 0) @ expand_point (ex_tp 32772 2)"
    by (simp add: trace_records_def ex_cnt_def ex_buf_def upt_rec)
  have len: "length (trace_records ex_cnt ex_buf) = 3"
    unfolding rs by (simp add: expand_point_def ex_tp_def)
  have ma: "map xp_memadd (trace_records ex_cnt ex_buf) = [INVALID_MEMADD, 4096, 4100]"
    unfolding rs by (simp add: expand_point_def ex_tp_def expand_mem_rec_def upt_rec)
  have oks: "\<forall>tp \<in> set (xtrace_op_tp ex_buf). point_ok tp"
    by (simp add: ex_buf_def ex_tp_def point_ok_def)
  have rm: "room ex_cnt ex_buf (length (trace_records ex_cnt ex_buf))"
    unfolding len by (simp add: room_def ex_cnt_def ex_buf_def)
  have bd: "nat (sint (xtrace_op_cnt ex_cnt)) < length (xtrace_op_tp ex_buf)"
    by (simp add: ex_cnt_def ex_buf_def)
  have xs: "xtrace_xp_op_tp ex_buf = replicate 5 blank_xp" and oc: "op_cnt ex_cnt = 1"
    by (simp_all add: ex_buf_def ex_cnt_def)
  show ?thesis
    using trace_expand_concat [OF bd oks rm] ma unfolding len xs oc
    by (fastforce simp: numeral_eq_Suc)
qed

text \<open>Two instructions \<open>d\<close> bytes apart: steps of 4 and of 7 are accepted, a step of 3 is not.\<close>

definition ex_steps :: "u32 \<Rightarrow> trace_buf" where
  "ex_steps d = ex_buf\<lparr>xtrace_op_tp := [ex_tp 0 0, ex_tp 32768 0, ex_tp (32768 + d) 2]\<rparr>"

theorem trace_sanity_check_iff_witness:
  "xtrm_trace_sanity_check ex_cnt (ex_steps 4) 0 = Inr 2 \<and>
   xtrm_trace_sanity_check ex_cnt (ex_steps 7) 0 = Inr 2 \<and>
   xtrm_trace_sanity_check ex_cnt (ex_steps 3) 0 = Inl AssertFail"
proof -
  have "xtrm_trace_sanity_check ex_cnt (ex_steps d) 0 = (if pc_step_ok 32768 (32768 + d) then Inr 2 else Inl AssertFail)" for d
  proof -
    have "\<forall>tp \<in> set (xtrace_op_tp (ex_steps d)). length (tp_lsm_regn tp) = MAX_REG_PER_INSN"
      by (simp add: ex_steps_def ex_tp_def MAX_REG_PER_INSN_def)
    moreover have "regs_ok (xtrace_op_tp (ex_steps d) ! i)" if "i \<le> 2" for i
    proof -
      have "regs_ok (ex_tp pc n)" for pc n by (simp add: ex_tp_def regs_ok_def)
      moreover have "i = 0 \<or> i = 1 \<or> i = 2" using that by auto
      ultimately show ?thesis by (auto simp: ex_steps_def)
    qed
    moreover have "(\<forall>i. 1 \<le> i \<and> i < (2::nat) \<longrightarrow> P i) \<longleftrightarrow> P 1" for P
      by (auto simp: less_2_cases_iff)
    moreover have "tp_pc (xtrace_op_tp (ex_steps d) ! 1) = 32768" "tp_pc (xtrace_op_tp (ex_steps d) ! Suc 1) = 32768 + d"
      by (simp_all add: ex_steps_def ex_tp_def)
    moreover have "sint (xtrace_op_cnt ex_cnt) = 2" "length (xtrace_op_tp (ex_steps d)) = 3"
      by (simp_all add: ex_cnt_def ex_steps_def)
    ultimately show ?thesis
      using trace_sanity_check_iff [of ex_cnt "ex_steps d" 0] by simp
  qed
  then show ?thesis by (simp add: pc_step_ok_def)
qed

end
