(* ===== verification/TcgOpt.thy ===== *)
theory TcgOpt
  imports Prelude
begin

text \<open>
  The optimiser of the code generator (\<^verbatim>\<open>src/emul/qemu/tcg/optimize.c\<close>): constant folding, constant
  and copy propagation over one translation block. The state of the analysis is the array \<^verbatim>\<open>temps\<close>;
  the temporaries known to be equal form a ring through \<^verbatim>\<open>next_copy\<close>/\<^verbatim>\<open>prev_copy\<close> whose
  representative is in state \<^verbatim>\<open>TCG_TEMP_HAS_COPY\<close>. This theory holds the definitions and the
  correctness of folding itself; \<^verbatim>\<open>TcgOptSound\<close> proves the analysis sound.
\<close>

section \<open>Opcodes\<close>

text \<open>
  \<^verbatim>\<open>INDEX_op_<x>_i32\<close> and \<^verbatim>\<open>INDEX_op_<x>_i64\<close> are \<open>BinOp\<close>/\<open>UnOp\<close>/\<open>Mov\<close>/\<open>Movi\<close>/\<open>Brcond\<close> at a width. An opcode
  the optimiser does not know is \<open>OtherOp\<close> with its entry of \<^verbatim>\<open>tcg-opc.h\<close>: name, numbers of output,
  input and constant arguments, and whether \<^verbatim>\<open>TCG_OPF_CALL_CLOBBER\<close> or \<^verbatim>\<open>TCG_OPF_SIDE_EFFECTS\<close> is set.
\<close>

datatype opwidth = I32 | I64

datatype binop =
    OpAdd | OpSub | OpMul | OpAnd | OpOr | OpXor | OpShl | OpShr | OpSar | OpRotl | OpRotr
  | OpAndc | OpOrc | OpEqv | OpNand | OpNor

datatype unop = OpNot | OpNeg | OpExt8s | OpExt8u | OpExt16s | OpExt16u

datatype TCGOpcode =
    Nop
  | Mov opwidth
  | Movi opwidth
  | UnOp unop opwidth
  | Ext32s
  | Ext32u
  | BinOp binop opwidth
  | Call
  | SetLabel
  | Jmp
  | Br
  | Brcond opwidth
  | OtherOp string nat nat nat bool

fun nb_oargs :: "TCGOpcode \<Rightarrow> nat" where
  "nb_oargs (Mov w) = 1"
| "nb_oargs (Movi w) = 1"
| "nb_oargs (UnOp u w) = 1"
| "nb_oargs Ext32s = 1"
| "nb_oargs Ext32u = 1"
| "nb_oargs (BinOp b w) = 1"
| "nb_oargs (OtherOp nm no ni nc se) = no"
| "nb_oargs _ = 0"

fun nb_iargs :: "TCGOpcode \<Rightarrow> nat" where
  "nb_iargs (Mov w) = 1"
| "nb_iargs (UnOp u w) = 1"
| "nb_iargs Ext32s = 1"
| "nb_iargs Ext32u = 1"
| "nb_iargs (BinOp b w) = 2"
| "nb_iargs Call = 1"
| "nb_iargs Jmp = 1"
| "nb_iargs (Brcond w) = 2"
| "nb_iargs (OtherOp nm no ni nc se) = ni"
| "nb_iargs _ = 0"

fun nb_cargs :: "TCGOpcode \<Rightarrow> nat" where
  "nb_cargs (Movi w) = 1"
| "nb_cargs Call = 2"
| "nb_cargs SetLabel = 1"
| "nb_cargs Br = 1"
| "nb_cargs (Brcond w) = 2"
| "nb_cargs (OtherOp nm no ni nc se) = nc"
| "nb_cargs _ = 0"

fun side_effects :: "TCGOpcode \<Rightarrow> bool" where
  "side_effects Call \<longleftrightarrow> True"
| "side_effects Jmp \<longleftrightarrow> True"
| "side_effects Br \<longleftrightarrow> True"
| "side_effects (Brcond w) \<longleftrightarrow> True"
| "side_effects (OtherOp nm no ni nc se) \<longleftrightarrow> se"
| "side_effects _ \<longleftrightarrow> False"

definition nb_args :: "TCGOpcode \<Rightarrow> nat" where
  "nb_args op = nb_oargs op + nb_iargs op + nb_cargs op"

section \<open>State of the analysis\<close>

datatype tcg_temp_state =
    TCG_TEMP_UNDEF | TCG_TEMP_CONST | TCG_TEMP_COPY | TCG_TEMP_HAS_COPY | TCG_TEMP_ANY

record tcg_temp_info =
  ti_state :: tcg_temp_state
  prev_copy :: nat
  next_copy :: nat
  ti_val :: u64

type_synonym temps = "nat \<Rightarrow> tcg_temp_info"

text \<open>The fields of \<^verbatim>\<open>TCGContext\<close> the optimiser reads; \<open>temp_type\<close> is \<^verbatim>\<open>temps[i].type\<close>.\<close>

record TCGContext =
  nb_temps :: nat
  nb_globals :: nat
  temp_local :: "nat \<Rightarrow> bool"
  temp_type :: "nat \<Rightarrow> opwidth"

text \<open>The ring fields are \<^verbatim>\<open>uint16_t\<close>.\<close>

definition u16_of :: "nat \<Rightarrow> nat" where
  "u16_of n = n mod 65536"

abbreviation set_state :: "nat \<Rightarrow> tcg_temp_state \<Rightarrow> temps \<Rightarrow> temps" where
  "set_state t st T \<equiv> T(t := (T t)\<lparr>ti_state := st\<rparr>)"

abbreviation set_next :: "nat \<Rightarrow> nat \<Rightarrow> temps \<Rightarrow> temps" where
  "set_next t n T \<equiv> T(t := (T t)\<lparr>next_copy := n\<rparr>)"

abbreviation set_prev :: "nat \<Rightarrow> nat \<Rightarrow> temps \<Rightarrow> temps" where
  "set_prev t n T \<equiv> T(t := (T t)\<lparr>prev_copy := n\<rparr>)"

abbreviation set_val :: "nat \<Rightarrow> u64 \<Rightarrow> temps \<Rightarrow> temps" where
  "set_val t v T \<equiv> T(t := (T t)\<lparr>ti_val := v\<rparr>)"

definition clear_temps :: "nat \<Rightarrow> temps \<Rightarrow> temps" where
  "clear_temps n T = (\<lambda>t. if t < n then \<lparr>ti_state = TCG_TEMP_UNDEF, prev_copy = 0, next_copy = 0,
                                         ti_val = 0\<rparr> else T t)"

section \<open>Resetting a temporary\<close>

text \<open>
  The two ring walks of \<^verbatim>\<open>reset_temp\<close>; the first argument bounds the number of rounds. A ring has at
  most \<^verbatim>\<open>nb_temps\<close> elements, so \<open>Suc nb_temps\<close> rounds are enough.
\<close>

fun find_base :: "nat \<Rightarrow> nat \<Rightarrow> nat \<Rightarrow> nat \<Rightarrow> temps \<Rightarrow> (nat option \<times> temps) result" where
  "find_base 0 i temp g T = Inl OutOfFuel"
| "find_base (Suc n) i temp g T =
     (if i = temp then Inr (None, T)
      else if g \<le> i then Inr (Some i, set_state i TCG_TEMP_HAS_COPY T)
      else find_base n (next_copy (T i)) temp g T)"

fun rebase :: "nat \<Rightarrow> nat \<Rightarrow> nat \<Rightarrow> nat option \<Rightarrow> temps \<Rightarrow> temps result" where
  "rebase 0 i temp nb T = Inl OutOfFuel"
| "rebase (Suc n) i temp nb T =
     (if i = temp then Inr T
      else (let T' = (case nb of None \<Rightarrow> set_state i TCG_TEMP_ANY T
                               | Some b \<Rightarrow> set_val i (of_nat b) T)
            in rebase n (next_copy (T' i)) temp nb T'))"

definition unlink :: "nat \<Rightarrow> temps \<Rightarrow> temps" where
  "unlink t T =
     (let T1 = set_prev (next_copy (T t)) (prev_copy (T t)) T
      in set_next (prev_copy (T1 t)) (next_copy (T1 t)) T1)"

definition reset_finish :: "nat \<Rightarrow> nat option \<Rightarrow> temps \<Rightarrow> temps" where
  "reset_finish temp new_base T =
     (let T1 = set_state temp TCG_TEMP_ANY T
      in case new_base of
           None \<Rightarrow> T1
         | Some b \<Rightarrow> if next_copy (T1 b) = b then set_state b TCG_TEMP_ANY T1 else T1)"

definition reset_temp :: "TCGContext \<Rightarrow> nat \<Rightarrow> temps \<Rightarrow> temps result" where
  "reset_temp s temp T =
     (if ti_state (T temp) = TCG_TEMP_HAS_COPY then
        res_bind (find_base (Suc (nb_temps s)) (next_copy (T temp)) temp (nb_globals s) T) (\<lambda>(nb, T1).
        res_bind (rebase (Suc (nb_temps s)) (next_copy (T1 temp)) temp nb T1) (\<lambda>T2.
        Inr (reset_finish temp nb (unlink temp T2))))
      else if ti_state (T temp) = TCG_TEMP_COPY then
        (let T1 = unlink temp T
         in Inr (reset_finish temp (Some (unat (ti_val (T1 temp)))) T1))
      else Inr (reset_finish temp None T))"

fun reset_temps :: "TCGContext \<Rightarrow> nat list \<Rightarrow> temps \<Rightarrow> temps result" where
  "reset_temps s [] T = Inr T"
| "reset_temps s (t # ts) T = res_bind (reset_temp s t T) (reset_temps s ts)"

section \<open>Generated moves\<close>

text \<open>\<^verbatim>\<open>op_bits\<close>, \<^verbatim>\<open>op_to_mov\<close> and \<^verbatim>\<open>op_to_movi\<close> on the opcodes the optimiser rewrites\<close>

fun op_bits :: "TCGOpcode \<Rightarrow> opwidth" where
  "op_bits (Mov w) = w"
| "op_bits (Movi w) = w"
| "op_bits (UnOp u w) = w"
| "op_bits (BinOp b w) = w"
| "op_bits (Brcond w) = w"
| "op_bits Ext32s = I64"
| "op_bits Ext32u = I64"
| "op_bits _ = I32"

definition op_to_mov :: "TCGOpcode \<Rightarrow> TCGOpcode" where
  "op_to_mov op = Mov (op_bits op)"

definition op_to_movi :: "TCGOpcode \<Rightarrow> TCGOpcode" where
  "op_to_movi op = Movi (op_bits op)"

definition link_copy :: "nat \<Rightarrow> nat \<Rightarrow> temps \<Rightarrow> temps" where
  "link_copy dst src T =
     (let T1 = (if ti_state (T src) \<noteq> TCG_TEMP_HAS_COPY
                then set_prev src (u16_of src) (set_next src (u16_of src)
                       (set_state src TCG_TEMP_HAS_COPY T))
                else T);
          T2 = set_val dst (of_nat src) (set_state dst TCG_TEMP_COPY T1);
          T3 = set_prev dst (u16_of src) (set_next dst (next_copy (T2 src)) T2);
          T4 = set_prev (next_copy (T3 dst)) (u16_of dst) T3
      in set_next src (u16_of dst) T4)"

definition tcg_opt_gen_mov :: "TCGContext \<Rightarrow> nat \<Rightarrow> nat \<Rightarrow> temps \<Rightarrow> temps result" where
  "tcg_opt_gen_mov s dst src T =
     res_bind (reset_temp s dst T) (\<lambda>T1.
     check (ti_state (T1 src) \<noteq> TCG_TEMP_COPY) AssertFail
     (if nb_globals s \<le> src \<and> nb_globals s \<le> dst \<and> temp_local s src = temp_local s dst then
        check (ti_state (T1 src) \<noteq> TCG_TEMP_CONST) AssertFail (Inr (link_copy dst src T1))
      else Inr T1))"

definition tcg_opt_gen_movi :: "TCGContext \<Rightarrow> nat \<Rightarrow> u64 \<Rightarrow> temps \<Rightarrow> temps result" where
  "tcg_opt_gen_movi s dst v T =
     res_bind (reset_temp s dst T) (\<lambda>T1.
     Inr (set_val dst v (set_state dst TCG_TEMP_CONST T1)))"

section \<open>Folding\<close>

text \<open>
  The C expressions on \<^verbatim>\<open>TCGArg\<close> (64 bits here), with the casts the source has. A shift count
  outside the width of the shifted operand is undefined in C.
\<close>

fun do_constant_folding_2 :: "TCGOpcode \<Rightarrow> u64 \<Rightarrow> u64 \<Rightarrow> u64 result" where
  "do_constant_folding_2 (BinOp OpAdd w) x y = Inr (x + y)"
| "do_constant_folding_2 (BinOp OpSub w) x y = Inr (x - y)"
| "do_constant_folding_2 (BinOp OpMul w) x y = Inr (x * y)"
| "do_constant_folding_2 (BinOp OpAnd w) x y = Inr (x AND y)"
| "do_constant_folding_2 (BinOp OpOr w) x y = Inr (x OR y)"
| "do_constant_folding_2 (BinOp OpXor w) x y = Inr (x XOR y)"
| "do_constant_folding_2 (BinOp OpShl I32) x y =
     check (unat (ucast y :: u32) < 32) UndefShift
       (Inr (ucast (push_bit (unat (ucast y :: u32)) (ucast x :: u32))))"
| "do_constant_folding_2 (BinOp OpShl I64) x y =
     check (unat y < 64) UndefShift (Inr (push_bit (unat y) x))"
| "do_constant_folding_2 (BinOp OpShr I32) x y =
     check (unat (ucast y :: u32) < 32) UndefShift
       (Inr (ucast (drop_bit (unat (ucast y :: u32)) (ucast x :: u32))))"
| "do_constant_folding_2 (BinOp OpShr I64) x y =
     check (unat y < 64) UndefShift (Inr (drop_bit (unat y) x))"
| "do_constant_folding_2 (BinOp OpSar I32) x y =
     check (unat (ucast y :: u32) < 32) UndefShift
       (Inr (scast (signed_drop_bit (unat (ucast y :: u32)) (ucast x :: u32))))"
| "do_constant_folding_2 (BinOp OpSar I64) x y =
     check (unat y < 64) UndefShift (Inr (signed_drop_bit (unat y) x))"
| "do_constant_folding_2 (BinOp OpRotr I32) x y =
     check (unat (32 - y) < 32 \<and> unat y < 32) UndefShift
       (Inr (ucast (push_bit (unat (32 - y)) (ucast x :: u32) OR drop_bit (unat y) (ucast x :: u32))))"
| "do_constant_folding_2 (BinOp OpRotr I64) x y =
     check (unat (64 - y) < 64 \<and> unat y < 64) UndefShift
       (Inr (push_bit (unat (64 - y)) x OR drop_bit (unat y) x))"
| "do_constant_folding_2 (BinOp OpRotl I32) x y =
     check (unat y < 32 \<and> unat (32 - y) < 32) UndefShift
       (Inr (ucast (push_bit (unat y) (ucast x :: u32) OR drop_bit (unat (32 - y)) (ucast x :: u32))))"
| "do_constant_folding_2 (BinOp OpRotl I64) x y =
     check (unat y < 64 \<and> unat (64 - y) < 64) UndefShift
       (Inr (push_bit (unat y) x OR drop_bit (unat (64 - y)) x))"
| "do_constant_folding_2 (UnOp OpNot w) x y = Inr (NOT x)"
| "do_constant_folding_2 (UnOp OpNeg w) x y = Inr (- x)"
| "do_constant_folding_2 (BinOp OpAndc w) x y = Inr (x AND NOT y)"
| "do_constant_folding_2 (BinOp OpOrc w) x y = Inr (x OR NOT y)"
| "do_constant_folding_2 (BinOp OpEqv w) x y = Inr (NOT (x XOR y))"
| "do_constant_folding_2 (BinOp OpNand w) x y = Inr (NOT (x AND y))"
| "do_constant_folding_2 (BinOp OpNor w) x y = Inr (NOT (x OR y))"
| "do_constant_folding_2 (UnOp OpExt8s w) x y = Inr (scast (ucast x :: u8))"
| "do_constant_folding_2 (UnOp OpExt16s w) x y = Inr (scast (ucast x :: u16))"
| "do_constant_folding_2 (UnOp OpExt8u w) x y = Inr (ucast (ucast x :: u8))"
| "do_constant_folding_2 (UnOp OpExt16u w) x y = Inr (ucast (ucast x :: u16))"
| "do_constant_folding_2 Ext32s x y = Inr (scast (ucast x :: u32))"
| "do_constant_folding_2 Ext32u x y = Inr (ucast (ucast x :: u32))"
| "do_constant_folding_2 _ x y = Inl AbortCall"

definition do_constant_folding :: "TCGOpcode \<Rightarrow> u64 \<Rightarrow> u64 \<Rightarrow> u64 result" where
  "do_constant_folding op x y =
     res_bind (do_constant_folding_2 op x y) (\<lambda>res.
     Inr (if op_bits op = I32 then res AND 0xffffffff else res))"

section \<open>One operation\<close>

definition arg_state :: "temps \<Rightarrow> u64 \<Rightarrow> tcg_temp_state" where
  "arg_state T a = ti_state (T (unat a))"

definition arg_val :: "temps \<Rightarrow> u64 \<Rightarrow> u64" where
  "arg_val T a = ti_val (T (unat a))"

definition propagate_arg :: "temps \<Rightarrow> u64 \<Rightarrow> u64" where
  "propagate_arg T a = (if arg_state T a = TCG_TEMP_COPY then arg_val T a else a)"

definition copy_propagate :: "temps \<Rightarrow> TCGOpcode \<Rightarrow> u64 list \<Rightarrow> u64 list" where
  "copy_propagate T op args =
     (if side_effects op then args
      else take (nb_oargs op) args @
           map (propagate_arg T) (take (nb_iargs op) (drop (nb_oargs op) args)) @
           drop (nb_oargs op + nb_iargs op) args)"

definition commutative :: "binop \<Rightarrow> bool" where
  "commutative b \<longleftrightarrow> b \<in> {OpAdd, OpMul, OpAnd, OpOr, OpXor, OpEqv, OpNand, OpNor}"

fun swap_const :: "temps \<Rightarrow> TCGOpcode \<Rightarrow> u64 list \<Rightarrow> u64 list" where
  "swap_const T (BinOp b w) args =
     (if commutative b \<and> arg_state T (args ! 1) = TCG_TEMP_CONST
      then args[1 := args ! 2, 2 := args ! 1] else args)"
| "swap_const T op args = args"

text \<open>The switch that ends in \<^verbatim>\<open>continue\<close> (\<open>Some\<close>) or \<^verbatim>\<open>break\<close> (\<open>None\<close>)\<close>

definition zero_right :: "binop \<Rightarrow> bool" where
  "zero_right b \<longleftrightarrow> b \<in> {OpAdd, OpSub, OpShl, OpShr, OpSar, OpRotl, OpRotr}"

definition gen_mov_op ::
  "TCGContext \<Rightarrow> temps \<Rightarrow> TCGOpcode \<Rightarrow> u64 list \<Rightarrow> (TCGOpcode \<times> u64 list \<times> temps) option result" where
  "gen_mov_op s T op args =
     res_bind (tcg_opt_gen_mov s (unat (args ! 0)) (unat (args ! 1)) T) (\<lambda>T'.
     Inr (Some (op_to_mov op, [args ! 0, args ! 1], T')))"

fun simplify ::
  "TCGContext \<Rightarrow> temps \<Rightarrow> TCGOpcode \<Rightarrow> u64 list \<Rightarrow> (TCGOpcode \<times> u64 list \<times> temps) option result" where
  "simplify s T (BinOp b w) args =
     (if zero_right b then
        if arg_state T (args ! 1) = TCG_TEMP_CONST then Inr None
        else if arg_state T (args ! 2) = TCG_TEMP_CONST \<and> arg_val T (args ! 2) = 0 then
          if arg_state T (args ! 0) = TCG_TEMP_COPY \<and> arg_val T (args ! 0) = args ! 1
             \<or> args ! 0 = args ! 1 then
            Inr (Some (Nop, [], T))
          else gen_mov_op s T (BinOp b w) args
        else Inr None
      else if b = OpMul then
        if arg_state T (args ! 2) = TCG_TEMP_CONST \<and> arg_val T (args ! 2) = 0 then
          res_bind (tcg_opt_gen_movi s (unat (args ! 0)) 0 T) (\<lambda>T'.
          Inr (Some (op_to_movi (BinOp b w), [args ! 0, 0], T')))
        else Inr None
      else if b = OpOr \<or> b = OpAnd then
        if args ! 1 = args ! 2 then
          if args ! 1 = args ! 0 then Inr (Some (Nop, [], T))
          else gen_mov_op s T (BinOp b w) args
        else Inr None
      else Inr None)"
| "simplify s T op args = Inr None"

definition TCG_CALL_CONST_PURE :: u64 where
  "TCG_CALL_CONST_PURE = 0x20 OR 0x10"

definition call_nb_oargs :: "u64 list \<Rightarrow> nat" where
  "call_nb_oargs args = unat (drop_bit 16 (args ! 0))"

definition call_nb_args :: "u64 list \<Rightarrow> nat" where
  "call_nb_args args = unat (drop_bit 16 (args ! 0) + (args ! 0 AND 0xffff))"

definition fold_call :: "TCGContext \<Rightarrow> temps \<Rightarrow> u64 list \<Rightarrow> temps result" where
  "fold_call s T args =
     res_bind (if args ! (call_nb_args args + 1) AND TCG_CALL_CONST_PURE = 0
               then reset_temps s [0..<nb_globals s] T else Inr T) (\<lambda>T1.
     reset_temps s (map (\<lambda>i. unat (args ! (i + 1))) [0..<call_nb_oargs args]) T1)"

definition fold_movi ::
  "TCGContext \<Rightarrow> temps \<Rightarrow> opwidth \<Rightarrow> u64 \<Rightarrow> u64 \<Rightarrow> (TCGOpcode \<times> u64 list \<times> temps) result" where
  "fold_movi s T w dst v =
     res_bind (tcg_opt_gen_movi s (unat dst) v T) (\<lambda>T'. Inr (Movi w, [dst, v], T'))"

definition fold_un ::
  "TCGContext \<Rightarrow> temps \<Rightarrow> TCGOpcode \<Rightarrow> u64 list \<Rightarrow> (TCGOpcode \<times> u64 list \<times> temps) result" where
  "fold_un s T op args =
     (if arg_state T (args ! 1) = TCG_TEMP_CONST then
        res_bind (do_constant_folding op (arg_val T (args ! 1)) 0) (\<lambda>tmp.
        fold_movi s T (op_bits op) (args ! 0) tmp)
      else
        res_bind (reset_temp s (unat (args ! 0)) T) (\<lambda>T'.
        Inr (op, [args ! 0, args ! 1], T')))"

fun fold_switch ::
  "TCGContext \<Rightarrow> temps \<Rightarrow> TCGOpcode \<Rightarrow> u64 list \<Rightarrow> (TCGOpcode \<times> u64 list \<times> temps) result" where
  "fold_switch s T (Mov w) args =
     (if arg_state T (args ! 1) = TCG_TEMP_COPY \<and> arg_val T (args ! 1) = args ! 0
         \<or> args ! 0 = args ! 1 then Inr (Nop, [], T)
      else if arg_state T (args ! 1) \<noteq> TCG_TEMP_CONST then
        res_bind (tcg_opt_gen_mov s (unat (args ! 0)) (unat (args ! 1)) T) (\<lambda>T'.
        Inr (Mov w, [args ! 0, args ! 1], T'))
      else fold_movi s T w (args ! 0) (arg_val T (args ! 1)))"
| "fold_switch s T (Movi w) args = fold_movi s T w (args ! 0) (args ! 1)"
| "fold_switch s T (UnOp u w) args = fold_un s T (UnOp u w) args"
| "fold_switch s T Ext32s args = fold_un s T Ext32s args"
| "fold_switch s T Ext32u args = fold_un s T Ext32u args"
| "fold_switch s T (BinOp b w) args =
     (if arg_state T (args ! 1) = TCG_TEMP_CONST \<and> arg_state T (args ! 2) = TCG_TEMP_CONST then
        res_bind (do_constant_folding (BinOp b w) (arg_val T (args ! 1)) (arg_val T (args ! 2))) (\<lambda>tmp.
        fold_movi s T w (args ! 0) tmp)
      else
        res_bind (reset_temp s (unat (args ! 0)) T) (\<lambda>T'.
        Inr (BinOp b w, [args ! 0, args ! 1, args ! 2], T')))"
| "fold_switch s T Call args = res_bind (fold_call s T args) (\<lambda>T'. Inr (Call, args, T'))"
| "fold_switch s T SetLabel args = Inr (SetLabel, args, clear_temps (nb_temps s) T)"
| "fold_switch s T Jmp args = Inr (Jmp, args, clear_temps (nb_temps s) T)"
| "fold_switch s T Br args = Inr (Br, args, clear_temps (nb_temps s) T)"
| "fold_switch s T (Brcond w) args = Inr (Brcond w, args, clear_temps (nb_temps s) T)"
| "fold_switch s T op args =
     res_bind (reset_temps s (map unat (take (nb_oargs op) args)) T) (\<lambda>T'. Inr (op, args, T'))"

definition fold_op ::
  "TCGContext \<Rightarrow> temps \<Rightarrow> TCGOpcode \<Rightarrow> u64 list \<Rightarrow> (TCGOpcode \<times> u64 list \<times> temps) result" where
  "fold_op s T op args =
     (let args1 = swap_const T op (copy_propagate T op args)
      in res_bind (simplify s T op args1) (\<lambda>r.
         case r of Some res \<Rightarrow> Inr res | None \<Rightarrow> fold_switch s T op args1))"

section \<open>The block\<close>

text \<open>
  The opcodes are in \<^verbatim>\<open>gen_opc_buf\<close>, their arguments one after the other in a second buffer. The loop
  reads at \<open>a\<close> (\<^verbatim>\<open>args\<close>) and writes at \<open>g\<close> (\<^verbatim>\<open>gen_args\<close>) of the same buffer. Of the buffer returned only the
  part below the final \<open>g\<close> is the block's arguments; behind it are left-overs of the ones read.
\<close>

definition op_nargs :: "TCGOpcode \<Rightarrow> u64 list \<Rightarrow> nat" where
  "op_nargs op args = (if op = Call then call_nb_args args + 3 else nb_args op)"

definition put_at :: "nat \<Rightarrow> 'a list \<Rightarrow> 'a list \<Rightarrow> 'a list" where
  "put_at g out buf = take g buf @ out @ drop (g + length out) buf"

fun folding_loop ::
  "TCGContext \<Rightarrow> TCGOpcode list \<Rightarrow> nat \<Rightarrow> nat \<Rightarrow> temps \<Rightarrow> u64 list
   \<Rightarrow> (TCGOpcode list \<times> nat \<times> u64 list) result" where
  "folding_loop s [] a g T buf = Inr ([], g, buf)"
| "folding_loop s (op # ops) a g T buf =
     check (a < length buf \<or> op \<noteq> Call) OutOfBounds
     (let n = op_nargs op (drop a buf)
      in check (a + n \<le> length buf) OutOfBounds
         (res_bind (fold_op s T op (take n (drop a buf))) (\<lambda>(op', out, T').
          res_bind (folding_loop s ops (a + n) (g + length out) T' (put_at g out buf)) (\<lambda>(ops', r).
          Inr (op' # ops', r)))))"

text \<open>\<open>T\<close> is what the static array held after the previous block.\<close>

definition tcg_constant_folding ::
  "TCGContext \<Rightarrow> temps \<Rightarrow> TCGOpcode list \<Rightarrow> u64 list \<Rightarrow> (TCGOpcode list \<times> nat \<times> u64 list) result" where
  "tcg_constant_folding s T ops buf = folding_loop s ops 0 0 (clear_temps (nb_temps s) T) buf"

definition tcg_optimize ::
  "TCGContext \<Rightarrow> temps \<Rightarrow> TCGOpcode list \<Rightarrow> u64 list \<Rightarrow> (TCGOpcode list \<times> nat \<times> u64 list) result" where
  "tcg_optimize s T ops buf = tcg_constant_folding s T ops buf"

section \<open>What the operations mean\<close>

text \<open>The operations of \<^verbatim>\<open>tcg/README\<close> on words of their own width.\<close>

fun sem_bin :: "binop \<Rightarrow> 'a::len word \<Rightarrow> 'a word \<Rightarrow> 'a word" where
  "sem_bin OpAdd x y = x + y"
| "sem_bin OpSub x y = x - y"
| "sem_bin OpMul x y = x * y"
| "sem_bin OpAnd x y = x AND y"
| "sem_bin OpOr x y = x OR y"
| "sem_bin OpXor x y = x XOR y"
| "sem_bin OpShl x y = push_bit (unat y) x"
| "sem_bin OpShr x y = drop_bit (unat y) x"
| "sem_bin OpSar x y = signed_drop_bit (unat y) x"
| "sem_bin OpRotl x y = word_rotl (unat y) x"
| "sem_bin OpRotr x y = word_rotr (unat y) x"
| "sem_bin OpAndc x y = x AND NOT y"
| "sem_bin OpOrc x y = x OR NOT y"
| "sem_bin OpEqv x y = NOT (x XOR y)"
| "sem_bin OpNand x y = NOT (x AND y)"
| "sem_bin OpNor x y = NOT (x OR y)"

fun sem_un :: "unop \<Rightarrow> 'a::len word \<Rightarrow> 'a word" where
  "sem_un OpNot x = NOT x"
| "sem_un OpNeg x = - x"
| "sem_un OpExt8s x = signed_take_bit 7 x"
| "sem_un OpExt8u x = take_bit 8 x"
| "sem_un OpExt16s x = signed_take_bit 15 x"
| "sem_un OpExt16u x = take_bit 16 x"

section \<open>Folding computes the operation\<close>

lemma folding_bin_32:
  assumes "do_constant_folding (BinOp b I32) x y = Inr r"
  shows "r = ucast (sem_bin b (ucast x :: u32) (ucast y))"
proof (cases b)
  case OpRotl
  with assms have *: "unat y < 32" "unat (32 - y) < 32" by (auto simp: do_constant_folding_def)
  note m = minus_count [of y 32, simplified, OF *]
  then show ?thesis using assms OpRotl
    by (auto simp: do_constant_folding_def mask32 rot_shifts unat_low32)
next
  case OpRotr
  with assms have *: "unat y < 32" "unat (32 - y) < 32" by (auto simp: do_constant_folding_def)
  note m = minus_count [of y 32, simplified, OF *]
  then show ?thesis using assms OpRotr
    by (auto simp: do_constant_folding_def mask32 rot_shifts unat_low32)
qed (use assms in \<open>auto simp: do_constant_folding_def mask32 low_arith low_bits\<close>)

lemma folding_bin_64:
  assumes "do_constant_folding (BinOp b I64) x y = Inr r"
  shows "r = sem_bin b x y"
proof (cases b)
  case OpRotl
  with assms have *: "unat y < 64" "unat (64 - y) < 64" by (auto simp: do_constant_folding_def)
  note m = minus_count [of y 64, simplified, OF *]
  then show ?thesis using assms OpRotl
    by (auto simp: do_constant_folding_def rot_shifts)
next
  case OpRotr
  with assms have *: "unat y < 64" "unat (64 - y) < 64" by (auto simp: do_constant_folding_def)
  note m = minus_count [of y 64, simplified, OF *]
  then show ?thesis using assms OpRotr
    by (auto simp: do_constant_folding_def rot_shifts)
qed (use assms in \<open>auto simp: do_constant_folding_def\<close>)

lemma folding_un_32:
  assumes "do_constant_folding (UnOp u I32) x y = Inr r"
  shows "r = ucast (sem_un u (ucast x :: u32))"
  using assms by (cases u) (auto simp: do_constant_folding_def mask32 low_arith low_bits low_ext)

lemma folding_un_64:
  assumes "do_constant_folding (UnOp u I64) x y = Inr r"
  shows "r = sem_un u x"
  using assms by (cases u) (auto simp: do_constant_folding_def ext_64)


definition fold_defined :: "binop \<Rightarrow> nat \<Rightarrow> nat \<Rightarrow> u64 \<Rightarrow> bool" where
  "fold_defined b bits cnt y \<longleftrightarrow>
     (b \<in> {OpShl, OpShr, OpSar} \<longrightarrow> cnt < bits) \<and>
     (b \<in> {OpRotl, OpRotr} \<longrightarrow> 0 < unat y \<and> unat y < bits)"

lemma rot_count_iff:
  assumes "0 < n" "n \<le> 64"
  shows "unat (y :: u64) < n \<and> unat (of_nat n - y) < n \<longleftrightarrow> 0 < unat y \<and> unat y < n"
proof
  assume "unat y < n \<and> unat (of_nat n - y) < n"
  then show "0 < unat y \<and> unat y < n" using minus_count(1) [of y n] assms by auto
next
  assume a: "0 < unat y \<and> unat y < n"
  have "unat (of_nat n :: u64) = n" using assms(2) by (subst unat_of_nat) simp
  moreover have "y \<le> of_nat n" using a calculation by (simp add: word_le_nat_alt)
  ultimately have "unat (of_nat n - y) = n - unat y" by (simp add: unat_sub)
  with a show "unat y < n \<and> unat (of_nat n - y) < n" by simp
qed

lemma folding_bin_total:
  "do_constant_folding (BinOp b I32) x y =
     (if fold_defined b 32 (unat (ucast y :: u32)) y
      then Inr (projr (do_constant_folding (BinOp b I32) x y)) else Inl UndefShift)"
  "do_constant_folding (BinOp b I64) x y =
     (if fold_defined b 64 (unat y) y
      then Inr (projr (do_constant_folding (BinOp b I64) x y)) else Inl UndefShift)"
proof -
  have 32: "unat y < 32 \<and> unat (32 - y) < 32 \<longleftrightarrow> 0 < unat y \<and> unat y < 32"
    "unat (32 - y) < 32 \<and> unat y < 32 \<longleftrightarrow> 0 < unat y \<and> unat y < 32"
    using rot_count_iff [of 32 y] by auto
  have 64: "unat y < 64 \<and> unat (64 - y) < 64 \<longleftrightarrow> 0 < unat y \<and> unat y < 64"
    "unat (64 - y) < 64 \<and> unat y < 64 \<longleftrightarrow> 0 < unat y \<and> unat y < 64"
    using rot_count_iff [of 64 y] by auto
  show "do_constant_folding (BinOp b I32) x y =
     (if fold_defined b 32 (unat (ucast y :: u32)) y
      then Inr (projr (do_constant_folding (BinOp b I32) x y)) else Inl UndefShift)"
    by (cases b; simp only: do_constant_folding_def do_constant_folding_2.simps 32 check_def; simp add: fold_defined_def)
  show "do_constant_folding (BinOp b I64) x y =
     (if fold_defined b 64 (unat y) y
      then Inr (projr (do_constant_folding (BinOp b I64) x y)) else Inl UndefShift)"
    by (cases b; simp only: do_constant_folding_def do_constant_folding_2.simps 64 check_def; simp add: fold_defined_def)
qed

lemma folding_bin_exact_32:
  "do_constant_folding (BinOp b I32) x y =
     (if fold_defined b 32 (unat (ucast y :: u32)) y
      then Inr (ucast (sem_bin b (ucast x :: u32) (ucast y))) else Inl UndefShift)"
  using folding_bin_total(1) [of b x y] folding_bin_32 [of b x y] by presburger

lemma folding_bin_exact_64:
  "do_constant_folding (BinOp b I64) x y =
     (if fold_defined b 64 (unat y) y then Inr (sem_bin b x y) else Inl UndefShift)"
  using folding_bin_total(2) [of b x y] folding_bin_64 [of b x y] by presburger

lemma folding_un_exact:
  "do_constant_folding (UnOp u I32) x y = Inr (ucast (sem_un u (ucast x :: u32)))"
  "do_constant_folding (UnOp u I64) x y = Inr (sem_un u x)"
proof -
  have "do_constant_folding (UnOp u w) x y = Inr (projr (do_constant_folding (UnOp u w) x y))" for w
    by (cases u) (simp_all add: do_constant_folding_def)
  then show "do_constant_folding (UnOp u I32) x y = Inr (ucast (sem_un u (ucast x :: u32)))"
    "do_constant_folding (UnOp u I64) x y = Inr (sem_un u x)"
    using folding_un_32 [of u x y] folding_un_64 [of u x y] by metis+
qed

lemma folding_ext32:
  "do_constant_folding Ext32s x y = Inr (signed_take_bit 31 x)"
  "do_constant_folding Ext32u x y = Inr (take_bit 32 x)"
proof -
  show "do_constant_folding Ext32s x y = Inr (signed_take_bit 31 x)"
    by (simp add: do_constant_folding_def) (rule bit_word_eqI; simp add: bit_simps min_def)
  show "do_constant_folding Ext32u x y = Inr (take_bit 32 x)"
    by (simp add: do_constant_folding_def) (rule bit_word_eqI; simp add: bit_simps)
qed

text \<open>
  C25. Constant folding at 32 bits, done on 64-bit arguments of which only the low halves are
  meaningful, and at 64 bits gives the operation's value at its width, for every operation that has
  both widths and all arguments, unless a shift count is not below the width or a rotate count is zero
  or not below the width: then, and only then, the C code's shift is undefined. The two operations that
  exist at 64 bits only, \<^verbatim>\<open>ext32s_i64\<close> and \<^verbatim>\<open>ext32u_i64\<close>, give the sign and the zero extension of the low half.
\<close>

theorem constant_folding_exact:
  "do_constant_folding (BinOp b I32) x y =
     (if fold_defined b 32 (unat (ucast y :: u32)) y
      then Inr (ucast (sem_bin b (ucast x :: u32) (ucast y))) else Inl UndefShift) \<and>
   do_constant_folding (BinOp b I64) x y =
     (if fold_defined b 64 (unat y) y then Inr (sem_bin b x y) else Inl UndefShift) \<and>
   do_constant_folding (UnOp u I32) x y = Inr (ucast (sem_un u (ucast x :: u32))) \<and>
   do_constant_folding (UnOp u I64) x y = Inr (sem_un u x) \<and>
   do_constant_folding Ext32s x y = Inr (signed_take_bit 31 x) \<and>
   do_constant_folding Ext32u x y = Inr (take_bit 32 x)"
  using folding_bin_exact_32 folding_bin_exact_64 folding_un_exact folding_ext32 by blast

end
