(* ===== verification/TcgRings.thy ===== *)
theory TcgRings
  imports TcgOpt
begin

text \<open>
  The rings of copies of \<^verbatim>\<open>tcg/optimize.c\<close>: a predicate for the doubly linked rings in \<^verbatim>\<open>temps\<close>, the
  invariant of the analysis, what it means for the analysis to be true of the temporaries' values,
  and what \<^verbatim>\<open>reset_temp\<close>, \<^verbatim>\<open>tcg_opt_gen_mov\<close> and \<^verbatim>\<open>tcg_opt_gen_movi\<close> do to both.
\<close>

section \<open>Segments of rings\<close>

fun seg :: "temps \<Rightarrow> nat \<Rightarrow> nat list \<Rightarrow> nat \<Rightarrow> bool" where
  "seg T a [] b \<longleftrightarrow> next_copy (T a) = b \<and> prev_copy (T b) = a"
| "seg T a (c # cs) b \<longleftrightarrow> next_copy (T a) = c \<and> prev_copy (T c) = a \<and> seg T c cs b"

lemma seg_append: "seg T a (xs @ c # ys) b \<longleftrightarrow> seg T a xs c \<and> seg T c ys b"
  by (induction xs arbitrary: a) auto

lemma seg_cong:
  assumes "\<And>t. t \<in> insert a (set xs) \<Longrightarrow> next_copy (T' t) = next_copy (T t)"
    and "\<And>t. t \<in> insert b (set xs) \<Longrightarrow> prev_copy (T' t) = prev_copy (T t)"
  shows "seg T' a xs b = seg T a xs b"
  using assms
proof (induction xs arbitrary: a)
  case (Cons c xs)
  have "seg T' c xs b = seg T c xs b" by (rule Cons.IH) (use Cons.prems in auto)
  with Cons.prems show ?case by simp
qed simp

lemma seg_prev: "seg T a xs b \<Longrightarrow> prev_copy (T b) \<in> set (a # xs)"
  by (induction xs arbitrary: a) auto

lemma seg_next: "seg T a xs b \<Longrightarrow> next_copy (T a) \<in> insert b (set xs)"
  by (cases xs) auto

lemma unlink_fields:
  assumes "next_copy (T t) \<noteq> t"
  shows "next_copy (unlink t T u) = (if u = prev_copy (T t) then next_copy (T t) else next_copy (T u))"
    and "prev_copy (unlink t T u) = (if u = next_copy (T t) then prev_copy (T t) else prev_copy (T u))"
    and "ti_state (unlink t T u) = ti_state (T u)"
    and "ti_val (unlink t T u) = ti_val (T u)"
  using assms by (auto simp: unlink_def Let_def)

lemma unlink_seg:
  assumes "seg T a xs t" and "seg T t ys b" and "t \<notin> set xs" "t \<notin> set ys" "t \<noteq> a" "t \<noteq> b"
    and "distinct (xs @ ys)" and "a \<notin> set xs" "a \<notin> set ys" "b \<notin> set xs" "b \<notin> set ys"
  shows "seg (unlink t T) a (xs @ ys) b"
  using assms
proof (induction xs arbitrary: a)
  case Nil
  have nx: "next_copy (T t) \<noteq> t" using seg_next [OF Nil.prems(2)] Nil.prems by auto
  show ?case
  proof (cases ys)
    case Nil
    with \<open>seg T a [] t\<close> \<open>seg T t ys b\<close> show ?thesis by (simp add: unlink_fields [of T t, OF nx])
  next
    case (Cons q ys')
    have "seg (unlink t T) q ys' b = seg T q ys' b"
      by (rule seg_cong) (use Nil.prems Cons in \<open>auto simp: unlink_fields [of T t, OF nx]\<close>)
    with Cons Nil.prems show ?thesis by (simp add: unlink_fields [of T t, OF nx])
  qed
next
  case (Cons c xs)
  have nx: "next_copy (T t) \<noteq> t" and nx': "next_copy (T t) \<in> insert b (set ys)"
    using seg_next [OF Cons.prems(2)] Cons.prems by auto
  have pv: "prev_copy (T t) \<in> set (c # xs)" using seg_prev [of T c xs t] Cons.prems(1) by simp
  have "seg (unlink t T) c (xs @ ys) b"
    by (rule Cons.IH) (use Cons.prems in auto)
  moreover have "a \<noteq> prev_copy (T t)" "c \<noteq> next_copy (T t)" using pv nx' Cons.prems by auto
  ultimately show ?case using Cons.prems(1) by (simp add: unlink_fields [of T t, OF nx])
qed

section \<open>The invariant of the analysis\<close>

abbreviation "ISCOPY T t \<equiv> ti_state (T t) = TCG_TEMP_COPY"
abbreviation "HASCOPY T t \<equiv> ti_state (T t) = TCG_TEMP_HAS_COPY"
abbreviation "ISCONST T t \<equiv> ti_state (T t) = TCG_TEMP_CONST"
abbreviation "base T t \<equiv> unat (ti_val (T t))"

definition copies_of :: "TCGContext \<Rightarrow> temps \<Rightarrow> nat \<Rightarrow> nat set" where
  "copies_of s T r = {t. t < nb_temps s \<and> ISCOPY T t \<and> base T t = r}"

definition is_ring :: "TCGContext \<Rightarrow> temps \<Rightarrow> nat \<Rightarrow> nat list \<Rightarrow> bool" where
  "is_ring s T r cs \<longleftrightarrow> cs \<noteq> [] \<and> distinct cs \<and> seg T r cs r \<and> set cs = copies_of s T r"

text \<open>
  Every representative heads a ring of exactly its copies, every copy has a representative of its
  own type, and no global is in a ring.
\<close>

definition rings_ok :: "TCGContext \<Rightarrow> temps \<Rightarrow> bool" where
  "rings_ok s T \<longleftrightarrow>
     (\<forall>r < nb_temps s. HASCOPY T r \<longrightarrow> (\<exists>cs. is_ring s T r cs)) \<and>
     (\<forall>t < nb_temps s. ISCOPY T t \<longrightarrow>
        base T t < nb_temps s \<and> HASCOPY T (base T t) \<and> temp_type s (base T t) = temp_type s t) \<and>
     (\<forall>t < nb_temps s. ISCOPY T t \<or> HASCOPY T t \<longrightarrow> nb_globals s \<le> t)"

definition ctx_ok :: "TCGContext \<Rightarrow> bool" where
  "ctx_ok s \<longleftrightarrow> nb_globals s \<le> nb_temps s \<and> nb_temps s \<le> 512"

definition temp_trunc :: "TCGContext \<Rightarrow> nat \<Rightarrow> u64 \<Rightarrow> u64" where
  "temp_trunc s t v = (if temp_type s t = I32 then take_bit 32 v else v)"

text \<open>The analysis is true of the values \<open>\<sigma>\<close>; of an \<^verbatim>\<open>I32\<close> temporary only the low half counts.\<close>

definition facts_hold :: "TCGContext \<Rightarrow> temps \<Rightarrow> (nat \<Rightarrow> u64) \<Rightarrow> bool" where
  "facts_hold s T \<sigma> \<longleftrightarrow>
     (\<forall>t < nb_temps s.
        (ISCONST T t \<longrightarrow> temp_trunc s t (\<sigma> t) = temp_trunc s t (ti_val (T t))) \<and>
        (ISCOPY T t \<longrightarrow> temp_trunc s t (\<sigma> t) = temp_trunc s t (\<sigma> (base T t))))"

lemma u16_of_small [simp]: "ctx_ok s \<Longrightarrow> t < nb_temps s \<Longrightarrow> u16_of t = t"
  by (simp add: u16_of_def ctx_ok_def)

lemma unat_of_temp [simp]: "ctx_ok s \<Longrightarrow> t < nb_temps s \<Longrightarrow> unat (of_nat t :: u64) = t"
  by (simp add: ctx_ok_def unat_of_nat)

lemma ring_length:
  assumes "is_ring s T r cs" and "r < nb_temps s" and "\<not> ISCOPY T r"
  shows "length cs < nb_temps s"
proof -
  have d: "distinct cs" and c: "set cs = copies_of s T r"
    using assms(1) by (simp_all add: is_ring_def)
  have "set cs \<subseteq> {..<nb_temps s} - {r}"
    unfolding c copies_of_def using assms(3) by blast
  then have "card (set cs) \<le> card ({..<nb_temps s} - {r})" by (intro card_mono) auto
  also have "\<dots> = nb_temps s - 1" using assms(2) by simp
  also have "\<dots> < nb_temps s" using assms(2) by simp
  finally show ?thesis using d by (simp only: distinct_card)
qed

lemma rebase_walk:
  assumes "seg T i cs r" and "r \<notin> set (i # cs)" and "distinct (i # cs)" and "length cs + 1 < k"
  shows "rebase k i r (Some b) T =
    Inr (\<lambda>u. if u \<in> set (i # cs) then (T u)\<lparr>ti_val := of_nat b\<rparr> else T u)"
  using assms
proof (induction cs arbitrary: i T k)
  case Nil
  obtain k' where "k = Suc (Suc k')" using Nil.prems(4) by (cases k; cases "k - 1") auto
  with Nil.prems(1,2) show ?case by (simp add: Let_def fun_upd_def cong: if_cong)
next
  case (Cons c cs)
  obtain k' where k: "k = Suc k'" using Cons.prems(4) by (cases k) auto
  let ?T = "set_val i (of_nat b) T"
  have "seg ?T c cs r = seg T c cs r"
    by (rule seg_cong) simp_all
  moreover have "length cs + 1 < k'" using Cons.prems(4) k by simp
  ultimately have "rebase k' c r (Some b) ?T =
      Inr (\<lambda>u. if u \<in> set (c # cs) then (?T u)\<lparr>ti_val := of_nat b\<rparr> else ?T u)"
    using Cons.prems(1,2,3) by (intro Cons.IH [where T = ?T and i = c and k = k']) (simp_all add: fun_upd_def)
  moreover have "rebase k i r (Some b) T = rebase k' c r (Some b) ?T"
    using Cons.prems(1,2) k by (simp add: Let_def)
  moreover have "(\<lambda>u. if u \<in> set (c # cs) then (?T u)\<lparr>ti_val := of_nat b\<rparr> else ?T u) =
      (\<lambda>u. if u \<in> set (i # c # cs) then (T u)\<lparr>ti_val := of_nat b\<rparr> else T u)"
    by (rule ext) simp
  ultimately show ?case by simp
qed


section \<open>Local changes of the rings\<close>

text \<open>
  A change confined to a set \<open>D\<close> that contains with a representative its copies and with a copy its
  representative keeps the invariant if it holds inside \<open>D\<close>.
\<close>

definition ring_closed :: "TCGContext \<Rightarrow> temps \<Rightarrow> nat set \<Rightarrow> bool" where
  "ring_closed s T D \<longleftrightarrow> (\<forall>u < nb_temps s. ISCOPY T u \<longrightarrow> (u \<in> D \<longleftrightarrow> base T u \<in> D))"

definition copy_ok :: "TCGContext \<Rightarrow> temps \<Rightarrow> nat set \<Rightarrow> nat \<Rightarrow> bool" where
  "copy_ok s T D u \<longleftrightarrow> base T u \<in> D \<and> base T u < nb_temps s \<and> HASCOPY T (base T u) \<and>
     temp_type s (base T u) = temp_type s u"

lemma other_ring:
  assumes "is_ring s T r cs" and "r < nb_temps s" and "r \<notin> D" and "ring_closed s T D"
    and frame: "\<And>u. u \<notin> D \<Longrightarrow> T' u = T u"
    and copies: "\<And>u. u \<in> D \<Longrightarrow> u < nb_temps s \<Longrightarrow> ISCOPY T' u \<Longrightarrow> base T' u \<in> D"
  shows "is_ring s T' r cs"
proof -
  have cs: "cs \<noteq> []" "distinct cs" "seg T r cs r" "set cs = copies_of s T r"
    using assms(1) by (simp_all add: is_ring_def)
  have out: "u \<notin> D" if "u \<in> set cs" for u
    using that assms(3,4) cs(4) by (auto simp: copies_of_def ring_closed_def)
  have "seg T' r cs r = seg T r cs r"
    by (rule seg_cong) (use out assms(3) frame in auto)
  moreover have "copies_of s T' r = copies_of s T r"
  proof (rule set_eqI)
    fix u
    show "u \<in> copies_of s T' r \<longleftrightarrow> u \<in> copies_of s T r"
    proof (cases "u \<in> D")
      case True
      have "u \<notin> copies_of s T' r" using copies [OF True] assms(3) by (auto simp: copies_of_def)
      moreover have "u \<notin> copies_of s T r" using True out cs(4) by blast
      ultimately show ?thesis by simp
    next
      case False
      then show ?thesis by (simp add: copies_of_def frame)
    qed
  qed
  ultimately show ?thesis using cs by (simp add: is_ring_def)
qed

lemma rings_ok_update:
  assumes ok: "rings_ok s T" and closed: "ring_closed s T D"
    and frame: "\<And>u. u \<notin> D \<Longrightarrow> T' u = T u"
    and copies: "\<And>u. u \<in> D \<Longrightarrow> u < nb_temps s \<Longrightarrow> ISCOPY T' u \<Longrightarrow> copy_ok s T' D u"
    and rings: "\<And>u. u \<in> D \<Longrightarrow> u < nb_temps s \<Longrightarrow> HASCOPY T' u \<Longrightarrow> \<exists>cs. is_ring s T' u cs"
    and glob: "\<And>u. u \<in> D \<Longrightarrow> u < nb_temps s \<Longrightarrow> ISCOPY T' u \<or> HASCOPY T' u \<Longrightarrow> nb_globals s \<le> u"
  shows "rings_ok s T'"
proof -
  have 1: "\<exists>cs. is_ring s T' r cs" if r: "r < nb_temps s" "HASCOPY T' r" for r
  proof (cases "r \<in> D")
    case False
    then have "HASCOPY T r" using frame r by simp
    then obtain cs where cs: "is_ring s T r cs" using ok r(1) unfolding rings_ok_def by blast
    have "is_ring s T' r cs"
      by (rule other_ring [OF cs r(1) False closed frame]) (use copies in \<open>auto simp: copy_ok_def\<close>)
    then show ?thesis by blast
  qed (use r rings in blast)
  have 2: "base T' t < nb_temps s \<and> HASCOPY T' (base T' t) \<and> temp_type s (base T' t) = temp_type s t"
    if t: "t < nb_temps s" "ISCOPY T' t" for t
  proof (cases "t \<in> D")
    case True
    with t copies [of t] show ?thesis by (simp add: copy_ok_def)
  next
    case False
    then have c: "ISCOPY T t" "base T' t = base T t" using t(2) frame by simp_all
    with False closed t(1) have "base T t \<notin> D" by (simp add: ring_closed_def)
    with c ok t(1) frame show ?thesis by (simp add: rings_ok_def)
  qed
  have 3: "nb_globals s \<le> t" if t: "t < nb_temps s" "ISCOPY T' t \<or> HASCOPY T' t" for t
    using t glob ok frame by (cases "t \<in> D") (auto simp: rings_ok_def)
  from 1 2 3 show ?thesis unfolding rings_ok_def by blast
qed

lemma facts_update:
  assumes "facts_hold s T \<sigma>" and "\<And>u. u \<notin> D \<Longrightarrow> T' u = T u"
    and "\<And>u. u \<in> D \<Longrightarrow> u < nb_temps s \<Longrightarrow> ISCONST T' u \<Longrightarrow>
           temp_trunc s u (\<sigma> u) = temp_trunc s u (ti_val (T' u))"
    and "\<And>u. u \<in> D \<Longrightarrow> u < nb_temps s \<Longrightarrow> ISCOPY T' u \<Longrightarrow>
           temp_trunc s u (\<sigma> u) = temp_trunc s u (\<sigma> (base T' u))"
  shows "facts_hold s T' \<sigma>"
  unfolding facts_hold_def
proof (intro allI impI)
  fix t assume t: "t < nb_temps s"
  show "(ISCONST T' t \<longrightarrow> temp_trunc s t (\<sigma> t) = temp_trunc s t (ti_val (T' t))) \<and>
        (ISCOPY T' t \<longrightarrow> temp_trunc s t (\<sigma> t) = temp_trunc s t (\<sigma> (base T' t)))"
    using assms(1,3,4) t assms(2) [of t] by (cases "t \<in> D") (auto simp: facts_hold_def)
qed

text \<open>The class of a representative is closed, has one type and one value.\<close>

definition class_of :: "TCGContext \<Rightarrow> temps \<Rightarrow> nat \<Rightarrow> nat set" where
  "class_of s T r = insert r (copies_of s T r)"

lemma class_closed:
  assumes "rings_ok s T" and "r < nb_temps s" and "HASCOPY T r"
  shows "ring_closed s T (class_of s T r)"
  using assms by (auto simp: ring_closed_def class_of_def copies_of_def rings_ok_def)

lemma class_facts:
  assumes "rings_ok s T" and "r < nb_temps s" and "HASCOPY T r" and "u \<in> class_of s T r"
  shows "u < nb_temps s" and "nb_globals s \<le> u" and "temp_type s u = temp_type s r"
    and "facts_hold s T \<sigma> \<Longrightarrow> temp_trunc s u (\<sigma> u) = temp_trunc s u (\<sigma> r)"
  using assms by (auto simp: class_of_def copies_of_def rings_ok_def facts_hold_def)

lemma class_equal:
  assumes "rings_ok s T" and "r < nb_temps s" and "HASCOPY T r" and "facts_hold s T \<sigma>"
    and "u \<in> class_of s T r" and "v \<in> class_of s T r"
  shows "temp_trunc s u (\<sigma> u) = temp_trunc s u (\<sigma> v)"
proof -
  note u = class_facts [OF assms(1-3,5)] and v = class_facts [OF assms(1-3,6)]
  have "temp_trunc s v x = temp_trunc s u x" for x using u(3) v(3) by (simp add: temp_trunc_def)
  with u(4) [OF assms(4)] v(4) [OF assms(4)] show ?thesis by simp
qed

section \<open>Resetting a temporary\<close>

text \<open>
  What callers use of a reset: it ends, keeps the rings, forgets the temporary, keeps true facts
  true and invents none.
\<close>

definition reset_post :: "TCGContext \<Rightarrow> nat \<Rightarrow> temps \<Rightarrow> temps \<Rightarrow> bool" where
  "reset_post s t T T' \<longleftrightarrow>
     rings_ok s T' \<and> ti_state (T' t) = TCG_TEMP_ANY \<and>
     (\<forall>\<sigma>. facts_hold s T \<sigma> \<longrightarrow> facts_hold s T' \<sigma>) \<and>
     (\<forall>u < nb_temps s. u \<noteq> t \<longrightarrow> (ISCONST T' u \<longleftrightarrow> ISCONST T u) \<and> (ISCOPY T' u \<longrightarrow> ISCOPY T u))"


lemma reset_postD:
  assumes "reset_post s t T T'"
  shows "rings_ok s T'" and "ti_state (T' t) = TCG_TEMP_ANY" and "facts_hold s T \<sigma> \<Longrightarrow> facts_hold s T' \<sigma>"
    and "u < nb_temps s \<Longrightarrow> u \<noteq> t \<Longrightarrow> ISCONST T' u \<longleftrightarrow> ISCONST T u"
    and "u < nb_temps s \<Longrightarrow> u \<noteq> t \<Longrightarrow> ISCOPY T' u \<Longrightarrow> ISCOPY T u"
  using assms unfolding reset_post_def by blast+

text \<open>States after \<^verbatim>\<open>reset_finish\<close>; it leaves the links and values alone.\<close>

lemma reset_finish_fields:
  "next_copy (reset_finish t b T u) = next_copy (T u)"
  "prev_copy (reset_finish t b T u) = prev_copy (T u)"
  "ti_val (reset_finish t b T u) = ti_val (T u)"
  "ti_state (reset_finish t b T u) =
     (if u = t \<or> (\<exists>r. b = Some r \<and> u = r \<and> next_copy (T r) = r) then TCG_TEMP_ANY
      else ti_state (T u))"
  by (auto simp: reset_finish_def Let_def split: option.split)

lemma seg_finish: "seg (reset_finish t b T) a xs c = seg T a xs c"
  by (rule seg_cong) (simp_all add: reset_finish_fields)

lemma tcg_temp_info_eqI:
  "next_copy x = next_copy y \<Longrightarrow> prev_copy x = prev_copy y \<Longrightarrow> ti_val x = ti_val y \<Longrightarrow>
   ti_state x = ti_state y \<Longrightarrow> (x :: tcg_temp_info) = y"
  by simp

lemma reset_copy:
  assumes "ctx_ok s" and ok: "rings_ok s T" and t: "t < nb_temps s" "ISCOPY T t"
  shows "\<exists>T'. reset_temp s t T = Inr T' \<and> reset_post s t T T'"
proof -
  define r where "r = base T t"
  have r: "r < nb_temps s" "HASCOPY T r" using ok t by (simp_all add: rings_ok_def r_def)
  obtain cs where cs: "distinct cs" "seg T r cs r" "set cs = copies_of s T r"
    using ok r by (auto simp: rings_ok_def is_ring_def)
  have "t \<in> set cs" using t cs by (simp add: copies_of_def r_def)
  then obtain xs ys where xy: "cs = xs @ t # ys" by (auto simp: in_set_conv_decomp)
  have rn: "r \<notin> set cs" using r cs(3) by (simp add: copies_of_def)
  have sg: "seg T r xs t" "seg T t ys r" using cs(2) xy by (simp_all add: seg_append)
  have nx: "next_copy (T t) \<in> class_of s T r" "next_copy (T t) \<noteq> t"
    and pv: "prev_copy (T t) \<in> class_of s T r"
    using seg_next [OF sg(2)] seg_prev [OF sg(1)] cs(1,3) rn xy by (auto simp: class_of_def)
  note uf = unlink_fields [of T t, OF nx(2)]
  define T' where "T' = reset_finish t (Some r) (unlink t T)"
  have res: "reset_temp s t T = Inr T'"
    using t(2) uf by (simp add: reset_temp_def T'_def r_def Let_def)
  have sgU: "seg (unlink t T) r (xs @ ys) r"
    by (rule unlink_seg [OF sg]) (use cs(1) rn xy in auto)
  then have sg': "seg T' r (xs @ ys) r" by (simp add: T'_def seg_finish)
  have lonely: "next_copy (unlink t T r) = r \<longleftrightarrow> xs @ ys = []"
  proof (cases "xs @ ys")
    case (Cons q qs)
    then have "q \<in> set (xs @ ys)" by simp
    then have "q \<noteq> r" using rn xy by auto
    with Cons sgU show ?thesis by simp
  qed (use sgU in simp)
  have st: "ti_state (T' u) = (if u = t \<or> u = r \<and> xs @ ys = [] then TCG_TEMP_ANY else ti_state (T u))"
    and vl: "ti_val (T' u) = ti_val (T u)" for u
    unfolding T'_def reset_finish_fields uf(3,4) using lonely by auto
  have frame: "T' u = T u" if "u \<notin> class_of s T r" for u
  proof -
    have "u \<noteq> t" "u \<noteq> r" using that \<open>t \<in> set cs\<close> cs(3) by (auto simp: class_of_def)
    moreover have "u \<noteq> next_copy (T t)" "u \<noteq> prev_copy (T t)" using that nx pv by auto
    ultimately show ?thesis
      by (intro tcg_temp_info_eqI) (simp_all add: T'_def reset_finish_fields uf)
  qed
  have left: "copies_of s T' r = set (xs @ ys)"
    using cs(1,3) xy r(2) st vl by (auto simp: copies_of_def)
  have mem: "u \<in> set (xs @ ys)" if "u \<in> class_of s T r" "u < nb_temps s" "ISCOPY T' u" for u
    using that st vl left r(2) by (auto simp: class_of_def copies_of_def split: if_splits)
  have base: "base T' u = r" if "u \<in> set (xs @ ys)" for u
    using that cs(3) xy vl by (auto simp: copies_of_def)
  have "rings_ok s T'"
  proof (rule rings_ok_update [OF ok class_closed [OF ok r] frame])
    fix u assume u: "u \<in> class_of s T r" "u < nb_temps s"
    note cf = class_facts [OF ok r u(1)]
    show "nb_globals s \<le> u" by (rule cf(2))
    show "copy_ok s T' (class_of s T r) u" if "ISCOPY T' u"
      using mem [OF u that] base r st t(2) cf(3) by (auto simp: copy_ok_def class_of_def)
    show "\<exists>cs. is_ring s T' u cs" if "HASCOPY T' u"
    proof -
      have "u = r" using u that st [of u] by (auto simp: class_of_def copies_of_def split: if_splits)
      moreover have "xs @ ys \<noteq> []" using that st [of u] calculation by (simp split: if_splits)
      moreover have "distinct (xs @ ys)" using cs(1) xy by simp
      ultimately have "is_ring s T' u (xs @ ys)"
        unfolding is_ring_def using sg' left by blast
      then show ?thesis by blast
    qed
  qed
  moreover have "facts_hold s T' \<sigma>" if f: "facts_hold s T \<sigma>" for \<sigma>
  proof (rule facts_update [OF f frame])
    fix u assume u: "u \<in> class_of s T r" "u < nb_temps s"
    show "temp_trunc s u (\<sigma> u) = temp_trunc s u (ti_val (T' u))" if "ISCONST T' u"
      using that u r(2) st [of u] by (auto simp: class_of_def copies_of_def split: if_splits)
    show "temp_trunc s u (\<sigma> u) = temp_trunc s u (\<sigma> (base T' u))" if "ISCOPY T' u"
      using base [OF mem [OF u that]] class_facts(4) [OF ok r u(1) f] by simp
  qed
  moreover have "ISCONST T' u \<longleftrightarrow> ISCONST T u" "ISCOPY T' u \<longrightarrow> ISCOPY T u" if "u \<noteq> t" for u
    using that r(2) st [of u] by (simp_all split: if_splits)
  moreover have "ti_state (T' t) = TCG_TEMP_ANY" by (simp add: st)
  ultimately show ?thesis unfolding reset_post_def using res by blast
qed


lemma reset_base:
  assumes ctx: "ctx_ok s" and ok: "rings_ok s T" and r: "r < nb_temps s" "HASCOPY T r"
  shows "\<exists>T'. reset_temp s r T = Inr T' \<and> reset_post s r T T'"
proof -
  obtain d where d: "is_ring s T r d" using ok r by (auto simp: rings_ok_def)
  then obtain c cs where dc: "d = c # cs" by (cases d) (auto simp: is_ring_def)
  have cs: "distinct (c # cs)" "seg T r (c # cs) r" "set (c # cs) = copies_of s T r"
    using d dc by (simp_all add: is_ring_def)
  have rn: "r \<notin> set (c # cs)" using r cs(3) by (simp add: copies_of_def)
  have cm: "c \<in> copies_of s T r" unfolding cs(3) [symmetric] by simp
  have c: "c < nb_temps s" "nb_globals s \<le> c" "c \<noteq> r" "next_copy (T r) = c"
    using cs(2) rn ok cm by (simp_all add: rings_ok_def copies_of_def)
  define T1 where "T1 = set_state c TCG_TEMP_HAS_COPY T"
  define T2 where "T2 = (\<lambda>u. if u \<in> set (c # cs) then (T1 u)\<lparr>ti_val := of_nat c\<rparr> else T1 u)"
  define T' where "T' = reset_finish r (Some c) (unlink r T2)"
  have len: "length cs + 1 < Suc (nb_temps s)"
    using ring_length [OF d r(1)] r(2) dc by simp
  have links: "next_copy (T2 u) = next_copy (T u)" "prev_copy (T2 u) = prev_copy (T u)"
    "ti_state (T2 u) = (if u = c then TCG_TEMP_HAS_COPY else ti_state (T u))"
    "ti_val (T2 u) = (if u \<in> set (c # cs) then of_nat c else ti_val (T u))" for u
    by (simp_all add: T2_def T1_def)
  have "seg T1 c cs r = seg T c cs r" by (rule seg_cong) (simp_all add: T1_def)
  then have "rebase (Suc (nb_temps s)) c r (Some c) T1 = Inr T2"
    unfolding T2_def using cs(1,2) rn len by (intro rebase_walk) simp_all
  then have res: "reset_temp s r T = Inr T'"
    using r c by (simp add: reset_temp_def T'_def T1_def)
  have "seg T2 r (c # cs) r" using cs(2) by (subst seg_cong [where T = T]) (simp_all add: links)
  then have sg: "seg T2 c cs r" "seg T2 r [] c" by simp_all
  have sgU: "seg (unlink r T2) c cs c"
    using unlink_seg [OF sg] cs(1) rn by simp
  then have sg': "seg T' c cs c" by (simp add: T'_def seg_finish)
  have lonely: "next_copy (unlink r T2 c) = c \<longleftrightarrow> cs = []"
    using sgU cs(1) by (cases cs) auto
  have nx: "next_copy (T2 r) \<noteq> r" using links c by simp
  note uf = unlink_fields [of T2 r, OF nx]
  have st: "ti_state (T' u) = (if u = r \<or> u = c \<and> cs = [] then TCG_TEMP_ANY
       else if u = c then TCG_TEMP_HAS_COPY else ti_state (T u))"
    and vl: "ti_val (T' u) = (if u \<in> set (c # cs) then of_nat c else ti_val (T u))" for u
    unfolding T'_def reset_finish_fields uf(3,4) links(3,4) using lonely by auto
  have frame: "T' u = T u" if "u \<notin> class_of s T r" for u
  proof -
    have u: "u \<noteq> r" "u \<notin> set (c # cs)" using that cs(3) by (auto simp: class_of_def)
    moreover have "u \<noteq> prev_copy (T r)" using seg_prev [OF sg(1)] u(2) links(2) [of r] by auto
    ultimately show ?thesis using c(4)
      by (intro tcg_temp_info_eqI) (simp_all add: T'_def reset_finish_fields uf links)
  qed
  have mem: "u \<in> set cs" if "u \<in> class_of s T r" "ISCOPY T' u" for u
    using that st cs(3) by (auto simp: class_of_def split: if_splits)
  have base: "base T' u = c" if "u \<in> set cs" for u
    using that vl ctx c(1) by simp
  have left: "copies_of s T' c = set cs"
  proof (intro equalityI subsetI)
    fix u assume u: "u \<in> copies_of s T' c"
    show "u \<in> set cs"
    proof (cases "u \<in> class_of s T r")
      case True
      then show ?thesis using mem u by (simp add: copies_of_def)
    next
      case False
      then have "HASCOPY T c" using u frame ok by (auto simp: copies_of_def rings_ok_def)
      with cm show ?thesis by (simp add: copies_of_def)
    qed
  next
    fix u assume u: "u \<in> set cs"
    then have "u \<in> copies_of s T r" "u \<noteq> c" "u \<noteq> r" using cs rn by auto
    then show "u \<in> copies_of s T' c" using base [OF u] st by (simp add: copies_of_def)
  qed
  have "c \<in> class_of s T r" using cm by (simp add: class_of_def)
  note cl = class_facts [OF ok r this]
  have "rings_ok s T'"
  proof (rule rings_ok_update [OF ok class_closed [OF ok r] frame])
    fix u assume u: "u \<in> class_of s T r" "u < nb_temps s"
    note cf = class_facts [OF ok r u(1)]
    show "nb_globals s \<le> u" by (rule cf(2))
    show "copy_ok s T' (class_of s T r) u" if "ISCOPY T' u"
      using mem [OF u(1) that] base c st cf(3) cl(3) \<open>c \<in> class_of s T r\<close>
      by (auto simp: copy_ok_def)
    show "\<exists>cs. is_ring s T' u cs" if "HASCOPY T' u"
    proof -
      have "u = c" using u that st [of u] by (auto simp: class_of_def copies_of_def split: if_splits)
      moreover have "cs \<noteq> []" using that st [of u] calculation by (simp split: if_splits)
      ultimately have "is_ring s T' u cs"
        unfolding is_ring_def using sg' left cs(1) by simp
      then show ?thesis by blast
    qed
  qed
  moreover have "facts_hold s T' \<sigma>" if f: "facts_hold s T \<sigma>" for \<sigma>
  proof (rule facts_update [OF f frame])
    fix u assume u: "u \<in> class_of s T r" "u < nb_temps s"
    show "temp_trunc s u (\<sigma> u) = temp_trunc s u (ti_val (T' u))" if "ISCONST T' u"
      using that u st [of u] by (auto simp: class_of_def copies_of_def split: if_splits)
    show "temp_trunc s u (\<sigma> u) = temp_trunc s u (\<sigma> (base T' u))" if "ISCOPY T' u"
      using base [OF mem [OF u(1) that]] class_equal [OF ok r f u(1) \<open>c \<in> class_of s T r\<close>] by simp
  qed
  moreover have "ISCONST T' u \<longleftrightarrow> ISCONST T u" "ISCOPY T' u \<longrightarrow> ISCOPY T u" if "u \<noteq> r" for u
    using that cm st [of u] by (simp_all add: copies_of_def split: if_splits)
  moreover have "ti_state (T' r) = TCG_TEMP_ANY" by (simp add: st)
  ultimately show ?thesis unfolding reset_post_def using res by blast
qed

lemma reset_plain:
  assumes "rings_ok s T" and "t < nb_temps s" and "\<not> ISCOPY T t" "\<not> HASCOPY T t"
  shows "reset_temp s t T = Inr (set_state t TCG_TEMP_ANY T)"
    and "reset_post s t T (set_state t TCG_TEMP_ANY T)"
proof -
  show "reset_temp s t T = Inr (set_state t TCG_TEMP_ANY T)"
    using assms by (simp add: reset_temp_def reset_finish_def)
  have "ring_closed s T {t}" using assms by (auto simp: ring_closed_def rings_ok_def)
  then have "rings_ok s (set_state t TCG_TEMP_ANY T)"
    by (rule rings_ok_update [OF assms(1)]) auto
  moreover have "facts_hold s (set_state t TCG_TEMP_ANY T) \<sigma>" if "facts_hold s T \<sigma>" for \<sigma>
    by (rule facts_update [OF that, of "{t}"]) auto
  ultimately show "reset_post s t T (set_state t TCG_TEMP_ANY T)"
    by (simp add: reset_post_def)
qed

lemma reset_temp_ok:
  assumes "ctx_ok s" and "rings_ok s T" and "t < nb_temps s"
  obtains T' where "reset_temp s t T = Inr T'" and "reset_post s t T T'"
  using reset_copy [OF assms] reset_base [OF assms] reset_plain [OF assms(2,3)] by blast


lemma plain_closed:
  "rings_ok s T \<Longrightarrow> t < nb_temps s \<Longrightarrow> \<not> ISCOPY T t \<Longrightarrow> \<not> HASCOPY T t \<Longrightarrow> ring_closed s T {t}"
  by (auto simp: ring_closed_def rings_ok_def)

text \<open>Once a temporary is forgotten, any value may be written to it.\<close>

lemma facts_write:
  assumes "rings_ok s T" and "ti_state (T t) = TCG_TEMP_ANY" and "facts_hold s T \<sigma>"
  shows "facts_hold s T (\<sigma>(t := v))"
proof -
  have "base T u \<noteq> t" if "u < nb_temps s" "ISCOPY T u" for u
    using assms(1,2) that by (auto simp: rings_ok_def)
  with assms show ?thesis by (auto simp: facts_hold_def)
qed

lemma reset_post_write:
  "reset_post s t T T' \<Longrightarrow> facts_hold s T \<sigma> \<Longrightarrow> facts_hold s T' (\<sigma>(t := v))"
  by (simp add: reset_post_def facts_write)

section \<open>Generated moves\<close>

lemma gen_movi_ok:
  assumes "ctx_ok s" and "rings_ok s T" and "d < nb_temps s"
  obtains T' where "tcg_opt_gen_movi s d v T = Inr T'" and "rings_ok s T'"
    and "\<And>\<sigma> w. facts_hold s T \<sigma> \<Longrightarrow> temp_trunc s d w = temp_trunc s d v \<Longrightarrow> facts_hold s T' (\<sigma>(d := w))"
proof -
  obtain T1 where T1: "reset_temp s d T = Inr T1" "reset_post s d T T1"
    using reset_temp_ok [OF assms] by blast
  let ?T = "set_val d v (set_state d TCG_TEMP_CONST T1)"
  have st: "rings_ok s T1" "ti_state (T1 d) = TCG_TEMP_ANY" using T1(2) by (simp_all add: reset_post_def)
  have "rings_ok s ?T"
    by (rule rings_ok_update [OF st(1) plain_closed [OF st(1) assms(3)]]) (auto simp: st)
  moreover have "facts_hold s ?T (\<sigma>(d := w))"
    if "facts_hold s T \<sigma>" "temp_trunc s d w = temp_trunc s d v" for \<sigma> w
    by (rule facts_update [OF reset_post_write [OF T1(2) that(1)], of "{d}"]) (auto simp: that(2))
  ultimately show ?thesis using that T1(1) by (simp add: tcg_opt_gen_movi_def)
qed

definition ring_next :: "temps \<Rightarrow> nat \<Rightarrow> nat" where
  "ring_next T src = (if HASCOPY T src then next_copy (T src) else src)"

lemma link_copy_fields:
  assumes "ctx_ok s" and "src < nb_temps s" and "dst < nb_temps s" and "dst \<noteq> src"
    and "ring_next T src \<noteq> dst"
  shows "next_copy (link_copy dst src T u) =
      (if u = src then dst else if u = dst then ring_next T src else next_copy (T u))"
    and "prev_copy (link_copy dst src T u) =
      (if u = ring_next T src then dst else if u = dst then src else prev_copy (T u))"
    and "ti_state (link_copy dst src T u) =
      (if u = dst then TCG_TEMP_COPY else if u = src then TCG_TEMP_HAS_COPY else ti_state (T u))"
    and "ti_val (link_copy dst src T u) = (if u = dst then of_nat src else ti_val (T u))"
  using assms by (auto simp: link_copy_def Let_def ring_next_def)

lemma link_copy_ok:
  assumes ctx: "ctx_ok s" and ok: "rings_ok s T" and src: "src < nb_temps s" "nb_globals s \<le> src"
    and dst: "dst < nb_temps s" "nb_globals s \<le> dst" "ti_state (T dst) = TCG_TEMP_ANY" "dst \<noteq> src"
    and ns: "\<not> ISCOPY T src" "\<not> ISCONST T src" and ty: "temp_type s src = temp_type s dst"
  shows "rings_ok s (link_copy dst src T)"
    and "facts_hold s T \<sigma> \<Longrightarrow> temp_trunc s dst (\<sigma> dst) = temp_trunc s dst (\<sigma> src) \<Longrightarrow>
         facts_hold s (link_copy dst src T) \<sigma>"
proof -
  define T' where "T' = link_copy dst src T"
  define D where "D = insert dst (class_of s T src)"
  obtain cs where cs: "distinct cs" "set cs = copies_of s T src"
    "if HASCOPY T src then seg T src cs src else cs = []"
  proof (cases "HASCOPY T src")
    case True
    with ok src that show ?thesis by (auto simp: rings_ok_def is_ring_def)
  next
    case False
    then have "copies_of s T src = {}" using ok by (auto simp: copies_of_def rings_ok_def)
    with False that [of "[]"] show ?thesis by simp
  qed
  have nx: "ring_next T src \<in> insert src (set cs)"
    using cs(3) seg_next [of T src cs src] by (auto simp: ring_next_def split: if_splits)
  have notin: "dst \<notin> set cs" "src \<notin> set cs"
    using dst ns unfolding cs(2) by (simp_all add: copies_of_def)
  then have "ring_next T src \<noteq> dst" using nx dst(4) by auto
  note lf = link_copy_fields [OF ctx src(1) dst(1,4) this, folded T'_def]
  have "seg T' dst cs src"
  proof (cases cs)
    case Nil
    then show ?thesis using nx dst(4) by (simp add: lf)
  next
    case (Cons q qs)
    then have H: "seg T src (q # qs) src" "ring_next T src = q"
      using cs(3) by (auto simp: ring_next_def split: if_splits)
    have "seg T' q qs src = seg T q qs src"
      by (rule seg_cong) (use notin Cons H(2) cs(1) dst(4) in \<open>auto simp: lf\<close>)
    with H Cons notin dst(4) show ?thesis by (simp add: lf)
  qed
  then have sg: "seg T' src (dst # cs) src" using dst(4) nx notin by (auto simp: lf)
  have cop: "copies_of s T' src = set (dst # cs)"
  proof (rule set_eqI)
    fix u
    show "u \<in> copies_of s T' src \<longleftrightarrow> u \<in> set (dst # cs)"
      using dst(1,4) src(1) ctx ns(1) cs(2)
      by (cases "u = dst"; cases "u = src") (simp_all add: copies_of_def lf(3,4))
  qed
  have nD: "ring_next T src \<in> D" "src \<in> D" "dst \<in> D"
    using nx cs(2) by (auto simp: D_def class_of_def)
  have closed: "ring_closed s T D"
    using ok dst(3) ns(1) by (auto simp: ring_closed_def D_def class_of_def copies_of_def rings_ok_def)
  have frame: "T' u = T u" if "u \<notin> D" for u
  proof -
    have "u \<noteq> ring_next T src" "u \<noteq> src" "u \<noteq> dst" using that nD by auto
    then show ?thesis by (intro tcg_temp_info_eqI) (simp_all add: lf)
  qed
  have old: "ISCOPY T u" "base T u = src" "u < nb_temps s" if "u \<in> D" "u \<noteq> dst" "u \<noteq> src" for u
    using that by (auto simp: D_def class_of_def copies_of_def)
  have base: "base T' u = src \<and> HASCOPY T' src \<and> temp_type s src = temp_type s u \<and> nb_globals s \<le> u"
    if u: "u \<in> D" "ISCOPY T' u" for u
  proof (cases "u = dst")
    case True
    then show ?thesis using dst(2,4) src(1) ctx ty by (simp add: lf(3,4))
  next
    case False
    then have "u \<noteq> src" using u(2) by (auto simp: lf(3))
    with False old [OF u(1)] ok dst(4) show ?thesis by (auto simp: lf(3,4) rings_ok_def)
  qed
  have "rings_ok s T'"
  proof (rule rings_ok_update [OF ok closed frame])
    fix u assume u: "u \<in> D" "u < nb_temps s"
    show "copy_ok s T' D u" if "ISCOPY T' u"
      using base [OF u(1) that] src(1) nD(2) by (simp add: copy_ok_def)
    have us: "u = src" if "HASCOPY T' u"
      using old(1) [OF u(1)] that by (auto simp: lf(3) split: if_splits)
    show "nb_globals s \<le> u" if "ISCOPY T' u \<or> HASCOPY T' u"
      using that base [OF u(1)] us src(2) by blast
    show "\<exists>cs. is_ring s T' u cs" if "HASCOPY T' u"
      using us [OF that] sg cop cs(1) notin by (intro exI [of _ "dst # cs"]) (simp add: is_ring_def)
  qed
  then show "rings_ok s (link_copy dst src T)" by (simp add: T'_def)
  assume f: "facts_hold s T \<sigma>" and eq: "temp_trunc s dst (\<sigma> dst) = temp_trunc s dst (\<sigma> src)"
  have "facts_hold s T' \<sigma>"
  proof (rule facts_update [OF f frame])
    fix u assume u: "u \<in> D" "u < nb_temps s"
    show "temp_trunc s u (\<sigma> u) = temp_trunc s u (ti_val (T' u))" if "ISCONST T' u"
      using that old(1) [OF u(1)] by (simp add: lf(3) split: if_splits)
    show "temp_trunc s u (\<sigma> u) = temp_trunc s u (\<sigma> (base T' u))" if c: "ISCOPY T' u"
    proof (cases "u = dst")
      case False
      moreover have "u \<noteq> src" using c False by (auto simp: lf(3))
      ultimately show ?thesis using f u(2) base [OF u(1) c] old [OF u(1)] by (simp add: facts_hold_def)
    qed (use eq base [OF u(1) c] in simp)
  qed
  then show "facts_hold s (link_copy dst src T) \<sigma>" by (simp add: T'_def)
qed

lemma gen_mov_eq:
  assumes "reset_temp s d T = Inr T1"
  shows "tcg_opt_gen_mov s d src T =
    (if ISCOPY T1 src then Inl AssertFail
     else if nb_globals s \<le> src \<and> nb_globals s \<le> d \<and> temp_local s src = temp_local s d
     then if ISCONST T1 src then Inl AssertFail else Inr (link_copy d src T1)
     else Inr T1)"
  unfolding tcg_opt_gen_mov_def assms by (simp add: check_def)

lemma gen_mov_ok:
  assumes ctx: "ctx_ok s" and ok: "rings_ok s T" and t: "d < nb_temps s" "src < nb_temps s" "d \<noteq> src"
    and ns: "\<not> ISCOPY T src" and ty: "temp_type s src = temp_type s d"
  shows "(\<exists>T'. tcg_opt_gen_mov s d src T = Inr T' \<and> rings_ok s T' \<and>
       (\<forall>\<sigma> v. facts_hold s T \<sigma> \<longrightarrow> temp_trunc s d v = temp_trunc s d (\<sigma> src) \<longrightarrow>
          facts_hold s T' (\<sigma>(d := v)))) \<or>
     ISCONST T src \<and> tcg_opt_gen_mov s d src T = Inl AssertFail"
proof -
  obtain T1 where T1: "reset_temp s d T = Inr T1" "reset_post s d T T1"
    using reset_temp_ok [OF ctx ok t(1)] by blast
  have r1: "rings_ok s T1" by (rule reset_postD [OF T1(2)])
  have any: "ti_state (T1 d) = TCG_TEMP_ANY" by (rule reset_postD [OF T1(2)])
  have nc: "\<not> ISCOPY T1 src" using ns reset_postD(5) [OF T1(2) t(2) t(3) [symmetric]] by blast
  have cst: "ISCONST T1 src \<longleftrightarrow> ISCONST T src" by (rule reset_postD(4) [OF T1(2) t(2) t(3) [symmetric]])
  consider (plain) "tcg_opt_gen_mov s d src T = Inr T1"
    | (linked) "nb_globals s \<le> src" "nb_globals s \<le> d" "\<not> ISCONST T1 src"
        "tcg_opt_gen_mov s d src T = Inr (link_copy d src T1)"
    | (assertion) "ISCONST T src" "tcg_opt_gen_mov s d src T = Inl AssertFail"
    unfolding gen_mov_eq [OF T1(1)] using nc cst by argo
  then show ?thesis
  proof cases
    case plain
    then show ?thesis using r1 reset_post_write [OF T1(2)] by blast
  next
    case linked
    note lk = link_copy_ok [OF ctx r1 t(2) linked(1) t(1) linked(2) any t(3) nc linked(3) ty]
    have "facts_hold s (link_copy d src T1) (\<sigma>(d := v))"
      if "facts_hold s T \<sigma>" "temp_trunc s d v = temp_trunc s d (\<sigma> src)" for \<sigma> v
    proof (rule lk(2))
      show "facts_hold s T1 (\<sigma>(d := v))" using that(1) by (rule reset_post_write [OF T1(2)])
      show "temp_trunc s d ((\<sigma>(d := v)) d) = temp_trunc s d ((\<sigma>(d := v)) src)"
        using that(2) t(3) by simp
    qed
    then show ?thesis using linked(4) lk(1) by blast
  next
    case assertion
    then show ?thesis by blast
  qed
qed

lemma reset_temps_ok:
  assumes "ctx_ok s" and "rings_ok s T" and "\<forall>t \<in> set ts. t < nb_temps s"
  obtains T' where "reset_temps s ts T = Inr T'" and "rings_ok s T'"
    and "\<And>\<sigma> \<sigma>'. facts_hold s T \<sigma> \<Longrightarrow> (\<forall>t. t \<notin> set ts \<longrightarrow> \<sigma>' t = \<sigma> t) \<Longrightarrow> facts_hold s T' \<sigma>'"
proof -
  have "\<exists>T'. reset_temps s ts T = Inr T' \<and> rings_ok s T' \<and>
    (\<forall>\<sigma> \<sigma>'. facts_hold s T \<sigma> \<longrightarrow> (\<forall>t. t \<notin> set ts \<longrightarrow> \<sigma>' t = \<sigma> t) \<longrightarrow> facts_hold s T' \<sigma>')"
    using assms(2,3)
  proof (induction ts arbitrary: T)
    case Nil
    have "\<sigma>' = \<sigma>" if "\<forall>t. t \<notin> set [] \<longrightarrow> \<sigma>' t = \<sigma> t" for \<sigma> \<sigma>' :: "nat \<Rightarrow> u64"
      using that by (simp add: fun_eq_iff)
    with Nil show ?case by auto
  next
    case (Cons t ts)
    obtain T1 where T1: "reset_temp s t T = Inr T1" "reset_post s t T T1"
      using reset_temp_ok [OF assms(1) Cons.prems(1)] Cons.prems(2) by auto
    then have "rings_ok s T1" by (simp add: reset_post_def)
    then obtain T2 where T2: "reset_temps s ts T1 = Inr T2" "rings_ok s T2"
      "\<And>\<sigma> \<sigma>'. facts_hold s T1 \<sigma> \<Longrightarrow> (\<forall>u. u \<notin> set ts \<longrightarrow> \<sigma>' u = \<sigma> u) \<Longrightarrow> facts_hold s T2 \<sigma>'"
      using Cons.IH Cons.prems(2) by (metis list.set_intros(2))
    have "facts_hold s T2 \<sigma>'" if "facts_hold s T \<sigma>" "\<forall>u. u \<notin> set (t # ts) \<longrightarrow> \<sigma>' u = \<sigma> u" for \<sigma> \<sigma>'
      by (rule T2(3) [OF reset_post_write [OF T1(2) that(1), of "\<sigma>' t"]]) (use that(2) in auto)
    with T1 T2 show ?case by auto
  qed
  with that show ?thesis by blast
qed

end
