(* ===== verification/TcgOptSound.thy ===== *)
theory TcgOptSound
  imports TcgRings
begin

text \<open>
  An execution semantics of a translation block, in which everything the optimiser does not
  interpret (loads, stores, helper calls, conditions) is a parameter, and the proof that the
  optimised block runs in lock step with the original.
\<close>

section \<open>Execution\<close>

text \<open>
  Temporaries hold 64-bit values; of an \<^verbatim>\<open>I32\<close> temporary only the low half is read. The parameters: an
  uninterpreted operation maps the values of its inputs, its constants and the world to outputs, a
  flag for leaving the block and a new world; a helper call also sees the globals and, unless it is
  declared pure or constant, changes them.
\<close>

record 'w tcg_sem =
  op_sem :: "string \<Rightarrow> u64 list \<Rightarrow> u64 list \<Rightarrow> 'w \<Rightarrow> u64 list \<times> bool \<times> 'w"
  call_sem :: "u64 list \<Rightarrow> u64 list \<Rightarrow> u64 list \<Rightarrow> 'w \<Rightarrow> u64 list \<times> u64 list \<times> 'w"
  cond_sem :: "opwidth \<Rightarrow> u64 \<Rightarrow> u64 \<Rightarrow> u64 \<Rightarrow> bool"

datatype 'w effect =
    Next "nat \<Rightarrow> u64" 'w
  | Goto u64 "nat \<Rightarrow> u64" 'w
  | Leave "nat \<Rightarrow> u64" 'w

definition rd :: "TCGContext \<Rightarrow> (nat \<Rightarrow> u64) \<Rightarrow> u64 \<Rightarrow> u64" where
  "rd s \<sigma> a = temp_trunc s (unat a) (\<sigma> (unat a))"

fun write_temps :: "nat list \<Rightarrow> u64 list \<Rightarrow> (nat \<Rightarrow> u64) \<Rightarrow> nat \<Rightarrow> u64" where
  "write_temps (t # ts) (v # vs) \<sigma> = write_temps ts vs (\<sigma>(t := v))"
| "write_temps _ _ \<sigma> = \<sigma>"

fun bin_val :: "opwidth \<Rightarrow> binop \<Rightarrow> u64 \<Rightarrow> u64 \<Rightarrow> u64" where
  "bin_val I32 b x y = ucast (sem_bin b (ucast x :: u32) (ucast y))"
| "bin_val I64 b x y = sem_bin b x y"

fun un_val :: "opwidth \<Rightarrow> unop \<Rightarrow> u64 \<Rightarrow> u64" where
  "un_val I32 u x = ucast (sem_un u (ucast x :: u32))"
| "un_val I64 u x = sem_un u x"

definition call_pure :: "u64 list \<Rightarrow> bool" where
  "call_pure args \<longleftrightarrow> args ! (call_nb_args args + 1) AND TCG_CALL_CONST_PURE \<noteq> 0"

definition exec_call ::
  "TCGContext \<Rightarrow> 'w tcg_sem \<Rightarrow> u64 list \<Rightarrow> (nat \<Rightarrow> u64) \<Rightarrow> 'w \<Rightarrow> (nat \<Rightarrow> u64) \<times> 'w" where
  "exec_call s M args \<sigma> w =
     (let no = call_nb_oargs args; na = call_nb_args args;
          (outs, gs, w') = call_sem M (drop (na + 1) args) (map (rd s \<sigma>) (take (na - no) (drop (no + 1) args)))
                             (map (\<lambda>g. temp_trunc s g (\<sigma> g)) [0..<nb_globals s]) w
      in (write_temps (map (\<lambda>i. unat (args ! (i + 1))) [0..<no]) outs
            (if call_pure args then \<sigma> else write_temps [0..<nb_globals s] gs \<sigma>), w'))"

fun exec_op ::
  "TCGContext \<Rightarrow> 'w tcg_sem \<Rightarrow> TCGOpcode \<Rightarrow> u64 list \<Rightarrow> (nat \<Rightarrow> u64) \<Rightarrow> 'w \<Rightarrow> 'w effect" where
  "exec_op s M Nop args \<sigma> w = Next \<sigma> w"
| "exec_op s M (Mov wd) args \<sigma> w = Next (\<sigma>(unat (args ! 0) := rd s \<sigma> (args ! 1))) w"
| "exec_op s M (Movi wd) args \<sigma> w = Next (\<sigma>(unat (args ! 0) := args ! 1)) w"
| "exec_op s M (UnOp u wd) args \<sigma> w =
     Next (\<sigma>(unat (args ! 0) := un_val wd u (rd s \<sigma> (args ! 1)))) w"
| "exec_op s M Ext32s args \<sigma> w =
     Next (\<sigma>(unat (args ! 0) := signed_take_bit 31 (rd s \<sigma> (args ! 1)))) w"
| "exec_op s M Ext32u args \<sigma> w =
     Next (\<sigma>(unat (args ! 0) := take_bit 32 (rd s \<sigma> (args ! 1)))) w"
| "exec_op s M (BinOp b wd) args \<sigma> w =
     Next (\<sigma>(unat (args ! 0) := bin_val wd b (rd s \<sigma> (args ! 1)) (rd s \<sigma> (args ! 2)))) w"
| "exec_op s M Call args \<sigma> w = (let (\<sigma>', w') = exec_call s M args \<sigma> w in Next \<sigma>' w')"
| "exec_op s M SetLabel args \<sigma> w = Next \<sigma> w"
| "exec_op s M Jmp args \<sigma> w = Leave \<sigma> w"
| "exec_op s M Br args \<sigma> w = Goto (args ! 0) \<sigma> w"
| "exec_op s M (Brcond wd) args \<sigma> w =
     (if cond_sem M wd (args ! 2) (rd s \<sigma> (args ! 0)) (rd s \<sigma> (args ! 1))
      then Goto (args ! 3) \<sigma> w else Next \<sigma> w)"
| "exec_op s M (OtherOp nm no ni nc se) args \<sigma> w =
     (let (outs, lv, w') = op_sem M nm (map (rd s \<sigma>) (take ni (drop no args))) (drop (no + ni) args) w;
          \<sigma>' = write_temps (map unat (take no args)) outs \<sigma>
      in if lv then Leave \<sigma>' w' else Next \<sigma>' w')"

text \<open>A block: opcodes with their arguments. Labels are found by their number.\<close>

type_synonym block = "(TCGOpcode \<times> u64 list) list"

fun parse_block :: "TCGOpcode list \<Rightarrow> u64 list \<Rightarrow> block" where
  "parse_block [] buf = []"
| "parse_block (op # ops) buf =
     (op, take (op_nargs op buf) buf) # parse_block ops (drop (op_nargs op buf) buf)"

fun label_index :: "block \<Rightarrow> u64 \<Rightarrow> nat option" where
  "label_index [] l = None"
| "label_index ((op, args) # p) l =
     (if op = SetLabel \<and> args ! 0 = l then Some 0 else map_option Suc (label_index p l))"

datatype 'w outcome = Running nat "nat \<Rightarrow> u64" 'w | Left "nat \<Rightarrow> u64" 'w | Stuck

fun step_block :: "TCGContext \<Rightarrow> 'w tcg_sem \<Rightarrow> block \<Rightarrow> 'w outcome \<Rightarrow> 'w outcome" where
  "step_block s M p (Running pc \<sigma> w) =
     (if pc < length p then
        (case exec_op s M (fst (p ! pc)) (snd (p ! pc)) \<sigma> w of
           Next \<sigma>' w' \<Rightarrow> Running (Suc pc) \<sigma>' w'
         | Leave \<sigma>' w' \<Rightarrow> Left \<sigma>' w'
         | Goto l \<sigma>' w' \<Rightarrow>
             (case label_index p l of Some pc' \<Rightarrow> Running pc' \<sigma>' w' | None \<Rightarrow> Stuck))
      else Left \<sigma> w)"
| "step_block s M p out = out"

definition run_block :: "TCGContext \<Rightarrow> 'w tcg_sem \<Rightarrow> block \<Rightarrow> nat \<Rightarrow> (nat \<Rightarrow> u64) \<Rightarrow> 'w \<Rightarrow> 'w outcome" where
  "run_block s M p n \<sigma> w = (step_block s M p ^^ n) (Running 0 \<sigma> w)"

text \<open>Equal up to the unread halves of the temporaries.\<close>

definition agree :: "TCGContext \<Rightarrow> (nat \<Rightarrow> u64) \<Rightarrow> (nat \<Rightarrow> u64) \<Rightarrow> bool" where
  "agree s \<sigma> \<sigma>' \<longleftrightarrow> (\<forall>t. temp_trunc s t (\<sigma> t) = temp_trunc s t (\<sigma>' t))"

fun eff_agree :: "TCGContext \<Rightarrow> 'w effect \<Rightarrow> 'w effect \<Rightarrow> bool" where
  "eff_agree s (Next \<sigma> w) (Next \<sigma>' w') \<longleftrightarrow> agree s \<sigma> \<sigma>' \<and> w = w'"
| "eff_agree s (Goto l \<sigma> w) (Goto l' \<sigma>' w') \<longleftrightarrow> l = l' \<and> agree s \<sigma> \<sigma>' \<and> w = w'"
| "eff_agree s (Leave \<sigma> w) (Leave \<sigma>' w') \<longleftrightarrow> agree s \<sigma> \<sigma>' \<and> w = w'"
| "eff_agree s _ _ \<longleftrightarrow> False"

fun out_agree :: "TCGContext \<Rightarrow> 'w outcome \<Rightarrow> 'w outcome \<Rightarrow> bool" where
  "out_agree s (Running pc \<sigma> w) (Running pc' \<sigma>' w') \<longleftrightarrow> pc = pc' \<and> agree s \<sigma> \<sigma>' \<and> w = w'"
| "out_agree s (Left \<sigma> w) (Left \<sigma>' w') \<longleftrightarrow> agree s \<sigma> \<sigma>' \<and> w = w'"
| "out_agree s Stuck Stuck \<longleftrightarrow> True"
| "out_agree s _ _ \<longleftrightarrow> False"

section \<open>Well-typed operations\<close>

definition temp_of :: "TCGContext \<Rightarrow> opwidth \<Rightarrow> u64 \<Rightarrow> bool" where
  "temp_of s wd a \<longleftrightarrow> unat a < nb_temps s \<and> temp_type s (unat a) = wd"

definition is_temp :: "TCGContext \<Rightarrow> u64 \<Rightarrow> bool" where
  "is_temp s a \<longleftrightarrow> unat a < nb_temps s"

text \<open>
  Operands have the type of the operation; the two 32-to-64-bit extensions take operands of either
  type. In particular no \<^verbatim>\<open>mov_i32\<close> reads an \<^verbatim>\<open>I64\<close> temporary, as the one of \<^verbatim>\<open>tcg_gen_trunc_i64_i32\<close> does:
  the optimiser records it as a copy like any other and can change the meaning of such a block
  (\<^verbatim>\<open>trunc_move_miscompiled\<close> in \<^verbatim>\<open>TcgOptimize\<close>).
\<close>

fun wt_op :: "TCGContext \<Rightarrow> TCGOpcode \<Rightarrow> u64 list \<Rightarrow> bool" where
  "wt_op s Nop args \<longleftrightarrow> args = []"
| "wt_op s (Mov wd) args \<longleftrightarrow> (\<exists>d a. args = [d, a] \<and> temp_of s wd d \<and> temp_of s wd a)"
| "wt_op s (Movi wd) args \<longleftrightarrow> (\<exists>d v. args = [d, v] \<and> temp_of s wd d)"
| "wt_op s (UnOp u wd) args \<longleftrightarrow> (\<exists>d a. args = [d, a] \<and> temp_of s wd d \<and> temp_of s wd a)"
| "wt_op s Ext32s args \<longleftrightarrow> (\<exists>d a. args = [d, a] \<and> temp_of s I64 d \<and> is_temp s a)"
| "wt_op s Ext32u args \<longleftrightarrow> (\<exists>d a. args = [d, a] \<and> temp_of s I64 d \<and> is_temp s a)"
| "wt_op s (BinOp b wd) args \<longleftrightarrow>
     (\<exists>d x y. args = [d, x, y] \<and> temp_of s wd d \<and> temp_of s wd x \<and> temp_of s wd y)"
| "wt_op s Call args \<longleftrightarrow>
     args \<noteq> [] \<and> length args = call_nb_args args + 3 \<and> call_nb_oargs args \<le> call_nb_args args \<and>
     (\<forall>a \<in> set (take (call_nb_args args) (tl args)). is_temp s a)"
| "wt_op s (OtherOp nm no ni nc se) args \<longleftrightarrow>
     length args = no + ni + nc \<and> (\<forall>a \<in> set (take (no + ni) args). is_temp s a)"
| "wt_op s op args \<longleftrightarrow> length args = nb_args op"


section \<open>Agreement\<close>

lemma agree_refl [simp]: "agree s \<sigma> \<sigma>"
  by (simp add: agree_def)

lemma eff_agree_refl [simp]: "eff_agree s e e"
  by (cases e) simp_all

lemma agree_trans: "agree s \<sigma>1 \<sigma>2 \<Longrightarrow> agree s \<sigma>2 \<sigma>3 \<Longrightarrow> agree s \<sigma>1 \<sigma>3"
  by (simp add: agree_def)

lemma eff_agree_trans: "eff_agree s e1 e2 \<Longrightarrow> eff_agree s e2 e3 \<Longrightarrow> eff_agree s e1 e3"
  by (cases e1; cases e2; cases e3) (auto intro: agree_trans)

lemma agree_rd: "agree s \<sigma> \<sigma>' \<Longrightarrow> rd s \<sigma> = rd s \<sigma>'"
  by (simp add: agree_def rd_def fun_eq_iff)

lemma temp_trunc_idem [simp]: "temp_trunc s t (temp_trunc s t v) = temp_trunc s t v"
  by (simp add: temp_trunc_def)

lemma agree_upd: "agree s \<sigma> \<sigma>' \<Longrightarrow> temp_trunc s t v = temp_trunc s t v' \<Longrightarrow> agree s (\<sigma>(t := v)) (\<sigma>'(t := v'))"
  by (simp add: agree_def)

lemma agree_write: "agree s \<sigma> \<sigma>' \<Longrightarrow> agree s (write_temps ts vs \<sigma>) (write_temps ts vs \<sigma>')"
  by (induction ts vs \<sigma> arbitrary: \<sigma>' rule: write_temps.induct) (simp_all add: agree_upd)

lemma write_temps_other: "t \<notin> set ts \<Longrightarrow> write_temps ts vs \<sigma> t = \<sigma> t"
  by (induction ts vs \<sigma> rule: write_temps.induct) auto

lemma agree_globals:
  "agree s \<sigma> \<sigma>' \<Longrightarrow> map (\<lambda>g. temp_trunc s g (\<sigma> g)) gs = map (\<lambda>g. temp_trunc s g (\<sigma>' g)) gs"
  by (simp add: agree_def)

text \<open>Execution reads temporaries only through \<open>rd\<close>.\<close>

lemma exec_call_cong:
  assumes "agree s \<sigma> \<sigma>'"
  shows "agree s (fst (exec_call s M args \<sigma> w)) (fst (exec_call s M args \<sigma>' w)) \<and>
         snd (exec_call s M args \<sigma> w) = snd (exec_call s M args \<sigma>' w)"
  using assms
  by (simp add: exec_call_def Let_def agree_rd [OF assms] agree_globals [OF assms] agree_write split_beta)

lemma exec_op_cong:
  assumes "agree s \<sigma> \<sigma>'"
  shows "eff_agree s (exec_op s M op args \<sigma> w) (exec_op s M op args \<sigma>' w)"
proof (cases op)
  case Call
  then show ?thesis using exec_call_cong [OF assms, of M args w] by (simp add: split_beta)
next
  case (OtherOp nm no ni nc se)
  then show ?thesis using assms
    by (simp add: agree_rd [OF assms] Let_def split_beta agree_write)
qed (use assms in \<open>simp_all add: agree_rd [OF assms] agree_upd\<close>)

section \<open>Copy propagation and argument order\<close>

lemma propagate_arg_ok:
  assumes "rings_ok s T" and "facts_hold s T \<sigma>" and "is_temp s a"
  shows "rd s \<sigma> (propagate_arg T a) = rd s \<sigma> a"
  using assms
  by (auto simp: propagate_arg_def arg_state_def arg_val_def rd_def is_temp_def facts_hold_def
      rings_ok_def temp_trunc_def)

lemma propagate_arg_temp:
  assumes "rings_ok s T"
  shows "is_temp s a \<Longrightarrow> is_temp s (propagate_arg T a)"
    and "temp_of s wd a \<Longrightarrow> temp_of s wd (propagate_arg T a)"
    and "is_temp s a \<Longrightarrow> \<not> ISCOPY T (unat (propagate_arg T a))"
  using assms
  by (auto simp: propagate_arg_def arg_state_def arg_val_def is_temp_def temp_of_def rings_ok_def)

lemma temp_of_is_temp: "temp_of s wd a \<Longrightarrow> is_temp s a"
  by (simp add: temp_of_def is_temp_def)

lemma copy_propagate_simps:
  "copy_propagate T (Mov wd) [d, a] = [d, propagate_arg T a]"
  "copy_propagate T (Movi wd) [d, a] = [d, a]"
  "copy_propagate T (UnOp u wd) [d, a] = [d, propagate_arg T a]"
  "copy_propagate T Ext32s [d, a] = [d, propagate_arg T a]"
  "copy_propagate T Ext32u [d, a] = [d, propagate_arg T a]"
  "copy_propagate T (BinOp b wd) [d, x, y] = [d, propagate_arg T x, propagate_arg T y]"
  by (simp_all add: copy_propagate_def numeral_2_eq_2)

lemma sem_bin_commute: "commutative b \<Longrightarrow> sem_bin b x y = sem_bin b y x"
  by (cases b) (simp_all add: commutative_def ac_simps)

lemma bin_val_commute: "commutative b \<Longrightarrow> bin_val wd b x y = bin_val wd b y x"
  by (cases wd) (simp_all add: sem_bin_commute)

lemma bin_val_trunc:
  "temp_of s wd d \<Longrightarrow> temp_trunc s (unat d) (bin_val wd b x y) = bin_val wd b x y"
  "temp_of s wd d \<Longrightarrow> temp_trunc s (unat d) (un_val wd u x) = un_val wd u x"
  by (cases wd; simp add: temp_of_def temp_trunc_def ext_64(6) [symmetric])+

lemma ucast_take_bit_32 [simp]: "(ucast (take_bit 32 (x :: u64)) :: u32) = ucast x"
  by (simp flip: ext_64(6))

lemma bin_val_low:
  "temp_of s wd a \<Longrightarrow> temp_of s wd b' \<Longrightarrow>
   bin_val wd b (temp_trunc s (unat a) x) (temp_trunc s (unat b') y) = bin_val wd b x y"
  "temp_of s wd a \<Longrightarrow> un_val wd u (temp_trunc s (unat a) x) = un_val wd u x"
  by (cases wd; simp add: temp_of_def temp_trunc_def)+

lemma const_rd:
  assumes "facts_hold s T \<sigma>" and "is_temp s a" and "arg_state T a = TCG_TEMP_CONST"
  shows "rd s \<sigma> a = temp_trunc s (unat a) (arg_val T a)"
  using assms by (simp add: facts_hold_def rd_def is_temp_def arg_state_def arg_val_def)

lemma rot_zero [simp]: "word_rotl 0 x = x" "word_rotr 0 x = x"
  by (rule bit_word_eqI, simp add: bit_simps)+

lemma bin_val_zero: "zero_right b \<Longrightarrow> bin_val wd b x 0 = (if wd = I32 then take_bit 32 x else x)"
  by (cases wd; cases b) (simp_all add: zero_right_def ext_64(6))

lemma bin_val_mul_zero: "bin_val wd OpMul x 0 = 0"
  by (cases wd) simp_all

lemma bin_val_same:
  "b = OpOr \<or> b = OpAnd \<Longrightarrow> bin_val wd b x x = (if wd = I32 then take_bit 32 x else x)"
  by (cases wd) (auto simp: ext_64(6))

lemma fold_bin_val: "do_constant_folding (BinOp b wd) x y = Inr r \<Longrightarrow> r = bin_val wd b x y"
  by (cases wd) (simp_all add: folding_bin_32 folding_bin_64)

lemma fold_un_val: "do_constant_folding (UnOp u wd) x y = Inr r \<Longrightarrow> r = un_val wd u x"
  by (cases wd) (simp_all add: folding_un_32 folding_un_64)


section \<open>One operation\<close>

text \<open>
  What one rewriting step guarantees: the analysis stays well-formed, the new operation is
  well-typed, occupies no more arguments than the old one, has the same effect, and the new
  analysis is true afterwards.
\<close>

definition sound_post ::
  "TCGContext \<Rightarrow> 'w tcg_sem \<Rightarrow> temps \<Rightarrow> TCGOpcode \<Rightarrow> u64 list \<Rightarrow> TCGOpcode \<times> u64 list \<times> temps \<Rightarrow> bool" where
  "sound_post s M T op args r \<longleftrightarrow>
     (case r of (op', out, T') \<Rightarrow>
        rings_ok s T' \<and> wt_op s op' out \<and> length out \<le> length args \<and>
        (\<forall>\<sigma> w. facts_hold s T \<sigma> \<longrightarrow>
           eff_agree s (exec_op s M op args \<sigma> w) (exec_op s M op' out \<sigma> w) \<and>
           (\<forall>\<sigma>1 w1. exec_op s M op args \<sigma> w = Next \<sigma>1 w1 \<longrightarrow> facts_hold s T' \<sigma>1)))"

lemma facts_agree:
  assumes "rings_ok s T" and "facts_hold s T \<sigma>" and "agree s \<sigma> \<sigma>'"
  shows "facts_hold s T \<sigma>'"
  unfolding facts_hold_def
proof (intro allI impI conjI)
  fix t assume t: "t < nb_temps s"
  have eq: "temp_trunc s u (\<sigma>' u) = temp_trunc s u (\<sigma> u)" for u using assms(3) by (simp add: agree_def)
  show "temp_trunc s t (\<sigma>' t) = temp_trunc s t (ti_val (T t))" if "ISCONST T t"
    using assms(2) that t eq by (simp add: facts_hold_def)
  show "temp_trunc s t (\<sigma>' t) = temp_trunc s t (\<sigma>' (base T t))" if c: "ISCOPY T t"
  proof -
    have "temp_type s (base T t) = temp_type s t" using assms(1) c t by (simp add: rings_ok_def)
    then have tt: "temp_trunc s t v = temp_trunc s (base T t) v" for v by (simp add: temp_trunc_def)
    have "temp_trunc s t (\<sigma> t) = temp_trunc s t (\<sigma> (base T t))"
      using assms(2) c t by (simp add: facts_hold_def)
    then show ?thesis using eq tt by metis
  qed
qed

text \<open>The four shapes of a rewritten assignment\<close>

lemma post_nop:
  assumes ok: "rings_ok s T" and ex: "\<And>\<sigma> w. exec_op s M op args \<sigma> w = Next (\<sigma>(d := F \<sigma>)) w"
    and v: "\<And>\<sigma>. facts_hold s T \<sigma> \<Longrightarrow> temp_trunc s d (F \<sigma>) = temp_trunc s d (\<sigma> d)"
  shows "sound_post s M T op args (Nop, [], T)"
proof -
  have ag: "agree s (\<sigma>(d := F \<sigma>)) \<sigma>" if "facts_hold s T \<sigma>" for \<sigma>
    using v [OF that] by (simp add: agree_def)
  then have "facts_hold s T (\<sigma>(d := F \<sigma>))" if f: "facts_hold s T \<sigma>" for \<sigma>
    using facts_agree [OF ok f] that by (simp add: agree_def)
  with ok ex ag show ?thesis by (simp add: sound_post_def)
qed

lemma post_movi:
  assumes ctx: "ctx_ok s" and ok: "rings_ok s T" and d: "temp_of s wd d" and len: "2 \<le> length args"
    and ex: "\<And>\<sigma> w. exec_op s M op args \<sigma> w = Next (\<sigma>(unat d := F \<sigma>)) w"
    and v: "\<And>\<sigma>. facts_hold s T \<sigma> \<Longrightarrow> temp_trunc s (unat d) (F \<sigma>) = temp_trunc s (unat d) c"
    and r: "fold_movi s T wd d c = Inr r"
  shows "sound_post s M T op args r"
proof -
  have "unat d < nb_temps s" using d by (simp add: temp_of_def)
  then obtain T' where T': "tcg_opt_gen_movi s (unat d) c T = Inr T'" "rings_ok s T'"
    "\<And>\<sigma> w. facts_hold s T \<sigma> \<Longrightarrow> temp_trunc s (unat d) w = temp_trunc s (unat d) c \<Longrightarrow>
        facts_hold s T' (\<sigma>(unat d := w))"
    using gen_movi_ok [OF ctx ok, of "unat d" c] by metis
  then have "r = (Movi wd, [d, c], T')" using r by (simp add: fold_movi_def)
  with T' d len ex v show ?thesis by (simp add: sound_post_def agree_upd)
qed

lemma post_mov:
  assumes ctx: "ctx_ok s" and ok: "rings_ok s T" and d: "temp_of s wd d" and x: "temp_of s wd x"
    and ne: "d \<noteq> x" and nc: "\<not> ISCOPY T (unat x)" and len: "2 \<le> length args"
    and ex: "\<And>\<sigma> w. exec_op s M op args \<sigma> w = Next (\<sigma>(unat d := F \<sigma>)) w"
    and v: "\<And>\<sigma>. facts_hold s T \<sigma> \<Longrightarrow> temp_trunc s (unat d) (F \<sigma>) = rd s \<sigma> x"
    and r: "tcg_opt_gen_mov s (unat d) (unat x) T = Inr T'"
  shows "sound_post s M T op args (Mov wd, [d, x], T')"
proof -
  have lt: "unat d < nb_temps s" "unat x < nb_temps s" "temp_type s (unat x) = temp_type s (unat d)"
    using d x by (simp_all add: temp_of_def)
  have "unat d \<noteq> unat x" using ne by (simp add: word_unat_eq_iff)
  from gen_mov_ok [OF ctx ok lt(1,2) this nc lt(3)] r
  have T': "rings_ok s T'" "\<And>\<sigma> u. facts_hold s T \<sigma> \<Longrightarrow>
      temp_trunc s (unat d) u = temp_trunc s (unat d) (\<sigma> (unat x)) \<Longrightarrow> facts_hold s T' (\<sigma>(unat d := u))"
    by auto
  have tr: "rd s \<sigma> x = temp_trunc s (unat d) (\<sigma> (unat x))" for \<sigma>
    using lt(3) by (simp add: rd_def temp_trunc_def)
  have "facts_hold s T' (\<sigma>(unat d := F \<sigma>))" if "facts_hold s T \<sigma>" for \<sigma>
    using T'(2) [OF that] v [OF that] tr by simp
  moreover have "temp_trunc s (unat d) (F \<sigma>) = temp_trunc s (unat d) (rd s \<sigma> x)" if "facts_hold s T \<sigma>" for \<sigma>
    using v [OF that] tr by simp
  ultimately show ?thesis using T'(1) d x len ex by (simp add: sound_post_def agree_upd)
qed

lemma post_keep:
  assumes ctx: "ctx_ok s" and ok: "rings_ok s T" and d: "is_temp s d"
    and ex: "\<And>\<sigma> w. exec_op s M op args \<sigma> w = Next (\<sigma>(unat d := F \<sigma>)) w"
    and ex': "\<And>\<sigma> w. exec_op s M op out \<sigma> w = Next (\<sigma>(unat d := G \<sigma>)) w"
    and eq: "\<And>\<sigma>. facts_hold s T \<sigma> \<Longrightarrow> F \<sigma> = G \<sigma>"
    and wt: "wt_op s op out" and len: "length out \<le> length args"
    and r: "reset_temp s (unat d) T = Inr T'"
  shows "sound_post s M T op args (op, out, T')"
proof -
  obtain T1 where T1: "reset_temp s (unat d) T = Inr T1" "reset_post s (unat d) T T1"
    using reset_temp_ok [OF ctx ok] d by (auto simp: is_temp_def)
  then have post: "reset_post s (unat d) T T'" using r by simp
  show ?thesis
    using reset_postD(1) [OF post] reset_post_write [OF post] ex ex' eq wt len
    by (simp add: sound_post_def)
qed


text \<open>What follows copy propagation and argument ordering in the loop body.\<close>

definition fold_rest ::
  "TCGContext \<Rightarrow> temps \<Rightarrow> TCGOpcode \<Rightarrow> u64 list \<Rightarrow> (TCGOpcode \<times> u64 list \<times> temps) result" where
  "fold_rest s T op args =
     res_bind (simplify s T op args) (\<lambda>r. case r of Some res \<Rightarrow> Inr res | None \<Rightarrow> fold_switch s T op args)"

lemma fold_op_rest: "fold_op s T op args = fold_rest s T op (swap_const T op (copy_propagate T op args))"
  by (simp add: fold_op_def fold_rest_def Let_def)

lemma rd_trunc: "temp_of s wd x \<Longrightarrow> (if wd = I32 then take_bit 32 (rd s \<sigma> x) else rd s \<sigma> x) = rd s \<sigma> x"
  by (simp add: rd_def temp_of_def temp_trunc_def)

lemma rd_trunc_other:
  "temp_of s wd d \<Longrightarrow> temp_of s wd x \<Longrightarrow> temp_trunc s (unat d) (rd s \<sigma> x) = rd s \<sigma> x"
  by (simp add: rd_def temp_of_def temp_trunc_def)

lemma gen_mov_op_sound:
  assumes ctx: "ctx_ok s" and ok: "rings_ok s T"
    and t: "temp_of s wd d" "temp_of s wd x" and nc: "\<not> ISCOPY T (unat x)" and ne: "d \<noteq> x"
    and v: "\<And>\<sigma>. facts_hold s T \<sigma> \<Longrightarrow> bin_val wd b (rd s \<sigma> x) (rd s \<sigma> y) = rd s \<sigma> x"
    and r: "gen_mov_op s T (BinOp b wd) [d, x, y] = Inr (Some r)"
  shows "sound_post s M T (BinOp b wd) [d, x, y] r"
proof -
  obtain T' where T': "tcg_opt_gen_mov s (unat d) (unat x) T = Inr T'" "r = (Mov wd, [d, x], T')"
    using r by (auto simp: gen_mov_op_def op_to_mov_def)
  show ?thesis unfolding T'(2)
    by (rule post_mov [OF ctx ok t ne nc _ _ _ T'(1),
          where F = "\<lambda>\<sigma>. bin_val wd b (rd s \<sigma> x) (rd s \<sigma> y)"])
      (use v rd_trunc_other [OF t] in simp_all)
qed

lemma const_zero_rd:
  assumes "facts_hold s T \<sigma>" and "temp_of s wd y" and "arg_state T y = TCG_TEMP_CONST" "arg_val T y = 0"
  shows "rd s \<sigma> y = 0"
  using const_rd [OF assms(1) temp_of_is_temp [OF assms(2)] assms(3)] assms(4)
  by (simp add: temp_trunc_def)

lemma copy_dst_rd:
  assumes "facts_hold s T \<sigma>" and "rings_ok s T" and "temp_of s wd d" "temp_of s wd x"
    and "arg_state T d = TCG_TEMP_COPY \<and> arg_val T d = x \<or> d = x"
  shows "rd s \<sigma> x = temp_trunc s (unat d) (\<sigma> (unat d))"
  using assms
  by (auto simp: arg_state_def arg_val_def rd_def temp_of_def facts_hold_def temp_trunc_def)

lemma bin_simplify_sound:
  assumes ctx: "ctx_ok s" and ok: "rings_ok s T"
    and t: "temp_of s wd d" "temp_of s wd x" "temp_of s wd y"
    and nc: "\<not> ISCOPY T (unat x)"
    and r: "simplify s T (BinOp b wd) [d, x, y] = Inr (Some r)"
  shows "sound_post s M T (BinOp b wd) [d, x, y] r"
proof -
  let ?F = "\<lambda>\<sigma>. bin_val wd b (rd s \<sigma> x) (rd s \<sigma> y)"
  consider (zero) "zero_right b" "arg_state T y = TCG_TEMP_CONST" "arg_val T y = 0"
    | (mul) "b = OpMul" "arg_state T y = TCG_TEMP_CONST" "arg_val T y = 0" "\<not> zero_right b"
    | (same) "b = OpOr \<or> b = OpAnd" "x = y" "\<not> zero_right b"
    using r by (auto split: if_splits)
  then show ?thesis
  proof cases
    case zero
    have v: "?F \<sigma> = rd s \<sigma> x" if "facts_hold s T \<sigma>" for \<sigma>
      using const_zero_rd [OF that t(3) zero(2,3)] bin_val_zero [OF zero(1)] rd_trunc [OF t(2)] by simp
    show ?thesis
    proof (cases "arg_state T d = TCG_TEMP_COPY \<and> arg_val T d = x \<or> d = x")
      case True
      then have "r = (Nop, [], T)" using r zero by (auto split: if_splits)
      moreover have "temp_trunc s (unat d) (?F \<sigma>) = temp_trunc s (unat d) (\<sigma> (unat d))"
        if "facts_hold s T \<sigma>" for \<sigma>
        using v [OF that] copy_dst_rd [OF that ok t(1,2) True] by simp
      ultimately show ?thesis using post_nop [OF ok, of M "BinOp b wd" "[d, x, y]" "unat d" ?F] by simp
    next
      case False
      then have "gen_mov_op s T (BinOp b wd) [d, x, y] = Inr (Some r)"
        using r zero by (auto split: if_splits)
      with False v show ?thesis by (intro gen_mov_op_sound [OF ctx ok t(1,2) nc]) auto
    qed
  next
    case mul
    then have "fold_movi s T wd d 0 = Inr r"
      using r by (auto simp: fold_movi_def op_to_movi_def split: if_splits)
    moreover have "?F \<sigma> = 0" if "facts_hold s T \<sigma>" for \<sigma>
      using const_zero_rd [OF that t(3) mul(2,3)] mul(1) by (simp add: bin_val_mul_zero)
    ultimately show ?thesis by (intro post_movi [OF ctx ok t(1), where F = ?F]) simp_all
  next
    case same
    have v: "?F \<sigma> = rd s \<sigma> x" for \<sigma>
      unfolding same(2) [symmetric] using bin_val_same [OF same(1)] rd_trunc [OF t(2)] by simp
    show ?thesis
    proof (cases "d = x")
      case True
      then have "r = (Nop, [], T)" using r same by (auto split: if_splits)
      moreover have "temp_trunc s (unat d) (?F \<sigma>) = temp_trunc s (unat d) (\<sigma> (unat d))" for \<sigma>
        using v True by (simp add: rd_def)
      ultimately show ?thesis using post_nop [OF ok, of M "BinOp b wd" "[d, x, y]" "unat d" ?F] by simp
    next
      case False
      then have "gen_mov_op s T (BinOp b wd) [d, x, y] = Inr (Some r)"
        using r same by (auto split: if_splits)
      with False v show ?thesis by (intro gen_mov_op_sound [OF ctx ok t(1,2) nc]) auto
    qed
  qed
qed


lemma bin_rest_sound:
  assumes ctx: "ctx_ok s" and ok: "rings_ok s T"
    and t: "temp_of s wd d" "temp_of s wd x" "temp_of s wd y" and nc: "\<not> ISCOPY T (unat x)"
    and r: "fold_rest s T (BinOp b wd) [d, x, y] = Inr r"
  shows "sound_post s M T (BinOp b wd) [d, x, y] r"
proof -
  let ?F = "\<lambda>\<sigma>. bin_val wd b (rd s \<sigma> x) (rd s \<sigma> y)"
  have tm: "is_temp s d" "is_temp s x" "is_temp s y" using t by (simp_all add: temp_of_is_temp)
  consider (simp) "simplify s T (BinOp b wd) [d, x, y] = Inr (Some r)"
    | (switch) "fold_switch s T (BinOp b wd) [d, x, y] = Inr r"
    using r by (auto simp: fold_rest_def simp del: simplify.simps fold_switch.simps split: option.splits)
  then show ?thesis
  proof cases
    case simp
    then show ?thesis by (rule bin_simplify_sound [OF ctx ok t nc])
  next
    case switch
    show ?thesis
    proof (cases "arg_state T x = TCG_TEMP_CONST \<and> arg_state T y = TCG_TEMP_CONST")
      case True
      then obtain tmp where tmp: "do_constant_folding (BinOp b wd) (arg_val T x) (arg_val T y) = Inr tmp"
        "fold_movi s T wd d tmp = Inr r"
        using switch by auto
      have "?F \<sigma> = tmp" if "facts_hold s T \<sigma>" for \<sigma>
        using const_rd [OF that tm(2)] const_rd [OF that tm(3)] True fold_bin_val [OF tmp(1)]
        by (simp add: bin_val_low(1) [OF t(2,3)])
      with tmp(2) show ?thesis by (intro post_movi [OF ctx ok t(1), where F = ?F]) simp_all
    next
      case False
      then obtain T' where T': "reset_temp s (unat d) T = Inr T'" "r = (BinOp b wd, [d, x, y], T')"
        using switch by (auto split: if_splits)
      show ?thesis unfolding T'(2)
        by (rule post_keep [OF ctx ok tm(1) _ _ _ _ _ T'(1), where F = ?F and G = ?F]) (use t in simp_all)
    qed
  qed
qed

text \<open>A step whose rewritten input has the same effect\<close>

lemma sound_post_cong:
  assumes "sound_post s M T op args' r" and "length args' = length args"
    and "\<And>\<sigma> w. facts_hold s T \<sigma> \<Longrightarrow> exec_op s M op args \<sigma> w = exec_op s M op args' \<sigma> w"
  shows "sound_post s M T op args r"
  using assms by (auto simp: sound_post_def split: prod.splits)

lemma bin_sound:
  assumes ctx: "ctx_ok s" and ok: "rings_ok s T" and wt: "wt_op s (BinOp b wd) args"
    and r: "fold_op s T (BinOp b wd) args = Inr r"
  shows "sound_post s M T (BinOp b wd) args r"
proof -
  obtain d x y where a: "args = [d, x, y]" "temp_of s wd d" "temp_of s wd x" "temp_of s wd y"
    using wt by auto
  let ?x = "propagate_arg T x" and ?y = "propagate_arg T y"
  have t: "temp_of s wd ?x" "temp_of s wd ?y" "\<not> ISCOPY T (unat ?x)" "\<not> ISCOPY T (unat ?y)"
    using propagate_arg_temp [OF ok] a by (auto dest: temp_of_is_temp)
  have eq: "rd s \<sigma> ?x = rd s \<sigma> x" "rd s \<sigma> ?y = rd s \<sigma> y" if "facts_hold s T \<sigma>" for \<sigma>
    using propagate_arg_ok [OF ok that] a by (auto dest: temp_of_is_temp)
  show ?thesis
  proof (cases "commutative b \<and> arg_state T ?x = TCG_TEMP_CONST")
    case True
    then have "fold_rest s T (BinOp b wd) [d, ?y, ?x] = Inr r"
      using r a by (simp add: fold_op_rest copy_propagate_simps)
    from bin_rest_sound [OF ctx ok a(2) t(2,1,4) this] show ?thesis
      by (rule sound_post_cong) (use a eq True in \<open>simp_all add: bin_val_commute\<close>)
  next
    case False
    then have "fold_rest s T (BinOp b wd) [d, ?x, ?y] = Inr r"
      using r a by (auto simp: fold_op_rest copy_propagate_simps)
    from bin_rest_sound [OF ctx ok a(2) t(1,2,3) this] show ?thesis
      by (rule sound_post_cong) (use a eq in simp_all)
  qed
qed

lemma un_sound:
  assumes ctx: "ctx_ok s" and ok: "rings_ok s T" and d: "temp_of s (op_bits op) d" and a: "is_temp s a"
    and ex: "\<And>e \<sigma> w. exec_op s M op [d, e] \<sigma> w = Next (\<sigma>(unat d := F (rd s \<sigma> e))) w"
    and fold: "\<And>v r. do_constant_folding op v 0 = Inr r \<Longrightarrow>
       temp_trunc s (unat d) (F (temp_trunc s (unat (propagate_arg T a)) v)) = temp_trunc s (unat d) r"
    and wt: "wt_op s op [d, propagate_arg T a]"
    and r: "fold_un s T op [d, propagate_arg T a] = Inr r"
  shows "sound_post s M T op [d, a] r"
proof -
  let ?a = "propagate_arg T a"
  have eq: "rd s \<sigma> ?a = rd s \<sigma> a" if "facts_hold s T \<sigma>" for \<sigma>
    using propagate_arg_ok [OF ok that a] .
  have ta: "is_temp s ?a" using propagate_arg_temp(1) [OF ok a] .
  show ?thesis
  proof (cases "arg_state T ?a = TCG_TEMP_CONST")
    case True
    then obtain tmp where tmp: "do_constant_folding op (arg_val T ?a) 0 = Inr tmp"
      "fold_movi s T (op_bits op) d tmp = Inr r"
      using r by (auto simp: fold_un_def)
    have "temp_trunc s (unat d) (F (rd s \<sigma> a)) = temp_trunc s (unat d) tmp" if f: "facts_hold s T \<sigma>" for \<sigma>
      using const_rd [OF f ta True] eq [OF f] fold [OF tmp(1)] by simp
    with tmp(2) ex show ?thesis by (intro post_movi [OF ctx ok d, where F = "\<lambda>\<sigma>. F (rd s \<sigma> a)"]) simp_all
  next
    case False
    then obtain T' where T': "reset_temp s (unat d) T = Inr T'" "r = (op, [d, ?a], T')"
      using r by (auto simp: fold_un_def)
    show ?thesis unfolding T'(2)
      by (rule post_keep [OF ctx ok temp_of_is_temp [OF d] ex ex _ wt _ T'(1)]) (use eq in simp_all)
  qed
qed


lemma rest_switch:
  assumes "\<And>b wd. op \<noteq> BinOp b wd"
  shows "fold_op s T op args = fold_switch s T op (copy_propagate T op args)"
proof -
  have "swap_const T op as = as" "simplify s T op as = Inr None" for as
    using assms by (cases op; simp)+
  then show ?thesis by (simp only: fold_op_rest fold_rest_def res_bind.simps option.case)
qed

lemma un_ops_sound:
  assumes ctx: "ctx_ok s" and ok: "rings_ok s T" and wt: "wt_op s op args"
    and op: "op = Ext32s \<or> op = Ext32u \<or> (\<exists>u wd. op = UnOp u wd)"
    and r: "fold_op s T op args = Inr r"
  shows "sound_post s M T op args r"
proof -
  have low: "signed_take_bit 31 (temp_trunc s t v) = signed_take_bit 31 v"
    "take_bit 32 (temp_trunc s t v) = take_bit 32 v" for t v
    by (rule bit_word_eqI, auto simp: temp_trunc_def bit_simps min_def)+
  consider (s) "op = Ext32s" | (u) "op = Ext32u" | (un) u wd where "op = UnOp u wd" using op by blast
  then show ?thesis
  proof cases
    case s
    then obtain d a where a: "args = [d, a]" "temp_of s I64 d" "is_temp s a" using wt by auto
    show ?thesis unfolding s a(1)
      by (rule un_sound [OF ctx ok _ a(3), where F = "signed_take_bit 31"])
        (use a r s propagate_arg_temp [OF ok] low
         in \<open>auto simp: do_constant_folding_def ext_64 rest_switch copy_propagate_simps\<close>)
  next
    case u
    then obtain d a where a: "args = [d, a]" "temp_of s I64 d" "is_temp s a" using wt by auto
    show ?thesis unfolding u a(1)
      by (rule un_sound [OF ctx ok _ a(3), where F = "take_bit 32"])
        (use a r u propagate_arg_temp [OF ok] low
         in \<open>auto simp: do_constant_folding_def ext_64 rest_switch copy_propagate_simps\<close>)
  next
    case un
    then obtain d a where a: "args = [d, a]" "temp_of s wd d" "temp_of s wd a" using wt by auto
    show ?thesis unfolding un a(1)
      by (rule un_sound [OF ctx ok _ temp_of_is_temp [OF a(3)], where F = "un_val wd u"])
        (use a r un propagate_arg_temp [OF ok]
         in \<open>auto simp: bin_val_low rest_switch copy_propagate_simps dest: fold_un_val\<close>)
  qed
qed

lemma mov_sound:
  assumes ctx: "ctx_ok s" and ok: "rings_ok s T" and wt: "wt_op s (Mov wd) args"
    and r: "fold_op s T (Mov wd) args = Inr r"
  shows "sound_post s M T (Mov wd) args r"
proof -
  obtain d x where a: "args = [d, x]" "temp_of s wd d" "temp_of s wd x" using wt by auto
  let ?x = "propagate_arg T x"
  have t: "temp_of s wd ?x" "\<not> ISCOPY T (unat ?x)"
    using propagate_arg_temp [OF ok] a by (auto dest: temp_of_is_temp)
  have eq: "rd s \<sigma> ?x = rd s \<sigma> x" if "facts_hold s T \<sigma>" for \<sigma>
    using propagate_arg_ok [OF ok that] a by (auto dest: temp_of_is_temp)
  have sw: "fold_switch s T (Mov wd) [d, ?x] = Inr r"
    using r by (simp add: a(1) rest_switch copy_propagate_simps del: fold_switch.simps)
  have "sound_post s M T (Mov wd) [d, ?x] r"
  proof (cases "d = ?x")
    case True
    then have "r = (Nop, [], T)" using sw by simp
    then show ?thesis
      using True post_nop [OF ok, of M "Mov wd" "[d, ?x]" "unat d" "\<lambda>\<sigma>. rd s \<sigma> ?x"]
      by (simp add: rd_def)
  next
    case ne: False
    show ?thesis
    proof (cases "arg_state T ?x = TCG_TEMP_CONST")
      case True
      then have "fold_movi s T wd d (arg_val T ?x) = Inr r" using sw ne by simp
      moreover have "temp_trunc s (unat d) (rd s \<sigma> ?x) = temp_trunc s (unat d) (arg_val T ?x)"
        if "facts_hold s T \<sigma>" for \<sigma>
        using const_rd [OF that temp_of_is_temp [OF t(1)] True] a(2) t(1)
        by (simp add: temp_of_def temp_trunc_def)
      ultimately show ?thesis
        by (intro post_movi [OF ctx ok a(2), where F = "\<lambda>\<sigma>. rd s \<sigma> ?x"]) simp_all
    next
      case False
      moreover have "arg_state T ?x \<noteq> TCG_TEMP_COPY" using t(2) by (simp add: arg_state_def)
      ultimately obtain T' where T': "tcg_opt_gen_mov s (unat d) (unat ?x) T = Inr T'"
        "r = (Mov wd, [d, ?x], T')"
        using sw ne by auto
      show ?thesis unfolding T'(2)
        by (rule post_mov [OF ctx ok a(2) t(1) ne t(2) _ _ _ T'(1), where F = "\<lambda>\<sigma>. rd s \<sigma> ?x"])
          (use rd_trunc_other [OF a(2) t(1)] in simp_all)
    qed
  qed
  then show ?thesis by (rule sound_post_cong) (use a eq in simp_all)
qed

lemma movi_sound:
  assumes "ctx_ok s" and "rings_ok s T" and "wt_op s (Movi wd) args"
    and r: "fold_op s T (Movi wd) args = Inr r"
  shows "sound_post s M T (Movi wd) args r"
proof -
  obtain d v where a: "args = [d, v]" "temp_of s wd d" using assms(3) by auto
  have "fold_movi s T wd d v = Inr r" using r a by (simp add: rest_switch copy_propagate_simps)
  then show ?thesis unfolding a(1)
    by (intro post_movi [OF assms(1,2) a(2), where F = "\<lambda>_. v"]) simp_all
qed


lemma write_facts:
  assumes "ctx_ok s" and "rings_ok s T" and "\<forall>t \<in> set ts. t < nb_temps s"
    and "reset_temps s ts T = Inr T'"
  shows "rings_ok s T'" and "facts_hold s T \<sigma> \<Longrightarrow> facts_hold s T' (write_temps ts vs \<sigma>)"
proof -
  obtain T1 where "reset_temps s ts T = Inr T1" "rings_ok s T1"
    "\<And>\<sigma> \<sigma>'. facts_hold s T \<sigma> \<Longrightarrow> (\<forall>t. t \<notin> set ts \<longrightarrow> \<sigma>' t = \<sigma> t) \<Longrightarrow> facts_hold s T1 \<sigma>'"
    using reset_temps_ok [OF assms(1-3)] by metis
  with assms(4) show "rings_ok s T'" "facts_hold s T \<sigma> \<Longrightarrow> facts_hold s T' (write_temps ts vs \<sigma>)"
    by (auto simp: write_temps_other)
qed

lemma other_sound:
  assumes ctx: "ctx_ok s" and ok: "rings_ok s T" and wt: "wt_op s (OtherOp nm no ni nc se) args"
    and r: "fold_op s T (OtherOp nm no ni nc se) args = Inr r"
  shows "sound_post s M T (OtherOp nm no ni nc se) args r"
proof -
  let ?op = "OtherOp nm no ni nc se" and ?args = "copy_propagate T (OtherOp nm no ni nc se) args"
  have len: "length args = no + ni + nc" and tm: "\<And>a. a \<in> set (take (no + ni) args) \<Longrightarrow> is_temp s a"
    using wt by auto
  have ins: "is_temp s a" if "a \<in> set (take ni (drop no args))" for a
    using that tm [of a] by (auto simp: take_add)
  have outs: "is_temp s a" if "a \<in> set (take no args)" for a
    using that tm [of a] by (auto simp: take_add)
  have parts: "take no ?args = take no args" "drop (no + ni) ?args = drop (no + ni) args"
    "length ?args = length args"
    "take ni (drop no ?args) = (if se then take ni (drop no args) else map (propagate_arg T) (take ni (drop no args)))"
    using len by (simp_all add: copy_propagate_def)
  have rds: "map (rd s \<sigma>) (take ni (drop no ?args)) = map (rd s \<sigma>) (take ni (drop no args))"
    if "facts_hold s T \<sigma>" for \<sigma>
    unfolding parts(4) using propagate_arg_ok [OF ok that] ins by auto
  have ex: "exec_op s M ?op ?args \<sigma> w = exec_op s M ?op args \<sigma> w" if "facts_hold s T \<sigma>" for \<sigma> w
    using rds [OF that] by (simp only: exec_op.simps parts)
  have "take (no + ni) ?args = take no ?args @ take ni (drop no ?args)" by (simp add: take_add)
  then have wt': "wt_op s ?op ?args"
    using len parts ins outs propagate_arg_temp(1) [OF ok] by (auto split: if_splits)
  obtain T' where T': "reset_temps s (map unat (take no args)) T = Inr T'" "r = (?op, ?args, T')"
    using r by (auto simp: rest_switch parts(1))
  have "\<forall>t \<in> set (map unat (take no args)). t < nb_temps s" using outs by (auto simp: is_temp_def)
  note wf = write_facts [OF ctx ok this T'(1)]
  have "facts_hold s T' \<sigma>1" if "facts_hold s T \<sigma>" "exec_op s M ?op args \<sigma> w = Next \<sigma>1 w1" for \<sigma> w \<sigma>1 w1
    using that(2) wf(2) [OF that(1)] by (auto simp: Let_def split_beta split: if_splits)
  with wf(1) wt' parts(3) ex show ?thesis
    unfolding sound_post_def T'(2) by (auto simp del: exec_op.simps wt_op.simps)
qed

lemma call_sound:
  assumes ctx: "ctx_ok s" and ok: "rings_ok s T" and wt: "wt_op s Call args"
    and r: "fold_op s T Call args = Inr r"
  shows "sound_post s M T Call args r"
proof -
  let ?no = "call_nb_oargs args" and ?na = "call_nb_args args"
  obtain T' where T': "fold_call s T args = Inr T'" "r = (Call, args, T')"
    using r by (auto simp: rest_switch copy_propagate_def)
  obtain T1 where T1: "(if call_pure args then Inr T else reset_temps s [0..<nb_globals s] T) = Inr T1"
    "reset_temps s (map (\<lambda>i. unat (args ! (i + 1))) [0..<?no]) T1 = Inr T'"
    using T'(1) by (auto simp: fold_call_def call_pure_def split: if_splits)
  have gl: "\<forall>t \<in> set [0..<nb_globals s]. t < nb_temps s" using ctx by (auto simp: ctx_ok_def)
  have 1: "rings_ok s T1"
    using T1(1) ok write_facts(1) [OF ctx ok gl] by (auto split: if_splits)
  have 2: "facts_hold s T1 (if call_pure args then \<sigma> else write_temps [0..<nb_globals s] gs \<sigma>)"
    if "facts_hold s T \<sigma>" for \<sigma> gs
    using T1(1) that write_facts(2) [OF ctx ok gl] by (auto split: if_splits)
  have "is_temp s (args ! (i + 1))" if "i < ?no" for i
  proof -
    have "args ! (i + 1) = take ?na (tl args) ! i" "i < length (take ?na (tl args))"
      using that wt by (auto simp: nth_tl)
    then have "args ! (i + 1) \<in> set (take ?na (tl args))" by (metis nth_mem)
    then show ?thesis using wt by auto
  qed
  then have ot: "\<forall>t \<in> set (map (\<lambda>i. unat (args ! (i + 1))) [0..<?no]). t < nb_temps s"
    by (auto simp: is_temp_def)
  note wf = write_facts [OF ctx 1 ot T1(2)]
  have "facts_hold s T' \<sigma>1" if "facts_hold s T \<sigma>" "exec_op s M Call args \<sigma> w = Next \<sigma>1 w1" for \<sigma> w \<sigma>1 w1
    using that(2) wf(2) [OF 2 [OF that(1)]] by (auto simp: exec_call_def Let_def split_beta)
  with wf(1) wt show ?thesis
    unfolding sound_post_def T'(2) by (auto simp del: exec_op.simps wt_op.simps)
qed

lemma clear_ok: "rings_ok s (clear_temps (nb_temps s) T)" "facts_hold s (clear_temps (nb_temps s) T) \<sigma>"
  by (simp_all add: rings_ok_def facts_hold_def clear_temps_def)

lemma jump_sound:
  assumes "wt_op s op args" and "op = SetLabel \<or> op = Jmp \<or> op = Br \<or> (\<exists>wd. op = Brcond wd)"
    and "fold_op s T op args = Inr r"
  shows "r = (op, args, clear_temps (nb_temps s) T)" and "sound_post s M T op args r"
proof -
  show *: "r = (op, args, clear_temps (nb_temps s) T)"
    using assms(2,3) by (auto simp: rest_switch copy_propagate_def)
  show "sound_post s M T op args r"
    unfolding * using assms(1) clear_ok by (simp add: sound_post_def)
qed

lemma nop_sound: "rings_ok s T \<Longrightarrow> wt_op s Nop args \<Longrightarrow> fold_op s T Nop args = Inr r \<Longrightarrow> sound_post s M T Nop args r"
  by (auto simp: rest_switch copy_propagate_def sound_post_def)

theorem fold_op_sound:
  assumes ctx: "ctx_ok s" and ok: "rings_ok s T" and wt: "wt_op s op args"
    and r: "fold_op s T op args = Inr r"
  shows "sound_post s M T op args r"
proof (cases op)
  case Nop
  then show ?thesis using nop_sound ok wt r by blast
next
  case (Mov wd)
  then show ?thesis using mov_sound [OF ctx ok] wt r by blast
next
  case (Movi wd)
  then show ?thesis using movi_sound [OF ctx ok] wt r by blast
next
  case (BinOp b wd)
  then show ?thesis using bin_sound [OF ctx ok] wt r by blast
next
  case Call
  then show ?thesis using call_sound [OF ctx ok] wt r by blast
next
  case (OtherOp nm no ni nc se)
  then show ?thesis using other_sound [OF ctx ok] wt r by blast
qed (use un_ops_sound [OF ctx ok wt _ r] jump_sound(2) [OF wt _ r] in blast)+

end
