(* ===== verification/TcgOptimize.thy ===== *)
theory TcgOptimize
  imports TcgOptSound
begin

text \<open>
  The optimiser on a whole block: when it returns, the in-place rewriting of the argument buffer, and
  the lock-step theorem that relates the runs of the block before and after.
\<close>

section \<open>The block as a list\<close>

fun fold_block :: "TCGContext \<Rightarrow> temps \<Rightarrow> block \<Rightarrow> block result" where
  "fold_block s T [] = Inr []"
| "fold_block s T ((op, args) # p) =
     res_bind (fold_op s T op args) (\<lambda>(op', out, T').
     res_bind (fold_block s T' p) (\<lambda>p'. Inr ((op', out) # p')))"

lemma wt_nargs: "wt_op s op args \<Longrightarrow> op_nargs op (args @ rest) = length args"
  by (cases op) (auto simp: op_nargs_def nb_args_def call_nb_args_def nth_append)

lemma parse_concat:
  assumes "\<forall>(op, args) \<in> set p. wt_op s op args"
  shows "parse_block (map fst p) (concat (map snd p) @ rest) = p"
  using assms
proof (induction p)
  case (Cons x p)
  obtain op args where x: "x = (op, args)" by (cases x)
  then have "op_nargs op (args @ concat (map snd p) @ rest) = length args"
    using Cons.prems by (intro wt_nargs [of s]) simp
  with Cons x show ?case by simp
qed simp

lemma parse_length:
  assumes "\<forall>(op, args) \<in> set (parse_block ops buf). wt_op s op args"
  shows "buf = concat (map snd (parse_block ops buf)) @ drop (length (concat (map snd (parse_block ops buf)))) buf"
  using assms
proof (induction ops arbitrary: buf)
  case (Cons op ops)
  let ?n = "op_nargs op buf"
  have wt: "wt_op s op (take ?n buf)" using Cons.prems by simp
  have n: "length (take ?n buf) = ?n"
    using wt_nargs [OF wt, of "drop ?n buf"] unfolding append_take_drop_id by simp
  have "drop ?n buf = concat (map snd (parse_block ops (drop ?n buf))) @
      drop (length (concat (map snd (parse_block ops (drop ?n buf))))) (drop ?n buf)"
    by (rule Cons.IH) (use Cons.prems in simp)
  then have "buf = take ?n buf @ concat (map snd (parse_block ops (drop ?n buf))) @
      drop (length (concat (map snd (parse_block ops (drop ?n buf))))) (drop ?n buf)"
    by (metis append_take_drop_id)
  with n show ?case by (simp add: add.commute)
qed simp

lemma put_at_drop:
  "g + length out \<le> k \<Longrightarrow> g \<le> length buf \<Longrightarrow> drop k (put_at g out buf) = drop k buf"
  by (simp add: put_at_def)

lemma put_at_take: "g \<le> length buf \<Longrightarrow> take (g + length out) (put_at g out buf) = take g buf @ out"
  by (simp add: put_at_def)

lemma length_put_at: "g + length out \<le> length buf \<Longrightarrow> length (put_at g out buf) = length buf"
  by (simp add: put_at_def)

text \<open>
  The writes at \<^verbatim>\<open>gen_args\<close> never reach arguments that are still to be read.
\<close>

lemma folding_loop_block:
  assumes ctx: "ctx_ok s" and "rings_ok s T" and "g \<le> a" and "a \<le> length buf"
    and "\<forall>(op, args) \<in> set (parse_block ops (drop a buf)). wt_op s op args"
    and "folding_loop s ops a g T buf = Inr (ops', n, buf')"
  shows "\<exists>p'. fold_block s T (parse_block ops (drop a buf)) = Inr p' \<and> map fst p' = ops' \<and>
     n = g + length (concat (map snd p')) \<and> take n buf' = take g buf @ concat (map snd p') \<and>
     n \<le> a + length (concat (map snd (parse_block ops (drop a buf)))) \<and> length buf' = length buf"
  using assms(2-)
proof (induction ops arbitrary: T a g buf ops')
  case Nil
  then show ?case by auto
next
  case (Cons op ops)
  let ?k = "op_nargs op (drop a buf)"
  let ?args = "take ?k (drop a buf)"
  obtain op' out T' ops1 where 1: "a + ?k \<le> length buf" "fold_op s T op ?args = Inr (op', out, T')"
    "folding_loop s ops (a + ?k) (g + length out) T' (put_at g out buf) = Inr (ops1, n, buf')"
    "ops' = op' # ops1"
    using Cons.prems(5) by (auto simp: Let_def)
  have wt: "wt_op s op ?args" using Cons.prems(4) by simp
  have post: "sound_post s undefined T op ?args (op', out, T')"
    by (rule fold_op_sound [OF ctx Cons.prems(1) wt 1(2)])
  then have 2: "rings_ok s T'" "length out \<le> ?k" by (auto simp: sound_post_def)
  have g: "g + length out \<le> a + ?k" "g \<le> length buf" using Cons.prems(2,3) 2(2) by simp_all
  have dr: "drop (a + ?k) (put_at g out buf) = drop (a + ?k) buf"
    using g by (rule put_at_drop)
  have ln: "length (put_at g out buf) = length buf" using g 1(1) by (intro length_put_at) simp
  have "\<exists>p'. fold_block s T' (parse_block ops (drop (a + ?k) (put_at g out buf))) = Inr p' \<and>
     map fst p' = ops1 \<and> n = g + length out + length (concat (map snd p')) \<and>
     take n buf' = take (g + length out) (put_at g out buf) @ concat (map snd p') \<and>
     n \<le> a + ?k + length (concat (map snd (parse_block ops (drop (a + ?k) (put_at g out buf))))) \<and>
     length buf' = length (put_at g out buf)"
    by (rule Cons.IH [OF 2(1) g(1) _ _ 1(3)]) (use Cons.prems(4) 1(1) dr ln in \<open>simp_all add: add.commute\<close>)
  then obtain p' where p': "fold_block s T' (parse_block ops (drop (a + ?k) buf)) = Inr p'"
    "map fst p' = ops1" "n = g + length out + length (concat (map snd p'))"
    "take n buf' = take g buf @ out @ concat (map snd p')"
    "n \<le> a + ?k + length (concat (map snd (parse_block ops (drop (a + ?k) buf))))"
    "length buf' = length buf"
    unfolding dr ln put_at_take [OF g(2)] by auto
  have "fold_block s T (parse_block (op # ops) (drop a buf)) = Inr ((op', out) # p')"
    using 1(2) p'(1) by (simp add: add.commute)
  moreover have "length ?args = ?k" using 1(1) by simp
  ultimately show ?case using p' 1(4)
    by (intro exI [of _ "(op', out) # p'"]) (simp add: add.commute)
qed


section \<open>Lock step\<close>

text \<open>\<open>Ts\<close> lists the states of the analysis before each operation and at the end.\<close>

definition step_ok ::
  "TCGContext \<Rightarrow> 'w tcg_sem \<Rightarrow> TCGOpcode \<times> u64 list \<Rightarrow> TCGOpcode \<times> u64 list \<Rightarrow> temps \<Rightarrow> temps \<Rightarrow> bool" where
  "step_ok s M x y T T' \<longleftrightarrow>
     sound_post s M T (fst x) (snd x) (fst y, snd y, T') \<and>
     (fst x = SetLabel \<longleftrightarrow> fst y = SetLabel) \<and>
     (fst x = SetLabel \<longrightarrow> y = x \<and> (\<forall>\<sigma>. facts_hold s T' \<sigma>))"

definition tracked :: "TCGContext \<Rightarrow> 'w tcg_sem \<Rightarrow> block \<Rightarrow> block \<Rightarrow> temps list \<Rightarrow> bool" where
  "tracked s M p p' Ts \<longleftrightarrow>
     length p' = length p \<and> length Ts = Suc (length p) \<and>
     (\<forall>i < length p. step_ok s M (p ! i) (p' ! i) (Ts ! i) (Ts ! Suc i))"

lemma tracked_Cons:
  assumes "step_ok s M x y T (Ts ! 0)" and "tracked s M p p' Ts"
  shows "tracked s M (x # p) (y # p') (T # Ts)"
  using assms unfolding tracked_def by (auto simp: All_less_Suc2)

lemma fold_op_label:
  assumes "wt_op s op args" and "fold_op s T op args = Inr (op', out, T')"
  shows "op = SetLabel \<longleftrightarrow> op' = SetLabel"
    and "op = SetLabel \<Longrightarrow> out = args \<and> (\<forall>\<sigma>. facts_hold s T' \<sigma>)"
proof -
  show "op = SetLabel \<Longrightarrow> out = args \<and> (\<forall>\<sigma>. facts_hold s T' \<sigma>)"
    using jump_sound(1) [OF assms(1) _ assms(2)] clear_ok(2) by auto
  have "op = SetLabel \<Longrightarrow> op' = SetLabel" using jump_sound(1) [OF assms(1) _ assms(2)] by auto
  moreover have "op' \<noteq> SetLabel" if "op \<noteq> SetLabel"
    using assms(2) that
    by (cases op) (auto simp: fold_op_rest fold_rest_def gen_mov_op_def op_to_mov_def op_to_movi_def
        fold_movi_def fold_un_def split: if_splits option.splits)
  ultimately show "op = SetLabel \<longleftrightarrow> op' = SetLabel" by blast
qed

lemma fold_block_tracked:
  assumes "ctx_ok s" and "rings_ok s T" and "\<forall>(op, args) \<in> set p. wt_op s op args"
    and "fold_block s T p = Inr p'"
  shows "\<exists>Ts. Ts ! 0 = T \<and> tracked s M p p' Ts \<and> (\<forall>(op, args) \<in> set p'. wt_op s op args)"
  using assms(2-)
proof (induction p arbitrary: T p')
  case Nil
  then show ?case by (intro exI [of _ "[T]"]) (simp add: tracked_def)
next
  case (Cons x p)
  obtain op args where x: "x = (op, args)" by (cases x)
  obtain op' out T' p1 where 1: "fold_op s T op args = Inr (op', out, T')" "fold_block s T' p = Inr p1"
    "p' = (op', out) # p1"
    using Cons.prems(3) x by auto
  have wt: "wt_op s op args" using Cons.prems(2) x by simp
  have post: "sound_post s M T op args (op', out, T')"
    by (rule fold_op_sound [OF assms(1) Cons.prems(1) wt 1(1)])
  then have T': "rings_ok s T'" "wt_op s op' out" by (auto simp: sound_post_def)
  obtain Ts where Ts: "Ts ! 0 = T'" "tracked s M p p1 Ts" "\<forall>(op, args) \<in> set p1. wt_op s op args"
    using Cons.IH [OF T'(1) _ 1(2)] Cons.prems(2) by auto
  have "step_ok s M x (op', out) T (Ts ! 0)"
    unfolding step_ok_def using post fold_op_label [OF wt 1(1)] Ts(1) x by auto
  from tracked_Cons [OF this Ts(2)] have "tracked s M (x # p) p' (T # Ts)" using 1(3) by simp
  with Ts(3) T'(2) 1(3) show ?case by (intro exI [of _ "T # Ts"]) simp
qed

lemma label_index_same:
  assumes "list_all2 (\<lambda>x y. (fst x = SetLabel \<longleftrightarrow> fst y = SetLabel) \<and> (fst x = SetLabel \<longrightarrow> y = x)) p p'"
  shows "label_index p' l = label_index p l"
  using assms
proof (induction rule: list_all2_induct)
  case (Cons x p y p')
  obtain op a op' b where xy: "x = (op, a)" "y = (op', b)" by (cases x; cases y)
  show ?case
  proof (cases "op = SetLabel")
    case True
    then have "y = x" using Cons.hyps(1) xy by simp
    then show ?thesis using Cons.IH xy by simp
  next
    case False
    then have "op' \<noteq> SetLabel" using Cons.hyps(1) xy by simp
    then show ?thesis using Cons.IH xy False by simp
  qed
qed simp

lemma label_index_tracked:
  assumes "tracked s M p p' Ts"
  shows "label_index p' l = label_index p l"
proof (rule label_index_same)
  show "list_all2 (\<lambda>x y. (fst x = SetLabel \<longleftrightarrow> fst y = SetLabel) \<and> (fst x = SetLabel \<longrightarrow> y = x)) p p'"
    using assms unfolding tracked_def step_ok_def list_all2_conv_all_nth by metis
qed

lemma label_index_label: "label_index p l = Some i \<Longrightarrow> i < length p \<and> fst (p ! i) = SetLabel"
  by (induction p l arbitrary: i rule: label_index.induct) (auto split: if_splits)

definition lock_inv :: "TCGContext \<Rightarrow> block \<Rightarrow> temps list \<Rightarrow> 'w outcome \<Rightarrow> bool" where
  "lock_inv s p Ts out \<longleftrightarrow>
     (\<forall>pc \<sigma> w. out = Running pc \<sigma> w \<longrightarrow> pc < length p \<longrightarrow>
        facts_hold s (Ts ! pc) \<sigma> \<or> fst (p ! pc) = SetLabel)"

definition next_outcome :: "block \<Rightarrow> nat \<Rightarrow> 'w effect \<Rightarrow> 'w outcome" where
  "next_outcome p pc e =
     (case e of
        Next \<sigma> w \<Rightarrow> Running (Suc pc) \<sigma> w
      | Leave \<sigma> w \<Rightarrow> Left \<sigma> w
      | Goto l \<sigma> w \<Rightarrow> (case label_index p l of Some pc' \<Rightarrow> Running pc' \<sigma> w | None \<Rightarrow> Stuck))"

lemma next_lock:
  assumes "\<And>l. label_index p' l = label_index p l" and "eff_agree s e e'"
    and "\<And>\<sigma> w. e = Next \<sigma> w \<Longrightarrow> facts_hold s (Ts ! Suc pc) \<sigma>"
  shows "lock_inv s p Ts (next_outcome p pc e) \<and> out_agree s (next_outcome p pc e) (next_outcome p' pc e')"
  using assms label_index_label [of p]
  by (cases e; cases e') (auto simp: lock_inv_def next_outcome_def split: option.splits)

lemma step_lock:
  assumes tr: "tracked s M p p' Ts" and inv: "lock_inv s p Ts out" and ag: "out_agree s out out'"
  shows "lock_inv s p Ts (step_block s M p out) \<and>
         out_agree s (step_block s M p out) (step_block s M p' out')"
proof (cases out)
  case (Running pc \<sigma> w)
  then obtain \<sigma>' where out': "out' = Running pc \<sigma>' w" "agree s \<sigma> \<sigma>'"
    using ag by (cases out') auto
  have len: "length p' = length p" using tr by (simp add: tracked_def)
  have li: "label_index p' l = label_index p l" for l by (rule label_index_tracked [OF tr])
  show ?thesis
  proof (cases "pc < length p")
    case False
    then show ?thesis using Running out' len by (simp add: lock_inv_def)
  next
    case pc: True
    let ?e = "exec_op s M (fst (p ! pc)) (snd (p ! pc)) \<sigma> w"
    let ?e' = "exec_op s M (fst (p' ! pc)) (snd (p' ! pc)) \<sigma>' w"
    have tp: "sound_post s M (Ts ! pc) (fst (p ! pc)) (snd (p ! pc)) (fst (p' ! pc), snd (p' ! pc), Ts ! Suc pc)"
      "fst (p ! pc) = SetLabel \<Longrightarrow> p' ! pc = p ! pc \<and> (\<forall>\<sigma>. facts_hold s (Ts ! Suc pc) \<sigma>)"
      using tr pc unfolding tracked_def step_ok_def by blast+
    have cong: "eff_agree s (exec_op s M (fst (p' ! pc)) (snd (p' ! pc)) \<sigma> w) ?e'"
      by (rule exec_op_cong [OF out'(2)])
    have "eff_agree s ?e ?e' \<and> (\<forall>\<sigma>1 w1. ?e = Next \<sigma>1 w1 \<longrightarrow> facts_hold s (Ts ! Suc pc) \<sigma>1)"
    proof (cases "fst (p ! pc) = SetLabel")
      case True
      then show ?thesis using tp(2) cong by simp
    next
      case False
      then have "facts_hold s (Ts ! pc) \<sigma>" using inv Running pc by (simp add: lock_inv_def)
      with tp(1) have "eff_agree s ?e (exec_op s M (fst (p' ! pc)) (snd (p' ! pc)) \<sigma> w)"
        "\<forall>\<sigma>1 w1. ?e = Next \<sigma>1 w1 \<longrightarrow> facts_hold s (Ts ! Suc pc) \<sigma>1"
        unfolding sound_post_def by (simp_all del: exec_op.simps)
      with cong show ?thesis by (blast intro: eff_agree_trans)
    qed
    then have e: "eff_agree s ?e ?e'" "\<And>\<sigma>1 w1. ?e = Next \<sigma>1 w1 \<Longrightarrow> facts_hold s (Ts ! Suc pc) \<sigma>1"
      by blast+
    have st: "step_block s M p out = next_outcome p pc ?e" "step_block s M p' out' = next_outcome p' pc ?e'"
      using Running out'(1) pc len by (simp_all add: next_outcome_def)
    show ?thesis unfolding st using e by (rule next_lock [OF li])
  qed
qed (use ag in \<open>cases out'; simp add: lock_inv_def\<close>)+

lemma run_lock:
  assumes "tracked s M p p' Ts" and "facts_hold s (Ts ! 0) \<sigma>"
  shows "out_agree s (run_block s M p n \<sigma> w) (run_block s M p' n \<sigma> w)"
proof -
  have "lock_inv s p Ts ((step_block s M p ^^ n) (Running 0 \<sigma> w)) \<and>
     out_agree s ((step_block s M p ^^ n) (Running 0 \<sigma> w)) ((step_block s M p' ^^ n) (Running 0 \<sigma> w))"
  proof (induction n)
    case 0
    then show ?case using assms(2) by (simp add: lock_inv_def)
  next
    case (Suc n)
    then show ?case
      using step_lock [OF assms(1), of "(step_block s M p ^^ n) (Running 0 \<sigma> w)"
          "(step_block s M p' ^^ n) (Running 0 \<sigma> w)"] by simp
  qed
  then show ?thesis by (simp add: run_block_def)
qed


section \<open>When the optimiser returns\<close>

text \<open>
  The operations that can make the optimiser fail, and how: a shift or rotate, whose folding with a
  constant count out of range is undefined, and an \<^verbatim>\<open>and\<close>/\<^verbatim>\<open>or\<close> of a temporary with itself (the front end emits a
  move for it; the optimiser's assertion fails when that temporary is constant).
\<close>

definition shift_op :: "binop \<Rightarrow> bool" where
  "shift_op b \<longleftrightarrow> b \<in> {OpShl, OpShr, OpSar, OpRotl, OpRotr}"

fun op_fault :: "TCGOpcode \<Rightarrow> u64 list \<Rightarrow> fault \<Rightarrow> bool" where
  "op_fault (BinOp b wd) args e \<longleftrightarrow>
     shift_op b \<and> e = UndefShift \<or> b \<in> {OpAnd, OpOr} \<and> args ! 1 = args ! 2 \<and> e = AssertFail"
| "op_fault op args e \<longleftrightarrow> False"

text \<open>A result, or one of the faults that are allowed\<close>

definition may_fault :: "'a result \<Rightarrow> (fault \<Rightarrow> bool) \<Rightarrow> bool" where
  "may_fault r F \<longleftrightarrow> (case r of Inr x \<Rightarrow> True | Inl e \<Rightarrow> F e)"

lemma may_fault_simps [simp]: "may_fault (Inr x) F" "may_fault (Inl e) F \<longleftrightarrow> F e"
  by (simp_all add: may_fault_def)

lemma may_fault_bind:
  assumes "may_fault m F" "\<And>x. m = Inr x \<Longrightarrow> may_fault (f x) F"
  shows "may_fault (res_bind m f) F"
  using assms by (cases m) auto

lemma may_fault_total: "\<exists>x. r = Inr x \<Longrightarrow> may_fault r F"
  by auto

lemma may_fault_mono: "may_fault r F \<Longrightarrow> (\<And>e. F e \<Longrightarrow> G e) \<Longrightarrow> may_fault r G"
  by (cases r) auto

lemma reset_total:
  "ctx_ok s \<Longrightarrow> rings_ok s T \<Longrightarrow> t < nb_temps s \<Longrightarrow> \<exists>T'. reset_temp s t T = Inr T'"
  using reset_temp_ok by blast

lemma fold_movi_total:
  assumes "ctx_ok s" and "rings_ok s T" and "is_temp s d"
  shows "\<exists>r. fold_movi s T wd d c = Inr r"
proof -
  obtain T' where "reset_temp s (unat d) T = Inr T'"
    using reset_total [OF assms(1,2)] assms(3) by (auto simp: is_temp_def)
  then show ?thesis by (simp add: fold_movi_def tcg_opt_gen_movi_def)
qed

lemma gen_mov_total:
  assumes "ctx_ok s" and "rings_ok s T" and "temp_of s wd d" "temp_of s wd x" and "d \<noteq> x"
    and "\<not> ISCOPY T (unat x)" "\<not> ISCONST T (unat x)"
  shows "\<exists>T'. tcg_opt_gen_mov s (unat d) (unat x) T = Inr T'"
proof -
  have "unat d \<noteq> unat x" using assms(5) by (simp add: word_unat_eq_iff)
  then show ?thesis
    using gen_mov_ok [OF assms(1,2), of "unat d" "unat x"] assms(3,4,6,7) by (auto simp: temp_of_def)
qed

lemma folding_bin_result: "may_fault (do_constant_folding (BinOp b wd) u v) (\<lambda>e. shift_op b \<and> e = UndefShift)"
  by (cases wd) (auto simp: folding_bin_exact_32 folding_bin_exact_64 fold_defined_def shift_op_def)

lemma bin_rest_result:
  assumes ctx: "ctx_ok s" and ok: "rings_ok s T"
    and t: "temp_of s wd d" "temp_of s wd x" "temp_of s wd y" and nc: "\<not> ISCOPY T (unat x)"
  shows "may_fault (fold_rest s T (BinOp b wd) [d, x, y])
    (\<lambda>e. shift_op b \<and> e = UndefShift \<or> b \<in> {OpAnd, OpOr} \<and> x = y \<and> ISCONST T (unat x) \<and> e = AssertFail)" (is "may_fault _ ?F")
proof -
  have d: "is_temp s d" using t(1) by (rule temp_of_is_temp)
  obtain T1 where T1: "reset_temp s (unat d) T = Inr T1"
    using reset_total [OF ctx ok] d by (auto simp: is_temp_def)
  have mvi: "may_fault (fold_movi s T wd d tmp) F" for tmp F by (rule may_fault_total [OF fold_movi_total [OF ctx ok d]])
  have "may_fault (do_constant_folding (BinOp b wd) (arg_val T x) (arg_val T y)) ?F"
    by (rule may_fault_mono [OF folding_bin_result]) simp
  then have "may_fault (res_bind (do_constant_folding (BinOp b wd) (arg_val T x) (arg_val T y)) (\<lambda>tmp. fold_movi s T wd d tmp)) ?F"
    using mvi by (rule may_fault_bind)
  then have sw: "may_fault (fold_switch s T (BinOp b wd) [d, x, y]) ?F" using T1 by simp
  have mv: "may_fault (gen_mov_op s T (BinOp b wd) [d, x, y]) (\<lambda>e. ISCONST T (unat x) \<and> e = AssertFail)" if "d \<noteq> x"
  proof (cases "ISCONST T (unat x)")
    case True
    then show ?thesis by (simp add: gen_mov_op_def tcg_opt_gen_mov_def T1 check_def)
  next
    case False
    then show ?thesis using gen_mov_total [OF ctx ok t(1,2) that nc] by (auto simp: gen_mov_op_def)
  qed
  have z: "may_fault (gen_mov_op s T (BinOp b wd) [d, x, y]) ?F" if "d \<noteq> x" "\<not> ISCONST T (unat x)"
    by (rule may_fault_mono [OF mv [OF that(1)]]) (simp add: that(2))
  have ao: "may_fault (gen_mov_op s T (BinOp b wd) [d, x, y]) ?F" if "d \<noteq> x" "b = OpOr \<or> b = OpAnd" "x = y"
    by (rule may_fault_mono [OF mv [OF that(1)]]) (use that in auto)
  have mi: "\<exists>T'. tcg_opt_gen_movi s (unat d) 0 T = Inr T'" using T1 by (simp add: tcg_opt_gen_movi_def)
  then have "may_fault (simplify s T (BinOp b wd) [d, x, y]) ?F"
    using z ao by (auto simp del: insert_iff simp: arg_state_def)
  then show ?thesis unfolding fold_rest_def
    by (rule may_fault_bind) (use sw in \<open>simp split: option.split del: simplify.simps fold_switch.simps\<close>)
qed

lemma propagate_same_not_const:
  assumes "rings_ok s T" and "is_temp s x" "is_temp s y" and "x \<noteq> y"
    and "propagate_arg T x = propagate_arg T y"
  shows "\<not> ISCONST T (unat (propagate_arg T x))"
proof -
  have "HASCOPY T (unat (arg_val T a))" if "is_temp s a" "arg_state T a = TCG_TEMP_COPY" for a
    using assms(1) that by (simp add: rings_ok_def is_temp_def arg_state_def arg_val_def)
  then show ?thesis using assms(2-) by (auto simp: propagate_arg_def split: if_splits)
qed

lemma fold_un_total:
  assumes "ctx_ok s" and "rings_ok s T" and "is_temp s d"
    and "\<And>v. \<exists>r. do_constant_folding op v 0 = Inr r"
  shows "\<exists>r. fold_un s T op [d, a] = Inr r"
proof -
  obtain tmp where "do_constant_folding op (arg_val T a) 0 = Inr tmp" using assms(4) by blast
  moreover obtain r where "fold_movi s T (op_bits op) d tmp = Inr r"
    using fold_movi_total [OF assms(1-3)] by blast
  moreover obtain T' where "reset_temp s (unat d) T = Inr T'"
    using reset_total [OF assms(1,2)] assms(3) by (auto simp: is_temp_def)
  ultimately show ?thesis by (cases r) (simp add: fold_un_def)
qed

lemma mov_total:
  assumes "ctx_ok s" and ok: "rings_ok s T" and "wt_op s (Mov wd) args"
  shows "\<exists>r. fold_op s T (Mov wd) args = Inr r"
proof -
  obtain d x where a: "args = [d, x]" "temp_of s wd d" "temp_of s wd x" using assms(3) by auto
  let ?x = "propagate_arg T x"
  have t: "temp_of s wd ?x" "\<not> ISCOPY T (unat ?x)"
    using propagate_arg_temp [OF ok] a by (auto dest: temp_of_is_temp)
  obtain r where r: "fold_movi s T wd d (arg_val T ?x) = Inr r"
    using fold_movi_total [OF assms(1) ok temp_of_is_temp [OF a(2)]] by blast
  have "\<exists>r. fold_switch s T (Mov wd) [d, ?x] = Inr r"
  proof (cases "d = ?x \<or> ISCONST T (unat ?x)")
    case True
    with r show ?thesis by (cases r) (auto simp: arg_state_def)
  next
    case False
    then obtain T' where "tcg_opt_gen_mov s (unat d) (unat ?x) T = Inr T'"
      using gen_mov_total [OF assms(1) ok a(2) t(1) _ t(2)] by blast
    with False t(2) show ?thesis by (simp add: arg_state_def)
  qed
  then show ?thesis unfolding a(1) by (simp add: rest_switch copy_propagate_simps del: fold_switch.simps)
qed

lemma bin_result:
  assumes ctx: "ctx_ok s" and ok: "rings_ok s T" and wt: "wt_op s (BinOp b wd) args"
  shows "may_fault (fold_op s T (BinOp b wd) args) (op_fault (BinOp b wd) args)"
proof -
  obtain d x y where a: "args = [d, x, y]" "temp_of s wd d" "temp_of s wd x" "temp_of s wd y"
    using wt by auto
  let ?x = "propagate_arg T x" and ?y = "propagate_arg T y"
  have t: "temp_of s wd ?x" "temp_of s wd ?y" "\<not> ISCOPY T (unat ?x)" "\<not> ISCOPY T (unat ?y)"
    using propagate_arg_temp [OF ok] a by (auto dest: temp_of_is_temp)
  have sm: "x = y" if "?x = ?y" "ISCONST T (unat ?x)"
    using propagate_same_not_const [OF ok _ _ _ that(1)] that(2) a by (auto dest: temp_of_is_temp)
  have "may_fault (fold_rest s T (BinOp b wd) [d, ?x, ?y]) (op_fault (BinOp b wd) args)"
    by (rule may_fault_mono [OF bin_rest_result [OF ctx ok a(2) t(1,2,3)]]) (use sm a(1) in auto)
  moreover have "may_fault (fold_rest s T (BinOp b wd) [d, ?y, ?x]) (op_fault (BinOp b wd) args)"
    by (rule may_fault_mono [OF bin_rest_result [OF ctx ok a(2) t(2,1,4)]]) (use sm a(1) in auto)
  ultimately show ?thesis by (simp add: a(1) fold_op_rest copy_propagate_simps)
qed

lemma call_outs:
  assumes "wt_op s Call args"
  shows "\<forall>t \<in> set (map (\<lambda>i. unat (args ! (i + 1))) [0..<call_nb_oargs args]). t < nb_temps s"
proof -
  have "args ! (i + 1) \<in> set (take (call_nb_args args) (tl args))" if "i < call_nb_oargs args" for i
  proof -
    have "args ! (i + 1) = take (call_nb_args args) (tl args) ! i"
      "i < length (take (call_nb_args args) (tl args))"
      using that assms by (auto simp: nth_tl)
    then show ?thesis by (metis nth_mem)
  qed
  then show ?thesis using assms by (auto simp: is_temp_def)
qed

lemma call_total:
  assumes ctx: "ctx_ok s" and ok: "rings_ok s T" and wt: "wt_op s Call args"
  shows "\<exists>r. fold_op s T Call args = Inr r"
proof -
  have gl: "\<forall>t \<in> set [0..<nb_globals s]. t < nb_temps s" using ctx by (auto simp: ctx_ok_def)
  obtain T1 where T1: "(if args ! (call_nb_args args + 1) AND TCG_CALL_CONST_PURE = 0
      then reset_temps s [0..<nb_globals s] T else Inr T) = Inr T1" "rings_ok s T1"
    using reset_temps_ok [OF ctx ok gl] ok by (metis (full_types))
  obtain T2 where "reset_temps s (map (\<lambda>i. unat (args ! (i + 1))) [0..<call_nb_oargs args]) T1 = Inr T2"
    using reset_temps_ok [OF ctx T1(2) call_outs [OF wt]] by metis
  then have "fold_call s T args = Inr T2" unfolding fold_call_def T1(1) by simp
  then show ?thesis by (simp add: rest_switch copy_propagate_def)
qed

lemma other_total:
  assumes ctx: "ctx_ok s" and ok: "rings_ok s T" and wt: "wt_op s (OtherOp nm no ni nc se) args"
  shows "\<exists>r. fold_op s T (OtherOp nm no ni nc se) args = Inr r"
proof -
  have "\<forall>t \<in> set (map unat (take no args)). t < nb_temps s"
    using wt by (auto simp: is_temp_def take_add)
  then obtain T' where "reset_temps s (map unat (take no args)) T = Inr T'"
    using reset_temps_ok [OF ctx ok] by metis
  moreover have "take no (copy_propagate T (OtherOp nm no ni nc se) args) = take no args"
    using wt by (simp add: copy_propagate_def)
  ultimately show ?thesis by (simp add: rest_switch)
qed

lemma fold_op_result:
  assumes ctx: "ctx_ok s" and ok: "rings_ok s T" and wt: "wt_op s op args"
  shows "may_fault (fold_op s T op args) (op_fault op args)"
proof (cases "\<exists>b wd. op = BinOp b wd")
  case True
  then show ?thesis using bin_result [OF ctx ok] wt by blast
next
  case False
  have "\<exists>r. fold_op s T op args = Inr r"
  proof (cases op)
    case (Movi wd)
    then obtain d v where "args = [d, v]" "is_temp s d" using wt by (auto dest: temp_of_is_temp)
    then show ?thesis using fold_movi_total [OF ctx ok] Movi
      by (simp add: rest_switch copy_propagate_simps)
  next
    case (UnOp u wd)
    then obtain d a where "args = [d, a]" "is_temp s d" using wt by (auto dest: temp_of_is_temp)
    moreover have "\<exists>r. do_constant_folding (UnOp u wd) v 0 = Inr r" for v
      by (cases wd) (simp_all add: folding_un_exact)
    ultimately show ?thesis using fold_un_total [OF ctx ok] UnOp
      by (simp add: rest_switch copy_propagate_simps)
  next
    case Ext32s
    then obtain d a where "args = [d, a]" "is_temp s d" using wt by (auto dest: temp_of_is_temp)
    then show ?thesis using fold_un_total [OF ctx ok, of d Ext32s] Ext32s
      by (simp add: rest_switch copy_propagate_simps do_constant_folding_def)
  next
    case Ext32u
    then obtain d a where "args = [d, a]" "is_temp s d" using wt by (auto dest: temp_of_is_temp)
    then show ?thesis using fold_un_total [OF ctx ok, of d Ext32u] Ext32u
      by (simp add: rest_switch copy_propagate_simps do_constant_folding_def)
  next
    case (Mov wd)
    then show ?thesis using mov_total [OF ctx ok] wt by blast
  next
    case (BinOp b wd)
    then show ?thesis using False by blast
  next
    case Call
    then show ?thesis using call_total [OF ctx ok] wt by blast
  next
    case (OtherOp nm no ni nc se)
    then show ?thesis using other_total [OF ctx ok] wt by blast
  qed (simp_all add: rest_switch)
  then show ?thesis by (rule may_fault_total)
qed

lemma folding_loop_result:
  assumes ctx: "ctx_ok s" and "rings_ok s T" and "g \<le> a" and "a \<le> length buf"
    and "\<forall>(op, args) \<in> set (parse_block ops (drop a buf)). wt_op s op args"
  shows "may_fault (folding_loop s ops a g T buf) (\<lambda>e. \<exists>(op, args) \<in> set (parse_block ops (drop a buf)). op_fault op args e)"
  using assms(2-)
proof (induction ops arbitrary: T a g buf)
  case Nil
  then show ?case by simp
next
  case (Cons op ops)
  let ?k = "op_nargs op (drop a buf)"
  let ?args = "take ?k (drop a buf)"
  let ?F = "\<lambda>e. \<exists>(op, args) \<in> set (parse_block (op # ops) (drop a buf)). op_fault op args e"
  have wt: "wt_op s op ?args" using Cons.prems(4) by simp
  have "length ?args = ?k"
    using wt_nargs [OF wt, of "drop ?k (drop a buf)"] unfolding append_take_drop_id by simp
  then have k: "a + ?k \<le> length buf" using Cons.prems(3) by (simp add: min_def split: if_splits)
  moreover have "a < length buf" if "op = Call" using wt that Cons.prems(3) by (auto simp: not_less)
  ultimately have c: "a < length buf \<or> op \<noteq> Call" by blast
  have r: "may_fault (fold_op s T op ?args) ?F"
    by (rule may_fault_mono [OF fold_op_result [OF ctx Cons.prems(1) wt]]) simp
  show ?case
  proof (cases "fold_op s T op ?args")
    case (Inl e)
    then show ?thesis using c k r by (simp add: Let_def)
  next
    case (Inr q)
    then obtain op' out T' where 1: "fold_op s T op ?args = Inr (op', out, T')" by (cases q) auto
    have "sound_post s undefined T op ?args (op', out, T')"
      by (rule fold_op_sound [OF ctx Cons.prems(1) wt 1])
    then have 2: "rings_ok s T'" "length out \<le> ?k" by (auto simp: sound_post_def)
    have g: "g + length out \<le> a + ?k" "g \<le> length buf" using Cons.prems(2,3) 2(2) by simp_all
    have dr: "drop (a + ?k) (put_at g out buf) = drop (a + ?k) buf" using g by (rule put_at_drop)
    have ln: "length (put_at g out buf) = length buf" using g k by (intro length_put_at) simp
    have "may_fault (folding_loop s ops (a + ?k) (g + length out) T' (put_at g out buf))
        (\<lambda>e. \<exists>(op, args) \<in> set (parse_block ops (drop (a + ?k) (put_at g out buf))). op_fault op args e)"
      by (rule Cons.IH [OF 2(1) g(1)]) (use Cons.prems(4) k dr ln in \<open>simp_all add: add.commute\<close>)
    then have "may_fault (folding_loop s ops (a + ?k) (g + length out) T' (put_at g out buf)) ?F"
      by (rule may_fault_mono) (auto simp: dr add.commute)
    then show ?thesis using c k 1
      by (cases "folding_loop s ops (a + ?k) (g + length out) T' (put_at g out buf)") (auto simp: Let_def)
  qed
qed

lemma optimize_result:
  assumes "ctx_ok s" and "\<forall>(op, args) \<in> set (parse_block ops buf). wt_op s op args"
  shows "may_fault (tcg_optimize s T ops buf) (\<lambda>e. \<exists>(op, args) \<in> set (parse_block ops buf). op_fault op args e)"
proof -
  have "may_fault (folding_loop s ops 0 0 (clear_temps (nb_temps s) T) buf) (\<lambda>e. \<exists>(op, args) \<in> set (parse_block ops (drop 0 buf)). op_fault op args e)"
    by (rule folding_loop_result [OF assms(1) clear_ok(1)]) (use assms(2) in simp_all)
  then show ?thesis by (simp add: tcg_optimize_def tcg_constant_folding_def)
qed

section \<open>Properties\<close>

text \<open>
  C3. The optimiser preserves the meaning of a translation block. Let the block be well-typed. If the
  optimiser returns, the new block has as many operations and occupies no more argument slots, and
  for every meaning of loads, stores, helper calls and conditions, from every start, after every
  number of steps, the old and the new block are at the same operation (or have both left) with the
  same world and the same values in all temporaries.
\<close>

theorem tcg_optimize_preserves:
  assumes "ctx_ok s" and "\<forall>(op, args) \<in> set (parse_block ops buf). wt_op s op args"
    and "tcg_optimize s T ops buf = Inr (ops', n, buf')"
  shows "length ops' = length ops \<and> n \<le> length (concat (map snd (parse_block ops buf))) \<and>
     out_agree s (run_block s M (parse_block ops buf) k \<sigma> w)
                 (run_block s M (parse_block ops' (take n buf')) k \<sigma> w)"
proof -
  let ?T = "clear_temps (nb_temps s) T" and ?p = "parse_block ops buf"
  have fl: "folding_loop s ops 0 0 ?T buf = Inr (ops', n, buf')"
    using assms(3) by (simp add: tcg_optimize_def tcg_constant_folding_def)
  obtain p' where p': "fold_block s ?T ?p = Inr p'" "map fst p' = ops'" "n \<le> length (concat (map snd ?p))"
    "take n buf' = concat (map snd p')"
    using folding_loop_block [OF assms(1) clear_ok(1) _ _ _ fl] assms(2) by auto
  obtain Ts where Ts: "Ts ! 0 = ?T" "tracked s M ?p p' Ts" "\<forall>(op, args) \<in> set p'. wt_op s op args"
    using fold_block_tracked [OF assms(1) clear_ok(1) assms(2) p'(1)] by blast
  have new: "parse_block ops' (take n buf') = p'"
    using parse_concat [OF Ts(3), of "[]"] p'(2,4) by simp
  have "length ?p = length ops" by (induction ops arbitrary: buf) auto
  then have "length ops' = length ops" using Ts(2) p'(2) by (auto simp: tracked_def)
  moreover have "out_agree s (run_block s M ?p k \<sigma> w) (run_block s M p' k \<sigma> w)"
    by (rule run_lock [OF Ts(2)]) (simp add: Ts(1) clear_ok(2))
  ultimately show ?thesis using p'(3) new by simp
qed

text \<open>
  C4. On every well-typed block the optimiser returns, or fails in one of two ways: with an undefined
  shift, and then the block has a shift or a rotate, or with a failed assertion, and then the block has
  an \<^verbatim>\<open>and\<close> or an \<^verbatim>\<open>or\<close> of a temporary with itself. On a block without these it returns: no other assertion
  fails, no argument is read outside the buffer and the walks over the rings of copies end.
\<close>

theorem tcg_optimize_returns:
  assumes "ctx_ok s" and "\<forall>(op, args) \<in> set (parse_block ops buf). wt_op s op args"
  shows "(\<exists>ops' n buf'. tcg_optimize s T ops buf = Inr (ops', n, buf')) \<or>
    tcg_optimize s T ops buf = Inl UndefShift \<and>
      (\<exists>b wd args. (BinOp b wd, args) \<in> set (parse_block ops buf) \<and> b \<in> {OpShl, OpShr, OpSar, OpRotl, OpRotr}) \<or>
    tcg_optimize s T ops buf = Inl AssertFail \<and>
      (\<exists>b wd args. (BinOp b wd, args) \<in> set (parse_block ops buf) \<and> b \<in> {OpAnd, OpOr} \<and> args ! 1 = args ! 2)"
proof (cases "tcg_optimize s T ops buf")
  case (Inl e)
  then obtain op args where op: "(op, args) \<in> set (parse_block ops buf)" "op_fault op args e"
    using optimize_result [OF assms, of T] by auto
  then show ?thesis using Inl by (cases "(op, args, e)" rule: op_fault.cases) (auto simp: shift_op_def)
next
  case (Inr q)
  then show ?thesis by (cases q) auto
qed

text \<open>A block for the witnesses: constants are folded, a copy is propagated, a move is dropped.\<close>

definition ex_ctx :: TCGContext where
  "ex_ctx = \<lparr>nb_temps = 6, nb_globals = 1, temp_local = (\<lambda>_. False), temp_type = (\<lambda>_. I32)\<rparr>"

definition ex_ops :: "TCGOpcode list" where
  "ex_ops = [Movi I32, BinOp OpAdd I32, Mov I32, BinOp OpSub I32, Mov I32, OtherOp ''exit_tb'' 0 0 1 True]"

definition ex_args :: "u64 list" where
  "ex_args = [1, 7, 2, 1, 1, 4, 3, 5, 4, 3, 4, 3, 99]"

definition ex_temps :: temps where
  "ex_temps = (\<lambda>_. \<lparr>ti_state = TCG_TEMP_ANY, prev_copy = 3, next_copy = 9, ti_val = 5\<rparr>)"

lemma ex_parse:
  "parse_block ex_ops ex_args =
     [(Movi I32, [1, 7]), (BinOp OpAdd I32, [2, 1, 1]), (Mov I32, [4, 3]), (BinOp OpSub I32, [5, 4, 3]),
      (Mov I32, [4, 3]), (OtherOp ''exit_tb'' 0 0 1 True, [99])]"
  by (simp add: ex_ops_def ex_args_def op_nargs_def nb_args_def)

lemma ex_ok:
  "ctx_ok ex_ctx"
  "\<forall>(op, args) \<in> set (parse_block ex_ops ex_args). wt_op ex_ctx op args"
  unfolding ex_parse by (simp_all add: ctx_ok_def ex_ctx_def temp_of_def)

lemma ex_returns: "\<exists>ops' n buf'. tcg_optimize ex_ctx ex_temps ex_ops ex_args = Inr (ops', n, buf')"
proof -
  have "\<not> (\<exists>(op, args) \<in> set (parse_block ex_ops ex_args). op_fault op args e)" for e
    unfolding ex_parse by (simp add: shift_op_def)
  then show ?thesis using optimize_result [OF ex_ok, of ex_temps]
    by (cases "tcg_optimize ex_ctx ex_temps ex_ops ex_args") auto
qed

theorem tcg_optimize_preserves_witness:
  "\<exists>ops' n buf'. tcg_optimize ex_ctx ex_temps ex_ops ex_args = Inr (ops', n, buf') \<and>
     length ops' = 6 \<and> n \<le> 13 \<and>
     (\<forall>M k \<sigma> (w :: nat). out_agree ex_ctx (run_block ex_ctx M (parse_block ex_ops ex_args) k \<sigma> w)
        (run_block ex_ctx M (parse_block ops' (take n buf')) k \<sigma> w))"
proof -
  obtain ops' n buf' where r: "tcg_optimize ex_ctx ex_temps ex_ops ex_args = Inr (ops', n, buf')"
    using ex_returns by blast
  note wt = ex_ok(2)
  have "out_agree ex_ctx (run_block ex_ctx M (parse_block ex_ops ex_args) k \<sigma> w)
      (run_block ex_ctx M (parse_block ops' (take n buf')) k \<sigma> w)" for M k \<sigma> and w :: nat
    using tcg_optimize_preserves [OF ex_ok(1) wt r, of M k \<sigma> w] by blast
  moreover have "length ops' = length ex_ops" "n \<le> length (concat (map snd (parse_block ex_ops ex_args)))"
    using tcg_optimize_preserves [OF ex_ok(1) wt r, of "undefined :: nat tcg_sem"] by blast+
  moreover have "length ex_ops = 6" "length (concat (map snd (parse_block ex_ops ex_args))) = 13"
    unfolding ex_parse by (simp_all add: ex_ops_def)
  ultimately show ?thesis using r by auto
qed

theorem tcg_optimize_returns_witness:
  "\<exists>ops' n buf'. tcg_optimize ex_ctx ex_temps ex_ops ex_args = Inr (ops', n, buf')"
proof -
  have "(BinOp b wd, args) \<in> set (parse_block ex_ops ex_args) \<Longrightarrow> b \<in> {OpAdd, OpSub}" for b wd args
    unfolding ex_parse by auto
  then show ?thesis using tcg_optimize_returns [OF ex_ok, of ex_temps] by blast
qed


section \<open>A truncating move\<close>

text \<open>
  The block \<^verbatim>\<open>mov_i64 t2, t1; mov_i32 t3, t1; movi_i64 t1, 0; mov_i64 g0, t2\<close>, whose second operation, a
  \<^verbatim>\<open>tcg_gen_trunc_i64_i32\<close>, is not well-typed: \<open>t3\<close> has 32 bits and \<open>t1\<close> has 64. The optimiser puts \<open>t3\<close>
  into the ring of copies of \<open>t1\<close>, before \<open>t2\<close>; when \<open>t1\<close> is overwritten \<open>t3\<close> becomes the base of the ring, and
  the read of \<open>t2\<close> is replaced by one of \<open>t3\<close>: the upper half is lost.
\<close>

definition tr_ctx :: TCGContext where
  "tr_ctx = \<lparr>nb_temps = 4, nb_globals = 1, temp_local = (\<lambda>_. False), temp_type = (\<lambda>t. if t = 3 then I32 else I64)\<rparr>"

definition tr_ops :: "TCGOpcode list" where
  "tr_ops = [Mov I64, Mov I32, Movi I64, Mov I64]"

definition tr_args :: "u64 \<Rightarrow> u64 list" where
  "tr_args x = [2, 1, 3, 1, 1, 0, 0, x]"

abbreviation ti :: "tcg_temp_state \<Rightarrow> nat \<Rightarrow> nat \<Rightarrow> u64 \<Rightarrow> tcg_temp_info" where
  "ti st p n v \<equiv> \<lparr>ti_state = st, prev_copy = p, next_copy = n, ti_val = v\<rparr>"

lemma tr_parse:
  "parse_block tr_ops (tr_args x) = [(Mov I64, [2, 1]), (Mov I32, [3, 1]), (Movi I64, [1, 0]), (Mov I64, [0, x])]"
  by (simp add: tr_ops_def tr_args_def op_nargs_def nb_args_def)

lemma tr_nb: "nb_temps tr_ctx = 4"
  by (simp add: tr_ctx_def)

lemmas fold_eval = fold_op_def copy_propagate_def propagate_arg_def arg_state_def arg_val_def
  tcg_opt_gen_mov_def reset_temp_def reset_finish_def check_def link_copy_def u16_of_def unlink_def
  fold_movi_def tcg_opt_gen_movi_def Let_def tr_ctx_def fun_eq_iff

lemma tr_copy:
  "T 1 = ti TCG_TEMP_UNDEF 0 0 0 \<Longrightarrow> T 2 = ti TCG_TEMP_UNDEF 0 0 0 \<Longrightarrow>
   fold_op tr_ctx T (Mov I64) [2, 1] = Inr (Mov I64, [2, 1], T(1 := ti TCG_TEMP_HAS_COPY 2 2 0, 2 := ti TCG_TEMP_COPY 1 1 1))"
  by (simp add: fold_eval)

lemma tr_trunc:
  "T 3 = ti TCG_TEMP_UNDEF 0 0 0 \<Longrightarrow> T 1 = ti TCG_TEMP_HAS_COPY 2 2 0 \<Longrightarrow> T 2 = ti TCG_TEMP_COPY 1 1 1 \<Longrightarrow>
   fold_op tr_ctx T (Mov I32) [3, 1] = Inr (Mov I32, [3, 1],
     T(1 := ti TCG_TEMP_HAS_COPY 2 3 0, 2 := ti TCG_TEMP_COPY 3 1 1, 3 := ti TCG_TEMP_COPY 1 2 1))"
  by (simp add: fold_eval)

lemma tr_overwrite:
  "T 1 = ti TCG_TEMP_HAS_COPY 2 3 0 \<Longrightarrow> T 2 = ti TCG_TEMP_COPY 3 1 1 \<Longrightarrow> T 3 = ti TCG_TEMP_COPY 1 2 1 \<Longrightarrow>
   fold_op tr_ctx T (Movi I64) [1, 0] = Inr (Movi I64, [1, 0],
     T(1 := ti TCG_TEMP_CONST 2 3 0, 2 := ti TCG_TEMP_COPY 3 3 3, 3 := ti TCG_TEMP_HAS_COPY 2 2 3))"
  by (simp add: fold_eval eval_nat_numeral)

lemma tr_use:
  "T 2 = ti TCG_TEMP_COPY 3 3 3 \<Longrightarrow> T 3 = ti TCG_TEMP_HAS_COPY 2 2 3 \<Longrightarrow> T 0 = ti TCG_TEMP_UNDEF 0 0 0 \<Longrightarrow>
   fold_op tr_ctx T (Mov I64) [0, 2] = Inr (Mov I64, [0, 3], T(0 := ti TCG_TEMP_ANY 0 0 0))"
  by (simp add: fold_eval)

text \<open>So the requirement that a \<^verbatim>\<open>mov\<close> has operands of its own width cannot be dropped.\<close>

theorem trunc_move_miscompiled:
  "tcg_optimize tr_ctx ex_temps tr_ops (tr_args 2) = Inr (tr_ops, 8, tr_args 3) \<and>
   (\<exists>\<sigma> \<sigma>'. run_block tr_ctx M (parse_block tr_ops (tr_args 2)) 4 (\<lambda>_. 0x100000000) w = Running 4 \<sigma> w \<and>
     run_block tr_ctx M (parse_block tr_ops (tr_args 3)) 4 (\<lambda>_. 0x100000000) w = Running 4 \<sigma>' w \<and>
     \<sigma> 0 = 0x100000000 \<and> \<sigma>' 0 = 0)"
proof
  show "tcg_optimize tr_ctx ex_temps tr_ops (tr_args 2) = Inr (tr_ops, 8, tr_args 3)"
    by (simp add: tcg_optimize_def tcg_constant_folding_def tr_ops_def tr_args_def op_nargs_def nb_args_def check_def
        tr_copy tr_trunc tr_overwrite tr_use put_at_def clear_temps_def Let_def tr_nb)
  have f: "(f ^^ 4) x = f (f (f (f x)))" for f :: "'w outcome \<Rightarrow> 'w outcome" and x by (simp add: eval_nat_numeral)
  show "\<exists>\<sigma> \<sigma>'. run_block tr_ctx M (parse_block tr_ops (tr_args 2)) 4 (\<lambda>_. 0x100000000) w = Running 4 \<sigma> w \<and>
     run_block tr_ctx M (parse_block tr_ops (tr_args 3)) 4 (\<lambda>_. 0x100000000) w = Running 4 \<sigma>' w \<and>
     \<sigma> 0 = 0x100000000 \<and> \<sigma>' 0 = 0"
    unfolding run_block_def f tr_parse by (simp add: rd_def temp_trunc_def tr_ctx_def)
qed

end
