(* ===== verification/TcgLive.thy ===== *)
theory TcgLive
  imports TcgOptimize
begin

text \<open>
  The liveness analysis of the code generator (\<^verbatim>\<open>tcg_liveness_analysis\<close> of \<^verbatim>\<open>tcg/tcg.c\<close>): a backward walk
  over a translation block that removes operations whose results are not needed and tells the
  register allocator which arguments are needed no more. The array \<^verbatim>\<open>dead_temps\<close> is a function from the
  numbers of temporaries. The theory has the definitions, that the analysis returns on well-formed
  blocks, and that the block it leaves behaves as the block it was given.
\<close>

section \<open>Operation properties\<close>

text \<open>
  \<^verbatim>\<open>TCG_OPF_BB_END\<close> and \<^verbatim>\<open>TCG_OPF_CALL_CLOBBER\<close>; \<^verbatim>\<open>TCG_OPF_SIDE_EFFECTS\<close> is \<open>side_effects\<close>, since every
  operation of \<^verbatim>\<open>tcg-opc.h\<close> that clobbers as a call also has side effects.
\<close>

definition bb_end_names :: "string list" where
  "bb_end_names = [''brcond2_i32'', ''exit_tb'', ''goto_tb'']"

definition call_clobber_names :: "string list" where
  "call_clobber_names =
     [''qemu_ld8u'', ''qemu_ld8s'', ''qemu_ld16u'', ''qemu_ld16s'', ''qemu_ld32'', ''qemu_ld32u'', ''qemu_ld32s'', ''qemu_ld64'',
      ''qemu_st8'', ''qemu_st16'', ''qemu_st32'', ''qemu_st64'']"

fun bb_end :: "TCGOpcode \<Rightarrow> bool" where
  "bb_end Jmp \<longleftrightarrow> True"
| "bb_end Br \<longleftrightarrow> True"
| "bb_end (Brcond w) \<longleftrightarrow> True"
| "bb_end (OtherOp nm no ni nc se) \<longleftrightarrow> nm \<in> set bb_end_names"
| "bb_end _ \<longleftrightarrow> False"

fun call_clobber :: "TCGOpcode \<Rightarrow> bool" where
  "call_clobber (OtherOp nm no ni nc se) \<longleftrightarrow> nm \<in> set call_clobber_names"
| "call_clobber _ \<longleftrightarrow> False"

definition TCG_CALL_PURE :: u64 where "TCG_CALL_PURE = 0x10"
definition TCG_CALL_CONST :: u64 where "TCG_CALL_CONST = 0x20"
definition TCG_CALL_DUMMY_ARG :: u64 where "TCG_CALL_DUMMY_ARG = - 1"

section \<open>The analysis\<close>

text \<open>
  \<^verbatim>\<open>dead_args |= (1 << i)\<close> is on 32 bits; an operation has far fewer than 32 inputs and outputs, and
  \<^verbatim>\<open>op_dead_args\<close> keeps the low 16 bits. \<^verbatim>\<open>dead_temps\<close> has \<^verbatim>\<open>nb_temps\<close> entries: an index beyond them is
  \<open>OutOfBounds\<close>.
\<close>

type_synonym dead_temps = "nat \<Rightarrow> bool"

text \<open>
  A \<^verbatim>\<open>nopn\<close> stands in place of an operation with its arguments; the number of arguments, which the code
  reads from the first or the last of them, is also its number of constants here.
\<close>

definition nopn :: "nat \<Rightarrow> TCGOpcode" where
  "nopn n = OtherOp ''nopn'' 0 0 n False"

definition tcg_set_nop :: "u64 list \<Rightarrow> nat \<Rightarrow> TCGOpcode \<times> u64 list" where
  "tcg_set_nop args nargs =
     (if nargs = 0 then (Nop, args)
      else (nopn nargs, args[0 := of_nat nargs, nargs - 1 := of_nat nargs]))"

definition tcg_la_bb_end :: "TCGContext \<Rightarrow> dead_temps \<Rightarrow> dead_temps" where
  "tcg_la_bb_end s dead =
     (\<lambda>t. if t < nb_globals s then False else if t < nb_temps s then \<not> temp_local s t else dead t)"

definition la_globals :: "TCGContext \<Rightarrow> dead_temps \<Rightarrow> dead_temps" where
  "la_globals s dead = (\<lambda>t. if t < nb_globals s then False else dead t)"

fun all_dead :: "TCGContext \<Rightarrow> u64 list \<Rightarrow> dead_temps \<Rightarrow> bool result" where
  "all_dead s [] dead = Inr True"
| "all_dead s (a # as) dead =
     check (unat a < nb_temps s) OutOfBounds (if dead (unat a) then all_dead s as dead else Inr False)"

text \<open>The loops over the output and the input arguments, from argument \<open>i\<close>; \<open>call\<close> for the one that skips dummies\<close>

fun la_outs :: "TCGContext \<Rightarrow> nat \<Rightarrow> u64 list \<Rightarrow> dead_temps \<Rightarrow> u32 \<Rightarrow> (dead_temps \<times> u32) result" where
  "la_outs s i [] dead da = Inr (dead, da)"
| "la_outs s i (a # as) dead da =
     check (unat a < nb_temps s) OutOfBounds
       (la_outs s (Suc i) as (dead(unat a := True)) (if dead (unat a) then da OR push_bit i 1 else da))"

fun la_ins :: "bool \<Rightarrow> TCGContext \<Rightarrow> nat \<Rightarrow> u64 list \<Rightarrow> dead_temps \<Rightarrow> u32 \<Rightarrow> (dead_temps \<times> u32) result" where
  "la_ins call s i [] dead da = Inr (dead, da)"
| "la_ins call s i (a # as) dead da =
     (if call \<and> a = TCG_CALL_DUMMY_ARG then la_ins call s (Suc i) as dead da
      else check (unat a < nb_temps s) OutOfBounds
        (la_ins call s (Suc i) as (dead(unat a := False)) (if dead (unat a) then da OR push_bit i 1 else da)))"

text \<open>
  One operation: what is left of it, its entry of \<^verbatim>\<open>op_dead_args\<close> (16 bits; \<open>None\<close> when it is not written),
  and the temporaries that are dead before it.
\<close>

type_synonym la_result = "TCGOpcode \<times> u64 list \<times> u16 option \<times> dead_temps"

definition la_call :: "TCGContext \<Rightarrow> u64 list \<Rightarrow> dead_temps \<Rightarrow> la_result result" where
  "la_call s args dead =
     (let nargs = length args; ni = unat (args ! 0 AND 0xffff); no = unat (drop_bit 16 (args ! 0));
          call_flags = args ! (no + ni + 1); outs = take no (drop 1 args); ins = take ni (drop (no + 1) args)
      in res_bind (if call_flags AND TCG_CALL_PURE \<noteq> 0 then all_dead s outs dead else Inr False) (\<lambda>remove.
         if remove then (case tcg_set_nop args nargs of (op', args') \<Rightarrow> Inr (op', args', None, dead))
         else res_bind (la_outs s 0 outs dead 0) (\<lambda>(dead1, da).
              let dead2 = (if call_flags AND TCG_CALL_CONST = 0 then la_globals s dead1 else dead1)
              in res_bind (la_ins True s no ins dead2 da) (\<lambda>(dead3, da). Inr (Call, args, Some (ucast da), dead3)))))"

definition la_default :: "TCGContext \<Rightarrow> TCGOpcode \<Rightarrow> u64 list \<Rightarrow> dead_temps \<Rightarrow> la_result result" where
  "la_default s op args dead =
     (let no = nb_oargs op; ni = nb_iargs op; outs = take no args; ins = take ni (drop no args)
      in res_bind (if \<not> side_effects op \<and> no \<noteq> 0 then all_dead s outs dead else Inr False) (\<lambda>remove.
         if remove then (case tcg_set_nop args (nb_args op) of (op', args') \<Rightarrow> Inr (op', args', None, dead))
         else res_bind (la_outs s 0 outs dead 0) (\<lambda>(dead1, da).
              let dead2 = (if bb_end op then tcg_la_bb_end s dead1 else if call_clobber op then la_globals s dead1 else dead1)
              in res_bind (la_ins False s no ins dead2 da) (\<lambda>(dead3, da). Inr (op, args, Some (ucast da), dead3)))))"

fun la_op :: "TCGContext \<Rightarrow> TCGOpcode \<Rightarrow> u64 list \<Rightarrow> dead_temps \<Rightarrow> la_result result" where
  "la_op s Call args dead = la_call s args dead"
| "la_op s SetLabel args dead = Inr (SetLabel, args, None, tcg_la_bb_end s dead)"
| "la_op s (OtherOp nm no ni nc se) args dead =
     (if nm = ''debug_insn_start'' \<or> nm = ''nopn'' then Inr (OtherOp nm no ni nc se, args, None, dead)
      else if nm = ''discard'' then
        check (unat (args ! 0) < nb_temps s) OutOfBounds
          (Inr (OtherOp nm no ni nc se, args, None, dead(unat (args ! 0) := True)))
      else la_default s (OtherOp nm no ni nc se) args dead)"
| "la_op s op args dead = la_default s op args dead"

text \<open>How far \<^verbatim>\<open>args\<close> goes back for an operation: \<^verbatim>\<open>args[-1]\<close> or the number in \<^verbatim>\<open>tcg-opc.h\<close>\<close>

definition la_nargs :: "TCGOpcode \<Rightarrow> u64 list \<Rightarrow> nat \<Rightarrow> nat" where
  "la_nargs op buf a =
     (case op of Call \<Rightarrow> unat (buf ! (a - 1))
      | OtherOp nm no ni nc se \<Rightarrow> if nm = ''nopn'' then unat (buf ! (a - 1)) else nb_args op
      | _ \<Rightarrow> nb_args op)"

definition la_back :: "TCGOpcode \<Rightarrow> bool" where
  "la_back op \<longleftrightarrow> (case op of Call \<Rightarrow> True | OtherOp nm no ni nc se \<Rightarrow> nm = ''nopn'' | _ \<Rightarrow> False)"

text \<open>The loop, on the reversed list of operations\<close>

fun la_loop :: "TCGContext \<Rightarrow> TCGOpcode list \<Rightarrow> nat \<Rightarrow> dead_temps \<Rightarrow> u64 list \<Rightarrow>
    (TCGOpcode list \<times> u16 option list \<times> nat \<times> u64 list) result" where
  "la_loop s [] a dead buf = Inr ([], [], a, buf)"
| "la_loop s (op # ops) a dead buf =
     check (a \<le> length buf \<and> (la_back op \<longrightarrow> 0 < a)) OutOfBounds
     (let n = la_nargs op buf a
      in check (n \<le> a) OutOfBounds
         (res_bind (la_op s op (take n (drop (a - n) buf)) dead) (\<lambda>(op', args', da, dead').
          res_bind (la_loop s ops (a - n) dead' (put_at (a - n) args' buf)) (\<lambda>(ops', das, r).
          Inr (ops' @ [op'], das @ [da], r)))))"

text \<open>
  \<open>n\<close> is \<^verbatim>\<open>gen_opparam_ptr\<close>. The final \<^verbatim>\<open>INDEX_op_end\<close>, on which the analysis does nothing, is not in \<open>ops\<close>.
\<close>

definition tcg_liveness_analysis :: "TCGContext \<Rightarrow> TCGOpcode list \<Rightarrow> nat \<Rightarrow> u64 list \<Rightarrow>
    (TCGOpcode list \<times> u16 option list \<times> u64 list) result" where
  "tcg_liveness_analysis s ops n buf =
     res_bind (la_loop s (rev ops) n (\<lambda>_. True) buf) (\<lambda>(ops', das, a, buf').
       check (a = 0) AbortCall (Inr (ops', das, buf')))"

text \<open>The first part of \<^verbatim>\<open>tcg_gen_code_common\<close>\<close>

definition tcg_gen_ops :: "TCGContext \<Rightarrow> temps \<Rightarrow> TCGOpcode list \<Rightarrow> u64 list \<Rightarrow>
    (TCGOpcode list \<times> u16 option list \<times> nat \<times> u64 list) result" where
  "tcg_gen_ops s T ops buf =
     res_bind (tcg_optimize s T ops buf) (\<lambda>(ops1, n, buf1).
     res_bind (tcg_liveness_analysis s ops1 n buf1) (\<lambda>(ops2, das, buf2). Inr (ops2, das, n, buf2)))"

section \<open>Arguments of an operation\<close>

definition call_nb_iargs :: "u64 list \<Rightarrow> nat" where
  "call_nb_iargs args = unat (args ! 0 AND 0xffff)"

lemma call_nb_args_sum: "call_nb_args args = call_nb_oargs args + call_nb_iargs args"
proof -
  have a: "unat (drop_bit 16 x) < 2 ^ 48" for x :: u64
  proof -
    have "unat x < 2 ^ 64" using unsigned_less [of x] by (simp flip: of_nat_less_iff [where 'a = int])
    then have "unat x div 2 ^ 16 < 2 ^ 48" by simp
    then show ?thesis unfolding unat_drop_bit_eq unfolding drop_bit_eq_div .
  qed
  have b: "unat (x AND 0xffff) < 2 ^ 16" for x :: u64
    using unat_and_mask_less [of x 16] by (simp add: mask_eq_exp_minus_1)
  have "unat (drop_bit 16 (args ! 0)) + unat (args ! 0 AND 0xffff) < 2 ^ 64"
    using a [of "args ! 0"] b [of "args ! 0"] by simp
  then show ?thesis by (simp add: call_nb_args_def call_nb_oargs_def call_nb_iargs_def unat_word_ariths)
qed

fun op_outs :: "TCGOpcode \<Rightarrow> u64 list \<Rightarrow> u64 list" where
  "op_outs Call args = take (call_nb_oargs args) (drop 1 args)"
| "op_outs op args = take (nb_oargs op) args"

fun op_ins :: "TCGOpcode \<Rightarrow> u64 list \<Rightarrow> u64 list" where
  "op_ins Call args = take (call_nb_iargs args) (drop (call_nb_oargs args + 1) args)"
| "op_ins op args = take (nb_iargs op) (drop (nb_oargs op) args)"

text \<open>
  Well-formed for the analysis: well-typed, the arguments of jumps are temporaries, and what
  carries its length at its end carries it right.
\<close>

fun la_wt :: "TCGContext \<Rightarrow> TCGOpcode \<Rightarrow> u64 list \<Rightarrow> bool" where
  "la_wt s Call args \<longleftrightarrow> wt_op s Call args \<and> unat (last args) = length args"
| "la_wt s Jmp args \<longleftrightarrow> length args = 1 \<and> is_temp s (args ! 0)"
| "la_wt s (Brcond w) args \<longleftrightarrow> length args = 4 \<and> is_temp s (args ! 0) \<and> is_temp s (args ! 1)"
| "la_wt s (OtherOp nm no ni nc se) args \<longleftrightarrow>
     wt_op s (OtherOp nm no ni nc se) args \<and>
     (nm = ''nopn'' \<longrightarrow> no = 0 \<and> ni = 0 \<and> 0 < nc \<and> unat (args ! 0) = nc \<and> unat (last args) = nc) \<and>
     (nm = ''debug_insn_start'' \<longrightarrow> no = 0 \<and> ni = 0) \<and>
     (nm = ''discard'' \<longrightarrow> no = 1 \<and> ni = 0 \<and> nc = 0)"
| "la_wt s op args \<longleftrightarrow> wt_op s op args"


lemma la_wt_wt: "la_wt s op args \<Longrightarrow> wt_op s op args"
  by (cases op) (simp_all add: nb_args_def)

lemma la_wt_temps:
  assumes "la_wt s op args"
  shows "\<forall>a \<in> set (op_outs op args). is_temp s a" "\<forall>a \<in> set (op_ins op args). is_temp s a"
proof -
  have "\<forall>a \<in> set (op_outs op args @ op_ins op args). is_temp s a"
  proof (cases op)
    case Call
    have e: "op_outs op args @ op_ins op args = take (call_nb_args args) (drop 1 args)"
      by (simp add: Call call_nb_args_sum take_add)
    show ?thesis using assms unfolding e by (simp add: Call drop_Suc)
  next
    case Jmp
    then show ?thesis using assms by (cases args) auto
  next
    case (Brcond w)
    then obtain a b c d where "args = [a, b, c, d]" using assms by (auto simp: length_Suc_conv eval_nat_numeral)
    then show ?thesis using assms Brcond by simp
  next
    case (OtherOp nm no ni nc se)
    then have "op_outs op args @ op_ins op args = take (no + ni) args" by (simp add: take_add)
    then show ?thesis using assms OtherOp by auto
  qed (use assms in \<open>auto simp: dest: temp_of_is_temp\<close>)
  then show "\<forall>a \<in> set (op_outs op args). is_temp s a" "\<forall>a \<in> set (op_ins op args). is_temp s a" by auto
qed

lemma dummy_no_temp: "ctx_ok s \<Longrightarrow> is_temp s a \<Longrightarrow> a \<noteq> TCG_CALL_DUMMY_ARG"
  by (auto simp: ctx_ok_def is_temp_def TCG_CALL_DUMMY_ARG_def unsigned_minus_1_eq_mask mask_eq_exp_minus_1)

lemma all_dead_eq: "\<forall>a \<in> set as. is_temp s a \<Longrightarrow> all_dead s as D = Inr (\<forall>a \<in> set as. D (unat a))"
  by (induction as) (simp_all add: is_temp_def)

lemma la_outs_eq:
  "\<forall>a \<in> set as. is_temp s a \<Longrightarrow> \<exists>da'. la_outs s i as D da = Inr (\<lambda>t. D t \<or> t \<in> unat ` set as, da')"
proof (induction as arbitrary: i D da)
  case (Cons a as)
  then obtain da' where "la_outs s (Suc i) as (D(unat a := True)) (if D (unat a) then da OR push_bit i 1 else da) =
      Inr (\<lambda>t. (D(unat a := True)) t \<or> t \<in> unat ` set as, da')" by fastforce
  moreover have "(\<lambda>t. (D(unat a := True)) t \<or> t \<in> unat ` set as) = (\<lambda>t. D t \<or> t \<in> unat ` set (a # as))" by auto
  ultimately show ?case using Cons.prems by (simp add: is_temp_def)
qed simp

lemma la_ins_eq:
  assumes "ctx_ok s"
  shows "\<forall>a \<in> set as. is_temp s a \<Longrightarrow> \<exists>da'. la_ins c s i as D da = Inr (\<lambda>t. D t \<and> t \<notin> unat ` set as, da')"
proof (induction as arbitrary: i D da)
  case (Cons a as)
  then obtain da' where "la_ins c s (Suc i) as (D(unat a := False)) (if D (unat a) then da OR push_bit i 1 else da) =
      Inr (\<lambda>t. (D(unat a := False)) t \<and> t \<notin> unat ` set as, da')" by fastforce
  moreover have "(\<lambda>t. (D(unat a := False)) t \<and> t \<notin> unat ` set as) = (\<lambda>t. D t \<and> t \<notin> unat ` set (a # as))" by auto
  ultimately show ?case using Cons.prems dummy_no_temp [OF assms] by (simp add: is_temp_def)
qed simp

section \<open>What the analysis does to one operation\<close>

definition call_flags :: "u64 list \<Rightarrow> u64" where
  "call_flags args = args ! (call_nb_args args + 1)"

definition ends_bb :: "TCGOpcode \<Rightarrow> bool" where
  "ends_bb op \<longleftrightarrow> op = SetLabel \<or> bb_end op"

definition uses_globals :: "TCGOpcode \<Rightarrow> u64 list \<Rightarrow> bool" where
  "uses_globals op args \<longleftrightarrow> call_clobber op \<or> op = Call \<and> call_flags args AND TCG_CALL_CONST = 0"

definition removable :: "TCGOpcode \<Rightarrow> u64 list \<Rightarrow> bool" where
  "removable op args \<longleftrightarrow>
     (if op = Call then call_flags args AND TCG_CALL_PURE \<noteq> 0 else \<not> side_effects op \<and> nb_oargs op \<noteq> 0)"

text \<open>Dead before an operation that is kept, when \<open>D\<close> is dead after it\<close>

definition dead_before :: "TCGContext \<Rightarrow> TCGOpcode \<Rightarrow> u64 list \<Rightarrow> dead_temps \<Rightarrow> dead_temps" where
  "dead_before s op args D =
     (let D1 = (\<lambda>t. D t \<or> t \<in> unat ` set (op_outs op args));
          D2 = (if ends_bb op then tcg_la_bb_end s D1 else if uses_globals op args then la_globals s D1 else D1)
      in (\<lambda>t. D2 t \<and> t \<notin> unat ` set (op_ins op args)))"

lemma la_default_cases:
  assumes ctx: "ctx_ok s" and wt: "la_wt s op args" and "op \<noteq> Call" "op \<noteq> SetLabel"
  shows "(\<exists>da. la_default s op args D = Inr (op, args, da, dead_before s op args D)) \<or>
    removable op args \<and> (\<forall>a \<in> set (op_outs op args). D (unat a)) \<and>
    la_default s op args D = Inr (fst (tcg_set_nop args (length args)), snd (tcg_set_nop args (length args)), None, D)"
proof -
  have io: "op_outs op args = take (nb_oargs op) args" "op_ins op args = take (nb_iargs op) (drop (nb_oargs op) args)"
    using assms(3) by (cases op; simp)+
  have len: "nb_args op = length args"
    using wt_nargs [OF la_wt_wt [OF wt], of "[]"] assms(3) by (simp add: op_nargs_def)
  note t = la_wt_temps [OF wt]
  have u: "uses_globals op args = call_clobber op" "ends_bb op = bb_end op" using assms(3,4) by (simp_all add: uses_globals_def ends_bb_def)
  show ?thesis
  proof (cases "removable op args \<and> (\<forall>a \<in> set (op_outs op args). D (unat a))")
    case True
    then have "la_default s op args D = (case tcg_set_nop args (length args) of (op', args') \<Rightarrow> Inr (op', args', None, D))"
      using t(1) assms(3) unfolding io by (simp add: la_default_def Let_def all_dead_eq removable_def len)
    then show ?thesis using True by (simp add: split_beta)
  next
    case False
    define D1 where "D1 = (\<lambda>t. D t \<or> t \<in> unat ` set (op_outs op args))"
    define D2 where "D2 = (if bb_end op then tcg_la_bb_end s D1 else if call_clobber op then la_globals s D1 else D1)"
    obtain da where o: "la_outs s 0 (op_outs op args) D 0 = Inr (D1, da)" using la_outs_eq [OF t(1)] unfolding D1_def by blast
    obtain da' where i: "la_ins False s (nb_oargs op) (op_ins op args) D2 da = Inr (\<lambda>t. D2 t \<and> t \<notin> unat ` set (op_ins op args), da')"
      using la_ins_eq [OF ctx t(2)] by blast
    have e: "dead_before s op args D = (\<lambda>t. D2 t \<and> t \<notin> unat ` set (op_ins op args))"
      unfolding dead_before_def Let_def u D1_def D2_def ..
    have r: "(if \<not> side_effects op \<and> nb_oargs op \<noteq> 0 then all_dead s (op_outs op args) D else Inr False) = Inr False"
      using False t(1) assms(3) by (auto simp: all_dead_eq removable_def)
    have "la_default s op args D = Inr (op, args, Some (ucast da'), dead_before s op args D)"
      using r o i unfolding e io by (simp add: la_default_def Let_def D2_def)
    then show ?thesis by blast
  qed
qed

lemma la_call_cases:
  assumes ctx: "ctx_ok s" and wt: "la_wt s Call args"
  shows "(\<exists>da. la_call s args D = Inr (Call, args, da, dead_before s Call args D)) \<or>
    removable Call args \<and> (\<forall>a \<in> set (op_outs Call args). D (unat a)) \<and>
    la_call s args D = Inr (fst (tcg_set_nop args (length args)), snd (tcg_set_nop args (length args)), None, D)"
proof -
  note t = la_wt_temps [OF wt]
  have fl: "args ! (unat (drop_bit 16 (args ! 0)) + unat (args ! 0 AND 0xffff) + 1) = call_flags args"
    by (simp add: call_flags_def call_nb_args_sum call_nb_oargs_def call_nb_iargs_def)
  have io: "op_outs Call args = take (unat (drop_bit 16 (args ! 0))) (drop 1 args)"
    "op_ins Call args = take (unat (args ! 0 AND 0xffff)) (drop (unat (drop_bit 16 (args ! 0)) + 1) args)"
    by (simp_all add: call_nb_oargs_def call_nb_iargs_def)
  have u: "uses_globals Call args \<longleftrightarrow> call_flags args AND TCG_CALL_CONST = 0" "\<not> ends_bb Call"
    "removable Call args \<longleftrightarrow> call_flags args AND TCG_CALL_PURE \<noteq> 0"
    by (simp_all add: uses_globals_def ends_bb_def removable_def)
  show ?thesis
  proof (cases "removable Call args \<and> (\<forall>a \<in> set (op_outs Call args). D (unat a))")
    case True
    then have "la_call s args D = (case tcg_set_nop args (length args) of (op', args') \<Rightarrow> Inr (op', args', None, D))"
      using t(1) unfolding io u by (simp only: la_call_def Let_def fl all_dead_eq) simp
    then show ?thesis using True by (simp add: split_beta)
  next
    case False
    define D1 where "D1 = (\<lambda>t. D t \<or> t \<in> unat ` set (op_outs Call args))"
    define D2 where "D2 = (if call_flags args AND TCG_CALL_CONST = 0 then la_globals s D1 else D1)"
    obtain da where o: "la_outs s 0 (op_outs Call args) D 0 = Inr (D1, da)" using la_outs_eq [OF t(1)] unfolding D1_def by blast
    obtain da' where i: "la_ins True s (unat (drop_bit 16 (args ! 0))) (op_ins Call args) D2 da =
        Inr (\<lambda>t. D2 t \<and> t \<notin> unat ` set (op_ins Call args), da')"
      using la_ins_eq [OF ctx t(2)] by blast
    have e: "dead_before s Call args D = (\<lambda>t. D2 t \<and> t \<notin> unat ` set (op_ins Call args))"
      using u(2) unfolding dead_before_def Let_def u(1) D1_def D2_def by simp
    have r: "(if call_flags args AND TCG_CALL_PURE \<noteq> 0 then all_dead s (op_outs Call args) D else Inr False) = Inr False"
      using False t(1) unfolding u by (simp only: all_dead_eq) auto
    have "la_call s args D = Inr (Call, args, Some (ucast da'), dead_before s Call args D)"
      unfolding la_call_def Let_def fl io [symmetric] r e using o i by (simp add: D2_def del: op_outs.simps op_ins.simps)
    then show ?thesis by blast
  qed
qed

lemma la_op_cases:
  assumes ctx: "ctx_ok s" and wt: "la_wt s op args"
  shows "(\<exists>da. la_op s op args D = Inr (op, args, da, dead_before s op args D)) \<or>
    removable op args \<and> (\<forall>a \<in> set (op_outs op args). D (unat a)) \<and>
    la_op s op args D = Inr (fst (tcg_set_nop args (length args)), snd (tcg_set_nop args (length args)), None, D)"
proof (cases op)
  case Call
  then show ?thesis using la_call_cases [OF ctx] wt by simp
next
  case SetLabel
  have "tcg_la_bb_end s (\<lambda>t. D t \<or> t \<in> {}) = tcg_la_bb_end s D" by simp
  then show ?thesis using SetLabel by (simp add: dead_before_def ends_bb_def)
next
  case (OtherOp nm no ni nc se)
  have d: "(\<exists>da. la_default s op args D = Inr (op, args, da, dead_before s op args D)) \<or>
    removable op args \<and> (\<forall>a \<in> set (op_outs op args). D (unat a)) \<and>
    la_default s op args D = Inr (fst (tcg_set_nop args (length args)), snd (tcg_set_nop args (length args)), None, D)"
    by (rule la_default_cases [OF ctx wt]) (simp_all add: OtherOp)
  show ?thesis
  proof (cases "nm = ''debug_insn_start'' \<or> nm = ''nopn''")
    case True
    then have "dead_before s op args D = D" using wt OtherOp
      by (auto simp: dead_before_def ends_bb_def uses_globals_def bb_end_names_def call_clobber_names_def)
    then show ?thesis using True OtherOp by simp
  next
    case n: False
    show ?thesis
    proof (cases "nm = ''discard''")
      case True
      then obtain a where a: "args = [a]" "is_temp s a" "no = 1" "ni = 0" using wt OtherOp by (auto simp: length_Suc_conv)
      have "dead_before s op args D = D(unat a := True)"
        using a True by (auto simp: OtherOp dead_before_def ends_bb_def uses_globals_def bb_end_names_def call_clobber_names_def)
      then show ?thesis using True a OtherOp by (simp add: is_temp_def)
    next
      case False
      then show ?thesis using d n OtherOp by simp
    qed
  qed
qed (use la_default_cases [OF ctx wt, of D] in simp_all)

end
