(* ===== verification/TcgLiveSound.thy ===== *)
theory TcgLiveSound
  imports TcgLive
begin

text \<open>
  The liveness analysis is sound: in a block in which every temporary that is not local is read only
  after a write in the same basic block, removing the operations that the analysis removes does not
  change what the block does to the globals and the world, for every meaning of the operations and
  helpers that keeps to what \<^verbatim>\<open>tcg.h\<close> says about their flags.
\<close>

section \<open>Blocks as lists\<close>

definition la_rel :: "TCGContext \<Rightarrow> block \<Rightarrow> block \<Rightarrow> u16 option list \<Rightarrow> dead_temps list \<Rightarrow> bool" where
  "la_rel s p p' das Ds \<longleftrightarrow> length p' = length p \<and> length das = length p \<and> length Ds = Suc (length p) \<and>
     (\<forall>i < length p. la_op s (fst (p ! i)) (snd (p ! i)) (Ds ! Suc i) = Inr (fst (p' ! i), snd (p' ! i), das ! i, Ds ! i))"

lemma la_rel_snoc:
  assumes "la_rel s p p' das Ds" "la_op s op args D = Inr (op', args', da, Ds ! length p)"
  shows "la_rel s (p @ [(op, args)]) (p' @ [(op', args')]) (das @ [da]) (Ds @ [D])"
  using assms by (auto simp: la_rel_def nth_append less_Suc_eq)

lemma la_rel_drop:
  assumes "la_rel s p p' das Ds" "i \<le> length p"
  shows "la_rel s (drop i p) (drop i p') (drop i das) (drop i Ds)"
  using assms by (auto simp: la_rel_def Suc_diff_le)

lemma la_rel_ConsE:
  assumes "la_rel s ((op, args) # p) p' das Ds"
  obtains op' args' p1 da das1 D Ds1 where "p' = (op', args') # p1" "das = da # das1" "Ds = D # Ds1"
    "la_op s op args (Ds1 ! 0) = Inr (op', args', da, D)" "la_rel s p p1 das1 Ds1"
proof -
  obtain y p1 da das1 D Ds1 where e: "p' = y # p1" "das = da # das1" "Ds = D # Ds1"
    using assms by (cases p'; cases das; cases Ds) (auto simp: la_rel_def)
  have "la_op s op args (Ds1 ! 0) = Inr (fst y, snd y, da, D)" "la_rel s p p1 das1 Ds1"
    using assms unfolding e la_rel_def by (auto simp: All_less_Suc2)
  then show ?thesis using that [of "fst y" "snd y" p1 da das1 D Ds1] e by simp
qed

lemma set_nop_length [simp]: "length (snd (tcg_set_nop args n)) = length args"
  by (simp add: tcg_set_nop_def)

lemma set_nop_cases: "fst (tcg_set_nop args n) = Nop \<and> n = 0 \<or> fst (tcg_set_nop args n) = nopn n"
  by (simp add: tcg_set_nop_def)

lemma la_op_length:
  assumes "ctx_ok s" "la_wt s op args" "la_op s op args D = Inr (op', args', da, D')"
  shows "length args' = length args" "wt_op s op' args'"
proof -
  have n: "wt_op s (fst (tcg_set_nop args (length args))) (snd (tcg_set_nop args (length args)))"
    by (simp add: tcg_set_nop_def nopn_def)
  show "length args' = length args" "wt_op s op' args'"
    using la_op_cases [OF assms(1,2), of D] assms(3) n la_wt_wt [OF assms(2)] by auto
qed

lemma la_nargs_last:
  assumes "la_wt s op args" "a = length c + length args"
  shows "la_nargs op (c @ args @ rest) a = length args" "la_back op \<Longrightarrow> 0 < a"
proof -
  have l: "(c @ args @ rest) ! (a - 1) = last args" if "args \<noteq> []"
    using that assms(2) by (cases args rule: rev_cases) (simp_all add: nth_append)
  have n: "nb_args op = length args" if "op \<noteq> Call"
    using wt_nargs [OF la_wt_wt [OF assms(1)], of "[]"] that by (simp add: op_nargs_def)
  have "args \<noteq> []" if "la_back op" using that assms(1) by (cases op) (auto simp: la_back_def)
  then show "la_back op \<Longrightarrow> 0 < a" using assms(2) by simp
  show "la_nargs op (c @ args @ rest) a = length args"
  proof (cases op)
    case Call
    then show ?thesis using l assms(1) by (simp add: la_nargs_def)
  next
    case (OtherOp nm no ni nc se)
    show ?thesis
    proof (cases "nm = ''nopn''")
      case True
      then show ?thesis using l assms(1) OtherOp by (cases "args = []") (auto simp: la_nargs_def)
    next
      case False
      then show ?thesis using n OtherOp by (simp add: la_nargs_def)
    qed
  qed (use n in \<open>simp_all add: la_nargs_def\<close>)
qed

lemma la_loop_block:
  assumes ctx: "ctx_ok s" and "\<forall>(op, args) \<in> set p. la_wt s op args"
  shows "\<exists>p' das Ds. la_loop s (rev (map fst p)) (length (concat (map snd p))) D (concat (map snd p) @ rest) =
      Inr (map fst p', das, 0, concat (map snd p') @ rest) \<and> la_rel s p p' das Ds \<and> Ds ! length p = D"
  using assms(2)
proof (induction p arbitrary: D rest rule: rev_induct)
  case Nil
  then show ?case by (intro exI [of _ "[]"] exI [of _ "[D]"]) (simp add: la_rel_def)
next
  case (snoc x p)
  obtain op args where x: "x = (op, args)" by (cases x)
  have wt: "la_wt s op args" using snoc.prems x by simp
  obtain op' args' da D' where o: "la_op s op args D = Inr (op', args', da, D')" using la_op_cases [OF ctx wt, of D] by auto
  have len: "length args' = length args" by (rule la_op_length(1) [OF ctx wt o])
  let ?c = "concat (map snd p)"
  obtain p' das Ds where r: "la_loop s (rev (map fst p)) (length ?c) D' (?c @ args' @ rest) = Inr (map fst p', das, 0, concat (map snd p') @ args' @ rest)"
      "la_rel s p p' das Ds" "Ds ! length p = D'"
    using snoc.IH [of D' "args' @ rest"] snoc.prems by auto
  have put: "put_at (length ?c) args' (?c @ args @ rest) = ?c @ args' @ rest" by (simp add: put_at_def len)
  have n: "la_nargs op (?c @ args @ rest) (length ?c + length args) = length args" "la_back op \<Longrightarrow> 0 < length ?c + length args"
    using la_nargs_last [OF wt] by blast+
  have "la_loop s (op # rev (map fst p)) (length ?c + length args) D (?c @ args @ rest) =
      Inr (map fst p' @ [op'], das @ [da], 0, concat (map snd p') @ args' @ rest)"
    using n o r(1) put by (simp add: Let_def)
  moreover have "la_rel s (p @ [x]) (p' @ [(op', args')]) (das @ [da]) (Ds @ [D])"
    unfolding x by (rule la_rel_snoc [OF r(2)]) (use o r(3) in simp)
  moreover have "(Ds @ [D]) ! length (p @ [x]) = D" using r(2) by (simp add: la_rel_def nth_append)
  ultimately show ?case using x by (intro exI [of _ "p' @ [(op', args')]"] exI [of _ "das @ [da]"] exI [of _ "Ds @ [D]"]) simp
qed

lemma la_block:
  assumes ctx: "ctx_ok s" and wt: "\<forall>(op, args) \<in> set p. la_wt s op args"
  obtains p' das Ds where
    "tcg_liveness_analysis s (map fst p) (length (concat (map snd p))) (concat (map snd p) @ rest) = Inr (map fst p', das, concat (map snd p') @ rest)"
    "la_rel s p p' das Ds" "Ds ! length p = (\<lambda>_. True)" "\<forall>(op, args) \<in> set p'. wt_op s op args"
    "map (length \<circ> snd) p' = map (length \<circ> snd) p"
proof -
  obtain p' das Ds where r: "la_loop s (rev (map fst p)) (length (concat (map snd p))) (\<lambda>_. True) (concat (map snd p) @ rest) =
      Inr (map fst p', das, 0, concat (map snd p') @ rest)" "la_rel s p p' das Ds" "Ds ! length p = (\<lambda>_. True)"
    using la_loop_block [OF assms] by blast
  have o: "wt_op s (fst (p' ! i)) (snd (p' ! i))" "length (snd (p' ! i)) = length (snd (p ! i))" if "i < length p" for i
  proof -
    have "la_wt s (fst (p ! i)) (snd (p ! i))" using wt nth_mem [OF that] by (auto simp: case_prod_unfold)
    then show "wt_op s (fst (p' ! i)) (snd (p' ! i))" "length (snd (p' ! i)) = length (snd (p ! i))"
      using la_op_length [OF ctx] r(2) that unfolding la_rel_def by blast+
  qed
  have len: "length p' = length p" using r(2) by (simp add: la_rel_def)
  have "\<forall>x \<in> set p'. wt_op s (fst x) (snd x)" using o(1) len by (metis in_set_conv_nth)
  then have "\<forall>(op, args) \<in> set p'. wt_op s op args" by (simp add: case_prod_unfold)
  moreover have "map (length \<circ> snd) p' = map (length \<circ> snd) p" using o(2) len by (intro nth_equalityI) simp_all
  moreover have "tcg_liveness_analysis s (map fst p) (length (concat (map snd p))) (concat (map snd p) @ rest) = Inr (map fst p', das, concat (map snd p') @ rest)"
    using r(1) by (simp add: tcg_liveness_analysis_def rev_map)
  ultimately show ?thesis using that r(2,3) by blast
qed

section \<open>What the flags promise\<close>

text \<open>
  The documented meaning of the flags: an operation gives its number of outputs; one without side
  effects leaves the world alone; only an operation that ends a basic block or clobbers as a call
  can leave the block; \<^verbatim>\<open>exit_tb\<close> leaves it. A pure helper leaves the world alone, and a constant helper
  does not read the globals.
\<close>

fun op_documented :: "'w tcg_sem \<Rightarrow> TCGOpcode \<Rightarrow> bool" where
  "op_documented M (OtherOp nm no ni nc se) \<longleftrightarrow>
     (\<forall>ins cs w outs lv w'. op_sem M nm ins cs w = (outs, lv, w') \<longrightarrow>
        length outs = no \<and> (\<not> se \<and> no \<noteq> 0 \<longrightarrow> \<not> lv \<and> w' = w) \<and>
        (lv \<longrightarrow> nm \<in> set bb_end_names \<or> nm \<in> set call_clobber_names) \<and> (nm = ''exit_tb'' \<longrightarrow> lv))"
| "op_documented M op \<longleftrightarrow> True"

definition helpers_documented :: "'w tcg_sem \<Rightarrow> bool" where
  "helpers_documented M \<longleftrightarrow>
     (\<forall>fl ins gs w outs gs' w'. call_sem M fl ins gs w = (outs, gs', w') \<longrightarrow>
        unat (fl ! 1) \<le> length outs + length ins + 3 \<and>
        (fl ! 0 AND TCG_CALL_PURE \<noteq> 0 \<longrightarrow> w' = w) \<and>
        (fl ! 0 AND TCG_CALL_CONST \<noteq> 0 \<longrightarrow> (\<forall>gs2. call_sem M fl ins gs2 w = (outs, gs', w'))))"

definition sem_documented :: "'w tcg_sem \<Rightarrow> block \<Rightarrow> bool" where
  "sem_documented M p \<longleftrightarrow> (\<forall>x \<in> set p. op_documented M (fst x)) \<and> helpers_documented M \<and>
     (\<forall>cs w. op_sem M ''nopn'' [] cs w = ([], False, w))"

section \<open>Agreement on what is live\<close>

definition agree_on :: "TCGContext \<Rightarrow> dead_temps \<Rightarrow> (nat \<Rightarrow> u64) \<Rightarrow> (nat \<Rightarrow> u64) \<Rightarrow> bool" where
  "agree_on s D \<sigma> \<sigma>' \<longleftrightarrow> (\<forall>t < nb_temps s. \<not> D t \<longrightarrow> temp_trunc s t (\<sigma> t) = temp_trunc s t (\<sigma>' t))"

text \<open>Dead at a label, and when the block is left\<close>

definition label_dead :: "TCGContext \<Rightarrow> dead_temps" where
  "label_dead s = tcg_la_bb_end s (\<lambda>_. True)"

definition exit_dead :: "TCGContext \<Rightarrow> dead_temps" where
  "exit_dead s = la_globals s (\<lambda>_. True)"

fun eff_live :: "TCGContext \<Rightarrow> dead_temps \<Rightarrow> 'w effect \<Rightarrow> 'w effect \<Rightarrow> bool" where
  "eff_live s D (Next \<sigma> w) (Next \<sigma>' w') \<longleftrightarrow> agree_on s D \<sigma> \<sigma>' \<and> w = w'"
| "eff_live s D (Goto l \<sigma> w) (Goto l' \<sigma>' w') \<longleftrightarrow> l = l' \<and> agree_on s (label_dead s) \<sigma> \<sigma>' \<and> w = w'"
| "eff_live s D (Leave \<sigma> w) (Leave \<sigma>' w') \<longleftrightarrow> agree_on s (exit_dead s) \<sigma> \<sigma>' \<and> w = w'"
| "eff_live s D _ _ \<longleftrightarrow> False"

lemma agree_on_mono: "agree_on s D \<sigma> \<sigma>' \<Longrightarrow> (\<And>t. t < nb_temps s \<Longrightarrow> D t \<Longrightarrow> D' t) \<Longrightarrow> agree_on s D' \<sigma> \<sigma>'"
  by (auto simp: agree_on_def)

lemma write_temps_same: "length ts \<le> length vs \<Longrightarrow> t \<in> set ts \<Longrightarrow> write_temps ts vs \<sigma> t = write_temps ts vs \<sigma>' t"
proof (induction ts vs \<sigma> arbitrary: \<sigma>' rule: write_temps.induct)
  case (1 u ts v vs \<sigma>)
  show ?case
  proof (cases "t \<in> set ts")
    case True
    then show ?thesis using 1(1) [of "\<sigma>'(u := v)"] 1(2) by (simp add: fun_upd_def)
  qed (use 1(3) in \<open>simp add: write_temps_other\<close>)
qed auto

lemma agree_on_write:
  assumes "length ts \<le> length vs" "agree_on s (\<lambda>t. D t \<or> t \<in> set ts) \<sigma> \<sigma>'"
  shows "agree_on s D (write_temps ts vs \<sigma>) (write_temps ts vs \<sigma>')"
  unfolding agree_on_def
proof (intro allI impI)
  fix t assume t: "t < nb_temps s" "\<not> D t"
  show "temp_trunc s t (write_temps ts vs \<sigma> t) = temp_trunc s t (write_temps ts vs \<sigma>' t)"
  proof (cases "t \<in> set ts")
    case True
    then show ?thesis using write_temps_same [OF assms(1)] by metis
  next
    case False
    then show ?thesis using assms(2) t by (simp add: write_temps_other agree_on_def)
  qed
qed

lemma agree_on_writes: "agree_on s D \<sigma> \<sigma>' \<Longrightarrow> agree_on s D (write_temps ts vs \<sigma>) (write_temps ts vs \<sigma>')"
  by (induction ts vs \<sigma> arbitrary: \<sigma>' rule: write_temps.induct) (auto simp: agree_on_def)

lemma helpers_documentedD:
  assumes "helpers_documented M" "call_sem M fl ins gs w = (outs, gs', w')"
  shows "unat (fl ! 1) \<le> length outs + length ins + 3" "fl ! 0 AND TCG_CALL_PURE \<noteq> 0 \<Longrightarrow> w' = w"
    "fl ! 0 AND TCG_CALL_CONST \<noteq> 0 \<Longrightarrow> call_sem M fl ins gs2 w = (outs, gs', w')"
  using assms unfolding helpers_documented_def by blast+

lemma op_documentedD:
  assumes "op_documented M (OtherOp nm no ni nc se)" "op_sem M nm ins cs w = (outs, lv, w')"
  shows "length outs = no" "\<not> se \<Longrightarrow> no \<noteq> 0 \<Longrightarrow> \<not> lv \<and> w' = w"
    "lv \<Longrightarrow> nm \<in> set bb_end_names \<or> nm \<in> set call_clobber_names" "nm = ''exit_tb'' \<Longrightarrow> lv"
  using assms unfolding op_documented.simps by blast+

text \<open>What agreement before a kept operation gives\<close>

lemma agree_before:
  assumes "agree_on s (dead_before s op args D) \<sigma> \<sigma>'" "la_wt s op args"
  shows "a \<in> set (op_ins op args) \<Longrightarrow> rd s \<sigma> a = rd s \<sigma>' a"
    and "ends_bb op \<Longrightarrow> agree_on s (label_dead s) \<sigma> \<sigma>'"
    and "ends_bb op \<or> uses_globals op args \<Longrightarrow> agree_on s (exit_dead s) \<sigma> \<sigma>'"
    and "(ends_bb op \<Longrightarrow> \<forall>t < nb_temps s. \<not> D t \<longrightarrow> \<not> label_dead s t) \<Longrightarrow>
      agree_on s (\<lambda>t. D t \<or> t \<in> set (map unat (op_outs op args))) \<sigma> \<sigma>'"
proof -
  show "rd s \<sigma> a = rd s \<sigma>' a" if "a \<in> set (op_ins op args)"
    using assms la_wt_temps(2) [OF assms(2)] that by (auto simp: rd_def agree_on_def is_temp_def dead_before_def Let_def)
  show "agree_on s (label_dead s) \<sigma> \<sigma>'" if "ends_bb op"
    by (rule agree_on_mono [OF assms(1)])
      (use that in \<open>auto simp: dead_before_def Let_def label_dead_def tcg_la_bb_end_def split: if_splits\<close>)
  show "agree_on s (exit_dead s) \<sigma> \<sigma>'" if "ends_bb op \<or> uses_globals op args"
    by (rule agree_on_mono [OF assms(1)])
      (use that in \<open>auto simp: dead_before_def Let_def exit_dead_def la_globals_def tcg_la_bb_end_def split: if_splits\<close>)
  show "agree_on s (\<lambda>t. D t \<or> t \<in> set (map unat (op_outs op args))) \<sigma> \<sigma>'"
    if "ends_bb op \<Longrightarrow> \<forall>t < nb_temps s. \<not> D t \<longrightarrow> \<not> label_dead s t"
    by (rule agree_on_mono [OF assms(1)])
      (use that in \<open>auto simp: dead_before_def Let_def la_globals_def label_dead_def tcg_la_bb_end_def split: if_splits\<close>)
qed

section \<open>Kept operations\<close>

lemma exec_call_ins: "map (rd s \<sigma>) (take (call_nb_args args - call_nb_oargs args) (drop (call_nb_oargs args + 1) args)) = map (rd s \<sigma>) (op_ins Call args)"
  by (simp add: call_nb_args_sum)

lemma exec_call_outs:
  assumes "wt_op s Call args"
  shows "map (\<lambda>i. unat (args ! (i + 1))) [0..<call_nb_oargs args] = map unat (op_outs Call args)"
  using assms by (intro nth_equalityI) (auto simp: call_nb_args_sum)

lemma call_tail:
  assumes "la_wt s Call args"
  shows "drop (call_nb_args args + 1) args = [call_flags args, last args]"
proof -
  have l: "length args = call_nb_args args + 3" using assms by simp
  have "drop (call_nb_args args + 1) args = args ! (call_nb_args args + 1) # drop (call_nb_args args + 2) args"
    using Cons_nth_drop_Suc [of "call_nb_args args + 1" args] l by (simp add: numeral_2_eq_2)
  also have "drop (call_nb_args args + 2) args = args ! (call_nb_args args + 2) # drop (call_nb_args args + 3) args"
    using Cons_nth_drop_Suc [of "call_nb_args args + 2" args] l by (simp add: numeral_3_eq_3 numeral_2_eq_2)
  also have "args ! (call_nb_args args + 2) = last args" using l by (subst last_conv_nth) auto
  finally show ?thesis using l by (simp add: call_flags_def)
qed

lemma pure_flags: "call_pure args \<longleftrightarrow> call_flags args AND TCG_CALL_PURE \<noteq> 0 \<or> call_flags args AND TCG_CALL_CONST \<noteq> 0"
  unfolding call_pure_def call_flags_def TCG_CALL_CONST_PURE_def TCG_CALL_PURE_def TCG_CALL_CONST_def bit.conj_disj_distrib or_eq_0_iff
  by blast

text \<open>A helper call: the globals matter unless it is constant.\<close>

lemma call_kept:
  assumes ctx: "ctx_ok s" and wt: "la_wt s Call args" and h: "helpers_documented M" and ag: "agree_on s (dead_before s Call args D) \<sigma> \<sigma>'"
  shows "eff_live s D (exec_op s M Call args \<sigma> w) (exec_op s M Call args \<sigma>' w)"
proof -
  note b = agree_before [OF ag wt]
  have nb: "\<not> ends_bb Call" by (simp add: ends_bb_def)
  define xs where "xs = op_ins Call args"
  define os where "os = map unat (op_outs Call args)"
  define ins where "ins = map (rd s \<sigma>) xs"
  have ins: "map (rd s \<sigma>') xs = ins" unfolding ins_def xs_def using b(1) by (intro map_cong refl) simp
  let ?g = "\<lambda>\<sigma>. map (\<lambda>g. temp_trunc s g (\<sigma> g)) [0..<nb_globals s]" and ?fl = "[call_flags args, last args]"
  obtain outs gs w' where c: "call_sem M ?fl ins (?g \<sigma>) w = (outs, gs, w')" by (metis prod_cases3)
  have l: "length xs = call_nb_iargs args" "length os = call_nb_oargs args" "unat (last args) = call_nb_oargs args + call_nb_iargs args + 3"
    using wt by (simp_all add: call_nb_args_sum xs_def os_def)
  have lo: "length os \<le> length outs" using helpers_documentedD(1) [OF h c] l by (simp add: ins_def)
  have oag: "agree_on s (\<lambda>t. D t \<or> t \<in> set os) \<sigma> \<sigma>'" unfolding os_def by (rule b(4)) (use nb in simp)
  have ex: "exec_op s M Call args \<tau> w = Next (write_temps os x (if call_pure args then \<tau> else write_temps [0..<nb_globals s] g \<tau>)) w1"
    if "call_sem M ?fl ins (?g \<tau>) w = (x, g, w1)" "map (rd s \<tau>) xs = ins" for \<tau> x g w1
    using that unfolding exec_op.simps exec_call_def Let_def exec_call_ins exec_call_outs [OF la_wt_wt [OF wt]] call_tail [OF wt] xs_def [symmetric] os_def [symmetric]
    by simp
  have c': "call_sem M ?fl ins (?g \<sigma>') w = (outs, gs, w')"
  proof (cases "call_flags args AND TCG_CALL_CONST = 0")
    case False
    then show ?thesis using helpers_documentedD(3) [OF h c] by simp
  next
    case True
    then have "agree_on s (exit_dead s) \<sigma> \<sigma>'" by (intro b(3)) (simp add: uses_globals_def)
    then have g: "?g \<sigma>' = ?g \<sigma>" using ctx by (auto simp: agree_on_def exit_dead_def la_globals_def ctx_ok_def)
    show ?thesis unfolding g by (rule c)
  qed
  have e: "exec_op s M Call args \<sigma> w = Next (write_temps os outs (if call_pure args then \<sigma> else write_temps [0..<nb_globals s] gs \<sigma>)) w'"
    by (rule ex [OF c]) (simp add: ins_def)
  have e': "exec_op s M Call args \<sigma>' w = Next (write_temps os outs (if call_pure args then \<sigma>' else write_temps [0..<nb_globals s] gs \<sigma>')) w'"
    by (rule ex [OF c' ins])
  have "agree_on s (\<lambda>t. D t \<or> t \<in> set os) (if call_pure args then \<sigma> else write_temps [0..<nb_globals s] gs \<sigma>)
      (if call_pure args then \<sigma>' else write_temps [0..<nb_globals s] gs \<sigma>')"
    using oag agree_on_writes [OF oag] by simp
  from agree_on_write [OF lo this] show ?thesis unfolding e e' by simp
qed

lemma other_kept:
  assumes wt: "la_wt s op args" and d: "op_documented M op" and op: "op = OtherOp nm no ni nc se"
    and ag: "agree_on s (dead_before s op args D) \<sigma> \<sigma>'"
    and bb: "ends_bb op \<Longrightarrow> \<forall>t < nb_temps s. \<not> D t \<longrightarrow> \<not> label_dead s t"
  shows "eff_live s D (exec_op s M op args \<sigma> w) (exec_op s M op args \<sigma>' w)"
proof -
  note b = agree_before [OF ag wt]
  define os where "os = map unat (op_outs op args)"
  have os: "os = map unat (take no args)" by (simp add: os_def op)
  have ins: "map (rd s \<sigma>') (take ni (drop no args)) = map (rd s \<sigma>) (take ni (drop no args))"
    using b(1) by (intro map_cong refl) (simp add: op)
  obtain outs lv w' where c: "op_sem M nm (map (rd s \<sigma>) (take ni (drop no args))) (drop (no + ni) args) w = (outs, lv, w')" by (metis prod_cases3)
  have doc: "length outs = no" "lv \<Longrightarrow> ends_bb op \<or> uses_globals op args"
    using op_documentedD(1,3) [OF d [unfolded op] c] by (auto simp: op ends_bb_def uses_globals_def)
  have lo: "length os \<le> length outs" by (simp add: os doc)
  have e: "exec_op s M op args \<sigma> w = (if lv then Leave (write_temps os outs \<sigma>) w' else Next (write_temps os outs \<sigma>) w')"
    "exec_op s M op args \<sigma>' w = (if lv then Leave (write_temps os outs \<sigma>') w' else Next (write_temps os outs \<sigma>') w')"
    using c by (simp_all only: op os exec_op.simps Let_def ins prod.case)
  show ?thesis
  proof (cases lv)
    case True
    then show ?thesis using agree_on_writes [OF b(3) [OF doc(2)]] by (simp add: e)
  next
    case False
    have "agree_on s (\<lambda>t. D t \<or> t \<in> set os) \<sigma> \<sigma>'" unfolding os_def by (rule b(4) [OF bb])
    then show ?thesis using agree_on_write [OF lo] False by (simp add: e)
  qed
qed

lemma kept_sound:
  assumes ctx: "ctx_ok s" and wt: "la_wt s op args" and d: "op_documented M op" "helpers_documented M"
    and ag: "agree_on s (dead_before s op args D) \<sigma> \<sigma>'"
    and bb: "ends_bb op \<Longrightarrow> \<forall>t < nb_temps s. \<not> D t \<longrightarrow> \<not> label_dead s t"
  shows "eff_live s D (exec_op s M op args \<sigma> w) (exec_op s M op args \<sigma>' w)"
proof -
  note b = agree_before [OF ag wt]
  have o: "agree_on s (\<lambda>t. D t \<or> t \<in> set (map unat (op_outs op args))) \<sigma> \<sigma>'" by (rule b(4) [OF bb])
  have one: "agree_on s D (\<sigma>(unat a := v)) (\<sigma>'(unat a := v))" if "op_outs op args = [a]" for a v
    using agree_on_write [of "[unat a]" "[v]" s D \<sigma> \<sigma>'] o that by simp
  have none: "agree_on s D \<sigma> \<sigma>'" if "op_outs op args = []" using o that by simp
  show ?thesis
  proof (cases op)
    case Call
    show ?thesis unfolding Call by (rule call_kept [OF ctx _ d(2)]) (use wt ag Call in simp_all)
  next
    case (OtherOp nm no ni nc se)
    show ?thesis by (rule other_kept [OF wt d(1) OtherOp ag bb])
  next
    case (Brcond wd)
    then obtain x y c l where a: "args = [x, y, c, l]" using wt by (auto simp: length_Suc_conv eval_nat_numeral)
    have "rd s \<sigma>' x = rd s \<sigma> x" "rd s \<sigma>' y = rd s \<sigma> y" using b(1) by (simp_all add: Brcond a)
    then show ?thesis using none b(2) by (simp add: Brcond a ends_bb_def)
  qed (use wt b none one in \<open>auto simp: ends_bb_def\<close>)
qed

section \<open>Removed operations\<close>

lemma removed_sound:
  assumes wt: "la_wt s op args" and d: "op_documented M op" "helpers_documented M" and r: "removable op args"
    and dead: "\<forall>a \<in> set (op_outs op args). D (unat a)" and ag: "agree_on s D \<sigma> \<sigma>'"
  obtains \<sigma>1 where "exec_op s M op args \<sigma> w = Next \<sigma>1 w" "agree_on s D \<sigma>1 \<sigma>'"
proof -
  have wr: "agree_on s D (write_temps (map unat (op_outs op args)) vs \<sigma>) \<sigma>'" for vs
    using ag dead by (auto simp: agree_on_def) (subst write_temps_other; auto)
  have one: "agree_on s D (\<sigma>(unat a := v)) \<sigma>'" if "op_outs op args = [a]" for a v
    using wr [of "[v]"] that by simp
  show ?thesis
  proof (cases op)
    case Call
    let ?fl = "[call_flags args, last args]" and ?g = "map (\<lambda>g. temp_trunc s g (\<sigma> g)) [0..<nb_globals s]"
    obtain outs gs w' where c: "call_sem M ?fl (map (rd s \<sigma>) (op_ins Call args)) ?g w = (outs, gs, w')" by (metis prod_cases3)
    have p: "call_flags args AND TCG_CALL_PURE \<noteq> 0" using r Call by (simp add: removable_def)
    then have "w' = w" "call_pure args" using helpers_documentedD(2) [OF d(2) c] by (simp_all add: pure_flags)
    moreover have wt': "la_wt s Call args" using wt Call by simp
    ultimately have "exec_op s M op args \<sigma> w = Next (write_temps (map unat (op_outs op args)) outs \<sigma>) w"
      using c unfolding Call exec_op.simps exec_call_def Let_def exec_call_ins exec_call_outs [OF la_wt_wt [OF wt']] call_tail [OF wt'] by simp
    then show ?thesis by (rule that [OF _ wr])
  next
    case (OtherOp nm no ni nc se)
    obtain outs lv w' where c: "op_sem M nm (map (rd s \<sigma>) (take ni (drop no args))) (drop (no + ni) args) w = (outs, lv, w')" by (metis prod_cases3)
    have "\<not> lv \<and> w' = w" by (rule op_documentedD(2) [OF d(1) [unfolded OtherOp] c]) (use r in \<open>simp_all add: OtherOp removable_def\<close>)
    then have "exec_op s M op args \<sigma> w = Next (write_temps (map unat (op_outs op args)) outs \<sigma>) w" using c by (simp add: OtherOp)
    then show ?thesis by (rule that [OF _ wr])
  qed (use wt r one that in \<open>auto simp: removable_def\<close>)
qed

lemma nop_exec:
  assumes "\<forall>cs w. op_sem M ''nopn'' [] cs w = ([], False, w)"
  shows "exec_op s M (fst (tcg_set_nop args n)) a \<sigma> w = Next \<sigma> w"
  using assms by (simp add: tcg_set_nop_def nopn_def)

section \<open>Temporaries stay in their basic block\<close>

definition plain_temp :: "TCGContext \<Rightarrow> nat \<Rightarrow> bool" where
  "plain_temp s t \<longleftrightarrow> nb_globals s \<le> t \<and> t < nb_temps s \<and> \<not> temp_local s t"

text \<open>\<open>W\<close> are the temporaries that have been written since the start of the basic block.\<close>

fun bb_scoped :: "TCGContext \<Rightarrow> nat set \<Rightarrow> block \<Rightarrow> bool" where
  "bb_scoped s W [] \<longleftrightarrow> True"
| "bb_scoped s W ((op, args) # p) \<longleftrightarrow>
     (\<forall>a \<in> set (op_ins op args). plain_temp s (unat a) \<longrightarrow> unat a \<in> W) \<and>
     bb_scoped s (if ends_bb op then {} else W \<union> unat ` set (op_outs op args)) p"

text \<open>The last operation does not fall through.\<close>

definition exits_block :: "block \<Rightarrow> bool" where
  "exits_block p \<longleftrightarrow> p \<noteq> [] \<and>
     (case fst (last p) of Jmp \<Rightarrow> True | Br \<Rightarrow> True | OtherOp nm no ni nc se \<Rightarrow> nm = ''exit_tb'' | _ \<Rightarrow> False)"

lemma bb_scoped_drop: "bb_scoped s W p \<Longrightarrow> i < length p \<Longrightarrow> ends_bb (fst (p ! i)) \<Longrightarrow> bb_scoped s {} (drop (Suc i) p)"
proof (induction p arbitrary: W i)
  case (Cons x p)
  then show ?case by (cases x; cases i) auto
qed simp

lemma scoped_live:
  assumes "ctx_ok s" "la_rel s p p' das Ds" "Ds ! length p = (\<lambda>_. True)" "\<forall>(op, args) \<in> set p. la_wt s op args"
    "bb_scoped s W p" "plain_temp s t" "\<not> (Ds ! 0) t"
  shows "t \<in> W"
  using assms(2-)
proof (induction p arbitrary: p' das Ds W)
  case (Cons x p)
  obtain op args where x: "x = (op, args)" by (cases x)
  obtain op' args' p1 da das1 D Ds1 where r: "p' = (op', args') # p1" "das = da # das1" "Ds = D # Ds1"
      "la_op s op args (Ds1 ! 0) = Inr (op', args', da, D)" "la_rel s p p1 das1 Ds1"
    using Cons.prems(1) unfolding x by (rule la_rel_ConsE)
  have wt: "la_wt s op args" and wts: "\<forall>(op, args) \<in> set p. la_wt s op args" using Cons.prems(3) x by simp_all
  have e: "Ds1 ! length p = (\<lambda>_. True)" using Cons.prems(2) r(3) by simp
  have sc: "\<forall>a \<in> set (op_ins op args). plain_temp s (unat a) \<longrightarrow> unat a \<in> W"
    "bb_scoped s (if ends_bb op then {} else W \<union> unat ` set (op_outs op args)) p"
    using Cons.prems(4) x by simp_all
  have ih: "\<not> (Ds1 ! 0) t \<Longrightarrow> \<not> ends_bb op \<and> t \<in> W \<union> unat ` set (op_outs op args)"
    using Cons.IH [OF r(5) e wts sc(2) Cons.prems(5)] by (simp split: if_splits)
  have d: "\<not> D t" using Cons.prems(6) r(3) by simp
  from la_op_cases [OF assms(1) wt, of "Ds1 ! 0"] show ?case
  proof (elim disjE exE conjE)
    fix da' assume "la_op s op args (Ds1 ! 0) = Inr (op, args, da', dead_before s op args (Ds1 ! 0))"
    then have "\<not> dead_before s op args (Ds1 ! 0) t" using r(4) d by auto
    then have "t \<in> unat ` set (op_ins op args) \<or> \<not> ends_bb op \<and> \<not> (Ds1 ! 0) t \<and> t \<notin> unat ` set (op_outs op args)"
      using Cons.prems(5) by (auto simp: dead_before_def Let_def tcg_la_bb_end_def la_globals_def plain_temp_def split: if_splits)
    then show ?thesis using sc(1) ih Cons.prems(5) by auto
  next
    assume o: "\<forall>a \<in> set (op_outs op args). (Ds1 ! 0) (unat a)"
      and "la_op s op args (Ds1 ! 0) = Inr (fst (tcg_set_nop args (length args)), snd (tcg_set_nop args (length args)), None, Ds1 ! 0)"
    then have "\<not> (Ds1 ! 0) t" using r(4) d by auto
    then show ?thesis using ih o by auto
  qed
qed simp

lemma bb_end_live:
  assumes "ctx_ok s" "la_rel s p p' das Ds" "Ds ! length p = (\<lambda>_. True)" "\<forall>(op, args) \<in> set p. la_wt s op args"
    "bb_scoped s W p" "i < length p" "ends_bb (fst (p ! i))" "t < nb_temps s" "\<not> (Ds ! Suc i) t"
  shows "\<not> label_dead s t"
proof -
  let ?d = "drop (Suc i)"
  have r: "la_rel s (?d p) (?d p') (?d das) (?d Ds)" by (rule la_rel_drop [OF assms(2)]) (use assms(6) in simp)
  have l: "length Ds = Suc (length p)" using assms(2) by (simp add: la_rel_def)
  have n: "Suc (length p - Suc 0) = length p" using assms(6) by simp
  have z: "?d Ds ! 0 = Ds ! Suc i" "?d Ds ! length (?d p) = Ds ! length p" using l assms(6) by (simp_all add: n)
  have "t \<in> {}" if "plain_temp s t"
    by (rule scoped_live [OF assms(1) r z(2) [unfolded assms(3)] _ bb_scoped_drop [OF assms(5-7)] that, unfolded z(1)])
      (use assms(4,9) in \<open>auto dest: in_set_dropD\<close>)
  then have "\<not> plain_temp s t" by blast
  then show ?thesis using assms(8) by (auto simp: label_dead_def tcg_la_bb_end_def plain_temp_def)
qed

section \<open>Lock step\<close>

fun live_rel :: "TCGContext \<Rightarrow> block \<Rightarrow> dead_temps list \<Rightarrow> 'w outcome \<Rightarrow> 'w outcome \<Rightarrow> bool" where
  "live_rel s p Ds (Running pc \<sigma> w) (Running pc' \<sigma>' w') \<longleftrightarrow> pc = pc' \<and> pc < length p \<and> w = w' \<and> agree_on s (Ds ! pc) \<sigma> \<sigma>'"
| "live_rel s p Ds (Left \<sigma> w) (Left \<sigma>' w') \<longleftrightarrow> w = w' \<and> agree_on s (exit_dead s) \<sigma> \<sigma>'"
| "live_rel s p Ds Stuck Stuck \<longleftrightarrow> True"
| "live_rel s p Ds _ _ \<longleftrightarrow> False"

text \<open>What is seen of a run: where it is, the world, and at the end the globals\<close>

fun same_exit :: "TCGContext \<Rightarrow> 'w outcome \<Rightarrow> 'w outcome \<Rightarrow> bool" where
  "same_exit s (Running pc \<sigma> w) (Running pc' \<sigma>' w') \<longleftrightarrow> pc = pc' \<and> w = w'"
| "same_exit s (Left \<sigma> w) (Left \<sigma>' w') \<longleftrightarrow> w = w' \<and> (\<forall>g < nb_globals s. temp_trunc s g (\<sigma> g) = temp_trunc s g (\<sigma>' g))"
| "same_exit s Stuck Stuck \<longleftrightarrow> True"
| "same_exit s _ _ \<longleftrightarrow> False"

lemma live_same_exit: "ctx_ok s \<Longrightarrow> live_rel s p Ds o1 o2 \<Longrightarrow> same_exit s o1 o2"
  by (cases o1; cases o2) (auto simp: agree_on_def exit_dead_def la_globals_def ctx_ok_def)

lemma la_op_label:
  assumes "ctx_ok s" "la_wt s op args" "la_op s op args D = Inr (op', args', da, D')"
  shows "op = SetLabel \<longleftrightarrow> op' = SetLabel" "op = SetLabel \<Longrightarrow> args' = args"
    "op = SetLabel \<Longrightarrow> t < nb_temps s \<Longrightarrow> \<not> D' t \<Longrightarrow> \<not> label_dead s t"
proof -
  have n: "fst (tcg_set_nop args (length args)) \<noteq> SetLabel" by (simp add: tcg_set_nop_def nopn_def)
  show "op = SetLabel \<longleftrightarrow> op' = SetLabel" using la_op_cases [OF assms(1,2), of D] assms(3) n by (auto simp: removable_def)
  show "op = SetLabel \<Longrightarrow> args' = args" using assms(3) by simp
  show "op = SetLabel \<Longrightarrow> t < nb_temps s \<Longrightarrow> \<not> D' t \<Longrightarrow> \<not> label_dead s t"
    using assms(3) by (auto simp: label_dead_def tcg_la_bb_end_def split: if_splits)
qed

lemma exit_no_next:
  assumes "exits_block p" "op_documented M (fst (last p))"
  shows "exec_op s M (fst (last p)) (snd (last p)) \<sigma> w \<noteq> Next \<sigma>1 w1"
proof (cases "fst (last p)")
  case (OtherOp nm no ni nc se)
  then have nm: "nm = ''exit_tb''" using assms(1) by (simp add: exits_block_def)
  obtain outs lv w' where c: "op_sem M nm (map (rd s \<sigma>) (take ni (drop no (snd (last p))))) (drop (no + ni) (snd (last p))) w = (outs, lv, w')" by (metis prod_cases3)
  have "lv" by (rule op_documentedD(4) [OF assms(2) [unfolded OtherOp] c nm])
  then show ?thesis using c by (simp add: OtherOp)
qed (use assms(1) in \<open>simp_all add: exits_block_def\<close>)

lemma step_live:
  assumes ctx: "ctx_ok s" and r: "la_rel s p p' das Ds" "Ds ! length p = (\<lambda>_. True)" and wt: "\<forall>(op, args) \<in> set p. la_wt s op args"
    and sc: "bb_scoped s {} p" and ex: "exits_block p" and d: "sem_documented M p" and l: "live_rel s p Ds o1 o2"
  shows "live_rel s p Ds (step_block s M p o1) (step_block s M p' o2)"
proof (cases o1)
  case (Running pc \<sigma> w)
  then obtain \<sigma>' where o2: "o2 = Running pc \<sigma>' w" and pc: "pc < length p" and ag: "agree_on s (Ds ! pc) \<sigma> \<sigma>'"
    using l by (cases o2) auto
  have len: "length p' = length p" using r(1) by (simp add: la_rel_def)
  obtain op args op' args' where x: "p ! pc = (op, args)" "p' ! pc = (op', args')" by fastforce
  have o: "la_op s op args (Ds ! Suc pc) = Inr (op', args', das ! pc, Ds ! pc)" using r(1) pc x unfolding la_rel_def by (metis fst_conv snd_conv)
  have w: "la_wt s op args" using wt nth_mem [OF pc] x by auto
  have doc: "op_documented M op" "helpers_documented M" "\<forall>cs w. op_sem M ''nopn'' [] cs w = ([], False, w)"
    using d nth_mem [OF pc] x by (auto simp: sem_documented_def)
  let ?e = "exec_op s M op args \<sigma> w" and ?e' = "exec_op s M op' args' \<sigma>' w"
  have e: "eff_live s (Ds ! Suc pc) ?e ?e'"
    using la_op_cases [OF ctx w, of "Ds ! Suc pc"]
  proof (elim disjE exE conjE)
    fix da assume "la_op s op args (Ds ! Suc pc) = Inr (op, args, da, dead_before s op args (Ds ! Suc pc))"
    then have k: "op' = op" "args' = args" "Ds ! pc = dead_before s op args (Ds ! Suc pc)" using o by auto
    show ?thesis unfolding k(1,2)
      by (rule kept_sound [OF ctx w doc(1,2) ag [unfolded k(3)]]) (use bb_end_live [OF ctx r wt sc pc] x in auto)
  next
    assume rm: "removable op args" "\<forall>a \<in> set (op_outs op args). (Ds ! Suc pc) (unat a)"
      "la_op s op args (Ds ! Suc pc) = Inr (fst (tcg_set_nop args (length args)), snd (tcg_set_nop args (length args)), None, Ds ! Suc pc)"
    then have k: "op' = fst (tcg_set_nop args (length args))" "Ds ! pc = Ds ! Suc pc" using o by auto
    obtain \<sigma>1 where "?e = Next \<sigma>1 w" "agree_on s (Ds ! Suc pc) \<sigma>1 \<sigma>'"
      using removed_sound [OF w doc(1,2) rm(1,2) ag [unfolded k(2)]] by blast
    then show ?thesis using nop_exec [OF doc(3)] by (simp add: k(1))
  qed
  have li: "label_index p' k = label_index p k" for k
  proof (rule label_index_same)
    show "list_all2 (\<lambda>x y. (fst x = SetLabel \<longleftrightarrow> fst y = SetLabel) \<and> (fst x = SetLabel \<longrightarrow> y = x)) p p'"
      unfolding list_all2_conv_all_nth
    proof (intro conjI allI impI)
      fix i assume i: "i < length p"
      have wi: "la_wt s (fst (p ! i)) (snd (p ! i))" using wt nth_mem [OF i] by (auto simp: case_prod_unfold)
      have oi: "la_op s (fst (p ! i)) (snd (p ! i)) (Ds ! Suc i) = Inr (fst (p' ! i), snd (p' ! i), das ! i, Ds ! i)"
        using r(1) i by (simp add: la_rel_def)
      show "(fst (p ! i) = SetLabel) = (fst (p' ! i) = SetLabel)" by (rule la_op_label(1) [OF ctx wi oi])
      show "p' ! i = p ! i" if "fst (p ! i) = SetLabel"
        using la_op_label(1,2) [OF ctx wi oi] that by (simp add: prod_eq_iff)
    qed (simp add: len)
  qed
  have last: "Suc pc < length p" if n: "?e = Next \<sigma>1 w1" for \<sigma>1 w1
  proof (rule ccontr)
    assume "\<not> Suc pc < length p"
    then have that: "Suc pc = length p" using pc by simp
    have "length p - 1 = pc" using that by simp
    then have "last p = (op, args)" using pc x(1) last_conv_nth [of p] by (cases "p = []") simp_all
    then show False using exit_no_next [OF ex, of M s \<sigma> w \<sigma>1 w1] doc(1) n by simp
  qed
  have lab: "k < length p \<and> (agree_on s (label_dead s) \<tau> \<tau>' \<longrightarrow> agree_on s (Ds ! k) \<tau> \<tau>')" if "label_index p n = Some k" for n k \<tau> \<tau>'
  proof -
    have k: "k < length p" "fst (p ! k) = SetLabel" using label_index_label [OF that] by simp_all
    have wk: "la_wt s (fst (p ! k)) (snd (p ! k))" using wt nth_mem [OF k(1)] by (auto simp: case_prod_unfold)
    have ok: "la_op s (fst (p ! k)) (snd (p ! k)) (Ds ! Suc k) = Inr (fst (p' ! k), snd (p' ! k), das ! k, Ds ! k)"
      using r(1) k(1) by (simp add: la_rel_def)
    show ?thesis using la_op_label(3) [OF ctx wk ok k(2)] k(1) by (auto simp: agree_on_def)
  qed
  have st: "step_block s M p o1 = next_outcome p pc ?e" "step_block s M p' o2 = next_outcome p' pc ?e'"
    using Running o2 pc len x by (simp_all add: next_outcome_def)
  show ?thesis unfolding st using e last lab pc li
    by (cases ?e; cases ?e') (auto simp: next_outcome_def split: option.splits)
qed (use l in \<open>cases o2; simp\<close>)+

lemma steps_live:
  assumes ctx: "ctx_ok s" and r: "la_rel s p p' das Ds" "Ds ! length p = (\<lambda>_. True)" and wt: "\<forall>(op, args) \<in> set p. la_wt s op args"
    and sc: "bb_scoped s {} p" and ex: "exits_block p" and d: "sem_documented M p"
    and pc: "pc < length p" and ag: "agree_on s (Ds ! pc) \<sigma> \<sigma>'"
  shows "same_exit s ((step_block s M p ^^ k) (Running pc \<sigma> w)) ((step_block s M p' ^^ k) (Running pc \<sigma>' w))"
proof -
  have "live_rel s p Ds ((step_block s M p ^^ k) (Running pc \<sigma> w)) ((step_block s M p' ^^ k) (Running pc \<sigma>' w))"
  proof (induction k)
    case 0
    then show ?case using pc ag by simp
  next
    case (Suc k)
    then show ?case using step_live [OF ctx r wt sc ex d Suc.IH] by simp
  qed
  then show ?thesis by (rule live_same_exit [OF ctx])
qed

lemma run_live:
  assumes "ctx_ok s" "la_rel s p p' das Ds" "Ds ! length p = (\<lambda>_. True)" "\<forall>(op, args) \<in> set p. la_wt s op args"
    "bb_scoped s {} p" "exits_block p" "sem_documented M p" "agree_on s (Ds ! 0) \<sigma> \<sigma>'"
  shows "same_exit s (run_block s M p k \<sigma> w) (run_block s M p' k \<sigma>' w)"
  unfolding run_block_def by (rule steps_live [OF assms(1-7) _ assms(8)]) (use assms(6) in \<open>simp add: exits_block_def\<close>)

end
