(* ===== verification/TcgScope.thy ===== *)
theory TcgScope
  imports TcgLiveSound
begin

text \<open>
  What the liveness analysis relies on survives the optimiser: well-formed operations, temporaries
  that stay in their basic block, a last operation that leaves, documented flags. The copies that the
  optimiser propagates are always copies within a basic block.
\<close>

section \<open>Copies stay in their basic block\<close>

text \<open>A copy and its representative are both in a set or both outside of it.\<close>

definition homog :: "TCGContext \<Rightarrow> nat set \<Rightarrow> temps \<Rightarrow> bool" where
  "homog s W T \<longleftrightarrow> (\<forall>t < nb_temps s. ISCOPY T t \<longrightarrow> (t \<in> W \<longleftrightarrow> base T t \<in> W))"

lemma homog_empty: "homog s {} T"
  by (simp add: homog_def)

lemma homog_clear: "homog s W (clear_temps (nb_temps s) T)"
  by (simp add: homog_def clear_temps_def)

lemma homog_reset:
  assumes ok: "rings_ok s T" and r: "reset_post s t T T'" and h: "homog s W T" and W: "\<And>u. u \<noteq> t \<Longrightarrow> u \<in> W' \<longleftrightarrow> u \<in> W"
  shows "homog s W' T'"
  unfolding homog_def
proof (intro allI impI)
  fix u assume u: "u < nb_temps s" "ISCOPY T' u"
  define \<sigma> where "\<sigma> = (\<lambda>v. if ISCONST T v then ti_val (T v) else if v \<in> W then 1 else 0 :: u64)"
  have "facts_hold s T \<sigma>" using ok h by (auto simp: facts_hold_def \<sigma>_def rings_ok_def homog_def)
  then have f: "facts_hold s T' \<sigma>" by (rule reset_postD(3) [OF r])
  let ?b = "base T' u"
  have b: "?b < nb_temps s" "HASCOPY T' ?b" using reset_postD(1) [OF r] u by (simp_all add: rings_ok_def)
  have ne: "u \<noteq> t" "?b \<noteq> t" using reset_postD(2) [OF r] u b by auto
  have nc: "\<not> ISCONST T u" "\<not> ISCONST T ?b" using reset_postD(4) [OF r u(1) ne(1)] reset_postD(4) [OF r b(1) ne(2)] u(2) b(2) by simp_all
  have "temp_trunc s u (\<sigma> u) = temp_trunc s u (\<sigma> ?b)" using f u by (simp add: facts_hold_def)
  then have "u \<in> W \<longleftrightarrow> ?b \<in> W" using nc by (auto simp: \<sigma>_def temp_trunc_def split: if_splits)
  then show "u \<in> W' \<longleftrightarrow> ?b \<in> W'" using W ne by simp
qed

lemma homog_reset_temp:
  assumes "ctx_ok s" "rings_ok s T" "t < nb_temps s" "homog s W T" "reset_temp s t T = Inr T'" "\<And>u. u \<noteq> t \<Longrightarrow> u \<in> W' \<longleftrightarrow> u \<in> W"
  shows "homog s W' T'" "rings_ok s T'"
proof -
  obtain T1 where "reset_temp s t T = Inr T1" "reset_post s t T T1" using reset_temp_ok [OF assms(1-3)] by blast
  then have r: "reset_post s t T T'" using assms(5) by simp
  show "homog s W' T'" by (rule homog_reset [OF assms(2) r assms(4,6)])
  show "rings_ok s T'" by (rule reset_postD(1) [OF r])
qed

lemma homog_reset_temps:
  assumes "ctx_ok s" "rings_ok s T" "\<forall>t \<in> set ts. t < nb_temps s" "homog s W T" "reset_temps s ts T = Inr T'"
    "\<And>u. u \<notin> set ts \<Longrightarrow> u \<in> W' \<longleftrightarrow> u \<in> W"
  shows "homog s W' T' \<and> rings_ok s T'"
  using assms(2-)
proof (induction ts arbitrary: T W)
  case Nil
  then have "W' = W" by auto
  then show ?case using Nil by simp
next
  case (Cons t ts)
  obtain T1 where T1: "reset_temp s t T = Inr T1" "reset_temps s ts T1 = Inr T'" using Cons.prems(4) by auto
  let ?W = "if t \<in> W' then insert t W else W - {t}"
  have h: "homog s ?W T1" "rings_ok s T1"
    by (rule homog_reset_temp [OF assms(1) Cons.prems(1) _ Cons.prems(3) T1(1)], use Cons.prems(2) in auto)+
  have "u \<in> W' \<longleftrightarrow> u \<in> ?W" if "u \<notin> set ts" for u
    using Cons.prems(5) [of u] that by (cases "u = t") auto
  then show ?case by (intro Cons.IH [OF h(2) _ h(1) T1(2)]) (use Cons.prems(2) in auto)
qed

lemma homog_movi:
  assumes "ctx_ok s" "rings_ok s T" "d < nb_temps s" "homog s W T" "tcg_opt_gen_movi s d v T = Inr T'" "\<And>u. u \<noteq> d \<Longrightarrow> u \<in> W' \<longleftrightarrow> u \<in> W"
  shows "homog s W' T'"
proof -
  obtain T1 where T1: "reset_temp s d T = Inr T1" "T' = set_val d v (set_state d TCG_TEMP_CONST T1)"
    using assms(5) by (auto simp: tcg_opt_gen_movi_def)
  have "homog s W' T1" by (rule homog_reset_temp(1) [OF assms(1-4) T1(1) assms(6)])
  then show ?thesis by (auto simp: homog_def T1(2))
qed

lemma homog_mov:
  assumes ctx: "ctx_ok s" and ok: "rings_ok s T" and t: "d < nb_temps s" "x < nb_temps s" "d \<noteq> x" and h: "homog s W T"
    and m: "tcg_opt_gen_mov s d x T = Inr T'" and W: "\<And>u. u \<noteq> d \<Longrightarrow> u \<in> W' \<longleftrightarrow> u \<in> W"
    and dx: "nb_globals s \<le> x \<Longrightarrow> nb_globals s \<le> d \<Longrightarrow> temp_local s x = temp_local s d \<Longrightarrow> d \<in> W' \<longleftrightarrow> x \<in> W'"
  shows "homog s W' T'"
proof -
  obtain T1 where T1: "reset_temp s d T = Inr T1" using m by (auto simp: tcg_opt_gen_mov_def)
  have h1: "homog s W' T1" by (rule homog_reset_temp(1) [OF ctx ok t(1) h T1 W])
  have f: "ti_state (link_copy d x T1 u) = (if u = d then TCG_TEMP_COPY else if u = x then TCG_TEMP_HAS_COPY else ti_state (T1 u))"
    "ti_val (link_copy d x T1 u) = (if u = d then of_nat x else ti_val (T1 u))" for u
    using t(3) by (auto simp: link_copy_def Let_def)
  show ?thesis
  proof (cases "nb_globals s \<le> x \<and> nb_globals s \<le> d \<and> temp_local s x = temp_local s d")
    case True
    then have "T' = link_copy d x T1" using m by (simp add: gen_mov_eq [OF T1] split: if_splits)
    then show ?thesis using h1 dx True t ctx by (auto simp: homog_def f)
  next
    case False
    then have "T' = T1" using m by (simp only: gen_mov_eq [OF T1] if_False split: if_splits) auto
    then show ?thesis using h1 by simp
  qed
qed

section \<open>One operation\<close>

definition plain_set :: "TCGContext \<Rightarrow> nat set" where
  "plain_set s = {t. plain_temp s t}"

definition scoped_args :: "TCGContext \<Rightarrow> nat set \<Rightarrow> u64 list \<Rightarrow> bool" where
  "scoped_args s W as \<longleftrightarrow> (\<forall>a \<in> set as. plain_temp s (unat a) \<longrightarrow> unat a \<in> W)"

definition bb_inv :: "TCGContext \<Rightarrow> nat set \<Rightarrow> temps \<Rightarrow> bool" where
  "bb_inv s W T \<longleftrightarrow> homog s (plain_set s) T \<and> homog s (W \<inter> plain_set s) T"

lemma scoped_propagate:
  assumes "rings_ok s T" "bb_inv s W T" "is_temp s a" "scoped_args s W [a]"
  shows "scoped_args s W [propagate_arg T a]"
proof (cases "ISCOPY T (unat a)")
  case True
  have p: "unat a \<in> plain_set s \<longleftrightarrow> base T (unat a) \<in> plain_set s"
    "unat a \<in> W \<inter> plain_set s \<longleftrightarrow> base T (unat a) \<in> W \<inter> plain_set s"
    using assms(2,3) True unfolding bb_inv_def homog_def is_temp_def by blast+
  then show ?thesis using assms(4) True by (auto simp: scoped_args_def propagate_arg_def arg_state_def arg_val_def plain_set_def)
next
  case False
  then show ?thesis using assms(4) by (simp add: propagate_arg_def arg_state_def)
qed

text \<open>
  What one step of the optimiser keeps: \<open>W\<close> is written before the operation, \<open>os\<close> by it.
\<close>

definition scope_post :: "TCGContext \<Rightarrow> nat set \<Rightarrow> TCGOpcode \<Rightarrow> u64 list \<Rightarrow> TCGOpcode \<times> u64 list \<times> temps \<Rightarrow> bool" where
  "scope_post s W op args r \<longleftrightarrow>
     (case r of (op', out, T') \<Rightarrow>
        scoped_args s W (op_ins op' out) \<and> ends_bb op' = ends_bb op \<and>
        (\<forall>t. plain_temp s t \<longrightarrow> t \<in> unat ` set (op_outs op args) \<longrightarrow> t \<in> W \<union> unat ` set (op_outs op' out)) \<and>
        (if ends_bb op then bb_inv s {} T' else bb_inv s (W \<union> unat ` set (op_outs op args)) T'))"

lemma bb_inv_step:
  assumes "bb_inv s W T" "\<And>V V'. homog s V T \<Longrightarrow> (\<And>u. u \<noteq> d \<Longrightarrow> u \<in> V' \<longleftrightarrow> u \<in> V) \<Longrightarrow> homog s V' T'"
  shows "bb_inv s (W \<union> {d}) T'"
  using assms(1) assms(2) [of "plain_set s" "plain_set s"] assms(2) [of "W \<inter> plain_set s" "(W \<union> {d}) \<inter> plain_set s"]
  by (auto simp: bb_inv_def)

lemma bb_inv_same: "bb_inv s W T \<Longrightarrow> plain_temp s d \<longrightarrow> d \<in> W \<Longrightarrow> bb_inv s (W \<union> {d}) T"
proof -
  assume "bb_inv s W T" "plain_temp s d \<longrightarrow> d \<in> W"
  moreover have "(W \<union> {d}) \<inter> plain_set s = W \<inter> plain_set s" using calculation(2) by (auto simp: plain_set_def)
  ultimately show "bb_inv s (W \<union> {d}) T" by (simp add: bb_inv_def)
qed

lemma bb_inv_mov:
  assumes "ctx_ok s" "rings_ok s T" "d < nb_temps s" "x < nb_temps s" "d \<noteq> x" "bb_inv s W T" "tcg_opt_gen_mov s d x T = Inr T'"
    "plain_temp s x \<longrightarrow> x \<in> W"
  shows "bb_inv s (W \<union> {d}) T'"
proof -
  have "homog s (plain_set s) T'"
    by (rule homog_mov [OF assms(1-5) _ assms(7), of "plain_set s"]) (use assms(3,4,6) in \<open>auto simp: bb_inv_def plain_set_def plain_temp_def\<close>)
  moreover have "homog s ((W \<union> {d}) \<inter> plain_set s) T'"
    by (rule homog_mov [OF assms(1-5) _ assms(7), of "W \<inter> plain_set s"])
      (use assms(3,4,6,8) in \<open>auto simp: bb_inv_def plain_set_def plain_temp_def\<close>)
  ultimately show ?thesis by (simp add: bb_inv_def)
qed

lemma bb_inv_movi:
  assumes "ctx_ok s" "rings_ok s T" "d < nb_temps s" "bb_inv s W T" "tcg_opt_gen_movi s d v T = Inr T'"
  shows "bb_inv s (W \<union> {d}) T'"
  by (rule bb_inv_step [OF assms(4)]) (rule homog_movi [OF assms(1-3) _ assms(5)])

lemma bb_inv_reset:
  assumes "ctx_ok s" "rings_ok s T" "d < nb_temps s" "bb_inv s W T" "reset_temp s d T = Inr T'"
  shows "bb_inv s (W \<union> {d}) T'"
  by (rule bb_inv_step [OF assms(4)]) (rule homog_reset_temp(1) [OF assms(1-3) _ assms(5)])

lemma bb_inv_resets:
  assumes "ctx_ok s" "rings_ok s T" "\<forall>t \<in> set ts. t < nb_temps s" "bb_inv s W T" "reset_temps s ts T = Inr T'"
    "W' \<inter> plain_set s - set ts = W \<inter> plain_set s - set ts"
  shows "bb_inv s W' T'" "rings_ok s T'"
proof -
  have "homog s (plain_set s) T' \<and> rings_ok s T'"
    by (rule homog_reset_temps [OF assms(1-3) _ assms(5), of "plain_set s"]) (use assms(4) in \<open>auto simp: bb_inv_def\<close>)
  moreover have "homog s (W' \<inter> plain_set s) T' \<and> rings_ok s T'"
    by (rule homog_reset_temps [OF assms(1-3) _ assms(5), of "W \<inter> plain_set s"]) (use assms(4,6) in \<open>auto simp: bb_inv_def\<close>)
  ultimately show "bb_inv s W' T'" "rings_ok s T'" by (simp_all add: bb_inv_def)
qed

lemma post_scoped:
  assumes "op_outs op args = [d]" "\<not> ends_bb op" "bb_inv s (W \<union> {unat d}) T'" "scoped_args s W (op_ins op' out)" "\<not> ends_bb op'"
    "op_outs op' out = [d] \<or> (plain_temp s (unat d) \<longrightarrow> unat d \<in> W)"
  shows "scope_post s W op args (op', out, T')"
  using assms by (auto simp: scope_post_def)

lemma scope_movi:
  assumes "ctx_ok s" "rings_ok s T" "bb_inv s W T" "op_outs op args = [d]" "\<not> ends_bb op" "is_temp s d" "fold_movi s T wd d v = Inr r"
  shows "scope_post s W op args r"
proof -
  obtain T' where T': "tcg_opt_gen_movi s (unat d) v T = Inr T'" "r = (Movi wd, [d, v], T')" using assms(7) by (auto simp: fold_movi_def)
  show ?thesis unfolding T'(2)
    by (rule post_scoped [OF assms(4,5) bb_inv_movi [OF assms(1,2) _ assms(3) T'(1)]]) (use assms(6) in \<open>simp_all add: is_temp_def scoped_args_def ends_bb_def\<close>)
qed

lemma scope_mov:
  assumes "ctx_ok s" "rings_ok s T" "bb_inv s W T" "op_outs op args = [d]" "\<not> ends_bb op" "is_temp s d" "is_temp s x" "d \<noteq> x"
    "scoped_args s W [x]" "tcg_opt_gen_mov s (unat d) (unat x) T = Inr T'"
  shows "scope_post s W op args (Mov wd, [d, x], T')"
proof -
  have "unat d \<noteq> unat x" using assms(8) by (simp add: word_unat_eq_iff)
  then have "bb_inv s (W \<union> {unat d}) T'"
    using bb_inv_mov [OF assms(1,2) _ _ _ assms(3,10)] assms(6,7,9) by (simp add: is_temp_def scoped_args_def)
  then show ?thesis by (rule post_scoped [OF assms(4,5)]) (use assms(9) in \<open>simp_all add: ends_bb_def\<close>)
qed

lemma scope_reset:
  assumes "ctx_ok s" "rings_ok s T" "bb_inv s W T" "op_outs op args = [d]" "\<not> ends_bb op" "is_temp s d"
    "reset_temp s (unat d) T = Inr T'" "scoped_args s W (op_ins op out)" "op_outs op out = [d]"
  shows "scope_post s W op args (op, out, T')"
  by (rule post_scoped [OF assms(4,5) bb_inv_reset [OF assms(1,2) _ assms(3,7)] assms(8,5)]) (use assms(6,9) in \<open>simp_all add: is_temp_def\<close>)

lemma scope_nop:
  assumes "bb_inv s W T" "op_outs op args = [d]" "\<not> ends_bb op" "plain_temp s (unat d) \<longrightarrow> unat d \<in> W"
  shows "scope_post s W op args (Nop, [], T)"
  by (rule post_scoped [OF assms(2,3) bb_inv_same [OF assms(1,4)]]) (use assms(4) in \<open>simp_all add: scoped_args_def ends_bb_def\<close>)

lemma un_scope:
  assumes "ctx_ok s" "rings_ok s T" "bb_inv s W T" "is_temp s d" "scoped_args s W [propagate_arg T a]" "fold_un s T op [d, propagate_arg T a] = Inr r"
    "op = Ext32s \<or> op = Ext32u \<or> (\<exists>u wd. op = UnOp u wd)"
  shows "scope_post s W op [d, a] r"
proof (cases "arg_state T (propagate_arg T a) = TCG_TEMP_CONST")
  case True
  then obtain tmp where "fold_movi s T (op_bits op) d tmp = Inr r" using assms(6) by (auto simp: fold_un_def)
  then show ?thesis by (rule scope_movi [OF assms(1-3) _ _ assms(4), rotated 2]) (use assms(7) in \<open>auto simp: ends_bb_def\<close>)
next
  case False
  then obtain T' where T': "reset_temp s (unat d) T = Inr T'" "r = (op, [d, propagate_arg T a], T')" using assms(6) by (auto simp: fold_un_def)
  show ?thesis unfolding T'(2)
    by (rule scope_reset [OF assms(1-3) _ _ assms(4) T'(1)]) (use assms(5,7) in \<open>auto simp: ends_bb_def\<close>)
qed

lemma copy_scoped:
  assumes "bb_inv s W T" "is_temp s d" "scoped_args s W [x]" "arg_state T d = TCG_TEMP_COPY \<and> arg_val T d = x \<or> d = x"
  shows "plain_temp s (unat d) \<longrightarrow> unat d \<in> W"
proof (cases "d = x")
  case True
  then show ?thesis using assms(3) by (simp add: scoped_args_def)
next
  case False
  then have c: "ISCOPY T (unat d)" "base T (unat d) = unat x" using assms(4) by (auto simp: arg_state_def arg_val_def)
  have "unat d \<in> plain_set s \<longleftrightarrow> unat x \<in> plain_set s" "unat d \<in> W \<inter> plain_set s \<longleftrightarrow> unat x \<in> W \<inter> plain_set s"
    using assms(1,2) c unfolding bb_inv_def homog_def is_temp_def by metis+
  then show ?thesis using assms(3) by (auto simp: scoped_args_def plain_set_def)
qed

lemma bin_rest_scope:
  assumes g: "ctx_ok s" "rings_ok s T" "bb_inv s W T" and t: "is_temp s d" "is_temp s x" and sc: "scoped_args s W [x]" "scoped_args s W [y]"
    and r: "fold_rest s T (BinOp b wd) [d, x, y] = Inr r" and a: "op_outs op args = [d]" "\<not> ends_bb op" "op = BinOp b wd"
  shows "scope_post s W op args r"
proof -
  have mv: "scope_post s W op args q" if h: "gen_mov_op s T (BinOp b wd) [d, x, y] = Inr (Some q)" "d \<noteq> x" for q
  proof -
    obtain T' where T': "tcg_opt_gen_mov s (unat d) (unat x) T = Inr T'" "q = (Mov wd, [d, x], T')"
      using h(1) by (auto simp: gen_mov_op_def op_to_mov_def)
    show ?thesis unfolding T'(2) by (rule scope_mov [OF g a(1,2) t h(2) sc(1) T'(1)])
  qed
  have np: "scope_post s W op args (Nop, [], T)" if "arg_state T d = TCG_TEMP_COPY \<and> arg_val T d = x \<or> d = x"
    by (rule scope_nop [OF g(3) a(1,2) copy_scoped [OF g(3) t(1) sc(1) that]])
  obtain z where z: "simplify s T (BinOp b wd) [d, x, y] = Inr z" "case z of Some res \<Rightarrow> r = res | None \<Rightarrow> fold_switch s T (BinOp b wd) [d, x, y] = Inr r"
    using r by (auto simp: fold_rest_def simp del: simplify.simps fold_switch.simps split: option.splits)
  show ?thesis
  proof (cases z)
    case (Some res)
    then have r: "simplify s T (BinOp b wd) [d, x, y] = Inr (Some r)" using z by simp
    consider (zero) "zero_right b" "arg_state T y = TCG_TEMP_CONST" "arg_val T y = 0"
      | (mul) "b = OpMul" "arg_state T y = TCG_TEMP_CONST" "arg_val T y = 0" "\<not> zero_right b"
      | (same) "b = OpOr \<or> b = OpAnd" "x = y" "\<not> zero_right b"
      using r by (auto split: if_splits)
    then show ?thesis
    proof cases
      case zero
      show ?thesis
      proof (cases "arg_state T d = TCG_TEMP_COPY \<and> arg_val T d = x \<or> d = x")
        case True
        then have "r = (Nop, [], T)" using r zero by (auto split: if_splits)
        then show ?thesis using np [OF True] by simp
      next
        case False
        then have "gen_mov_op s T (BinOp b wd) [d, x, y] = Inr (Some r)" using r zero by (auto split: if_splits)
        with False show ?thesis using mv by blast
      qed
    next
      case mul
      then have "fold_movi s T wd d 0 = Inr r" using r by (auto simp: fold_movi_def op_to_movi_def split: if_splits)
      then show ?thesis by (rule scope_movi [OF g a(1,2) t(1)])
    next
      case same
      show ?thesis
      proof (cases "d = x")
        case True
        then have "r = (Nop, [], T)" using r same by (auto split: if_splits)
        then show ?thesis using np True by simp
      next
        case False
        then have "gen_mov_op s T (BinOp b wd) [d, x, y] = Inr (Some r)" using r same by (auto split: if_splits)
        with False show ?thesis using mv by blast
      qed
    qed
  next
    case None
    then have f: "fold_switch s T (BinOp b wd) [d, x, y] = Inr r" using z by simp
    show ?thesis
    proof (cases "arg_state T x = TCG_TEMP_CONST \<and> arg_state T y = TCG_TEMP_CONST")
      case True
      then obtain tmp where "fold_movi s T wd d tmp = Inr r" using f by auto
      then show ?thesis by (rule scope_movi [OF g a(1,2) t(1)])
    next
      case False
      then obtain T' where T': "reset_temp s (unat d) T = Inr T'" "r = (op, [d, x, y], T')" using f a(3) by (auto split: if_splits)
      show ?thesis unfolding T'(2)
        by (rule scope_reset [OF g a(1,2) t(1) T'(1)]) (use sc in \<open>simp_all add: a(3) scoped_args_def numeral_2_eq_2\<close>)
    qed
  qed
qed

lemma call_out_temps:
  assumes "la_wt s Call args"
  shows "unat ` set (op_outs Call args) = set (map (\<lambda>i. unat (args ! (i + 1))) [0..<call_nb_oargs args])"
  unfolding exec_call_outs [OF la_wt_wt [OF assms]] by simp

lemma call_scope:
  assumes g: "ctx_ok s" "rings_ok s T" "bb_inv s W T" and wt: "la_wt s Call args" and sc: "scoped_args s W (op_ins Call args)"
    and f: "fold_call s T args = Inr T'"
  shows "scope_post s W Call args (Call, args, T')"
proof -
  define ts where "ts = map (\<lambda>i. unat (args ! (i + 1))) [0..<call_nb_oargs args]"
  obtain T1 where T1: "(if args ! (call_nb_args args + 1) AND TCG_CALL_CONST_PURE = 0 then reset_temps s [0..<nb_globals s] T else Inr T) = Inr T1"
      "reset_temps s ts T1 = Inr T'"
    using f unfolding fold_call_def ts_def by auto
  have gl: "\<forall>t \<in> set [0..<nb_globals s]. t < nb_temps s" using g(1) by (auto simp: ctx_ok_def)
  have i1: "bb_inv s W T1" "rings_ok s T1"
  proof -
    have "bb_inv s W T1 \<and> rings_ok s T1"
    proof (cases "args ! (call_nb_args args + 1) AND TCG_CALL_CONST_PURE = 0")
      case True
      then show ?thesis using bb_inv_resets [OF g(1,2) gl g(3) _ refl] T1(1) by simp
    qed (use T1(1) g in simp)
    then show "bb_inv s W T1" "rings_ok s T1" by simp_all
  qed
  have "bb_inv s (W \<union> set ts) T'"
    by (rule bb_inv_resets(1) [OF g(1) i1(2) _ i1(1) T1(2)]) (use call_outs [OF la_wt_wt [OF wt]] in \<open>auto simp: ts_def\<close>)
  then have "bb_inv s (W \<union> unat ` set (op_outs Call args)) T'" unfolding call_out_temps [OF wt] ts_def .
  then show ?thesis using sc by (simp add: scope_post_def ends_bb_def del: op_outs.simps op_ins.simps)
qed

lemma copy_prop_other:
  assumes "wt_op s (OtherOp nm no ni nc se) args"
  shows "take no (copy_propagate T (OtherOp nm no ni nc se) args) = take no args"
    "set (take ni (drop no (copy_propagate T (OtherOp nm no ni nc se) args))) \<subseteq>
       set (take ni (drop no args)) \<union> propagate_arg T ` set (take ni (drop no args))"
    "drop (no + ni) (copy_propagate T (OtherOp nm no ni nc se) args) = drop (no + ni) args"
    "length (copy_propagate T (OtherOp nm no ni nc se) args) = length args"
  using assms by (auto simp: copy_propagate_def)

lemma scoped_append: "scoped_args s W (as @ bs) \<longleftrightarrow> scoped_args s W as \<and> scoped_args s W bs"
  by (auto simp: scoped_args_def)

lemma other_scope:
  assumes g: "ctx_ok s" "rings_ok s T" "bb_inv s W T" and op: "op = OtherOp nm no ni nc se" and wt: "la_wt s op args"
    and sc: "scoped_args s W (op_ins op args)" and f: "fold_op s T op args = Inr r"
  shows "scope_post s W op args r"
proof -
  let ?a = "copy_propagate T op args"
  have wt': "wt_op s (OtherOp nm no ni nc se) args" using la_wt_wt [OF wt] op by simp
  note c = copy_prop_other [OF wt', of T, folded op]
  obtain T' where T': "reset_temps s (map unat (take no args)) T = Inr T'" "r = (op, ?a, T')"
    using f c(1) by (auto simp: op rest_switch)
  have "\<forall>t \<in> set (map unat (take no args)). t < nb_temps s" using la_wt_temps(1) [OF wt] by (auto simp: op is_temp_def)
  from bb_inv_resets(1) [OF g(1,2) this g(3) T'(1), of "W \<union> unat ` set (take no args)"]
  have i: "bb_inv s (W \<union> unat ` set (op_outs op args)) T'" by (auto simp: op)
  have "scoped_args s W [b]" if "b \<in> set (take ni (drop no args)) \<union> propagate_arg T ` set (take ni (drop no args))" for b
  proof -
    have a: "scoped_args s W [a]" "is_temp s a" if "a \<in> set (take ni (drop no args))" for a
      using that sc la_wt_temps(2) [OF wt] by (auto simp: op scoped_args_def)
    show ?thesis using that a scoped_propagate [OF g(2,3)] by auto
  qed
  then have "scoped_args s W (op_ins op ?a)" using c(2) by (auto simp: op scoped_args_def)
  moreover have "bb_inv s {} T'" using i by (simp add: bb_inv_def homog_empty)
  ultimately show ?thesis using i c(1) by (auto simp: scope_post_def T'(2) op)
qed

lemma fold_scope:
  assumes g: "ctx_ok s" "rings_ok s T" "bb_inv s W T" and wt: "la_wt s op args"
    and sc: "scoped_args s W (op_ins op args)" and f: "fold_op s T op args = Inr r"
  shows "scope_post s W op args r"
proof -
  have pr: "scoped_args s W [propagate_arg T a]" "is_temp s (propagate_arg T a)" if "a \<in> set (op_ins op args)" for a
  proof -
    have a: "is_temp s a" "scoped_args s W [a]" using that la_wt_temps(2) [OF wt] sc by (auto simp: scoped_args_def)
    show "scoped_args s W [propagate_arg T a]" by (rule scoped_propagate [OF g(2,3) a])
    show "is_temp s (propagate_arg T a)" by (rule propagate_arg_temp(1) [OF g(2) a(1)])
  qed
  have jump: "scope_post s W op args r" if j: "op = SetLabel \<or> op = Jmp \<or> op = Br \<or> (\<exists>wd. op = Brcond wd)"
  proof -
    have "ends_bb op" using j by (auto simp: ends_bb_def)
    moreover have "r = (op, copy_propagate T op args, clear_temps (nb_temps s) T)" using f j by (auto simp: rest_switch)
    moreover have "copy_propagate T op args = args" using j by (auto simp: copy_propagate_def)
    ultimately show ?thesis using sc by (simp add: scope_post_def bb_inv_def homog_clear)
  qed
  show ?thesis
  proof (cases op)
    case Nop
    then show ?thesis using f g(3) by (auto simp: rest_switch copy_propagate_def scope_post_def scoped_args_def ends_bb_def)
  next
    case (Mov wd)
    then obtain d x where a: "args = [d, x]" "is_temp s d" using wt by (auto dest: temp_of_is_temp)
    let ?x = "propagate_arg T x"
    have x: "scoped_args s W [?x]" "is_temp s ?x" using pr by (simp_all add: Mov a)
    have sw: "fold_switch s T (Mov wd) [d, ?x] = Inr r"
      using f by (simp add: Mov a(1) rest_switch copy_propagate_simps del: fold_switch.simps)
    have oo: "op_outs op args = [d]" "\<not> ends_bb op" by (simp_all add: Mov a ends_bb_def)
    have nc: "\<not> ISCOPY T (unat ?x)" using propagate_arg_temp(3) [OF g(2)] la_wt_temps(2) [OF wt] by (simp add: Mov a)
    show ?thesis
    proof (cases "d = ?x")
      case True
      then have "r = (Nop, [], T)" using sw by simp
      then show ?thesis using scope_nop [OF g(3) oo] x(1) True by (auto simp: scoped_args_def)
    next
      case ne: False
      show ?thesis
      proof (cases "arg_state T ?x = TCG_TEMP_CONST")
        case True
        then have "fold_movi s T wd d (arg_val T ?x) = Inr r" using sw ne by simp
        then show ?thesis by (rule scope_movi [OF g oo a(2)])
      next
        case False
        then obtain T' where T': "tcg_opt_gen_mov s (unat d) (unat ?x) T = Inr T'" "r = (Mov wd, [d, ?x], T')"
          using sw ne nc by (auto simp: arg_state_def)
        show ?thesis unfolding T'(2) by (rule scope_mov [OF g oo a(2) x(2) ne x(1) T'(1)])
      qed
    qed
  next
    case (Movi wd)
    then obtain d v where a: "args = [d, v]" "is_temp s d" using wt by (auto dest: temp_of_is_temp)
    have "fold_movi s T wd d v = Inr r" using f by (simp add: Movi a(1) rest_switch copy_propagate_simps)
    then show ?thesis by (rule scope_movi [OF g _ _ a(2), rotated 2]) (simp_all add: Movi a(1) ends_bb_def)
  next
    case (UnOp u wd)
    then obtain d x where a: "args = [d, x]" "is_temp s d" using wt by (auto dest: temp_of_is_temp)
    show ?thesis unfolding a(1)
      by (rule un_scope [OF g a(2)]) (use pr f in \<open>simp_all add: UnOp a(1) rest_switch copy_propagate_simps\<close>)
  next
    case Ext32s
    then obtain d x where a: "args = [d, x]" "is_temp s d" using wt by (auto dest: temp_of_is_temp)
    show ?thesis unfolding a(1)
      by (rule un_scope [OF g a(2)]) (use pr f in \<open>simp_all add: Ext32s a(1) rest_switch copy_propagate_simps\<close>)
  next
    case Ext32u
    then obtain d x where a: "args = [d, x]" "is_temp s d" using wt by (auto dest: temp_of_is_temp)
    show ?thesis unfolding a(1)
      by (rule un_scope [OF g a(2)]) (use pr f in \<open>simp_all add: Ext32u a(1) rest_switch copy_propagate_simps\<close>)
  next
    case (BinOp b wd)
    then obtain d x y where a: "args = [d, x, y]" "is_temp s d" using wt by (auto dest: temp_of_is_temp)
    let ?x = "propagate_arg T x" and ?y = "propagate_arg T y"
    have x: "scoped_args s W [?x]" "is_temp s ?x" "scoped_args s W [?y]" "is_temp s ?y" using pr by (simp_all add: BinOp a numeral_2_eq_2)
    have oo: "op_outs op args = [d]" "\<not> ends_bb op" by (simp_all add: BinOp a ends_bb_def)
    have "fold_rest s T (BinOp b wd) [d, ?x, ?y] = Inr r \<or> fold_rest s T (BinOp b wd) [d, ?y, ?x] = Inr r"
      using f by (auto simp: BinOp a(1) fold_op_rest copy_propagate_simps split: if_splits)
    then show ?thesis
    proof
      assume "fold_rest s T (BinOp b wd) [d, ?x, ?y] = Inr r"
      then show ?thesis by (rule bin_rest_scope [OF g a(2) x(2,1,3) _ oo BinOp])
    next
      assume "fold_rest s T (BinOp b wd) [d, ?y, ?x] = Inr r"
      then show ?thesis by (rule bin_rest_scope [OF g a(2) x(4,3,1) _ oo BinOp])
    qed
  next
    case Call
    then obtain T' where "fold_call s T args = Inr T'" "r = (Call, args, T')" using f by (auto simp: rest_switch copy_propagate_def)
    then show ?thesis using call_scope [OF g] wt sc Call by simp
  next
    case (OtherOp nm no ni nc se)
    show ?thesis by (rule other_scope [OF g OtherOp wt sc f])
  qed (use jump in auto)
qed

section \<open>The block\<close>

definition simple_op :: "TCGOpcode \<Rightarrow> bool" where
  "simple_op op \<longleftrightarrow> (case op of Call \<Rightarrow> False | SetLabel \<Rightarrow> False | Jmp \<Rightarrow> False | Br \<Rightarrow> False | Brcond w \<Rightarrow> False
     | OtherOp nm no ni nc se \<Rightarrow> False | _ \<Rightarrow> True)"

lemma simple_opD: "simple_op op \<Longrightarrow> la_wt s op args = wt_op s op args" "simple_op op \<Longrightarrow> op_documented M op"
  by (cases op; simp add: simple_op_def)+

lemma fold_kind:
  assumes "fold_op s T op args = Inr (op', out, T')"
  shows "simple_op op \<Longrightarrow> simple_op op'"
    and "op = Call \<or> op = SetLabel \<or> op = Jmp \<or> op = Br \<or> (\<exists>w. op = Brcond w) \<Longrightarrow> op' = op \<and> out = args"
    and "op = OtherOp nm no ni nc se \<Longrightarrow> op' = op \<and> out = copy_propagate T op args"
proof -
  show "simple_op op \<Longrightarrow> simple_op op'"
    using assms by (cases op) (auto simp: simple_op_def fold_op_rest fold_rest_def gen_mov_op_def op_to_mov_def op_to_movi_def
        fold_movi_def fold_un_def split: if_splits option.splits)
  show "op = Call \<or> op = SetLabel \<or> op = Jmp \<or> op = Br \<or> (\<exists>w. op = Brcond w) \<Longrightarrow> op' = op \<and> out = args"
    using assms by (auto simp: rest_switch copy_propagate_def)
  show "op = OtherOp nm no ni nc se \<Longrightarrow> op' = op \<and> out = copy_propagate T op args"
    using assms by (auto simp: rest_switch)
qed

lemma fold_la_wt:
  assumes wt: "la_wt s op args" and f: "fold_op s T op args = Inr (op', out, T')" and wt': "wt_op s op' out"
  shows "la_wt s op' out" "op' = op \<or> simple_op op \<and> simple_op op'"
proof -
  consider (simple) "simple_op op" | (fixed) "op = Call \<or> op = SetLabel \<or> op = Jmp \<or> op = Br \<or> (\<exists>w. op = Brcond w)"
    | (other) nm no ni nc se where "op = OtherOp nm no ni nc se"
    by (cases op) (auto simp: simple_op_def)
  then have "la_wt s op' out \<and> (op' = op \<or> simple_op op \<and> simple_op op')"
  proof cases
    case simple
    then show ?thesis using fold_kind(1) [OF f] simple_opD(1) wt' by blast
  next
    case fixed
    then show ?thesis using fold_kind(2) [OF f] wt by simp
  next
    case other
    then have o: "op' = op" "out = copy_propagate T op args" using fold_kind(3) [OF f] by blast+
    have "out = args" if "no = 0" "ni = 0" using that o(2) by (simp add: other copy_propagate_def)
    then show ?thesis using wt wt' o(1) other by auto
  qed
  then show "la_wt s op' out" "op' = op \<or> simple_op op \<and> simple_op op'" by blast+
qed

lemma bb_scoped_mono: "bb_scoped s W p \<Longrightarrow> (\<And>t. plain_temp s t \<Longrightarrow> t \<in> W \<Longrightarrow> t \<in> W') \<Longrightarrow> bb_scoped s W' p"
proof (induction s W p arbitrary: W' rule: bb_scoped.induct)
  case (2 s W op args p)
  have sub: "t \<in> (if ends_bb op then {} else W' \<union> unat ` set (op_outs op args))"
    if "plain_temp s t" "t \<in> (if ends_bb op then {} else W \<union> unat ` set (op_outs op args))" for t
    using that "2.prems"(2) by (auto split: if_splits)
  have "bb_scoped s (if ends_bb op then {} else W \<union> unat ` set (op_outs op args)) p" using "2.prems"(1) by simp
  then have "bb_scoped s (if ends_bb op then {} else W' \<union> unat ` set (op_outs op args)) p" using sub by (rule "2.IH")
  then show ?case using "2.prems" by simp
qed simp

lemma fold_block_scope:
  assumes "ctx_ok s" "rings_ok s T" "bb_inv s W T" "\<forall>(op, args) \<in> set p. la_wt s op args" "bb_scoped s W p" "fold_block s T p = Inr p'"
  shows "(\<forall>(op, args) \<in> set p'. la_wt s op args) \<and> bb_scoped s W p' \<and>
    list_all2 (\<lambda>x y. fst y = fst x \<or> simple_op (fst x) \<and> simple_op (fst y)) p p'"
  using assms(2-)
proof (induction p arbitrary: T W p')
  case (Cons x p)
  obtain op args where x: "x = (op, args)" by (cases x)
  obtain op' out T' p1 where 1: "fold_op s T op args = Inr (op', out, T')" "fold_block s T' p = Inr p1" "p' = (op', out) # p1"
    using Cons.prems(5) x by auto
  have wt: "la_wt s op args" "\<forall>(op, args) \<in> set p. la_wt s op args" using Cons.prems(3) x by simp_all
  have post: "sound_post s undefined T op args (op', out, T')" by (rule fold_op_sound [OF assms(1) Cons.prems(1) la_wt_wt [OF wt(1)] 1(1)])
  then have T': "rings_ok s T'" "wt_op s op' out" by (auto simp: sound_post_def)
  note k = fold_la_wt [OF wt(1) 1(1) T'(2)]
  have sc: "scoped_args s W (op_ins op args)" and rest: "bb_scoped s (if ends_bb op then {} else W \<union> unat ` set (op_outs op args)) p"
    using Cons.prems(4) x by (simp_all add: scoped_args_def)
  have sp: "scope_post s W op args (op', out, T')" by (rule fold_scope [OF assms(1) Cons.prems(1,2) wt(1) sc 1(1)])
  then have s': "scoped_args s W (op_ins op' out)" "ends_bb op' = ends_bb op"
    "\<And>t. plain_temp s t \<Longrightarrow> t \<in> unat ` set (op_outs op args) \<Longrightarrow> t \<in> W \<union> unat ` set (op_outs op' out)"
    "bb_inv s (if ends_bb op then {} else W \<union> unat ` set (op_outs op args)) T'"
    unfolding scope_post_def by (simp_all split: if_splits)
  have ih: "(\<forall>(op, args) \<in> set p1. la_wt s op args) \<and> bb_scoped s (if ends_bb op then {} else W \<union> unat ` set (op_outs op args)) p1 \<and>
      list_all2 (\<lambda>x y. fst y = fst x \<or> simple_op (fst x) \<and> simple_op (fst y)) p p1"
    by (rule Cons.IH [OF T'(1) s'(4) wt(2) rest 1(2)])
  have "bb_scoped s (if ends_bb op' then {} else W \<union> unat ` set (op_outs op' out)) p1"
  proof (rule bb_scoped_mono)
    show "bb_scoped s (if ends_bb op then {} else W \<union> unat ` set (op_outs op args)) p1" using ih by blast
    show "t \<in> (if ends_bb op' then {} else W \<union> unat ` set (op_outs op' out))"
      if "plain_temp s t" "t \<in> (if ends_bb op then {} else W \<union> unat ` set (op_outs op args))" for t
      using that s'(2) s'(3) [of t] by (cases "ends_bb op") auto
  qed
  then show ?case using ih k s'(1) x 1(3) by (auto simp: scoped_args_def)
qed simp

lemma kinds_exit:
  assumes "list_all2 (\<lambda>x y. fst y = fst x \<or> simple_op (fst x) \<and> simple_op (fst y)) p p'" "exits_block p"
  shows "exits_block p'"
proof -
  have n: "p \<noteq> []" "p' \<noteq> []" using assms by (auto simp: exits_block_def)
  have l: "length p' = length p" using assms(1) by (simp add: list_all2_lengthD)
  have "length p - 1 < length p" using n by simp
  then have "fst (last p') = fst (last p) \<or> simple_op (fst (last p))"
    using assms(1) unfolding list_all2_conv_all_nth last_conv_nth [OF n(1)] last_conv_nth [OF n(2)] l by blast
  then show ?thesis using assms(2) n by (auto simp: exits_block_def simple_op_def split: TCGOpcode.splits)
qed

lemma kinds_documented:
  assumes "list_all2 (\<lambda>x y. fst y = fst x \<or> simple_op (fst x) \<and> simple_op (fst y)) p p'" "sem_documented M p"
  shows "sem_documented M p'"
proof -
  have "op_documented M (fst y)" if y: "y \<in> set p'" for y
  proof -
    obtain i where i: "i < length p'" "y = p' ! i" using y by (auto simp: in_set_conv_nth)
    then have "i < length p" "fst y = fst (p ! i) \<or> simple_op (fst y)" using assms(1) by (auto simp: list_all2_conv_all_nth)
    then show ?thesis using assms(2) simple_opD(2) unfolding sem_documented_def by (metis nth_mem)
  qed
  then show ?thesis using assms(2) by (simp add: sem_documented_def)
qed

end
