(* ===== verification/TcgGen.thy ===== *)
theory TcgGen
  imports TcgScope
begin

text \<open>
  The optimiser followed by the liveness analysis, as \<^verbatim>\<open>tcg_gen_code_common\<close> calls them: the operations that
  reach the register allocator do what the block of the translator does, and what the analysis tells
  the allocator about arguments that are needed no more is right.
\<close>

section \<open>Results of the analysis\<close>

lemma liveness_block:
  assumes "ctx_ok s" "\<forall>(op, args) \<in> set p. la_wt s op args"
    "tcg_liveness_analysis s (map fst p) (length (concat (map snd p))) (concat (map snd p) @ rest) = Inr (ops', das, buf')"
  obtains p' Ds where "ops' = map fst p'" "parse_block ops' (take (length (concat (map snd p))) buf') = p'"
    "la_rel s p p' das Ds" "Ds ! length p = (\<lambda>_. True)" "map (length \<circ> snd) p' = map (length \<circ> snd) p"
    "buf' = concat (map snd p') @ rest"
proof -
  obtain p' das' Ds where r: "tcg_liveness_analysis s (map fst p) (length (concat (map snd p))) (concat (map snd p) @ rest) = Inr (map fst p', das', concat (map snd p') @ rest)"
      "la_rel s p p' das' Ds" "Ds ! length p = (\<lambda>_. True)" "\<forall>(op, args) \<in> set p'. wt_op s op args" "map (length \<circ> snd) p' = map (length \<circ> snd) p"
    by (rule la_block [OF assms(1,2)])
  have e: "ops' = map fst p'" "das' = das" "buf' = concat (map snd p') @ rest" using r(1) assms(3) by simp_all
  have l: "length (concat (map snd p')) = length (concat (map snd p))" using r(5) by (simp add: length_concat comp_def)
  have "parse_block ops' (take (length (concat (map snd p))) buf') = p'"
    using parse_concat [OF r(4), of "[]"] by (simp add: e(1,3) flip: l)
  then show ?thesis using that e r by blast
qed

lemma parsed_buffer:
  assumes "\<forall>(op, args) \<in> set (parse_block ops buf). la_wt s op args"
  shows "buf = concat (map snd (parse_block ops buf)) @ drop (length (concat (map snd (parse_block ops buf)))) buf"
    "map fst (parse_block ops buf) = ops"
proof -
  show "buf = concat (map snd (parse_block ops buf)) @ drop (length (concat (map snd (parse_block ops buf)))) buf"
    by (rule parse_length [of ops buf s]) (use assms la_wt_wt in auto)
  show "map fst (parse_block ops buf) = ops" by (induction ops arbitrary: buf) simp_all
qed

lemma same_exit_trans: "out_agree s o1 o2 \<Longrightarrow> same_exit s o2 o3 \<Longrightarrow> same_exit s o1 o3"
  by (cases o1; cases o2; cases o3) (auto simp: agree_def)

lemma same_exit_common: "same_exit s q q1 \<Longrightarrow> same_exit s q q2 \<Longrightarrow> same_exit s q1 q2"
  by (cases q; cases q1; cases q2) auto

lemma set_nop_la_wt:
  assumes "length args < 2 ^ 64"
  shows "la_wt s (fst (tcg_set_nop args (length args))) (snd (tcg_set_nop args (length args)))"
proof (cases args)
  case (Cons a as)
  have "unat (of_nat (length args) :: u64) = length args" using assms by (simp add: unat_of_nat)
  then show ?thesis using Cons by (cases as rule: rev_cases) (auto simp: tcg_set_nop_def nopn_def list_update_append)
qed (simp add: tcg_set_nop_def)

lemma la_rel_wt:
  assumes "ctx_ok s" "la_rel s p p' das Ds" "\<forall>(op, args) \<in> set p. la_wt s op args" "length (concat (map snd p)) < 2 ^ 64"
  shows "\<forall>(op, args) \<in> set p'. la_wt s op args"
proof -
  have "la_wt s (fst (p' ! i)) (snd (p' ! i))" if i: "i < length p" for i
  proof -
    have wt: "la_wt s (fst (p ! i)) (snd (p ! i))" using assms(3) nth_mem [OF i] by (auto simp: case_prod_unfold)
    have "length (snd (p ! i)) \<le> length (concat (map snd p))"
      using i by (auto simp: length_concat intro!: member_le_sum_list)
    then have "length (snd (p ! i)) < 2 ^ 64" using assms(4) by simp
    then show ?thesis
      using la_op_cases [OF assms(1) wt, of "Ds ! Suc i"] set_nop_la_wt wt assms(2) i unfolding la_rel_def by auto
  qed
  moreover have "length p' = length p" using assms(2) by (simp add: la_rel_def)
  ultimately have "\<forall>x \<in> set p'. la_wt s (fst x) (snd x)" by (metis in_set_conv_nth)
  then show ?thesis by (simp add: case_prod_unfold)
qed

text \<open>The optimiser on a block that the analysis accepts\<close>

lemma optimised_block:
  fixes M :: "'w tcg_sem"
  assumes ctx: "ctx_ok s" and wt: "\<forall>(op, args) \<in> set (parse_block ops buf). la_wt s op args"
    and sc: "bb_scoped s {} (parse_block ops buf)" and opt: "tcg_optimize s T ops buf = Inr (ops1, n, buf1)"
  obtains p1 where "map fst p1 = ops1" "n = length (concat (map snd p1))" "buf1 = concat (map snd p1) @ drop n buf1"
    "\<forall>k \<sigma> w. out_agree s (run_block s M (parse_block ops buf) k \<sigma> w) (run_block s M p1 k \<sigma> w)"
    "\<forall>(op, args) \<in> set p1. la_wt s op args" "bb_scoped s {} p1"
    "list_all2 (\<lambda>x y. fst y = fst x \<or> simple_op (fst x) \<and> simple_op (fst y)) (parse_block ops buf) p1"
proof -
  let ?T = "clear_temps (nb_temps s) T" and ?p = "parse_block ops buf"
  have wt': "\<forall>(op, args) \<in> set ?p. wt_op s op args" using wt la_wt_wt by auto
  have fl: "folding_loop s ops 0 0 ?T buf = Inr (ops1, n, buf1)"
    using opt by (simp add: tcg_optimize_def tcg_constant_folding_def)
  obtain p1 where p1: "fold_block s ?T ?p = Inr p1" "map fst p1 = ops1" "n = length (concat (map snd p1))"
    "take n buf1 = concat (map snd p1)"
    using folding_loop_block [OF ctx clear_ok(1) _ _ _ fl] wt' by auto
  obtain Ts where Ts: "Ts ! 0 = ?T" "tracked s M ?p p1 Ts"
    using fold_block_tracked [OF ctx clear_ok(1) wt' p1(1)] by blast
  have ag: "out_agree s (run_block s M ?p k \<sigma> w) (run_block s M p1 k \<sigma> w)" for k \<sigma> w
    by (rule run_lock [OF Ts(2)]) (simp add: Ts(1) clear_ok(2))
  have inv: "bb_inv s {} ?T" by (simp add: bb_inv_def homog_clear)
  have sc': "(\<forall>(op, args) \<in> set p1. la_wt s op args) \<and> bb_scoped s {} p1 \<and>
      list_all2 (\<lambda>x y. fst y = fst x \<or> simple_op (fst x) \<and> simple_op (fst y)) ?p p1"
    by (rule fold_block_scope [OF ctx clear_ok(1) inv wt sc p1(1)])
  have "buf1 = concat (map snd p1) @ drop n buf1" using p1(4) append_take_drop_id [of n buf1] by simp
  then show ?thesis using that p1 ag sc' by blast
qed

section \<open>The dead arguments\<close>

lemma bit_one_push: "bit (da OR push_bit i 1 :: 'a :: len word) j \<Longrightarrow> bit da j \<or> j = i"
  by (auto simp: bit_simps)

lemma la_outs_bits:
  "la_outs s i as D da = Inr (D', da') \<Longrightarrow> bit da' j \<Longrightarrow>
     bit da j \<or> i \<le> j \<and> j < i + length as \<and> (D (unat (as ! (j - i))) \<or> as ! (j - i) \<in> set (take (j - i) as))"
proof (induction as arbitrary: i D da)
  case (Cons a as)
  let ?da = "if D (unat a) then da OR push_bit i 1 else da"
  have "la_outs s (Suc i) as (D(unat a := True)) ?da = Inr (D', da')" using Cons.prems(1) by (auto split: if_splits)
  from Cons.IH [OF this Cons.prems(2)] show ?case
  proof (elim disjE conjE)
    assume "bit ?da j"
    then show ?thesis using bit_one_push [of da i j] by (auto split: if_splits)
  next
    assume j: "Suc i \<le> j" "j < Suc i + length as" "(D(unat a := True)) (unat (as ! (j - Suc i)))"
    then obtain m where m: "j = Suc i + m" using le_Suc_ex by blast
    show ?thesis using j unfolding m by (auto simp: word_unat_eq_iff split: if_splits)
  next
    assume j: "Suc i \<le> j" "j < Suc i + length as" "as ! (j - Suc i) \<in> set (take (j - Suc i) as)"
    then obtain m where m: "j = Suc i + m" using le_Suc_ex by blast
    show ?thesis using j unfolding m by simp
  qed
qed simp

lemma la_ins_bits:
  "la_ins c s i as D da = Inr (D', da') \<Longrightarrow> bit da' j \<Longrightarrow>
     bit da j \<or> i \<le> j \<and> j < i + length as \<and> D (unat (as ! (j - i)))"
proof (induction as arbitrary: i D da)
  case (Cons a as)
  show ?case
  proof (cases "c \<and> a = TCG_CALL_DUMMY_ARG")
    case True
    then have "la_ins c s (Suc i) as D da = Inr (D', da')" using Cons.prems(1) by auto
    from Cons.IH [OF this Cons.prems(2)] show ?thesis
    proof (elim disjE conjE)
      assume j: "Suc i \<le> j" "j < Suc i + length as" "D (unat (as ! (j - Suc i)))"
      then obtain m where m: "j = Suc i + m" using le_Suc_ex by blast
      show ?thesis using j unfolding m by simp
    qed simp
  next
    case False
    let ?da = "if D (unat a) then da OR push_bit i 1 else da"
    have "la_ins c s (Suc i) as (D(unat a := False)) ?da = Inr (D', da')" using Cons.prems(1) False by (auto split: if_splits)
    from Cons.IH [OF this Cons.prems(2)] show ?thesis
    proof (elim disjE conjE)
      assume "bit ?da j"
      then show ?thesis using bit_one_push [of da i j] by (auto split: if_splits)
    next
      assume j: "Suc i \<le> j" "j < Suc i + length as" "(D(unat a := False)) (unat (as ! (j - Suc i)))"
      then obtain m where m: "j = Suc i + m" using le_Suc_ex by blast
      show ?thesis using j unfolding m by (auto split: if_splits)
    qed
  qed
qed simp

text \<open>
  A bit of the entry of an operation: its argument is dead after it, or dead before the outputs are
  counted when it is an input.
\<close>

definition dead_bit :: "TCGContext \<Rightarrow> TCGOpcode \<Rightarrow> u64 list \<Rightarrow> dead_temps \<Rightarrow> nat \<Rightarrow> bool" where
  "dead_bit s op args D j \<longleftrightarrow>
     (let outs = op_outs op args; ins = op_ins op args; no = length outs
      in if j < no then D (unat (outs ! j)) \<or> outs ! j \<in> set (take j outs)
         else j < no + length ins \<and>
           (let t = unat (ins ! (j - no))
            in if ends_bb op then label_dead s t \<or> nb_temps s \<le> t
               else D t \<or> t \<in> unat ` set outs))"

lemma dead_bits:
  assumes o: "la_outs s 0 (op_outs op args) D 0 = Inr (D1, da)" "\<forall>a \<in> set (op_outs op args). is_temp s a"
    and i: "la_ins c s (length (op_outs op args)) (op_ins op args)
        (if ends_bb op then tcg_la_bb_end s D1 else if g then la_globals s D1 else D1) da = Inr (D3, da')"
    and b: "bit (ucast da' :: u16) j"
  shows "dead_bit s op args D j"
proof -
  obtain d where "la_outs s 0 (op_outs op args) D 0 = Inr (\<lambda>t. D t \<or> t \<in> unat ` set (op_outs op args), d)"
    using la_outs_eq [OF o(2)] by blast
  then have D1: "D1 = (\<lambda>t. D t \<or> t \<in> unat ` set (op_outs op args))" using o(1) by simp
  have "bit da' j" using b by (simp add: bit_ucast_iff)
  from la_ins_bits [OF i this] show ?thesis
  proof
    assume "bit da j"
    from la_outs_bits [OF o(1) this] show ?thesis by (simp add: dead_bit_def Let_def)
  next
    assume "length (op_outs op args) \<le> j \<and> j < length (op_outs op args) + length (op_ins op args) \<and>
      (if ends_bb op then tcg_la_bb_end s D1 else if g then la_globals s D1 else D1) (unat (op_ins op args ! (j - length (op_outs op args))))"
    then show ?thesis
      by (auto simp: dead_bit_def Let_def D1 label_dead_def tcg_la_bb_end_def la_globals_def split: if_splits)
  qed
qed

lemma outs_length:
  assumes "la_wt s op args"
  shows "length (op_outs op args) = (if op = Call then call_nb_oargs args else nb_oargs op)"
proof (cases op)
  case Call
  then show ?thesis using assms by (simp add: call_nb_args_sum min_def)
next
  case (OtherOp nm no ni nc se)
  then show ?thesis using assms by simp
qed (use la_wt_wt [OF assms] in auto)

lemma la_default_bits:
  assumes wt: "la_wt s op args" "op \<noteq> Call" "op \<noteq> SetLabel" and l: "la_default s op args D = Inr (op', args', Some da, D')" and b: "bit da j"
  shows "dead_bit s op args D j"
proof -
  have io: "op_outs op args = take (nb_oargs op) args" "op_ins op args = take (nb_iargs op) (drop (nb_oargs op) args)"
    using wt(2) by (cases op; simp)+
  have n: "nb_oargs op = length (op_outs op args)" using outs_length [OF wt(1)] wt(2) by simp
  have e: "bb_end op = ends_bb op" using wt(3) by (simp add: ends_bb_def)
  obtain D1 d1 da' where "la_outs s 0 (op_outs op args) D 0 = Inr (D1, d1)"
      "la_ins False s (nb_oargs op) (op_ins op args) (if bb_end op then tcg_la_bb_end s D1 else if call_clobber op then la_globals s D1 else D1) d1 = Inr (D', da')"
      "da = ucast da'"
    using l unfolding la_default_def Let_def io [symmetric]
    by (cases "bb_end op"; cases "call_clobber op") (auto split: if_splits prod.splits)
  then show ?thesis using dead_bits [OF _ la_wt_temps(1) [OF wt(1)]] b unfolding e n by blast
qed

lemma la_call_bits:
  assumes wt: "la_wt s Call args" and l: "la_call s args D = Inr (op', args', Some da, D')" and b: "bit da j"
  shows "dead_bit s Call args D j"
proof -
  have io: "take (unat (drop_bit 16 (args ! 0))) (drop 1 args) = op_outs Call args"
    "take (unat (args ! 0 AND 0xffff)) (drop (unat (drop_bit 16 (args ! 0)) + 1) args) = op_ins Call args"
    "unat (drop_bit 16 (args ! 0)) = length (op_outs Call args)"
    using outs_length [OF wt] by (simp_all add: call_nb_oargs_def call_nb_iargs_def)
  have e: "\<not> ends_bb Call" by (simp add: ends_bb_def)
  have fl: "args ! (unat (drop_bit 16 (args ! 0)) + unat (args ! 0 AND 0xffff) + 1) = call_flags args"
    by (simp add: call_flags_def call_nb_args_sum call_nb_oargs_def call_nb_iargs_def)
  obtain D1 d1 da' where "la_outs s 0 (op_outs Call args) D 0 = Inr (D1, d1)"
      "la_ins True s (length (op_outs Call args)) (op_ins Call args)
        (if call_flags args AND TCG_CALL_CONST = 0 then la_globals s D1 else D1) d1 = Inr (D', da')" "da = ucast da'"
    using l unfolding la_call_def Let_def fl io(1,2) unfolding io(3)
    by (cases "call_flags args AND TCG_CALL_CONST = 0") (auto split: if_splits prod.splits simp del: op_outs.simps op_ins.simps)
  then show ?thesis using dead_bits [OF _ la_wt_temps(1) [OF wt], of D D1 d1 True "call_flags args AND TCG_CALL_CONST = 0"] b e
    by (simp del: op_outs.simps op_ins.simps)
qed

lemma la_op_bits:
  assumes "la_wt s op args" "la_op s op args D = Inr (op', args', Some da, D')" "bit da j"
  shows "dead_bit s op args D j"
proof (cases op)
  case Call
  then show ?thesis using la_call_bits assms by simp
next
  case (OtherOp nm no ni nc se)
  then have d: "la_default s op args D = Inr (op', args', Some da, D')" using assms(2) by (auto split: if_splits)
  show ?thesis by (rule la_default_bits [OF assms(1) _ _ d assms(3)]) (simp_all add: OtherOp)
qed (use assms la_default_bits [OF assms(1)] in \<open>simp_all\<close>)

lemma dead_bit_after:
  assumes "dead_bit s op args D j" "distinct (op_outs op args)" "t = unat ((op_outs op args @ op_ins op args) ! j)"
    "length (op_outs op args) \<le> j \<longrightarrow> t \<notin> unat ` set (op_outs op args)"
  shows "j < length (op_outs op args @ op_ins op args)" "D t \<or> ends_bb op \<and> (label_dead s t \<or> nb_temps s \<le> t)"
proof -
  have "op_outs op args ! j \<notin> set (take j (op_outs op args))" if "j < length (op_outs op args)"
    using assms(2) that id_take_nth_drop [OF that] distinct_append by (metis disjoint_insert(1) list.set(2))
  then show "j < length (op_outs op args @ op_ins op args)" "D t \<or> ends_bb op \<and> (label_dead s t \<or> nb_temps s \<le> t)"
    using assms(1,3,4) by (auto simp: dead_bit_def Let_def nth_append not_less split: if_splits)
qed

section \<open>Properties\<close>

text \<open>
  C8. The liveness analysis returns on every well-formed block (no index outside \<^verbatim>\<open>dead_temps\<close> or the argument
  buffer, no abort), and what it leaves is well-formed again: the same number of operations with
  an entry of \<^verbatim>\<open>op_dead_args\<close> each, every operation with as many arguments as before at the same place of the
  buffer, and nothing written past the arguments of the block.
\<close>

theorem tcg_liveness_well_typed:
  assumes "ctx_ok s" and "\<forall>(op, args) \<in> set (parse_block ops buf). la_wt s op args" and "length buf < 2 ^ 64"
  shows "\<exists>ops' das buf'. tcg_liveness_analysis s ops (length (concat (map snd (parse_block ops buf)))) buf = Inr (ops', das, buf') \<and>
    length ops' = length ops \<and> length das = length ops \<and>
    (\<forall>(op, args) \<in> set (parse_block ops' buf'). la_wt s op args) \<and>
    map (length \<circ> snd) (parse_block ops' buf') = map (length \<circ> snd) (parse_block ops buf) \<and>
    drop (length (concat (map snd (parse_block ops buf)))) buf' = drop (length (concat (map snd (parse_block ops buf)))) buf"
proof -
  let ?p = "parse_block ops buf" and ?n = "length (concat (map snd (parse_block ops buf)))"
  note pb = parsed_buffer [OF assms(2)]
  obtain p' das Ds where r: "tcg_liveness_analysis s (map fst ?p) ?n (concat (map snd ?p) @ drop ?n buf) = Inr (map fst p', das, concat (map snd p') @ drop ?n buf)"
      "la_rel s ?p p' das Ds" "\<forall>(op, args) \<in> set p'. wt_op s op args" "map (length \<circ> snd) p' = map (length \<circ> snd) ?p"
    by (rule la_block [OF assms(1,2)])
  have l: "length (concat (map snd p')) = ?n" using r(4) by (simp add: length_concat comp_def)
  have "?n \<le> length buf" by (subst (2) pb(1)) (simp only: length_append le_add1)
  then have "?n < 2 ^ 64" using assms(3) by (rule le_less_trans)
  then have wt: "\<forall>(op, args) \<in> set p'. la_wt s op args" by (rule la_rel_wt [OF assms(1) r(2) assms(2)])
  have q: "parse_block (map fst p') (concat (map snd p') @ drop ?n buf) = p'" by (rule parse_concat [OF r(3)])
  have "length p' = length ops" "length das = length ops" using r(2) arg_cong [OF pb(2), of length] by (simp_all add: la_rel_def)
  moreover have "tcg_liveness_analysis s ops ?n buf = Inr (map fst p', das, concat (map snd p') @ drop ?n buf)"
    using r(1) unfolding pb(2) pb(1) [symmetric] .
  moreover have "drop ?n (concat (map snd p') @ drop ?n buf) = drop ?n buf" by (simp only: drop_append l [symmetric]) simp
  moreover have "length (map fst p') = length ops" using calculation(1) by simp
  moreover have "\<forall>(op, args) \<in> set (parse_block (map fst p') (concat (map snd p') @ drop ?n buf)). la_wt s op args"
    "map (length \<circ> snd) (parse_block (map fst p') (concat (map snd p') @ drop ?n buf)) = map (length \<circ> snd) ?p"
    unfolding q by (fact wt, fact r(4))
  ultimately show ?thesis by blast
qed

text \<open>
  C7. The liveness analysis preserves what a block does. Let the block be well-formed, let every
  temporary that is not local be read only after a write in its basic block, let the last operation
  leave the block, and let operations and helpers do what their flags document. Then from every
  start, after every number of steps, the old and the new block are at the same operation with the
  same world, or have both left with the same world and the same globals.
\<close>

theorem tcg_liveness_preserves:
  assumes "ctx_ok s" and "\<forall>(op, args) \<in> set (parse_block ops buf). la_wt s op args"
    and "bb_scoped s {} (parse_block ops buf)" and "exits_block (parse_block ops buf)" and "sem_documented M (parse_block ops buf)"
    and "n = length (concat (map snd (parse_block ops buf)))"
    and "tcg_liveness_analysis s ops n buf = Inr (ops', das, buf')"
  shows "same_exit s (run_block s M (parse_block ops buf) k \<sigma> w) (run_block s M (parse_block ops' (take n buf')) k \<sigma> w)"
proof -
  note pb = parsed_buffer [OF assms(2)]
  have la: "tcg_liveness_analysis s (map fst (parse_block ops buf)) (length (concat (map snd (parse_block ops buf))))
      (concat (map snd (parse_block ops buf)) @ drop (length (concat (map snd (parse_block ops buf)))) buf) = Inr (ops', das, buf')"
    using assms(7) unfolding assms(6) pb(2) pb(1) [symmetric] .
  obtain p' Ds where r: "parse_block ops' (take (length (concat (map snd (parse_block ops buf)))) buf') = p'"
      "la_rel s (parse_block ops buf) p' das Ds" "Ds ! length (parse_block ops buf) = (\<lambda>_. True)"
    by (rule liveness_block [OF assms(1,2) la])
  show ?thesis unfolding assms(6) r(1)
    by (rule run_live [OF assms(1) r(2,3) assms(2-5)]) (simp add: agree_on_def)
qed

text \<open>
  C5. What \<^verbatim>\<open>tcg_gen_code_common\<close> hands to the register allocator, the optimised block after the liveness
  analysis, does what the block of the translator does: from every start, after every number of steps,
  both are at the same operation with the same world, or have both left with the same world and the
  same globals. The analysis never aborts on an optimised block.
\<close>

theorem tcg_gen_ops_preserves:
  assumes "ctx_ok s" and "\<forall>(op, args) \<in> set (parse_block ops buf). la_wt s op args"
    and "bb_scoped s {} (parse_block ops buf)" and "exits_block (parse_block ops buf)" and "sem_documented M (parse_block ops buf)"
    and "tcg_optimize s T ops buf = Inr (ops1, n, buf1)"
  shows "\<exists>ops' das buf'. tcg_gen_ops s T ops buf = Inr (ops', das, n, buf') \<and> length ops' = length ops \<and>
    same_exit s (run_block s M (parse_block ops buf) k \<sigma> w) (run_block s M (parse_block ops' (take n buf')) k \<sigma> w)"
proof -
  let ?p = "parse_block ops buf"
  obtain p1 where p1: "map fst p1 = ops1" "n = length (concat (map snd p1))" "buf1 = concat (map snd p1) @ drop n buf1"
      "\<forall>k \<sigma> w. out_agree s (run_block s M ?p k \<sigma> w) (run_block s M p1 k \<sigma> w)"
      "\<forall>(op, args) \<in> set p1. la_wt s op args" "bb_scoped s {} p1"
      "list_all2 (\<lambda>x y. fst y = fst x \<or> simple_op (fst x) \<and> simple_op (fst y)) ?p p1"
    by (rule optimised_block [OF assms(1-3,6), of M])
  obtain ops' das buf' where la: "tcg_liveness_analysis s (map fst p1) (length (concat (map snd p1))) (concat (map snd p1) @ drop n buf1) = Inr (ops', das, buf')"
    by (rule la_block [OF assms(1) p1(5), of "drop n buf1"])
  obtain p' Ds where r: "ops' = map fst p'" "parse_block ops' (take (length (concat (map snd p1))) buf') = p'"
      "la_rel s p1 p' das Ds" "Ds ! length p1 = (\<lambda>_. True)"
    by (rule liveness_block [OF assms(1) p1(5) la])
  have g: "tcg_gen_ops s T ops buf = Inr (ops', das, n, buf')"
    using la assms(6) p1(1-3) by (simp add: tcg_gen_ops_def)
  have "same_exit s (run_block s M p1 k \<sigma> w) (run_block s M p' k \<sigma> w)"
    by (rule run_live [OF assms(1) r(3,4) p1(5,6) kinds_exit [OF p1(7) assms(4)] kinds_documented [OF p1(7) assms(5)]]) (simp add: agree_on_def)
  then have "same_exit s (run_block s M ?p k \<sigma> w) (run_block s M p' k \<sigma> w)" using p1(4) same_exit_trans by blast
  moreover have "length ops' = length ops"
    using r(1,3) list_all2_lengthD [OF p1(7)] arg_cong [OF parsed_buffer(2) [OF assms(2)], of length] by (simp add: la_rel_def)
  ultimately show ?thesis using g r(2) p1(2) by auto
qed

text \<open>
  C6. What the analysis tells the register allocator is safe. If an argument of an operation that is
  kept has its bit in \<^verbatim>\<open>op_dead_args\<close>, the value of its temporary is not needed any more: it may be replaced by
  any other after the operation, and the block goes on the same way and leaves with the same world and
  globals. (An input that is also an output is needed no more because the operation overwrites it; the
  outputs of an operation are different temporaries.)
\<close>

theorem dead_args_sound:
  assumes "ctx_ok s" and "\<forall>(op, args) \<in> set (parse_block ops buf). la_wt s op args"
    and "bb_scoped s {} (parse_block ops buf)" and "exits_block (parse_block ops buf)" and "sem_documented M (parse_block ops buf)"
    and "n = length (concat (map snd (parse_block ops buf)))"
    and "tcg_liveness_analysis s ops n buf = Inr (ops', das, buf')"
    and "Suc i < length ops" and "parse_block ops buf ! i = (op, args)" and "distinct (op_outs op args)"
    and "das ! i = Some da" and "bit da j" and "t = unat ((op_outs op args @ op_ins op args) ! j)"
    and "length (op_outs op args) \<le> j \<longrightarrow> t \<notin> unat ` set (op_outs op args)"
  shows "j < length (op_outs op args @ op_ins op args) \<and>
    same_exit s ((step_block s M (parse_block ops' (take n buf')) ^^ k) (Running (Suc i) \<sigma> w))
                ((step_block s M (parse_block ops' (take n buf')) ^^ k) (Running (Suc i) (\<sigma>(t := v)) w))"
proof -
  let ?p = "parse_block ops buf"
  note pb = parsed_buffer [OF assms(2)]
  have la: "tcg_liveness_analysis s (map fst ?p) (length (concat (map snd ?p)))
      (concat (map snd ?p) @ drop (length (concat (map snd ?p))) buf) = Inr (ops', das, buf')"
    using assms(7) unfolding assms(6) pb(2) pb(1) [symmetric] .
  obtain p' Ds where r: "parse_block ops' (take (length (concat (map snd ?p))) buf') = p'"
      "la_rel s ?p p' das Ds" "Ds ! length ?p = (\<lambda>_. True)"
    by (rule liveness_block [OF assms(1,2) la])
  have len: "length ?p = length ops" using arg_cong [OF pb(2), of length] by simp
  have i: "i < length ?p" "Suc i < length ?p" using assms(8) len by simp_all
  have wt: "la_wt s op args" using assms(2,9) nth_mem [OF i(1)] by auto
  have o: "la_op s op args (Ds ! Suc i) = Inr (fst (p' ! i), snd (p' ! i), Some da, Ds ! i)"
    using r(2) i assms(9,11) unfolding la_rel_def by fastforce
  have b: "dead_bit s op args (Ds ! Suc i) j" by (rule la_op_bits [OF wt o assms(12)])
  note after = dead_bit_after [OF b assms(10,13,14)]
  have dead: "(Ds ! Suc i) t \<or> nb_temps s \<le> t"
    using after(2) bb_end_live [OF assms(1) r(2,3) assms(2,3) i(1), of t] assms(9) not_le by auto
  have ag: "agree_on s (Ds ! Suc i) \<sigma> (\<sigma>(t := v))" using dead by (auto simp: agree_on_def)
  have refl: "agree_on s (Ds ! Suc i) \<sigma> \<sigma>" by (simp add: agree_on_def)
  note run = steps_live [OF assms(1) r(2,3) assms(2-5) i(2)]
  show ?thesis using after(1) same_exit_common [OF run [OF refl] run [OF ag]] unfolding assms(6) r(1) by blast
qed

text \<open>
  A block for the witnesses: \<^verbatim>\<open>movi t1, 7; movi t2, 5; add g0, t1, t1; movi t3, 9; exit_tb\<close>. Two of the
  constants are never read, and \<open>t1\<close> is dead after the addition.
\<close>

definition lx_ctx :: TCGContext where
  "lx_ctx = \<lparr>nb_temps = 4, nb_globals = 1, temp_local = (\<lambda>_. False), temp_type = (\<lambda>_. I32)\<rparr>"

definition lx_ops :: "TCGOpcode list" where
  "lx_ops = [Movi I32, Movi I32, BinOp OpAdd I32, Movi I32, OtherOp ''exit_tb'' 0 0 1 True]"

definition lx_args :: "u64 list" where
  "lx_args = [1, 7, 2, 5, 0, 1, 1, 3, 9, 0]"

definition lx_sem :: "nat tcg_sem" where
  "lx_sem = \<lparr>op_sem = (\<lambda>nm ins cs w. ([], nm = ''exit_tb'', w)),
     call_sem = (\<lambda>fl ins gs w. (replicate (unat (fl ! 1)) 0, [], w)), cond_sem = (\<lambda>wd c x y. x = y)\<rparr>"

lemma lx_parse:
  "parse_block lx_ops lx_args =
     [(Movi I32, [1, 7]), (Movi I32, [2, 5]), (BinOp OpAdd I32, [0, 1, 1]), (Movi I32, [3, 9]),
      (OtherOp ''exit_tb'' 0 0 1 True, [0])]"
  by (simp add: lx_ops_def lx_args_def op_nargs_def nb_args_def)

lemma lx_ok:
  "ctx_ok lx_ctx" "\<forall>(op, args) \<in> set (parse_block lx_ops lx_args). la_wt lx_ctx op args"
  "bb_scoped lx_ctx {} (parse_block lx_ops lx_args)" "exits_block (parse_block lx_ops lx_args)"
  "sem_documented lx_sem (parse_block lx_ops lx_args)"
  unfolding lx_parse
  by (simp_all add: ctx_ok_def lx_ctx_def lx_sem_def temp_of_def plain_temp_def ends_bb_def exits_block_def sem_documented_def
      helpers_documented_def bb_end_names_def)

lemma lx_returns: "\<exists>ops' n buf'. tcg_optimize lx_ctx T lx_ops lx_args = Inr (ops', n, buf')"
proof -
  have "\<forall>(op, args) \<in> set (parse_block lx_ops lx_args). wt_op lx_ctx op args"
    unfolding lx_parse by (simp add: lx_ctx_def temp_of_def)
  moreover have "\<not> (\<exists>(op, args) \<in> set (parse_block lx_ops lx_args). op_fault op args e)" for e
    unfolding lx_parse by (simp add: shift_op_def)
  ultimately show ?thesis using optimize_result [OF lx_ok(1), of lx_ops lx_args T]
    by (cases "tcg_optimize lx_ctx T lx_ops lx_args") auto
qed

definition lx_live :: "TCGOpcode list \<times> u16 option list \<times> u64 list" where
  "lx_live = ([Movi I32, nopn 2, BinOp OpAdd I32, nopn 2, OtherOp ''exit_tb'' 0 0 1 True],
     [Some 0, None, Some 2, None, Some 0], [1, 7, 2, 2, 0, 1, 1, 2, 2, 0])"

lemma lx_analysis: "tcg_liveness_analysis lx_ctx lx_ops 10 lx_args = Inr lx_live"
  by code_simp

lemma lx_size:
  "length (concat (map snd (parse_block lx_ops lx_args))) = 10" "length lx_ops = 5" "length lx_args = 10"
  "map (length \<circ> snd) (parse_block lx_ops lx_args) = [2, 2, 3, 2, 1]" "parse_block lx_ops lx_args ! 2 = (BinOp OpAdd I32, [0, 1, 1])"
  "fst (snd lx_live) ! 2 = Some 2"
  by (simp_all add: lx_parse, simp_all add: lx_ops_def lx_args_def lx_live_def)

theorem tcg_liveness_well_typed_witness:
  "\<exists>ops' das buf'. tcg_liveness_analysis lx_ctx lx_ops 10 lx_args = Inr (ops', das, buf') \<and>
    length ops' = 5 \<and> length das = 5 \<and> (\<forall>(op, args) \<in> set (parse_block ops' buf'). la_wt lx_ctx op args) \<and>
    map (length \<circ> snd) (parse_block ops' buf') = [2, 2, 3, 2, 1] \<and> drop 10 buf' = drop 10 lx_args"
proof -
  have "length lx_args < 2 ^ 64" by (simp add: lx_size)
  from tcg_liveness_well_typed [OF lx_ok(1,2) this] show ?thesis unfolding lx_size(1,2,4) .
qed

theorem tcg_liveness_preserves_witness:
  "same_exit lx_ctx (run_block lx_ctx lx_sem (parse_block lx_ops lx_args) 5 (\<lambda>_. 0) 3)
     (run_block lx_ctx lx_sem (parse_block (fst lx_live) (take 10 (snd (snd lx_live)))) 5 (\<lambda>_. 0) 3)"
  by (rule tcg_liveness_preserves [OF lx_ok, where das = "fst (snd lx_live)"]) (simp_all add: lx_size lx_analysis)

theorem tcg_gen_ops_preserves_witness:
  "\<exists>ops' das n buf'. tcg_gen_ops lx_ctx ex_temps lx_ops lx_args = Inr (ops', das, n, buf') \<and>
    same_exit lx_ctx (run_block lx_ctx lx_sem (parse_block lx_ops lx_args) 5 (\<lambda>_. 0) 3)
      (run_block lx_ctx lx_sem (parse_block ops' (take n buf')) 5 (\<lambda>_. 0) 3)"
proof -
  obtain ops1 n buf1 where o: "tcg_optimize lx_ctx ex_temps lx_ops lx_args = Inr (ops1, n, buf1)"
    using lx_returns by blast
  show ?thesis using tcg_gen_ops_preserves [OF lx_ok o, of 5 "\<lambda>_. 0" 3] by blast
qed

theorem dead_args_sound_witness:
  "same_exit lx_ctx
     ((step_block lx_ctx lx_sem (parse_block (fst lx_live) (take 10 (snd (snd lx_live)))) ^^ 2) (Running 3 (\<lambda>_. 0) 3))
     ((step_block lx_ctx lx_sem (parse_block (fst lx_live) (take 10 (snd (snd lx_live)))) ^^ 2) (Running 3 ((\<lambda>_. 0)(1 := 8)) 3))"
proof -
  have "same_exit lx_ctx
      ((step_block lx_ctx lx_sem (parse_block (fst lx_live) (take 10 (snd (snd lx_live)))) ^^ 2) (Running (Suc 2) (\<lambda>_. 0) 3))
      ((step_block lx_ctx lx_sem (parse_block (fst lx_live) (take 10 (snd (snd lx_live)))) ^^ 2) (Running (Suc 2) ((\<lambda>_. 0)(1 := 8)) 3))"
    by (rule conjunct2 [OF dead_args_sound [OF lx_ok, where das = "fst (snd lx_live)" and da = 2 and j = 1 and op = "BinOp OpAdd I32" and args = "[0, 1, 1]"]])
      (simp_all add: lx_size lx_analysis)
  then show ?thesis by (simp add: eval_nat_numeral)
qed

end
