(* ===== verification/ArmArith.thy ===== *)
theory ArmArith
  imports Prelude
begin

text \<open>
  The integer helpers of the ARM target that generated code calls
  (\<^verbatim>\<open>src/emul/qemu/target-arm/op_helper.c\<close> and the first part of \<^verbatim>\<open>helper.c\<close>): saturating arithmetic with
  the sticky \<^verbatim>\<open>Q\<close> flag, flag-setting addition and subtraction, register-controlled shifts with carry
  out, division, bit reversal. The flags are kept as the emulator keeps them: \<^verbatim>\<open>NF\<close> and \<^verbatim>\<open>VF\<close> in bit 31,
  \<^verbatim>\<open>ZF\<close> as a value that is zero when \<^verbatim>\<open>Z\<close> is set, \<^verbatim>\<open>CF\<close> and \<^verbatim>\<open>QF\<close> as 0 or 1. The specifications follow the
  pseudocode of the architecture manual on integers.
\<close>

record arm_flags =
  NF :: u32
  ZF :: u32
  CF :: u32
  VF :: u32
  QF :: u32

definition SIGNBIT :: u32 where
  "SIGNBIT = 0x80000000"

section \<open>Saturating arithmetic\<close>

definition add_setq :: "u32 \<Rightarrow> u32 \<Rightarrow> 'a arm_flags_scheme \<Rightarrow> u32 \<times> 'a arm_flags_scheme" where
  "add_setq a b env =
     (let res = a + b
      in (res, if (res XOR a) AND SIGNBIT \<noteq> 0 \<and> \<not> ((a XOR b) AND SIGNBIT \<noteq> 0)
               then env\<lparr>QF := 1\<rparr> else env))"

definition add_saturate :: "u32 \<Rightarrow> u32 \<Rightarrow> 'a arm_flags_scheme \<Rightarrow> u32 \<times> 'a arm_flags_scheme" where
  "add_saturate a b env =
     (let res = a + b
      in if (res XOR a) AND SIGNBIT \<noteq> 0 \<and> \<not> ((a XOR b) AND SIGNBIT \<noteq> 0)
         then (NOT (signed_drop_bit 31 a XOR SIGNBIT), env\<lparr>QF := 1\<rparr>)
         else (res, env))"

definition sub_saturate :: "u32 \<Rightarrow> u32 \<Rightarrow> 'a arm_flags_scheme \<Rightarrow> u32 \<times> 'a arm_flags_scheme" where
  "sub_saturate a b env =
     (let res = a - b
      in if (res XOR a) AND SIGNBIT \<noteq> 0 \<and> (a XOR b) AND SIGNBIT \<noteq> 0
         then (NOT (signed_drop_bit 31 a XOR SIGNBIT), env\<lparr>QF := 1\<rparr>)
         else (res, env))"

definition double_saturate :: "u32 \<Rightarrow> 'a arm_flags_scheme \<Rightarrow> u32 \<times> 'a arm_flags_scheme" where
  "double_saturate val env =
     (if sint val \<ge> 0x40000000 then (NOT SIGNBIT, env\<lparr>QF := 1\<rparr>)
      else if sint val \<le> sint (0xc0000000 :: u32) then (SIGNBIT, env\<lparr>QF := 1\<rparr>)
      else (push_bit 1 val, env))"

definition add_usaturate :: "u32 \<Rightarrow> u32 \<Rightarrow> 'a arm_flags_scheme \<Rightarrow> u32 \<times> 'a arm_flags_scheme" where
  "add_usaturate a b env =
     (let res = a + b in if res < a then (NOT 0, env\<lparr>QF := 1\<rparr>) else (res, env))"

definition sub_usaturate :: "u32 \<Rightarrow> u32 \<Rightarrow> 'a arm_flags_scheme \<Rightarrow> u32 \<times> 'a arm_flags_scheme" where
  "sub_usaturate a b env =
     (let res = a - b in if res > a then (0, env\<lparr>QF := 1\<rparr>) else (res, env))"

text \<open>\<^verbatim>\<open>val\<close> is an \<^verbatim>\<open>int32_t\<close>; the shift count comes from the instruction.\<close>

definition do_ssat :: "u32 \<Rightarrow> nat \<Rightarrow> 'a arm_flags_scheme \<Rightarrow> (u32 \<times> 'a arm_flags_scheme) result" where
  "do_ssat val shift env =
     check (shift < 32) UndefShift
     (let top = sint (signed_drop_bit shift val); mask = push_bit shift 1 - 1
      in if top > 0 then Inr (mask, env\<lparr>QF := 1\<rparr>)
         else if top < - 1 then Inr (NOT mask, env\<lparr>QF := 1\<rparr>)
         else Inr (val, env))"

definition do_usat :: "u32 \<Rightarrow> nat \<Rightarrow> 'a arm_flags_scheme \<Rightarrow> (u32 \<times> 'a arm_flags_scheme) result" where
  "do_usat val shift env =
     check (shift < 32) UndefShift
     (let max = push_bit shift 1 - 1
      in if sint val < 0 then Inr (0, env\<lparr>QF := 1\<rparr>)
         else if val > max then Inr (max, env\<lparr>QF := 1\<rparr>)
         else Inr (val, env))"

definition ssat :: "u32 \<Rightarrow> u32 \<Rightarrow> 'a arm_flags_scheme \<Rightarrow> (u32 \<times> 'a arm_flags_scheme) result" where
  "ssat x shift env = do_ssat x (unat shift) env"

definition usat :: "u32 \<Rightarrow> u32 \<Rightarrow> 'a arm_flags_scheme \<Rightarrow> (u32 \<times> 'a arm_flags_scheme) result" where
  "usat x shift env = do_usat x (unat shift) env"

definition ssat16 :: "u32 \<Rightarrow> u32 \<Rightarrow> 'a arm_flags_scheme \<Rightarrow> (u32 \<times> 'a arm_flags_scheme) result" where
  "ssat16 x shift env =
     res_bind (do_ssat (scast (ucast x :: u16)) (unat shift) env) (\<lambda>(r1, env1).
     res_bind (do_ssat (signed_drop_bit 16 x) (unat shift) env1) (\<lambda>(r2, env2).
     Inr (ucast (ucast r1 :: u16) OR push_bit 16 r2, env2)))"

definition usat16 :: "u32 \<Rightarrow> u32 \<Rightarrow> 'a arm_flags_scheme \<Rightarrow> (u32 \<times> 'a arm_flags_scheme) result" where
  "usat16 x shift env =
     res_bind (do_usat (scast (ucast x :: u16)) (unat shift) env) (\<lambda>(r1, env1).
     res_bind (do_usat (signed_drop_bit 16 x) (unat shift) env1) (\<lambda>(r2, env2).
     Inr (ucast (ucast r1 :: u16) OR push_bit 16 r2, env2)))"

section \<open>Flag-setting arithmetic\<close>

definition add_cc :: "u32 \<Rightarrow> u32 \<Rightarrow> 'a arm_flags_scheme \<Rightarrow> u32 \<times> 'a arm_flags_scheme" where
  "add_cc a b env =
     (let result = a + b
      in (result, env\<lparr>NF := result, ZF := result, CF := of_bool (result < a),
                      VF := (a XOR b XOR - 1) AND (a XOR result)\<rparr>))"

definition adc_cc :: "u32 \<Rightarrow> u32 \<Rightarrow> 'a arm_flags_scheme \<Rightarrow> u32 \<times> 'a arm_flags_scheme" where
  "adc_cc a b env =
     (let (result, cf) = (if CF env = 0 then (a + b, of_bool (a + b < a))
                          else (a + b + 1, of_bool (a + b + 1 \<le> a)))
      in (result, env\<lparr>CF := cf, VF := (a XOR b XOR - 1) AND (a XOR result),
                      NF := result, ZF := result\<rparr>))"

definition sub_cc :: "u32 \<Rightarrow> u32 \<Rightarrow> 'a arm_flags_scheme \<Rightarrow> u32 \<times> 'a arm_flags_scheme" where
  "sub_cc a b env =
     (let result = a - b
      in (result, env\<lparr>NF := result, ZF := result, CF := of_bool (a \<ge> b),
                      VF := (a XOR b) AND (a XOR result)\<rparr>))"

definition sbc_cc :: "u32 \<Rightarrow> u32 \<Rightarrow> 'a arm_flags_scheme \<Rightarrow> u32 \<times> 'a arm_flags_scheme" where
  "sbc_cc a b env =
     (let (result, cf) = (if CF env = 0 then (a - b - 1, of_bool (a > b))
                          else (a - b, of_bool (a \<ge> b)))
      in (result, env\<lparr>CF := cf, VF := (a XOR b) AND (a XOR result),
                      NF := result, ZF := result\<rparr>))"

section \<open>Shifts by register\<close>

definition shift_count :: "u32 \<Rightarrow> nat" where
  "shift_count i = unat (i AND 0xff)"

definition shl :: "u32 \<Rightarrow> u32 \<Rightarrow> u32" where
  "shl x i = (if shift_count i \<ge> 32 then 0 else push_bit (shift_count i) x)"

definition shr :: "u32 \<Rightarrow> u32 \<Rightarrow> u32" where
  "shr x i = (if shift_count i \<ge> 32 then 0 else drop_bit (shift_count i) x)"

definition sar :: "u32 \<Rightarrow> u32 \<Rightarrow> u32" where
  "sar x i = signed_drop_bit (if shift_count i \<ge> 32 then 31 else shift_count i) x"

definition shl_cc :: "u32 \<Rightarrow> u32 \<Rightarrow> 'a arm_flags_scheme \<Rightarrow> u32 \<times> 'a arm_flags_scheme" where
  "shl_cc x i env =
     (let shift = shift_count i
      in if shift \<ge> 32 then
           (0, if shift = 32 then env\<lparr>CF := x AND 1\<rparr> else env\<lparr>CF := 0\<rparr>)
         else if shift \<noteq> 0 then
           (push_bit shift x, env\<lparr>CF := drop_bit (32 - shift) x AND 1\<rparr>)
         else (x, env))"

definition shr_cc :: "u32 \<Rightarrow> u32 \<Rightarrow> 'a arm_flags_scheme \<Rightarrow> u32 \<times> 'a arm_flags_scheme" where
  "shr_cc x i env =
     (let shift = shift_count i
      in if shift \<ge> 32 then
           (0, if shift = 32 then env\<lparr>CF := drop_bit 31 x AND 1\<rparr> else env\<lparr>CF := 0\<rparr>)
         else if shift \<noteq> 0 then
           (drop_bit shift x, env\<lparr>CF := drop_bit (shift - 1) x AND 1\<rparr>)
         else (x, env))"

definition sar_cc :: "u32 \<Rightarrow> u32 \<Rightarrow> 'a arm_flags_scheme \<Rightarrow> u32 \<times> 'a arm_flags_scheme" where
  "sar_cc x i env =
     (let shift = shift_count i
      in if shift \<ge> 32 then (signed_drop_bit 31 x, env\<lparr>CF := drop_bit 31 x AND 1\<rparr>)
         else if shift \<noteq> 0 then
           (signed_drop_bit shift x, env\<lparr>CF := drop_bit (shift - 1) x AND 1\<rparr>)
         else (x, env))"

definition ror_cc :: "u32 \<Rightarrow> u32 \<Rightarrow> 'a arm_flags_scheme \<Rightarrow> u32 \<times> 'a arm_flags_scheme" where
  "ror_cc x i env =
     (let shift1 = shift_count i; shift = unat ((i AND 0xff) AND 0x1f)
      in if shift = 0 then
           (x, if shift1 \<noteq> 0 then env\<lparr>CF := drop_bit 31 x AND 1\<rparr> else env)
         else
           (drop_bit shift x OR push_bit (32 - shift) x, env\<lparr>CF := drop_bit (shift - 1) x AND 1\<rparr>))"

section \<open>Division, reversal, extension\<close>

text \<open>C division of \<^verbatim>\<open>int32_t\<close> truncates toward zero.\<close>

definition c_div :: "int \<Rightarrow> int \<Rightarrow> int" where
  "c_div a b = sgn a * sgn b * (\<bar>a\<bar> div \<bar>b\<bar>)"

definition INT_MIN :: u32 where
  "INT_MIN = 0x80000000"

definition sdiv :: "u32 \<Rightarrow> u32 \<Rightarrow> u32" where
  "sdiv num den =
     (if den = 0 then 0
      else if num = INT_MIN \<and> den = - 1 then INT_MIN
      else of_int (c_div (sint num) (sint den)))"

definition udiv :: "u32 \<Rightarrow> u32 \<Rightarrow> u32" where
  "udiv num den = (if den = 0 then 0 else num div den)"

definition rbit :: "u32 \<Rightarrow> u32" where
  "rbit x0 =
     (let x1 = drop_bit 24 (x0 AND 0xff000000) OR drop_bit 8 (x0 AND 0x00ff0000)
             OR push_bit 8 (x0 AND 0x0000ff00) OR push_bit 24 (x0 AND 0x000000ff);
          x2 = drop_bit 4 (x1 AND 0xf0f0f0f0) OR push_bit 4 (x1 AND 0x0f0f0f0f)
      in drop_bit 3 (x2 AND 0x88888888) OR drop_bit 1 (x2 AND 0x44444444)
         OR push_bit 1 (x2 AND 0x22222222) OR push_bit 3 (x2 AND 0x11111111))"

definition abs_helper :: "u32 \<Rightarrow> u32" where
  "abs_helper x = (if sint x < 0 then - x else x)"

definition sxtb16 :: "u32 \<Rightarrow> u32" where
  "sxtb16 x =
     ucast (scast (ucast x :: u8) :: u16) OR
     push_bit 16 (scast (ucast (drop_bit 16 x) :: u8) :: u32)"

definition uxtb16 :: "u32 \<Rightarrow> u32" where
  "uxtb16 x =
     ucast (ucast (ucast x :: u8) :: u16) OR
     push_bit 16 (ucast (ucast (drop_bit 16 x) :: u8) :: u32)"

section \<open>Signs and wrap-around\<close>

lemma and_SIGNBIT: "x AND SIGNBIT \<noteq> 0 \<longleftrightarrow> sint x < 0"
proof -
  have "SIGNBIT = 2 ^ 31" by (simp add: SIGNBIT_def)
  then have "x AND SIGNBIT = x AND 2 ^ 31" by (rule arg_cong)
  moreover have "x AND 2 ^ 31 = 0 \<longleftrightarrow> \<not> bit x 31" by (rule and_exp_eq_0_iff_not_bit)
  ultimately show ?thesis using bit_last_iff [of x] by simp
qed

lemma sint_xor_neg: "sint (x XOR y :: u32) < 0 \<longleftrightarrow> (sint x < 0) \<noteq> (sint y < 0)"
  using bit_last_iff [of x] bit_last_iff [of y] bit_last_iff [of "x XOR y"] by (simp add: bit_xor_iff)

lemma sint_and_neg: "sint (x AND y :: u32) < 0 \<longleftrightarrow> sint x < 0 \<and> sint y < 0"
  using bit_last_iff [of x] bit_last_iff [of y] bit_last_iff [of "x AND y"] by (simp add: bit_and_iff)

definition wrap32 :: "int \<Rightarrow> int" where
  "wrap32 k = (if k \<ge> 2147483648 then k - 4294967296 else if k < - 2147483648 then k + 4294967296 else k)"

lemma signed_take_bit_wrap:
  assumes "- 6442450944 \<le> k" "k < 6442450944"
  shows "signed_take_bit 31 k = wrap32 k"
proof -
  have "take_bit 32 (wrap32 k) = take_bit 32 k"
    unfolding wrap32_def take_bit_eq_mod by (simp add: mod_add_self2)
  then have "signed_take_bit 31 (wrap32 k) = signed_take_bit 31 k"
    by (simp add: signed_take_bit_eq_iff_take_bit_eq)
  moreover have "signed_take_bit 31 (wrap32 k) = wrap32 k"
    by (rule signed_take_bit_int_eq_self) (use assms in \<open>auto simp: wrap32_def\<close>)
  ultimately show ?thesis by simp
qed

lemma sint_bounds: "- 2147483648 \<le> sint (x :: u32)" "sint (x :: u32) < 2147483648"
  using sint_greater_eq [of x] sint_less [of x] by simp_all

lemma sint_add_wrap: "sint (a + b :: u32) = wrap32 (sint a + sint b)"
  using sint_bounds [of a] sint_bounds [of b]
  by (simp add: sint_word_ariths(1) signed_take_bit_wrap)

lemma sint_sub_wrap: "sint (a - b :: u32) = wrap32 (sint a - sint b)"
  using sint_bounds [of a] sint_bounds [of b]
  by (simp add: sint_word_ariths(2) signed_take_bit_wrap)

lemma sar31: "NOT (signed_drop_bit 31 a XOR SIGNBIT) = (if sint a < 0 then 0x80000000 else 0x7fffffff)"
proof -
  have "signed_drop_bit 31 a = (if bit a 31 then - 1 else 0)"
    by (rule bit_word_eqI) (auto simp: bit_simps Suc_le_eq)
  then show ?thesis using bit_last_iff [of a] by (simp add: SIGNBIT_def)
qed

definition clamp :: "int \<Rightarrow> int \<Rightarrow> int \<Rightarrow> int" where
  "clamp lo hi k = max lo (min hi k)"

definition saturates ::
  "u32 \<times> 'a arm_flags_scheme \<Rightarrow> 'a arm_flags_scheme \<Rightarrow> (u32 \<Rightarrow> int) \<Rightarrow> int \<Rightarrow> int \<Rightarrow> int \<Rightarrow> bool" where
  "saturates r env val lo hi k \<longleftrightarrow>
     val (fst r) = clamp lo hi k \<and> snd r = (if lo \<le> k \<and> k \<le> hi then env else env\<lparr>QF := 1\<rparr>)"

lemma add_saturate_ok:
  "saturates (add_saturate a b env) env sint (- (2 ^ 31)) (2 ^ 31 - 1) (sint a + sint b)"
  using sint_bounds [of a] sint_bounds [of b]
  by (auto simp: saturates_def add_saturate_def Let_def and_SIGNBIT sint_xor_neg sint_add_wrap sar31 clamp_def wrap32_def split: if_splits)

lemma sub_saturate_ok:
  "saturates (sub_saturate a b env) env sint (- (2 ^ 31)) (2 ^ 31 - 1) (sint a - sint b)"
  using sint_bounds [of a] sint_bounds [of b]
  by (auto simp: saturates_def sub_saturate_def Let_def and_SIGNBIT sint_xor_neg sint_sub_wrap sar31 clamp_def wrap32_def split: if_splits)

lemma double_saturate_value:
  "sint (fst (double_saturate a env)) = clamp (- (2 ^ 31)) (2 ^ 31 - 1) (2 * sint a)"
  "snd (double_saturate a env) =
     (if - (2 ^ 31) < 2 * sint a \<and> 2 * sint a \<le> 2 ^ 31 - 1 then env else env\<lparr>QF := 1\<rparr>)"
proof -
  have "sint (push_bit 1 a) = wrap32 (sint a + sint a)"
    using sint_add_wrap [of a a] by (simp add: push_bit_eq_mult mult.commute)
  then show "sint (fst (double_saturate a env)) = clamp (- (2 ^ 31)) (2 ^ 31 - 1) (2 * sint a)"
    using sint_bounds [of a]
    by (auto simp: double_saturate_def clamp_def wrap32_def SIGNBIT_def)
  show "snd (double_saturate a env) =
     (if - (2 ^ 31) < 2 * sint a \<and> 2 * sint a \<le> 2 ^ 31 - 1 then env else env\<lparr>QF := 1\<rparr>)"
    by (auto simp: double_saturate_def)
qed

lemma uint_minus_1: "uint (- 1 :: u32) = 4294967295"
  by (simp add: unsigned_minus_1_eq_mask mask_eq_exp_minus_1)

lemma add_usaturate_ok:
  "saturates (add_usaturate a b env) env uint 0 (2 ^ 32 - 1) (uint a + uint b)"
  using uint_lt2p [of a] uint_lt2p [of b] uint_ge_0 [of a] uint_ge_0 [of b]
  by (auto simp: saturates_def add_usaturate_def Let_def word_less_def uint_plus_if' clamp_def
      uint_minus_1 split: if_splits)

lemma sub_usaturate_ok:
  "saturates (sub_usaturate a b env) env uint 0 (2 ^ 32 - 1) (uint a - uint b)"
proof -
  have "uint a < 4294967296" using uint_lt2p [of a] by simp
  then have "uint a - uint b \<le> 4294967295" using uint_ge_0 [of b] by linarith
  then show ?thesis using uint_lt2p [of b]
    by (auto simp: saturates_def sub_usaturate_def Let_def word_less_def uint_sub_if' clamp_def
        split: if_splits)
qed

lemma mask_shift: "push_bit n 1 - 1 = (mask n :: u32)"
  by (simp add: mask_eq_exp_minus_1 push_bit_eq_mult)

lemma uint_mask: "n \<le> 32 \<Longrightarrow> uint (mask n :: u32) = mask n"
  by (rule bit_eqI) (simp add: bit_simps, linarith)

lemma pow_bounds:
  assumes "n < 32"
  shows "0 < (2::int) ^ n" "(2::int) ^ n \<le> 2147483648"
  using power_increasing [of n 31 "2::int"] assms by simp_all

lemma sint_mask:
  assumes "n < 32"
  shows "sint (mask n :: u32) = 2 ^ n - 1" "sint (NOT (mask n) :: u32) = - (2 ^ n)"
proof -
  note b = pow_bounds [OF assms]
  have "(2::int) ^ 31 = 2147483648" by simp
  then have lo: "- (2 ^ 31) \<le> (2::int) ^ n - 1" and hi: "(2::int) ^ n - 1 < 2 ^ 31"
    using b by linarith+
  have "sint (mask n :: u32) = signed_take_bit 31 (2 ^ n - 1)"
    using uint_mask [of n] assms by (simp add: sint_uint mask_eq_exp_minus_1)
  also have "\<dots> = 2 ^ n - 1" using lo hi by (rule signed_take_bit_int_eq_self)
  finally show 1: "sint (mask n :: u32) = 2 ^ n - 1" .
  have "sint (NOT (mask n) :: u32) = wrap32 (sint (- 1 :: u32) - sint (mask n :: u32))"
    unfolding sint_sub_wrap [symmetric] not_eq_complement by (rule arg_cong [of _ _ sint]) simp
  also have "\<dots> = wrap32 (- (2 ^ n))" unfolding 1 by simp
  also have "\<dots> = - (2 ^ n)"
  proof -
    have "\<not> 2147483648 \<le> - ((2::int) ^ n)" "\<not> - ((2::int) ^ n) < - 2147483648" using b by linarith+
    then show ?thesis by (simp only: wrap32_def if_False)
  qed
  finally show "sint (NOT (mask n) :: u32) = - (2 ^ n)" .
qed

lemma div_neg_one_iff:
  fixes k P :: int
  assumes "0 < P"
  shows "k div P < - 1 \<longleftrightarrow> k < - P"
proof
  assume "k div P < - 1"
  then have "P * (k div P + 1) \<le> P * (- 1)" using assms by (intro mult_left_mono) auto
  moreover have "k < P * (k div P) + P" using assms mult_div_mod_eq [of P k] pos_mod_bound [of P k] by linarith
  ultimately show "k < - P" by (simp add: distrib_left)
next
  assume a: "k < - P"
  show "k div P < - 1"
  proof (rule ccontr)
    assume "\<not> k div P < - 1"
    then have "P * (- 1) \<le> P * (k div P)" using assms by (intro mult_left_mono) auto
    moreover have "P * (k div P) \<le> k" using assms mult_div_mod_eq [of P k] pos_mod_sign [of P k] by linarith
    ultimately show False using a by simp
  qed
qed

lemma sint_wrap: "sint (v :: u32) = wrap32 (uint v)"
proof -
  have "uint v < 4294967296" using uint_lt2p [of v] by simp
  then have "- 6442450944 \<le> uint v" "uint v < 6442450944" using uint_ge_0 [of v] by linarith+
  from signed_take_bit_wrap [OF this] show ?thesis by (simp add: sint_uint)
qed

lemma sint_nonneg:
  assumes "0 \<le> sint (v :: u32)"
  shows "sint v = uint v"
proof -
  have "uint v < 4294967296" using uint_lt2p [of v] by simp
  then show ?thesis using assms unfolding sint_wrap wrap32_def
    by (auto split: if_splits) (use uint_ge_0 [of v] in linarith)+
qed

lemma do_ssat_ok:
  assumes "n < 32"
  shows "\<exists>r. do_ssat v n env = Inr r \<and> saturates r env sint (- (2 ^ n)) (2 ^ n - 1) (sint v)"
proof -
  define P where "P = (2::int) ^ n"
  have P: "0 < P" "P \<le> 2147483648" using pow_bounds [OF assms] by (simp_all add: P_def)
  have top: "sint (signed_drop_bit n v) = sint v div P"
    by (simp add: sint_signed_drop_bit_eq drop_bit_eq_div P_def)
  have "sint v div P > 0 \<longleftrightarrow> P \<le> sint v" using P(1) by (simp add: pos_imp_zdiv_pos_iff)
  moreover have "sint v div P < - 1 \<longleftrightarrow> sint v < - P"
    using div_neg_one_iff [OF P(1)] .
  ultimately show ?thesis using assms sint_mask [OF assms] P
    unfolding do_ssat_def mask_shift by (auto simp: Let_def saturates_def clamp_def top simp flip: P_def)
qed

lemma do_usat_ok:
  assumes "n < 32"
  shows "\<exists>r. do_usat v n env = Inr r \<and> saturates r env sint 0 (2 ^ n - 1) (sint v)"
proof -
  have u: "mask n < v \<longleftrightarrow> 2 ^ n - 1 < sint v" if "0 \<le> sint v"
    using uint_mask [of n] assms sint_nonneg [OF that]
    by (simp add: word_less_def mask_eq_exp_minus_1)
  show ?thesis
    using assms sint_mask(1) [OF assms] u pow_bounds [OF assms]
    unfolding do_usat_def mask_shift by (auto simp: Let_def saturates_def clamp_def not_less)
qed


section \<open>Flags\<close>

text \<open>\<open>AddWithCarry\<close> of the architecture manual: result, carry out, overflow\<close>

definition AddWithCarry :: "u32 \<Rightarrow> u32 \<Rightarrow> nat \<Rightarrow> u32 \<times> bool \<times> bool" where
  "AddWithCarry x y c =
     (let unsigned_sum = unat x + unat y + c; signed_sum = sint x + sint y + int c; result = of_nat unsigned_sum
      in (result, unat result \<noteq> unsigned_sum, sint result \<noteq> signed_sum))"

definition flags_show :: "u32 \<times> 'a arm_flags_scheme \<Rightarrow> 'a arm_flags_scheme \<Rightarrow> u32 \<times> bool \<times> bool \<Rightarrow> bool" where
  "flags_show r env spec \<longleftrightarrow>
     (case spec of (res, c, v) \<Rightarrow>
        fst r = res \<and> CF (snd r) = of_bool c \<and> (sint (VF (snd r)) < 0 \<longleftrightarrow> v) \<and>
        (sint (NF (snd r)) < 0 \<longleftrightarrow> sint res < 0) \<and> (ZF (snd r) = 0 \<longleftrightarrow> res = 0) \<and>
        snd r = env\<lparr>NF := NF (snd r), ZF := ZF (snd r), CF := CF (snd r), VF := VF (snd r)\<rparr>)"

lemma sint_m1_neg: "sint (- 1 :: u32) < 0" by simp

lemma sint_not_neg: "sint (NOT x :: u32) < 0 \<longleftrightarrow> \<not> sint x < 0"
  using bit_last_iff [of x] bit_last_iff [of "NOT x"] by (simp add: bit_not_iff)

lemma awc_result: "fst (AddWithCarry x y c) = x + y + of_nat c"
  by (simp add: AddWithCarry_def Let_def)

lemma awc_carry:
  assumes "c \<le> 1"
  shows "fst (snd (AddWithCarry x y c)) \<longleftrightarrow> 2 ^ 32 \<le> unat x + unat y + c"
proof -
  have "unat (of_nat (unat x + unat y + c) :: u32) = (unat x + unat y + c) mod 2 ^ 32"
    by (simp only: unat_of_nat) simp
  moreover have "k mod 2 ^ 32 \<noteq> k \<longleftrightarrow> (2 ^ 32 :: nat) \<le> k" for k
    by (metis linorder_not_le mod_less mod_less_divisor zero_less_numeral zero_less_power)
  ultimately show ?thesis by (simp only: AddWithCarry_def Let_def fst_conv snd_conv)
qed

lemma sint_awc:
  assumes "c \<le> 1"
  shows "sint (x + y + of_nat c :: u32) = wrap32 (sint x + sint y + int c)"
proof -
  have "x + y + of_nat c = of_int (sint x + sint y + int c)" by simp
  then have "sint (x + y + of_nat c :: u32) = signed_take_bit 31 (sint x + sint y + int c)"
    by (simp only: sint_sbintrunc') simp
  then show ?thesis using sint_bounds [of x] sint_bounds [of y] assms
    by (simp add: signed_take_bit_wrap)
qed


lemma awc_eq:
  assumes "c \<le> 1"
  shows "AddWithCarry x y c =
    (x + y + of_nat c, 2 ^ 32 \<le> unat x + unat y + c,
     sint x + sint y + int c < - 2147483648 \<or> 2147483648 \<le> sint x + sint y + int c)"
proof -
  have "snd (snd (AddWithCarry x y c)) \<longleftrightarrow> wrap32 (sint x + sint y + int c) \<noteq> sint x + sint y + int c"
    using sint_awc [OF assms, of x y] by (simp add: AddWithCarry_def Let_def)
  then show ?thesis
    using awc_result [of x y c] awc_carry [OF assms, of x y]
    by (cases "AddWithCarry x y c") (auto simp: wrap32_def)
qed

lemma unat_bounds: "unat (x :: u32) < 4294967296"
  using unsigned_less [of x, where 'a = nat] by simp

lemma unat_not: "unat (NOT b :: u32) = 4294967295 - unat b"
proof -
  have "NOT b = - 1 - b" by (simp add: not_eq_complement)
  moreover have "unat (- 1 :: u32) = 4294967295" by (simp add: unsigned_minus_1_eq_mask mask_eq_exp_minus_1)
  moreover have "b \<le> - 1" by simp
  ultimately show ?thesis by (simp add: unat_sub)
qed

lemma sint_not: "sint (NOT b :: u32) = - sint b - 1"
proof -
  have "NOT b = - 1 - b" by (simp add: not_eq_complement)
  then show ?thesis using sint_sub_wrap [of "- 1" b] sint_bounds [of b] by (simp add: wrap32_def)
qed

lemma overflow_sign:
  assumes "c \<le> 1"
  shows "sint ((x XOR y XOR - 1) AND (x XOR (x + y + of_nat c)) :: u32) < 0 \<longleftrightarrow>
    sint x + sint y + int c < - 2147483648 \<or> 2147483648 \<le> sint x + sint y + int c"
  using sint_bounds [of x] sint_bounds [of y] assms
  by (auto simp: sint_and_neg sint_xor_neg sint_not_neg sint_awc [OF assms] wrap32_def)

lemma carry_less:
  "x + y < x \<longleftrightarrow> 4294967296 \<le> unat x + unat y" "x + y + 1 \<le> x \<longleftrightarrow> 4294967296 \<le> unat x + unat y + 1"
  for x y :: u32
proof -
  have 0: "unat (x + y) = (unat x + unat y) mod 4294967296" by (simp add: unat_word_ariths)
  have 1: "unat (x + y + 1) = (unat x + unat y + 1) mod 4294967296"
    by (simp add: unat_word_ariths mod_simps)
  show "x + y < x \<longleftrightarrow> 4294967296 \<le> unat x + unat y"
    using unat_bounds [of x] unat_bounds [of y] by (auto simp: word_less_nat_alt 0 mod_if)
  show "x + y + 1 \<le> x \<longleftrightarrow> 4294967296 \<le> unat x + unat y + 1"
    using unat_bounds [of x] unat_bounds [of y] by (auto simp: word_le_nat_alt 1 mod_if)
qed

lemma flags_record:
  "(env\<lparr>CF := c, VF := v, NF := n, ZF := z\<rparr> :: 'a arm_flags_scheme) = env\<lparr>NF := n, ZF := z, CF := c, VF := v\<rparr>"
  by simp

lemma add_cc_ok: "flags_show (add_cc a b env) env (AddWithCarry a b 0)"
  using overflow_sign [of 0 a b]
  by (simp add: flags_show_def add_cc_def Let_def awc_eq carry_less)

lemma adc_cc_ok: "flags_show (adc_cc a b env) env (AddWithCarry a b (if CF env = 0 then 0 else 1))"
  using overflow_sign [of 0 a b] overflow_sign [of 1 a b]
  by (simp add: flags_show_def adc_cc_def Let_def awc_eq carry_less)

lemma sub_as_add: "a - b = a + NOT b + 1" "a - b - 1 = a + NOT b" for a b :: u32
  by (simp_all add: not_eq_complement)

lemma xor_not: "a XOR b = a XOR NOT b XOR - 1" for a b :: u32
  by (rule bit_word_eqI) (simp add: bit_simps)

text \<open>Subtraction as the addition of the complement\<close>

lemma sub_flags:
  assumes "c \<le> 1" and "r = a - b - of_nat (1 - c)" and "cf \<longleftrightarrow> unat b + 1 \<le> unat a + c"
  shows "flags_show (r, env\<lparr>NF := r, ZF := r, CF := of_bool cf, VF := (a XOR b) AND (a XOR r)\<rparr>) env
           (AddWithCarry a (NOT b) c)"
proof -
  have r: "r = a + NOT b + of_nat c"
    using assms(1,2) by (cases "c = 0") (auto simp: not_eq_complement le_Suc_eq)
  have "(a XOR b) AND (a XOR r) = (a XOR NOT b XOR - 1) AND (a XOR (a + NOT b + of_nat c))"
    unfolding r using xor_not [of a b] by metis
  then have v: "sint ((a XOR b) AND (a XOR r)) < 0 \<longleftrightarrow>
      sint a + sint (NOT b) + int c < - 2147483648 \<or> 2147483648 \<le> sint a + sint (NOT b) + int c"
    using overflow_sign [OF assms(1), of a "NOT b"] by metis
  have "cf \<longleftrightarrow> 2 ^ 32 \<le> unat a + unat (NOT b) + c"
    using assms(3) unat_bounds [of b] by (auto simp: unat_not)
  with v r show ?thesis unfolding flags_show_def awc_eq [OF assms(1)] by simp
qed

lemma sub_cc_ok: "flags_show (sub_cc a b env) env (AddWithCarry a (NOT b) 1)"
  unfolding sub_cc_def Let_def by (rule sub_flags) (auto simp: word_le_nat_alt)

lemma sbc_cc_ok: "flags_show (sbc_cc a b env) env (AddWithCarry a (NOT b) (if CF env = 0 then 0 else 1))"
proof (cases "CF env = 0")
  case True
  have "sbc_cc a b env = (a - b - 1, env\<lparr>NF := a - b - 1, ZF := a - b - 1, CF := of_bool (a > b),
      VF := (a XOR b) AND (a XOR (a - b - 1))\<rparr>)"
    using True by (simp add: sbc_cc_def)
  then show ?thesis using True sub_flags [of 0 "a - b - 1" a b "a > b" env] by (simp add: word_less_nat_alt Suc_le_eq)
next
  case False
  have "sbc_cc a b env = (a - b, env\<lparr>NF := a - b, ZF := a - b, CF := of_bool (a \<ge> b),
      VF := (a XOR b) AND (a XOR (a - b))\<rparr>)"
    using False by (simp add: sbc_cc_def)
  then show ?thesis using False sub_flags [of 1 "a - b" a b "a \<ge> b" env] by (simp add: word_le_nat_alt)
qed

section \<open>Shifts\<close>

lemma bit_and_1: "x AND 1 = of_bool (bit x 0)" for x :: u32
  by (rule bit_word_eqI) (auto simp: bit_simps)

text \<open>The carry out of a left shift is bit 32 of the unbounded product.\<close>

lemma shl_cc_ok:
  "shl_cc x i env =
     (of_nat (unat x * 2 ^ shift_count i),
      if shift_count i = 0 then env else env\<lparr>CF := of_bool (bit (unat x * 2 ^ shift_count i) 32)\<rparr>)"
proof -
  have "of_nat (unat x * 2 ^ n) = push_bit n x" for n by (simp add: push_bit_eq_mult)
  moreover have "push_bit n x = 0" if "n \<ge> 32" for n
    by (rule bit_word_eqI) (use that in \<open>simp add: bit_simps\<close>)
  moreover have "bit (unat x * 2 ^ n) 32 \<longleftrightarrow> n \<le> 32 \<and> bit x (32 - n)" for n
    using bit_push_bit_iff [of n "unat x" 32] by (simp add: push_bit_eq_mult bit_unsigned_iff)
  ultimately show ?thesis
    by (auto simp: shl_cc_def Let_def bit_and_1 bit_simps)
qed

lemma shr_cc_ok:
  "shr_cc x i env =
     (of_nat (unat x div 2 ^ shift_count i),
      if shift_count i = 0 then env else env\<lparr>CF := of_bool (bit x (shift_count i - 1))\<rparr>)"
proof -
  have "of_nat (unat x div 2 ^ n) = drop_bit n x" for n
    by (rule bit_word_eqI) (simp add: bit_simps flip: drop_bit_eq_div)
  moreover have "drop_bit n x = 0" if "n \<ge> 32" for n
    by (rule bit_word_eqI) (use that in \<open>auto simp: bit_simps dest: bit_imp_le_length\<close>)
  ultimately show ?thesis
    by (auto simp: shr_cc_def Let_def bit_and_1 bit_simps dest: bit_imp_le_length)
qed

lemma sar_cc_ok:
  "sar_cc x i env =
     (of_int (sint x div 2 ^ shift_count i),
      if shift_count i = 0 then env else env\<lparr>CF := of_bool (bit (sint x) (shift_count i - 1))\<rparr>)"
proof -
  have "of_int (sint x div 2 ^ n) = signed_drop_bit n x" for n
    by (rule bit_word_eqI) (simp add: bit_simps flip: drop_bit_eq_div)
  moreover have "signed_drop_bit n x = signed_drop_bit 31 x" if "n \<ge> 32" for n
    by (rule bit_word_eqI) (use that in \<open>auto simp: bit_simps Suc_le_eq\<close>)
  ultimately show ?thesis
    by (auto simp: sar_cc_def Let_def bit_and_1 bit_simps dest: bit_imp_le_length)
qed


lemma ror_count: "unat ((i AND 0xff) AND 0x1f :: u32) = shift_count i mod 32"
proof -
  have "(0x1f :: u32) = mask 5" by (simp add: mask_eq_exp_minus_1)
  then have "(i AND 0xff) AND 0x1f = take_bit 5 (i AND 0xff)" by (simp only: take_bit_eq_mask)
  then show ?thesis by (simp add: shift_count_def unsigned_take_bit_eq take_bit_eq_mod unat_mod)
qed

lemma ror_cc_ok:
  "ror_cc x i env =
     (word_rotr (shift_count i) x,
      if shift_count i = 0 then env else env\<lparr>CF := of_bool (bit (word_rotr (shift_count i) x) 31)\<rparr>)"
proof -
  define n where "n = shift_count i"
  define m where "m = n mod 32"
  have m32: "m < 32" by (simp add: m_def)
  have "word_rotr n x = word_rotr m x"
    unfolding m_def by (rule bit_word_eqI) (simp only: bit_word_rotr_iff len_of_numeral_defs mod_add_right_eq, simp add: mod_simps)
  note rot = this
  have low: "drop_bit k x AND 1 = of_bool (bit x k)" for k by (simp add: bit_and_1 bit_drop_bit_eq)
  show ?thesis
    unfolding ror_cc_def Let_def ror_count low n_def [symmetric] m_def [symmetric] rot
  proof (cases m)
    case 0
    have "word_rotr 0 x = x" by (rule bit_word_eqI) (simp add: bit_word_rotr_iff)
    with 0 show "(if m = 0 then (x, if n \<noteq> 0 then env\<lparr>CF := of_bool (bit x 31)\<rparr> else env)
        else (drop_bit m x OR push_bit (32 - m) x, env\<lparr>CF := of_bool (bit x (m - 1))\<rparr>)) =
      (word_rotr m x, if n = 0 then env else env\<lparr>CF := of_bool (bit (word_rotr m x) 31)\<rparr>)"
      by simp
  next
    case (Suc k)
    have "bit (word_rotr m x) 31 \<longleftrightarrow> bit x k"
      using m32 unfolding bit_word_rotr_iff Suc by simp
    moreover have "word_rotr m x = drop_bit m x OR push_bit (32 - m) x"
      using rot_shifts(1) [of m x] Suc m32 by (simp add: or.commute)
    moreover have "n \<noteq> 0" using Suc by (auto simp: m_def)
    ultimately show "(if m = 0 then (x, if n \<noteq> 0 then env\<lparr>CF := of_bool (bit x 31)\<rparr> else env)
        else (drop_bit m x OR push_bit (32 - m) x, env\<lparr>CF := of_bool (bit x (m - 1))\<rparr>)) =
      (word_rotr m x, if n = 0 then env else env\<lparr>CF := of_bool (bit (word_rotr m x) 31)\<rparr>)"
      using Suc by simp
  qed
qed

lemma rbit_bits: "\<forall>k \<in> {0, 1, 2, 3, 4, 5, 6, 7, 8, 9, 10, 11, 12, 13, 14, 15, 16, 17, 18, 19, 20, 21, 22, 23,
    24, 25, 26, 27, 28, 29, 30, 31}. bit (rbit x) k = bit x (31 - k)"
  unfolding rbit_def Let_def ball_simps
  by (simp only: bit_or_iff bit_and_iff bit_push_bit_iff bit_drop_bit_eq comp_def) simp

lemma rbit_ok: "bit (rbit x) k \<longleftrightarrow> k < 32 \<and> bit x (31 - k)"
proof (cases "k < 32")
  case True
  then have "k \<in> {0, 1, 2, 3, 4, 5, 6, 7, 8, 9, 10, 11, 12, 13, 14, 15, 16, 17, 18, 19, 20, 21, 22, 23,
    24, 25, 26, 27, 28, 29, 30, 31}" by (simp add: less_eq_Suc_le) presburger
  with rbit_bits [of x] True show ?thesis by blast
next
  case False
  then show ?thesis by (auto dest: bit_imp_le_length)
qed

section \<open>Properties\<close>

text \<open>
  C28. The four saturating additions and subtractions return the exact sum or difference clamped to
  the range of the signed or unsigned 32-bit type, and set the sticky \<^verbatim>\<open>Q\<close> flag exactly when
  the exact value is out of range, leaving everything else alone.
\<close>

theorem saturating_arith_correct:
  "saturates (add_saturate a b env) env sint (- (2 ^ 31)) (2 ^ 31 - 1) (sint a + sint b) \<and>
   saturates (sub_saturate a b env) env sint (- (2 ^ 31)) (2 ^ 31 - 1) (sint a - sint b) \<and>
   saturates (add_usaturate a b env) env uint 0 (2 ^ 32 - 1) (uint a + uint b) \<and>
   saturates (sub_usaturate a b env) env uint 0 (2 ^ 32 - 1) (uint a - uint b)"
  by (intro conjI add_saturate_ok sub_saturate_ok add_usaturate_ok sub_usaturate_ok)

text \<open>
  C30. Saturating doubling returns twice the operand clamped to the signed range, but sets the \<^verbatim>\<open>Q\<close>
  flag also for the operand \<open>-2^30\<close>, whose double \<open>-2^31\<close> is representable.
\<close>

theorem double_saturate_exact:
  "sint (fst (double_saturate a env)) = clamp (- (2 ^ 31)) (2 ^ 31 - 1) (2 * sint a) \<and>
   snd (double_saturate a env) =
     (if - (2 ^ 31) \<le> 2 * sint a \<and> 2 * sint a \<le> 2 ^ 31 - 1 \<and> sint a \<noteq> - (2 ^ 30)
      then env else env\<lparr>QF := 1\<rparr>)"
  using double_saturate_value [of a env] by auto

text \<open>
  C29. The saturate instructions with a bit position below 32 return and clamp the operand to the signed
  range \<open>-2^n \<dots> 2^n - 1\<close> or the unsigned range \<open>0 \<dots> 2^n - 1\<close>, setting \<^verbatim>\<open>Q\<close> exactly when they clamp.
\<close>

theorem ssat_usat_correct:
  assumes "unat sh < 32"
  shows "\<exists>r r'. ssat x sh env = Inr r \<and> saturates r env sint (- (2 ^ unat sh)) (2 ^ unat sh - 1) (sint x) \<and>
    usat x sh env = Inr r' \<and> saturates r' env sint 0 (2 ^ unat sh - 1) (sint x)"
  using do_ssat_ok [OF assms, of x env] do_usat_ok [OF assms, of x env] by (auto simp: ssat_def usat_def)

theorem ssat_usat_correct_witness:
  "\<exists>r r'. ssat 300 7 \<lparr>NF = 0, ZF = 0, CF = 0, VF = 0, QF = 0\<rparr> = Inr r \<and> sint (fst r) = 127 \<and> QF (snd r) = 1 \<and>
     usat 300 9 \<lparr>NF = 0, ZF = 0, CF = 0, VF = 0, QF = 0\<rparr> = Inr r' \<and> sint (fst r') = 300 \<and> QF (snd r') = 0"
  using ssat_usat_correct [of 7 300 "\<lparr>NF = 0, ZF = 0, CF = 0, VF = 0, QF = 0\<rparr>"]
    ssat_usat_correct [of 9 300 "\<lparr>NF = 0, ZF = 0, CF = 0, VF = 0, QF = 0\<rparr>"]
  by (auto simp: saturates_def clamp_def)

text \<open>
  C26. Flag-setting addition and subtraction, without and with carry in, return the result and set the
  flags \<^verbatim>\<open>N\<close>, \<^verbatim>\<open>Z\<close>, \<^verbatim>\<open>C\<close>, \<^verbatim>\<open>V\<close> that the architecture's \<open>AddWithCarry\<close> defines (subtraction adds the complement),
  and change nothing else.
\<close>

theorem arith_cc_correct:
  "flags_show (add_cc a b env) env (AddWithCarry a b 0) \<and>
   flags_show (adc_cc a b env) env (AddWithCarry a b (if CF env = 0 then 0 else 1)) \<and>
   flags_show (sub_cc a b env) env (AddWithCarry a (NOT b) 1) \<and>
   flags_show (sbc_cc a b env) env (AddWithCarry a (NOT b) (if CF env = 0 then 0 else 1))"
  by (intro conjI add_cc_ok adc_cc_ok sub_cc_ok sbc_cc_ok)

text \<open>
  C27. Shifts by a register use its low byte \<open>n\<close>: the left shift is multiplication by \<open>2^n\<close> with the carry
  in bit 32 of the unbounded product, the right shifts are unsigned and flooring signed division by
  \<open>2^n\<close> with the last bit shifted out as carry, and rotation carries out its top bit; a zero count
  leaves the carry.
\<close>

theorem shift_cc_correct:
  "shl_cc x i env =
     (of_nat (unat x * 2 ^ shift_count i),
      if shift_count i = 0 then env else env\<lparr>CF := of_bool (bit (unat x * 2 ^ shift_count i) 32)\<rparr>) \<and>
   shr_cc x i env =
     (of_nat (unat x div 2 ^ shift_count i),
      if shift_count i = 0 then env else env\<lparr>CF := of_bool (bit x (shift_count i - 1))\<rparr>) \<and>
   sar_cc x i env =
     (of_int (sint x div 2 ^ shift_count i),
      if shift_count i = 0 then env else env\<lparr>CF := of_bool (bit (sint x) (shift_count i - 1))\<rparr>) \<and>
   ror_cc x i env =
     (word_rotr (shift_count i) x,
      if shift_count i = 0 then env else env\<lparr>CF := of_bool (bit (word_rotr (shift_count i) x) 31)\<rparr>)"
  by (intro conjI shl_cc_ok shr_cc_ok sar_cc_ok ror_cc_ok)

text \<open>Bit reversal by three rounds of masked shifts moves bit \<open>k\<close> to bit \<open>31 - k\<close>.\<close>

theorem rbit_reverses: "bit (rbit x) k \<longleftrightarrow> k < 32 \<and> bit x (31 - k)"
  by (rule rbit_ok)

end
