(* ===== verification/NeonLanes.thy ===== *)
theory NeonLanes
  imports ArmArith
begin

text \<open>
  The vectors of \<^verbatim>\<open>target-arm/neon_helper.c\<close>. A 32- or 64-bit operand is a structure of lanes of 8,
  16 or 32 bits; on a little-endian host the first lane is the least significant. The macros
  \<^verbatim>\<open>NEON_UNPACK\<close>, \<^verbatim>\<open>NEON_PACK\<close>, \<^verbatim>\<open>NEON_DO\<close>\<open>n\<close>, \<^verbatim>\<open>NEON_PDO\<close>\<open>n\<close>, \<^verbatim>\<open>NEON_VOP\<close>, \<^verbatim>\<open>NEON_VOP_ENV\<close>, \<^verbatim>\<open>NEON_POP\<close> and
  \<^verbatim>\<open>NEON_VOP1\<close> are functions of the lane operation \<^verbatim>\<open>NEON_FN\<close>; the number of lanes is the quotient
  of the widths. The locale \<open>lanes\<close> states what unpacking and packing promise to every
  vector operation, and is interpreted for the layouts in use.
\<close>

section \<open>State\<close>

text \<open>The part of \<^verbatim>\<open>env->vfp\<close> the helpers use: \<^verbatim>\<open>xregs[ARM_VFP_FPSCR]\<close> and the double registers.\<close>

record neon_env =
  fpscr :: u32
  vfp_regs :: "u64 list"

definition CPSR_Q :: u32 where
  "CPSR_Q = 0x8000000"

definition SET_QC :: "neon_env \<Rightarrow> neon_env" where
  "SET_QC env = env\<lparr>fpscr := CPSR_Q\<rparr>"

lemma SET_QC_idem [simp]: "SET_QC (SET_QC env) = SET_QC env"
  by (simp add: SET_QC_def)

section \<open>Lanes\<close>

definition NEON_UNPACK :: "'b::len word \<Rightarrow> 'a::len word list" where
  "NEON_UNPACK x = map (\<lambda>i. ucast (drop_bit (i * LENGTH('a)) x)) [0..<LENGTH('b) div LENGTH('a)]"

primrec NEON_PACK :: "'a::len word list \<Rightarrow> 'b::len word" where
  "NEON_PACK [] = 0"
| "NEON_PACK (v # vs) = ucast v OR push_bit LENGTH('a) (NEON_PACK vs)"

definition NEON_VOP :: "('a::len word \<Rightarrow> 'a word \<Rightarrow> 'a word) \<Rightarrow> u32 \<Rightarrow> u32 \<Rightarrow> u32" where
  "NEON_VOP NEON_FN arg1 arg2 = NEON_PACK (map2 NEON_FN (NEON_UNPACK arg1) (NEON_UNPACK arg2))"

definition NEON_VOP1 :: "('a::len word \<Rightarrow> 'a word) \<Rightarrow> u32 \<Rightarrow> u32" where
  "NEON_VOP1 NEON_FN arg = NEON_PACK (map NEON_FN (NEON_UNPACK arg))"

text \<open>\<^verbatim>\<open>NEON_PDO\<close>\<open>n\<close>: neighbours of the first operand, then of the second.\<close>

fun pairwise :: "('a \<Rightarrow> 'a \<Rightarrow> 'b) \<Rightarrow> 'a list \<Rightarrow> 'b list" where
  "pairwise f (x # y # zs) = f x y # pairwise f zs"
| "pairwise f zs = []"

definition NEON_POP :: "('a::len word \<Rightarrow> 'a word \<Rightarrow> 'a word) \<Rightarrow> u32 \<Rightarrow> u32 \<Rightarrow> u32" where
  "NEON_POP NEON_FN arg1 arg2 =
     NEON_PACK (pairwise NEON_FN (NEON_UNPACK arg1 @ NEON_UNPACK arg2))"

text \<open>The lane operations that may set \<^verbatim>\<open>QC\<close> run in lane order.\<close>

fun NEON_DO_ENV ::
  "('a \<Rightarrow> 'a \<Rightarrow> 's \<Rightarrow> 'b \<times> 's) \<Rightarrow> 'a list \<Rightarrow> 'a list \<Rightarrow> 's \<Rightarrow> 'b list \<times> 's" where
  "NEON_DO_ENV NEON_FN (x # xs) (y # ys) env =
     (let (d, env1) = NEON_FN x y env; (ds, env2) = NEON_DO_ENV NEON_FN xs ys env1 in (d # ds, env2))"
| "NEON_DO_ENV NEON_FN xs ys env = ([], env)"

definition NEON_VOP_ENV ::
  "('a::len word \<Rightarrow> 'a word \<Rightarrow> neon_env \<Rightarrow> 'a word \<times> neon_env)
   \<Rightarrow> u32 \<Rightarrow> u32 \<Rightarrow> neon_env \<Rightarrow> u32 \<times> neon_env" where
  "NEON_VOP_ENV NEON_FN arg1 arg2 env =
     (let (vdest, env') = NEON_DO_ENV NEON_FN (NEON_UNPACK arg1) (NEON_UNPACK arg2) env
      in (NEON_PACK vdest, env'))"

section \<open>Saturating results\<close>

text \<open>
  What a saturating operation promises of one lane whose exact result is \<open>v\<close>: the nearest
  representable value, and \<^verbatim>\<open>QC\<close> set exactly when that is not \<open>v\<close>; and of a vector: every lane,
  and \<^verbatim>\<open>QC\<close> when some lane saturates.
\<close>

definition sat_s :: "nat \<Rightarrow> int \<Rightarrow> int" where
  "sat_s n v = clamp (- (2 ^ (n - 1))) (2 ^ (n - 1) - 1) v"

definition sat_u :: "nat \<Rightarrow> int \<Rightarrow> int" where
  "sat_u n v = clamp 0 (2 ^ n - 1) v"

definition q_result :: "(int \<Rightarrow> int) \<Rightarrow> int \<Rightarrow> neon_env \<Rightarrow> 'a::len word \<times> neon_env" where
  "q_result sat v env = (word_of_int (sat v), if sat v \<noteq> v then SET_QC env else env)"

definition q_lanes ::
  "(int \<Rightarrow> int) \<Rightarrow> ('a::len word \<Rightarrow> 'a word \<Rightarrow> int) \<Rightarrow> 'a word list \<Rightarrow> 'a word list
   \<Rightarrow> neon_env \<Rightarrow> 'c::len word list \<times> neon_env" where
  "q_lanes sat exact xs ys env =
     (map2 (\<lambda>x y. word_of_int (sat (exact x y))) xs ys,
      if list_ex (\<lambda>(x, y). sat (exact x y) \<noteq> exact x y) (zip xs ys) then SET_QC env else env)"

lemma q_lanes_Cons:
  "q_lanes sat exact (x # xs) (y # ys) env =
     (let (d, env1) = q_result sat (exact x y) env; (ds, env2) = q_lanes sat exact xs ys env1 in (d # ds, env2))"
  by (simp add: q_lanes_def q_result_def)

lemma NEON_DO_ENV_q:
  assumes "\<And>x y env. fn x y env = q_result sat (exact x y) env"
  shows "NEON_DO_ENV fn xs ys env = q_lanes sat exact xs ys env"
proof (induction xs arbitrary: ys env)
  case (Cons x xs)
  then show ?case by (cases ys) (simp_all add: assms q_lanes_Cons, simp add: q_lanes_def)
qed (simp add: q_lanes_def)

section \<open>Packing and unpacking\<close>

lemma length_NEON_UNPACK [simp]:
  "length (NEON_UNPACK (x :: 'b::len word) :: 'a::len word list) = LENGTH('b) div LENGTH('a)"
  by (simp add: NEON_UNPACK_def)

lemma nth_NEON_UNPACK:
  "i < LENGTH('b::len) div LENGTH('a::len) \<Longrightarrow>
   (NEON_UNPACK (x :: 'b word) :: 'a word list) ! i = ucast (drop_bit (i * LENGTH('a)) x)"
  by (simp add: NEON_UNPACK_def)

lemma bit_NEON_PACK:
  fixes vs :: "'a::len word list"
  shows "bit (NEON_PACK vs :: 'b::len word) i \<longleftrightarrow>
    i < LENGTH('b) \<and> i div LENGTH('a) < length vs \<and> bit (vs ! (i div LENGTH('a))) (i mod LENGTH('a))"
proof (induction vs arbitrary: i)
  case (Cons v vs)
  have "bit (NEON_PACK (v # vs) :: 'b word) i \<longleftrightarrow>
      i < LENGTH('b) \<and> (bit v i \<or> LENGTH('a) \<le> i \<and> bit (NEON_PACK vs :: 'b word) (i - LENGTH('a)))"
    by (auto simp: bit_simps)
  also have "\<dots> \<longleftrightarrow> i < LENGTH('b) \<and> i div LENGTH('a) < length (v # vs) \<and>
      bit ((v # vs) ! (i div LENGTH('a))) (i mod LENGTH('a))"
  proof (cases "i < LENGTH('a)")
    case False
    then have "i div LENGTH('a) = Suc ((i - LENGTH('a)) div LENGTH('a))"
      "i mod LENGTH('a) = (i - LENGTH('a)) mod LENGTH('a)"
      by (auto simp: le_div_geq le_mod_geq not_less)
    moreover have "\<not> bit v i" using False bit_imp_le_length [of v i] by (auto simp: not_less)
    ultimately show ?thesis using False by (auto simp: Cons)
  qed auto
  finally show ?case .
qed simp

lemma NEON_UNPACK_PACK:
  fixes vs :: "'a::len word list"
  assumes "LENGTH('b::len) = length vs * LENGTH('a)"
  shows "NEON_UNPACK (NEON_PACK vs :: 'b word) = vs"
proof (rule nth_equalityI)
  show "length (NEON_UNPACK (NEON_PACK vs :: 'b word) :: 'a word list) = length vs"
    using assms by simp
next
  fix i assume "i < length (NEON_UNPACK (NEON_PACK vs :: 'b word) :: 'a word list)"
  then have i: "i < length vs" using assms by simp
  have "bit ((NEON_UNPACK (NEON_PACK vs :: 'b word) :: 'a word list) ! i) k = bit (vs ! i) k" if k: "k < LENGTH('a)" for k
  proof -
    have "i * LENGTH('a) + k < (i + 1) * LENGTH('a)" using k by simp
    also have "\<dots> \<le> length vs * LENGTH('a)" using i by (intro mult_le_mono1) simp
    finally have "i * LENGTH('a) + k < LENGTH('b)" using assms by simp
    then show ?thesis using i k assms by (simp add: nth_NEON_UNPACK bit_simps bit_NEON_PACK)
  qed
  then show "NEON_UNPACK (NEON_PACK vs :: 'b word) ! i = vs ! i" by (rule bit_word_eqI)
qed

lemma NEON_PACK_UNPACK:
  fixes x :: "'b::len word"
  assumes "LENGTH('b) = n * LENGTH('a::len)"
  shows "NEON_PACK (NEON_UNPACK x :: 'a word list) = x"
proof (rule bit_word_eqI)
  fix i assume i: "i < LENGTH('b)"
  then have "i div LENGTH('a) < n" using assms by (simp add: less_mult_imp_div_less)
  then show "bit (NEON_PACK (NEON_UNPACK x :: 'a word list) :: 'b word) i = bit x i"
    using i assms by (simp add: bit_NEON_PACK nth_NEON_UNPACK bit_simps)
qed

locale lanes =
  fixes unpack :: "'b::len word \<Rightarrow> 'a::len word list" and pack :: "'a word list \<Rightarrow> 'b word" and n :: nat
  assumes unpack_pack: "length vs = n \<Longrightarrow> unpack (pack vs) = vs"
    and pack_unpack: "pack (unpack x) = x"
    and length_unpack: "length (unpack x) = n"
begin

lemma unpack_inject: "unpack x = unpack y \<longleftrightarrow> x = y"
  by (metis pack_unpack)

lemma pack_eqI: "length vs = n \<Longrightarrow> unpack x = vs \<Longrightarrow> x = pack vs"
  using pack_unpack by metis

lemma unpack_map2: "unpack (pack (map2 f (unpack x) (unpack y))) = map2 f (unpack x) (unpack y)"
  by (rule unpack_pack) (simp add: length_unpack)

lemma unpack_map: "unpack (pack (map f (unpack x))) = map f (unpack x)"
  by (rule unpack_pack) (simp add: length_unpack)

lemma lane_map2:
  "i < n \<Longrightarrow> unpack (pack (map2 f (unpack x) (unpack y))) ! i = f (unpack x ! i) (unpack y ! i)"
  by (simp add: unpack_map2 length_unpack)

lemma lane_map: "i < n \<Longrightarrow> unpack (pack (map f (unpack x))) ! i = f (unpack x ! i)"
  by (simp add: unpack_map length_unpack)

end

interpretation u8x4: lanes "NEON_UNPACK :: u32 \<Rightarrow> u8 list" NEON_PACK 4
  by unfold_locales (auto intro: NEON_UNPACK_PACK NEON_PACK_UNPACK [where n = 4])

interpretation u16x2: lanes "NEON_UNPACK :: u32 \<Rightarrow> u16 list" NEON_PACK 2
  by unfold_locales (auto intro: NEON_UNPACK_PACK NEON_PACK_UNPACK [where n = 2])

interpretation u32x1: lanes "NEON_UNPACK :: u32 \<Rightarrow> u32 list" NEON_PACK 1
  by unfold_locales (auto intro: NEON_UNPACK_PACK NEON_PACK_UNPACK [where n = 1])

interpretation u8x8: lanes "NEON_UNPACK :: u64 \<Rightarrow> u8 list" NEON_PACK 8
  by unfold_locales (auto intro: NEON_UNPACK_PACK NEON_PACK_UNPACK [where n = 8])

interpretation u16x4: lanes "NEON_UNPACK :: u64 \<Rightarrow> u16 list" NEON_PACK 4
  by unfold_locales (auto intro: NEON_UNPACK_PACK NEON_PACK_UNPACK [where n = 4])

interpretation u32x2: lanes "NEON_UNPACK :: u64 \<Rightarrow> u32 list" NEON_PACK 2
  by unfold_locales (auto intro: NEON_UNPACK_PACK NEON_PACK_UNPACK [where n = 2])

end
