(* ===== verification/NeonSat.thy ===== *)
theory NeonSat
  imports NeonLanes
begin

text \<open>
  The saturating additions and subtractions of \<^verbatim>\<open>neon_helper.c\<close>: \<^verbatim>\<open>neon_qadd\<close> and \<^verbatim>\<open>neon_qsub\<close> on lanes of
  8 and 16 bits (the macros \<^verbatim>\<open>NEON_USAT\<close> and \<^verbatim>\<open>NEON_SSAT\<close>, in 32-bit arithmetic) and on 32 and 64 bits
  (with overflow tests on the sign bits), with the saturating sign operations. Each is shown
  to give the nearest representable value of the exact result and to set \<^verbatim>\<open>QC\<close> exactly when
  that differs from it.
\<close>

section \<open>Definitions\<close>

definition SIGNBIT64 :: u64 where
  "SIGNBIT64 = 0x8000000000000000"

definition NEON_USAT_add :: "'a::len word \<Rightarrow> 'a word \<Rightarrow> neon_env \<Rightarrow> 'a word \<times> neon_env" where
  "NEON_USAT_add src1 src2 env =
     (let tmp = (ucast src1 :: u32) + ucast src2
      in if tmp \<noteq> ucast (ucast tmp :: 'a word) then (- 1, SET_QC env) else (ucast tmp, env))"

definition NEON_SSAT_add :: "'a::len word \<Rightarrow> 'a word \<Rightarrow> neon_env \<Rightarrow> 'a word \<times> neon_env" where
  "NEON_SSAT_add src1 src2 env =
     (let tmp = (scast src1 :: u32) + scast src2
      in if tmp \<noteq> scast (ucast tmp :: 'a word) then
           (ucast (if sint src2 > 0 then push_bit (LENGTH('a) - 1) 1 - 1
                   else push_bit (LENGTH('a) - 1) 1 :: u32), SET_QC env)
         else (ucast tmp, env))"

definition NEON_USAT_sub :: "'a::len word \<Rightarrow> 'a word \<Rightarrow> neon_env \<Rightarrow> 'a word \<times> neon_env" where
  "NEON_USAT_sub src1 src2 env =
     (let tmp = (ucast src1 :: u32) - ucast src2
      in if tmp \<noteq> ucast (ucast tmp :: 'a word) then (0, SET_QC env) else (ucast tmp, env))"

definition NEON_SSAT_sub :: "'a::len word \<Rightarrow> 'a word \<Rightarrow> neon_env \<Rightarrow> 'a word \<times> neon_env" where
  "NEON_SSAT_sub src1 src2 env =
     (let tmp = (scast src1 :: u32) - scast src2
      in if tmp \<noteq> scast (ucast tmp :: 'a word) then
           (ucast (if sint src2 < 0 then push_bit (LENGTH('a) - 1) 1 - 1
                   else push_bit (LENGTH('a) - 1) 1 :: u32), SET_QC env)
         else (ucast tmp, env))"

definition neon_qadd_u8 :: "u32 \<Rightarrow> u32 \<Rightarrow> neon_env \<Rightarrow> u32 \<times> neon_env" where
  "neon_qadd_u8 = NEON_VOP_ENV (NEON_USAT_add :: u8 \<Rightarrow> _)"

definition neon_qadd_u16 :: "u32 \<Rightarrow> u32 \<Rightarrow> neon_env \<Rightarrow> u32 \<times> neon_env" where
  "neon_qadd_u16 = NEON_VOP_ENV (NEON_USAT_add :: u16 \<Rightarrow> _)"

definition neon_qadd_u32 :: "u32 \<Rightarrow> u32 \<Rightarrow> neon_env \<Rightarrow> u32 \<times> neon_env" where
  "neon_qadd_u32 a b env =
     (let res = a + b in if res < a then (- 1, SET_QC env) else (res, env))"

definition neon_qadd_u64 :: "u64 \<Rightarrow> u64 \<Rightarrow> neon_env \<Rightarrow> u64 \<times> neon_env" where
  "neon_qadd_u64 src1 src2 env =
     (let res = src1 + src2 in if res < src1 then (- 1, SET_QC env) else (res, env))"

definition neon_qadd_s8 :: "u32 \<Rightarrow> u32 \<Rightarrow> neon_env \<Rightarrow> u32 \<times> neon_env" where
  "neon_qadd_s8 = NEON_VOP_ENV (NEON_SSAT_add :: u8 \<Rightarrow> _)"

definition neon_qadd_s16 :: "u32 \<Rightarrow> u32 \<Rightarrow> neon_env \<Rightarrow> u32 \<times> neon_env" where
  "neon_qadd_s16 = NEON_VOP_ENV (NEON_SSAT_add :: u16 \<Rightarrow> _)"

definition neon_qadd_s32 :: "u32 \<Rightarrow> u32 \<Rightarrow> neon_env \<Rightarrow> u32 \<times> neon_env" where
  "neon_qadd_s32 a b env =
     (let res = a + b
      in if (res XOR a) AND SIGNBIT \<noteq> 0 \<and> \<not> ((a XOR b) AND SIGNBIT \<noteq> 0)
         then (NOT (signed_drop_bit 31 a XOR SIGNBIT), SET_QC env) else (res, env))"

definition neon_qadd_s64 :: "u64 \<Rightarrow> u64 \<Rightarrow> neon_env \<Rightarrow> u64 \<times> neon_env" where
  "neon_qadd_s64 src1 src2 env =
     (let res = src1 + src2
      in if (res XOR src1) AND SIGNBIT64 \<noteq> 0 \<and> \<not> ((src1 XOR src2) AND SIGNBIT64 \<noteq> 0)
         then (signed_drop_bit 63 src1 XOR NOT SIGNBIT64, SET_QC env) else (res, env))"

definition neon_qsub_u8 :: "u32 \<Rightarrow> u32 \<Rightarrow> neon_env \<Rightarrow> u32 \<times> neon_env" where
  "neon_qsub_u8 = NEON_VOP_ENV (NEON_USAT_sub :: u8 \<Rightarrow> _)"

definition neon_qsub_u16 :: "u32 \<Rightarrow> u32 \<Rightarrow> neon_env \<Rightarrow> u32 \<times> neon_env" where
  "neon_qsub_u16 = NEON_VOP_ENV (NEON_USAT_sub :: u16 \<Rightarrow> _)"

definition neon_qsub_u32 :: "u32 \<Rightarrow> u32 \<Rightarrow> neon_env \<Rightarrow> u32 \<times> neon_env" where
  "neon_qsub_u32 a b env =
     (let res = a - b in if res > a then (0, SET_QC env) else (res, env))"

definition neon_qsub_u64 :: "u64 \<Rightarrow> u64 \<Rightarrow> neon_env \<Rightarrow> u64 \<times> neon_env" where
  "neon_qsub_u64 src1 src2 env =
     (if src1 < src2 then (0, SET_QC env) else (src1 - src2, env))"

definition neon_qsub_s8 :: "u32 \<Rightarrow> u32 \<Rightarrow> neon_env \<Rightarrow> u32 \<times> neon_env" where
  "neon_qsub_s8 = NEON_VOP_ENV (NEON_SSAT_sub :: u8 \<Rightarrow> _)"

definition neon_qsub_s16 :: "u32 \<Rightarrow> u32 \<Rightarrow> neon_env \<Rightarrow> u32 \<times> neon_env" where
  "neon_qsub_s16 = NEON_VOP_ENV (NEON_SSAT_sub :: u16 \<Rightarrow> _)"

definition neon_qsub_s32 :: "u32 \<Rightarrow> u32 \<Rightarrow> neon_env \<Rightarrow> u32 \<times> neon_env" where
  "neon_qsub_s32 a b env =
     (let res = a - b
      in if (res XOR a) AND SIGNBIT \<noteq> 0 \<and> (a XOR b) AND SIGNBIT \<noteq> 0
         then (NOT (signed_drop_bit 31 a XOR SIGNBIT), SET_QC env) else (res, env))"

definition neon_qsub_s64 :: "u64 \<Rightarrow> u64 \<Rightarrow> neon_env \<Rightarrow> u64 \<times> neon_env" where
  "neon_qsub_s64 src1 src2 env =
     (let res = src1 - src2
      in if (res XOR src1) AND SIGNBIT64 \<noteq> 0 \<and> (src1 XOR src2) AND SIGNBIT64 \<noteq> 0
         then (signed_drop_bit 63 src1 XOR NOT SIGNBIT64, SET_QC env) else (res, env))"

text \<open>\<^verbatim>\<open>neon_addl_saturate\<close>: two 32-bit halves, or 64 bits.\<close>

definition addl_half :: "u32 \<Rightarrow> u32 \<Rightarrow> neon_env \<Rightarrow> u32 \<times> neon_env" where
  "addl_half x y env =
     (let low = x + y
      in if (low XOR x) AND SIGNBIT \<noteq> 0 \<and> \<not> ((x XOR y) AND SIGNBIT \<noteq> 0)
         then (signed_drop_bit 31 x XOR NOT SIGNBIT, SET_QC env) else (low, env))"

definition neon_addl_saturate_s32 :: "u64 \<Rightarrow> u64 \<Rightarrow> neon_env \<Rightarrow> u64 \<times> neon_env" where
  "neon_addl_saturate_s32 a b env =
     (let (low, env1) = addl_half (ucast a) (ucast b) env;
          (high, env2) = addl_half (ucast (drop_bit 32 a)) (ucast (drop_bit 32 b)) env1
      in (ucast low OR push_bit 32 (ucast high), env2))"

definition neon_addl_saturate_s64 :: "u64 \<Rightarrow> u64 \<Rightarrow> neon_env \<Rightarrow> u64 \<times> neon_env" where
  "neon_addl_saturate_s64 a b env =
     (let result = a + b
      in if (result XOR a) AND SIGNBIT64 \<noteq> 0 \<and> \<not> ((a XOR b) AND SIGNBIT64 \<noteq> 0)
         then (signed_drop_bit 63 a XOR NOT SIGNBIT64, SET_QC env) else (result, env))"

text \<open>Saturating absolute value and negation; \<open>vec\<close> is updated in place, lane by lane.\<close>

definition DO_QABS :: "'a::len word \<Rightarrow> 'a word \<Rightarrow> 'a word \<Rightarrow> neon_env \<Rightarrow> 'a word \<times> neon_env" where
  "DO_QABS lowest highest x env =
     (if x = lowest then (highest, SET_QC env) else if sint x < 0 then (- x, env) else (x, env))"

definition DO_QNEG :: "'a::len word \<Rightarrow> 'a word \<Rightarrow> 'a word \<Rightarrow> neon_env \<Rightarrow> 'a word \<times> neon_env" where
  "DO_QNEG lowest highest x env = (if x = lowest then (highest, SET_QC env) else (- x, env))"

definition in_place ::
  "('a::len word \<Rightarrow> neon_env \<Rightarrow> 'a word \<times> neon_env) \<Rightarrow> u32 \<Rightarrow> neon_env \<Rightarrow> u32 \<times> neon_env" where
  "in_place f x env = NEON_VOP_ENV (\<lambda>v _. f v) x x env"

definition neon_qabs_s8 :: "u32 \<Rightarrow> neon_env \<Rightarrow> u32 \<times> neon_env" where
  "neon_qabs_s8 = in_place (DO_QABS (0x80 :: u8) 0x7f)"

definition neon_qneg_s8 :: "u32 \<Rightarrow> neon_env \<Rightarrow> u32 \<times> neon_env" where
  "neon_qneg_s8 = in_place (DO_QNEG (0x80 :: u8) 0x7f)"

definition neon_qabs_s16 :: "u32 \<Rightarrow> neon_env \<Rightarrow> u32 \<times> neon_env" where
  "neon_qabs_s16 = in_place (DO_QABS (0x8000 :: u16) 0x7fff)"

definition neon_qneg_s16 :: "u32 \<Rightarrow> neon_env \<Rightarrow> u32 \<times> neon_env" where
  "neon_qneg_s16 = in_place (DO_QNEG (0x8000 :: u16) 0x7fff)"

definition neon_qabs_s32 :: "u32 \<Rightarrow> neon_env \<Rightarrow> u32 \<times> neon_env" where
  "neon_qabs_s32 x env = DO_QABS SIGNBIT (NOT SIGNBIT) x env"

definition neon_qneg_s32 :: "u32 \<Rightarrow> neon_env \<Rightarrow> u32 \<times> neon_env" where
  "neon_qneg_s32 x env = DO_QNEG SIGNBIT (NOT SIGNBIT) x env"

section \<open>Signs at any width\<close>

lemma half_range:
  "(2 :: int) ^ LENGTH('a::len) = 2 * 2 ^ (LENGTH('a) - 1)"
  using power_Suc [of "2 :: int" "LENGTH('a) - 1"] by simp

lemma sint_range:
  "- (2 ^ (LENGTH('a::len) - 1)) \<le> sint (x :: 'a word)" "sint (x :: 'a word) < 2 ^ (LENGTH('a) - 1)"
  using sint_greater_eq [of x] sint_less [of x] by simp_all

definition wrap_s :: "nat \<Rightarrow> int \<Rightarrow> int" where
  "wrap_s n k = (if k \<ge> 2 ^ (n - 1) then k - 2 ^ n else if k < - (2 ^ (n - 1)) then k + 2 ^ n else k)"

lemma signed_take_bit_wrap_s:
  assumes "- (3 * 2 ^ (LENGTH('a::len) - 1)) \<le> k" "k < 3 * 2 ^ (LENGTH('a) - 1)"
  shows "signed_take_bit (LENGTH('a) - 1) k = wrap_s LENGTH('a) k"
proof -
  have "take_bit (LENGTH('a)) (wrap_s LENGTH('a) k) = take_bit LENGTH('a) k"
    unfolding wrap_s_def take_bit_eq_mod by simp
  then have "signed_take_bit (LENGTH('a) - 1) (wrap_s LENGTH('a) k) = signed_take_bit (LENGTH('a) - 1) k"
    by (simp add: signed_take_bit_eq_iff_take_bit_eq)
  moreover have "signed_take_bit (LENGTH('a) - 1) (wrap_s LENGTH('a) k) = wrap_s LENGTH('a) k"
    by (rule signed_take_bit_int_eq_self) (use assms half_range [where 'a = 'a] in \<open>auto simp: wrap_s_def\<close>)
  ultimately show ?thesis by simp
qed

lemma sint_add_wrap_s: "sint (a + b :: 'a::len word) = wrap_s LENGTH('a) (sint a + sint b)"
  unfolding sint_word_ariths(1)
  by (rule signed_take_bit_wrap_s) (use sint_range [of a] sint_range [of b] in linarith)+

lemma sint_sub_wrap_s: "sint (a - b :: 'a::len word) = wrap_s LENGTH('a) (sint a - sint b)"
  unfolding sint_word_ariths(2)
  by (rule signed_take_bit_wrap_s) (use sint_range [of a] sint_range [of b] in linarith)+

lemma sign_xor: "sint (x XOR y :: 'a::len word) < 0 \<longleftrightarrow> (sint x < 0) \<noteq> (sint y < 0)"
  using bit_last_iff [of x] bit_last_iff [of y] bit_last_iff [of "x XOR y"] by (simp add: bit_xor_iff)

lemma and_SIGNBIT64: "x AND SIGNBIT64 \<noteq> 0 \<longleftrightarrow> sint x < 0"
proof -
  have "SIGNBIT64 = 2 ^ 63" by (simp add: SIGNBIT64_def)
  then have "x AND SIGNBIT64 = x AND 2 ^ 63" by (rule arg_cong)
  moreover have "x AND 2 ^ 63 = 0 \<longleftrightarrow> \<not> bit x 63" by (rule and_exp_eq_0_iff_not_bit)
  ultimately show ?thesis using bit_last_iff [of x] by simp
qed

lemma sign_shift: "signed_drop_bit (LENGTH('a) - 1) (x :: 'a::len word) = (if sint x < 0 then - 1 else 0)"
proof -
  have "signed_drop_bit (LENGTH('a) - 1) x = (if bit x (LENGTH('a) - 1) then - 1 else 0)"
    by (rule bit_word_eqI) (auto simp: bit_simps not_le)
  then show ?thesis using bit_last_iff [of x] by simp
qed

definition max_s :: "'a::len word" where
  "max_s = word_of_int (2 ^ (LENGTH('a) - 1) - 1)"

definition min_s :: "'a::len word" where
  "min_s = word_of_int (- (2 ^ (LENGTH('a) - 1)))"

lemma sat_limits:
  "NOT (signed_drop_bit 31 a XOR SIGNBIT) = (if sint a < 0 then min_s else max_s)"
  "signed_drop_bit 31 a XOR NOT SIGNBIT = (if sint a < 0 then min_s else max_s)"
  "signed_drop_bit 63 b XOR NOT SIGNBIT64 = (if sint b < 0 then min_s else max_s)"
  "NOT (signed_drop_bit 63 b XOR SIGNBIT64) = (if sint b < 0 then min_s else max_s)"
  using sign_shift [of a] sign_shift [of b]
  by (simp_all add: SIGNBIT_def SIGNBIT64_def max_s_def min_s_def)

lemma q_result_word:
  "word_of_int v = (r :: 'a::len word) \<Longrightarrow> sat v = v \<Longrightarrow> q_result sat v env = (r, env)"
  by (simp add: q_result_def)

lemma sat_s_cases:
  "sat_s n v = (if v \<ge> 2 ^ (n - 1) then 2 ^ (n - 1) - 1 else if v < - (2 ^ (n - 1)) then - (2 ^ (n - 1)) else v)"
  using zero_less_power [of "2 :: int" "n - 1"] by (simp add: sat_s_def clamp_def)

lemma sat_u_cases: "sat_u n v = (if v \<ge> 2 ^ n then 2 ^ n - 1 else if v < 0 then 0 else v)"
  using zero_less_power [of "2 :: int" n] by (simp add: sat_u_def clamp_def)

lemma q_result_s:
  "q_result (sat_s LENGTH('a::len)) v env =
     (if v \<ge> 2 ^ (LENGTH('a) - 1) then (max_s, SET_QC env)
      else if v < - (2 ^ (LENGTH('a) - 1)) then (min_s, SET_QC env) else (word_of_int v :: 'a word, env))"
  unfolding q_result_def sat_s_cases max_s_def min_s_def by simp

lemma q_result_u:
  "q_result (sat_u n) v env =
     (if v \<ge> 2 ^ n then (word_of_int (2 ^ n - 1), SET_QC env)
      else if v < 0 then (0, SET_QC env) else (word_of_int v, env))"
  unfolding q_result_def sat_u_cases by simp

lemma q_add_s:
  fixes a b :: "'a::len word"
  shows "q_result (sat_s LENGTH('a)) (sint a + sint b) env =
    (if (sint (a + b) < 0) \<noteq> (sint a < 0) \<and> (sint a < 0) = (sint b < 0)
     then (if sint a < 0 then min_s else max_s, SET_QC env) else (a + b, env))"
  using sint_range [of a] sint_range [of b] half_range [where 'a = 'a]
  unfolding q_result_s sint_add_wrap_s wrap_s_def by auto

lemma q_sub_s:
  fixes a b :: "'a::len word"
  shows "q_result (sat_s LENGTH('a)) (sint a - sint b) env =
    (if (sint (a - b) < 0) \<noteq> (sint a < 0) \<and> (sint a < 0) \<noteq> (sint b < 0)
     then (if sint a < 0 then min_s else max_s, SET_QC env) else (a - b, env))"
  using sint_range [of a] sint_range [of b] half_range [where 'a = 'a]
  unfolding q_result_s sint_sub_wrap_s wrap_s_def by auto

lemma q_add_u:
  fixes a b :: "'a::len word"
  shows "q_result (sat_u LENGTH('a)) (uint a + uint b) env =
    (if a + b < a then (- 1, SET_QC env) else (a + b, env))"
proof -
  have "uint (a + b) = (if uint a + uint b < 2 ^ LENGTH('a) then uint a + uint b else uint a + uint b - 2 ^ LENGTH('a))"
    by (rule uint_plus_if')
  moreover have pos: "(uint a + uint b < 0) = False" by (simp add: not_less)
  ultimately show ?thesis
    using uint_lt2p [of a] uint_lt2p [of b] uint_ge_0 [of a] uint_ge_0 [of b]
    unfolding q_result_u word_less_def pos by auto
qed

lemma q_sub_u:
  fixes a b :: "'a::len word"
  shows "q_result (sat_u LENGTH('a)) (uint a - uint b) env =
    (if uint a < uint b then (0, SET_QC env) else (a - b, env))"
proof -
  have "\<not> 2 ^ LENGTH('a) \<le> uint a - uint b" using uint_lt2p [of a] uint_ge_0 [of b] by linarith
  then show ?thesis unfolding q_result_u by simp
qed

section \<open>Whole words\<close>

lemma qadd_qsub_words:
  "neon_qadd_u32 a b env = q_result (sat_u 32) (uint a + uint b) env"
  "neon_qadd_u64 c d env = q_result (sat_u 64) (uint c + uint d) env"
  "neon_qadd_s32 a b env = q_result (sat_s 32) (sint a + sint b) env"
  "neon_qadd_s64 c d env = q_result (sat_s 64) (sint c + sint d) env"
  "neon_qsub_u32 a b env = q_result (sat_u 32) (uint a - uint b) env"
  "neon_qsub_u64 c d env = q_result (sat_u 64) (uint c - uint d) env"
  "neon_qsub_s32 a b env = q_result (sat_s 32) (sint a - sint b) env"
  "neon_qsub_s64 c d env = q_result (sat_s 64) (sint c - sint d) env"
proof -
  show "neon_qadd_u32 a b env = q_result (sat_u 32) (uint a + uint b) env"
    using q_add_u [of a b env] by (simp add: neon_qadd_u32_def Let_def)
  show "neon_qadd_u64 c d env = q_result (sat_u 64) (uint c + uint d) env"
    using q_add_u [of c d env] by (simp add: neon_qadd_u64_def Let_def)
  show "neon_qadd_s32 a b env = q_result (sat_s 32) (sint a + sint b) env"
    using q_add_s [of a b env] by (simp add: neon_qadd_s32_def Let_def and_SIGNBIT sign_xor sat_limits)
  show "neon_qadd_s64 c d env = q_result (sat_s 64) (sint c + sint d) env"
    using q_add_s [of c d env] by (simp add: neon_qadd_s64_def Let_def and_SIGNBIT64 sign_xor sat_limits)
  show "neon_qsub_u32 a b env = q_result (sat_u 32) (uint a - uint b) env"
  proof -
    have "a - b > a \<longleftrightarrow> uint a < uint b"
      using uint_lt2p [of b] uint_ge_0 [of b] by (auto simp: word_less_def uint_sub_if')
    then show ?thesis using q_sub_u [of a b env] by (simp add: neon_qsub_u32_def Let_def)
  qed
  show "neon_qsub_u64 c d env = q_result (sat_u 64) (uint c - uint d) env"
    using q_sub_u [of c d env] by (simp add: neon_qsub_u64_def word_less_def)
  show "neon_qsub_s32 a b env = q_result (sat_s 32) (sint a - sint b) env"
    using q_sub_s [of a b env] by (simp add: neon_qsub_s32_def Let_def and_SIGNBIT sign_xor sat_limits)
  show "neon_qsub_s64 c d env = q_result (sat_s 64) (sint c - sint d) env"
    using q_sub_s [of c d env] by (simp add: neon_qsub_s64_def Let_def and_SIGNBIT64 sign_xor sat_limits)
qed

section \<open>Lanes\<close>

lemma fits_u:
  fixes w :: u32
  assumes "LENGTH('a::len) < 32"
  shows "w = ucast (ucast w :: 'a word) \<longleftrightarrow> uint w < 2 ^ LENGTH('a)"
proof -
  have "uint (ucast (ucast w :: 'a word) :: u32) = take_bit LENGTH('a) (uint w)"
    using assms by (intro bit_eqI) (auto simp: bit_simps)
  then have "w = ucast (ucast w :: 'a word) \<longleftrightarrow> uint w = take_bit LENGTH('a) (uint w)"
    by (metis word_uint_eqI)
  also have "\<dots> \<longleftrightarrow> uint w < 2 ^ LENGTH('a)"
    by (metis take_bit_int_eq_self take_bit_int_less_exp uint_ge_0)
  finally show ?thesis .
qed

lemma fits_s:
  fixes w :: u32
  assumes "LENGTH('a::len) < 32"
  shows "w = scast (ucast w :: 'a word) \<longleftrightarrow> - (2 ^ (LENGTH('a) - 1)) \<le> sint w \<and> sint w < 2 ^ (LENGTH('a) - 1)"
proof -
  have "sint (scast (ucast w :: 'a word) :: u32) = signed_take_bit (LENGTH('a) - 1) (sint w)"
    using assms by (intro bit_eqI) (auto simp: bit_simps min_def not_le)
  then have "w = scast (ucast w :: 'a word) \<longleftrightarrow> sint w = signed_take_bit (LENGTH('a) - 1) (sint w)"
    by (metis signed_word_eqI)
  also have "\<dots> \<longleftrightarrow> - (2 ^ (LENGTH('a) - 1)) \<le> sint w \<and> sint w < 2 ^ (LENGTH('a) - 1)"
    by (metis signed_take_bit_int_eq_self signed_take_bit_int_greater_eq_minus_exp signed_take_bit_int_less_exp)
  finally show ?thesis .
qed

lemma uint_widen: "LENGTH('a::len) \<le> 32 \<Longrightarrow> uint (ucast (x :: 'a word) :: u32) = uint x"
  by (rule bit_eqI) (auto simp: bit_simps dest: bit_imp_le_length)

lemma sint_widen: "LENGTH('a::len) \<le> 32 \<Longrightarrow> sint (scast (x :: 'a word) :: u32) = sint x"
  by (rule bit_eqI) (auto simp: bit_simps min_def)

lemma narrow_range:
  assumes "LENGTH('a::len) \<le> 16"
  shows "(2 :: int) ^ LENGTH('a) \<le> 65536" "(2 :: int) ^ (LENGTH('a) - 1) \<le> 32768"
proof -
  show "(2 :: int) ^ LENGTH('a) \<le> 65536" using power_increasing [OF assms, of "2 :: int"] by simp
  show "(2 :: int) ^ (LENGTH('a) - 1) \<le> 32768"
    using power_increasing [of "LENGTH('a) - 1" 15 "2 :: int"] assms by simp
qed

lemma low_word: "LENGTH('a::len) \<le> 32 \<Longrightarrow> (ucast (word_of_int k :: u32) :: 'a word) = word_of_int k"
  by transfer (simp add: min_def)

lemma low_ops:
  fixes x y :: "'a::len word"
  assumes "LENGTH('a) \<le> 32"
  shows "(ucast ((ucast x :: u32) + ucast y) :: 'a word) = x + y"
    "(ucast ((ucast x :: u32) - ucast y) :: 'a word) = x - y"
    "(ucast ((scast x :: u32) + scast y) :: 'a word) = x + y"
    "(ucast ((scast x :: u32) - scast y) :: 'a word) = x - y"
proof -
  have u: "(ucast x :: u32) + ucast y = word_of_int (uint x + uint y)" "(ucast x :: u32) - ucast y = word_of_int (uint x - uint y)"
    by simp_all
  have s: "(scast x :: u32) + scast y = word_of_int (sint x + sint y)" "(scast x :: u32) - scast y = word_of_int (sint x - sint y)"
    by simp_all
  show "(ucast ((ucast x :: u32) + ucast y) :: 'a word) = x + y" "(ucast ((ucast x :: u32) - ucast y) :: 'a word) = x - y"
    unfolding u low_word [OF assms] by simp_all
  show "(ucast ((scast x :: u32) + scast y) :: 'a word) = x + y" "(ucast ((scast x :: u32) - scast y) :: 'a word) = x - y"
    unfolding s low_word [OF assms] by simp_all
qed

lemma NEON_USAT_q:
  fixes x y :: "'a::len word"
  assumes n: "LENGTH('a) \<le> 16"
  shows "NEON_USAT_add x y env = q_result (sat_u LENGTH('a)) (uint x + uint y) env"
    and "NEON_USAT_sub x y env = q_result (sat_u LENGTH('a)) (uint x - uint y) env"
proof -
  note r = uint_lt2p [of x] uint_lt2p [of y] uint_ge_0 [of x] uint_ge_0 [of y] narrow_range(1) [OF n]
  have w: "uint (ucast x :: u32) = uint x" "uint (ucast y :: u32) = uint y" using n by (simp_all add: uint_widen)
  have n32: "LENGTH('a) \<le> 32" using n by simp
  note cast = low_ops [OF n32]
  have b: "uint x + uint y < 4294967296" "\<not> uint x + uint y < 0" "uint x - uint y < 2 ^ LENGTH('a)"
      "\<not> uint x - uint y + 4294967296 < 2 ^ LENGTH('a)"
    using r by linarith+
  then have pos: "(uint x + uint y < 0) = False" by simp
  have a: "uint ((ucast x :: u32) + ucast y) = uint x + uint y" using b(1) by (simp add: uint_plus_if' w)
  have "ucast x + ucast y = (ucast (ucast ((ucast x :: u32) + ucast y) :: 'a word) :: u32) \<longleftrightarrow> uint x + uint y < 2 ^ LENGTH('a)"
    using fits_u [where 'a = 'a, of "ucast x + ucast y"] n unfolding a by simp
  then show "NEON_USAT_add x y env = q_result (sat_u LENGTH('a)) (uint x + uint y) env"
    unfolding NEON_USAT_add_def Let_def q_result_u cast pos by (auto simp: not_less [symmetric])
  have s: "uint ((ucast x :: u32) - ucast y) = (if uint y \<le> uint x then uint x - uint y else uint x - uint y + 2 ^ 32)"
    by (simp add: uint_sub_if' w)
  have "ucast x - ucast y = (ucast (ucast ((ucast x :: u32) - ucast y) :: 'a word) :: u32) \<longleftrightarrow> uint y \<le> uint x"
    using fits_u [where 'a = 'a, of "ucast x - ucast y"] n b(3,4) unfolding s by (auto split: if_splits)
  then show "NEON_USAT_sub x y env = q_result (sat_u LENGTH('a)) (uint x - uint y) env"
    using r unfolding NEON_USAT_sub_def Let_def q_sub_u cast by auto
qed

lemma sat_limit_casts:
  assumes "LENGTH('a::len) \<le> 32"
  shows "(ucast (push_bit (LENGTH('a) - 1) 1 - 1 :: u32) :: 'a word) = max_s"
    "(ucast (push_bit (LENGTH('a) - 1) 1 :: u32) :: 'a word) = min_s"
proof -
  have "push_bit (LENGTH('a) - 1) 1 - 1 = (word_of_int (2 ^ (LENGTH('a) - 1) - 1) :: u32)"
    "push_bit (LENGTH('a) - 1) 1 = (word_of_int (2 ^ (LENGTH('a) - 1)) :: u32)"
    by (simp_all add: push_bit_eq_mult)
  moreover have "(word_of_int (2 ^ (LENGTH('a) - 1)) :: 'a word) = word_of_int (- (2 ^ (LENGTH('a) - 1)))"
  proof -
    have "(2 :: int) ^ (LENGTH('a) - 1) = - (2 ^ (LENGTH('a) - 1)) + 2 ^ LENGTH('a)"
      using half_range [where 'a = 'a] by simp
    then show ?thesis by (metis of_int_add of_int_power of_int_numeral word_exp_length_eq_0 add.right_neutral)
  qed
  ultimately show "(ucast (push_bit (LENGTH('a) - 1) 1 - 1 :: u32) :: 'a word) = max_s"
    "(ucast (push_bit (LENGTH('a) - 1) 1 :: u32) :: 'a word) = min_s"
    using low_word [OF assms] by (simp_all only: max_s_def min_s_def)
qed

lemma NEON_SSAT_q:
  fixes x y :: "'a::len word"
  assumes n: "LENGTH('a) \<le> 16"
  shows "NEON_SSAT_add x y env = q_result (sat_s LENGTH('a)) (sint x + sint y) env"
    and "NEON_SSAT_sub x y env = q_result (sat_s LENGTH('a)) (sint x - sint y) env"
proof -
  note r = sint_range [of x] sint_range [of y] narrow_range(2) [OF n]
  have n32: "LENGTH('a) \<le> 32" "LENGTH('a) < 32" using n by simp_all
  note cast = low_ops [OF n32(1)] sat_limit_casts [OF n32(1)]
  have w: "sint (scast x :: u32) = sint x" "sint (scast y :: u32) = sint y" using n by (simp_all add: sint_widen)
  have a: "sint ((scast x :: u32) + scast y) = sint x + sint y" "sint ((scast x :: u32) - scast y) = sint x - sint y"
    using r unfolding sint_add_wrap_s sint_sub_wrap_s w wrap_s_def by auto
  have add: "scast x + scast y = (scast (ucast ((scast x :: u32) + scast y) :: 'a word) :: u32) \<longleftrightarrow>
      - (2 ^ (LENGTH('a) - 1)) \<le> sint x + sint y \<and> sint x + sint y < 2 ^ (LENGTH('a) - 1)"
    by (simp only: fits_s [OF n32(2)] a)
  then show "NEON_SSAT_add x y env = q_result (sat_s LENGTH('a)) (sint x + sint y) env"
    using r unfolding NEON_SSAT_add_def Let_def q_result_s if_distrib [where f = "ucast :: u32 \<Rightarrow> 'a word"] cast by auto
  have sub: "scast x - scast y = (scast (ucast ((scast x :: u32) - scast y) :: 'a word) :: u32) \<longleftrightarrow>
      - (2 ^ (LENGTH('a) - 1)) \<le> sint x - sint y \<and> sint x - sint y < 2 ^ (LENGTH('a) - 1)"
    by (simp only: fits_s [OF n32(2)] a)
  then show "NEON_SSAT_sub x y env = q_result (sat_s LENGTH('a)) (sint x - sint y) env"
    using r unfolding NEON_SSAT_sub_def Let_def q_result_s if_distrib [where f = "ucast :: u32 \<Rightarrow> 'a word"] cast by auto
qed

lemma sign_limits:
  "(0x80 :: u8) = min_s" "(0x7f :: u8) = max_s" "(0x8000 :: u16) = min_s" "(0x7fff :: u16) = max_s"
  "NOT SIGNBIT = max_s" "SIGNBIT = min_s"
  by (simp_all add: min_s_def max_s_def SIGNBIT_def)

lemma sint_min_s: "sint (min_s :: 'a::len word) = - (2 ^ (LENGTH('a) - 1))"
proof -
  have "sint (min_s :: 'a word) = signed_take_bit (LENGTH('a) - 1) (- (2 ^ (LENGTH('a) - 1)))"
    unfolding min_s_def by (rule sint_sbintrunc')
  also have "\<dots> = - (2 ^ (LENGTH('a) - 1))" by (rule signed_take_bit_int_eq_self) simp_all
  finally show ?thesis .
qed

lemma DO_QABS_QNEG_q:
  fixes x :: "'a::len word"
  shows "DO_QABS min_s max_s x env = q_result (sat_s LENGTH('a)) \<bar>sint x\<bar> env"
    and "DO_QNEG min_s max_s x env = q_result (sat_s LENGTH('a)) (- sint x) env"
proof -
  have lim: "x = min_s \<longleftrightarrow> sint x = - (2 ^ (LENGTH('a) - 1))"
    by (metis sint_min_s signed_word_eqI)
  have neg: "word_of_int (- sint x) = - x" by simp
  have pos: "(0 :: int) < 2 ^ (LENGTH('a) - 1)" by simp
  show "DO_QABS min_s max_s x env = q_result (sat_s LENGTH('a)) \<bar>sint x\<bar> env"
    using sint_range [of x] pos unfolding DO_QABS_def q_result_s lim by (auto simp: abs_if)
  show "DO_QNEG min_s max_s x env = q_result (sat_s LENGTH('a)) (- sint x) env"
    using sint_range [of x] pos unfolding DO_QNEG_def q_result_s lim by auto
qed

section \<open>Vectors\<close>

definition q_vector ::
  "(int \<Rightarrow> int) \<Rightarrow> ('a::len word \<Rightarrow> 'a word \<Rightarrow> int) \<Rightarrow> u32 \<Rightarrow> u32 \<Rightarrow> neon_env \<Rightarrow> u32 \<times> neon_env" where
  "q_vector sat exact a b env =
     (let (vs, env') = q_lanes sat exact (NEON_UNPACK a) (NEON_UNPACK b) env
      in (NEON_PACK (vs :: 'a word list), env'))"

lemma NEON_VOP_ENV_q:
  assumes "\<And>x y env. fn x y env = q_result sat (exact x y) env"
  shows "NEON_VOP_ENV fn a b env = q_vector sat exact a b env"
  unfolding NEON_VOP_ENV_def q_vector_def NEON_DO_ENV_q [of fn sat exact, OF assms] by simp

lemmas q_lane_ops = NEON_USAT_q NEON_SSAT_q

lemma in_place_q:
  assumes "\<And>x env. f x env = q_result sat (exact x) env"
  shows "in_place f a env = q_vector sat (\<lambda>x _. exact x) a a env"
  unfolding in_place_def by (rule NEON_VOP_ENV_q) (rule assms)

lemma qabs_qneg_words:
  "neon_qabs_s32 a env = q_result (sat_s 32) \<bar>sint a\<bar> env"
  "neon_qneg_s32 a env = q_result (sat_s 32) (- sint a) env"
  unfolding neon_qabs_s32_def neon_qneg_s32_def sign_limits(5) unfolding sign_limits(6) by (simp_all add: DO_QABS_QNEG_q)

lemma qabs_qneg_vectors:
  "neon_qabs_s8 a env = q_vector (sat_s 8) (\<lambda>x (_ :: u8). \<bar>sint x\<bar>) a a env"
  "neon_qabs_s16 a env = q_vector (sat_s 16) (\<lambda>x (_ :: u16). \<bar>sint x\<bar>) a a env"
  "neon_qneg_s8 a env = q_vector (sat_s 8) (\<lambda>x (_ :: u8). - sint x) a a env"
  "neon_qneg_s16 a env = q_vector (sat_s 16) (\<lambda>x (_ :: u16). - sint x) a a env"
  unfolding neon_qabs_s8_def neon_qabs_s16_def neon_qneg_s8_def neon_qneg_s16_def sign_limits
  by (rule in_place_q, simp add: DO_QABS_QNEG_q)+

lemma addl_half_q: "addl_half x y env = q_result (sat_s 32) (sint x + sint y) env"
  using q_add_s [of x y env] by (simp add: addl_half_def Let_def and_SIGNBIT sign_xor sat_limits)

text \<open>
  C31. The saturating additions and subtractions of vectors of 8- and 16-bit lanes and of 32-
  and 64-bit values, signed and unsigned: every lane of the result is the exact sum or
  difference clamped to the range of the lane, and \<^verbatim>\<open>QC\<close> is set exactly when some lane was
  clamped.
\<close>

theorem neon_qadd_qsub_saturate:
  "neon_qadd_u8 a b env = q_vector (sat_u 8) (\<lambda>x y :: u8. uint x + uint y) a b env \<and>
   neon_qadd_u16 a b env = q_vector (sat_u 16) (\<lambda>x y :: u16. uint x + uint y) a b env \<and>
   neon_qadd_u32 a b env = q_result (sat_u 32) (uint a + uint b) env \<and>
   neon_qadd_u64 c d env = q_result (sat_u 64) (uint c + uint d) env \<and>
   neon_qadd_s8 a b env = q_vector (sat_s 8) (\<lambda>x y :: u8. sint x + sint y) a b env \<and>
   neon_qadd_s16 a b env = q_vector (sat_s 16) (\<lambda>x y :: u16. sint x + sint y) a b env \<and>
   neon_qadd_s32 a b env = q_result (sat_s 32) (sint a + sint b) env \<and>
   neon_qadd_s64 c d env = q_result (sat_s 64) (sint c + sint d) env \<and>
   neon_qsub_u8 a b env = q_vector (sat_u 8) (\<lambda>x y :: u8. uint x - uint y) a b env \<and>
   neon_qsub_u16 a b env = q_vector (sat_u 16) (\<lambda>x y :: u16. uint x - uint y) a b env \<and>
   neon_qsub_u32 a b env = q_result (sat_u 32) (uint a - uint b) env \<and>
   neon_qsub_u64 c d env = q_result (sat_u 64) (uint c - uint d) env \<and>
   neon_qsub_s8 a b env = q_vector (sat_s 8) (\<lambda>x y :: u8. sint x - sint y) a b env \<and>
   neon_qsub_s16 a b env = q_vector (sat_s 16) (\<lambda>x y :: u16. sint x - sint y) a b env \<and>
   neon_qsub_s32 a b env = q_result (sat_s 32) (sint a - sint b) env \<and>
   neon_qsub_s64 c d env = q_result (sat_s 64) (sint c - sint d) env"
  unfolding neon_qadd_u8_def neon_qadd_u16_def neon_qadd_s8_def neon_qadd_s16_def
    neon_qsub_u8_def neon_qsub_u16_def neon_qsub_s8_def neon_qsub_s16_def
  by (intro conjI NEON_VOP_ENV_q qadd_qsub_words) (simp_all add: q_lane_ops)

text \<open>
  Saturating absolute value, negation and the accumulating addition of the long multiplies:
  each lane is the exact value clamped to its range (the most negative value becomes the
  largest one), with \<^verbatim>\<open>QC\<close> set exactly when that happens.
\<close>

theorem neon_qabs_qneg_addl_saturate:
  "neon_qabs_s8 a env = q_vector (sat_s 8) (\<lambda>x (_ :: u8). \<bar>sint x\<bar>) a a env \<and>
   neon_qabs_s16 a env = q_vector (sat_s 16) (\<lambda>x (_ :: u16). \<bar>sint x\<bar>) a a env \<and>
   neon_qabs_s32 a env = q_result (sat_s 32) \<bar>sint a\<bar> env \<and>
   neon_qneg_s8 a env = q_vector (sat_s 8) (\<lambda>x (_ :: u8). - sint x) a a env \<and>
   neon_qneg_s16 a env = q_vector (sat_s 16) (\<lambda>x (_ :: u16). - sint x) a a env \<and>
   neon_qneg_s32 a env = q_result (sat_s 32) (- sint a) env \<and>
   neon_addl_saturate_s64 c d env = q_result (sat_s 64) (sint c + sint d) env \<and>
   neon_addl_saturate_s32 c d env =
     (let (vs, env') = q_lanes (sat_s 32) (\<lambda>x y :: u32. sint x + sint y) (NEON_UNPACK c) (NEON_UNPACK d) env
      in (NEON_PACK (vs :: u32 list), env'))"
proof (intro conjI)
  show "neon_addl_saturate_s64 c d env = q_result (sat_s 64) (sint c + sint d) env"
    using qadd_qsub_words(4) [of c d env] by (simp add: neon_addl_saturate_s64_def neon_qadd_s64_def Let_def)
  show "neon_addl_saturate_s32 c d env =
     (let (vs, env') = q_lanes (sat_s 32) (\<lambda>x y :: u32. sint x + sint y) (NEON_UNPACK c) (NEON_UNPACK d) env
      in (NEON_PACK (vs :: u32 list), env'))"
    by (simp add: neon_addl_saturate_s32_def addl_half_q NEON_UNPACK_def upt_rec q_lanes_Cons split: prod.splits)
      (simp add: q_lanes_def)
qed (rule qabs_qneg_words qabs_qneg_vectors)+

end
