(* ===== verification/NeonShift.thy ===== *)
theory NeonShift
  imports NeonSat
begin

text \<open>
  The shifts of \<^verbatim>\<open>neon_helper.c\<close> by a signed register count: \<^verbatim>\<open>shl\<close>, the rounding \<^verbatim>\<open>rshl\<close>, the
  saturating \<^verbatim>\<open>qshl\<close> and \<^verbatim>\<open>qshlu\<close> and the rounding and saturating \<^verbatim>\<open>qrshl\<close>, on every lane width. The
  count is the low byte of the lane of the second operand; a negative count shifts right. All
  of them are shown to be one of two formulas on integers, for every count from -128 to 127.
\<close>

section \<open>Definitions\<close>

definition shift_of :: "'a::len word \<Rightarrow> int" where
  "shift_of s = sint (ucast s :: u8)"

text \<open>
  \<^verbatim>\<open>(src1 + (1 << (-1 - tmp))) >> -tmp\<close>, computed in \<^verbatim>\<open>int\<close> for lanes of 8 and 16 bits and in 64-bit
  integers for 32-bit values; neither can overflow.
\<close>

definition round_shr :: "int \<Rightarrow> int \<Rightarrow> int" where
  "round_shr v tmp = drop_bit (nat (- tmp)) (v + push_bit (nat (- 1 - tmp)) 1)"

definition shl_u_fn :: "'a::len word \<Rightarrow> 'a word \<Rightarrow> 'a word" where
  "shl_u_fn src1 src2 =
     (let tmp = shift_of src2
      in if tmp \<ge> int LENGTH('a) \<or> tmp \<le> - int LENGTH('a) then 0
         else if tmp < 0 then drop_bit (nat (- tmp)) src1 else push_bit (nat tmp) src1)"

definition shl_s_fn :: "'a::len word \<Rightarrow> 'a word \<Rightarrow> 'a word" where
  "shl_s_fn src1 src2 =
     (let tmp = shift_of src2
      in if tmp \<ge> int LENGTH('a) then 0
         else if tmp \<le> - int LENGTH('a) then signed_drop_bit (LENGTH('a) - 1) src1
         else if tmp < 0 then signed_drop_bit (nat (- tmp)) src1 else push_bit (nat tmp) src1)"

definition rshl_s_fn :: "'a::len word \<Rightarrow> 'b::len word \<Rightarrow> 'a word" where
  "rshl_s_fn src1 src2 =
     (let tmp = shift_of src2
      in if tmp \<ge> int LENGTH('a) \<or> tmp \<le> - int LENGTH('a) then 0
         else if tmp < 0 then word_of_int (round_shr (sint src1) tmp) else push_bit (nat tmp) src1)"

definition rshl_u_fn :: "'a::len word \<Rightarrow> 'b::len word \<Rightarrow> 'a word" where
  "rshl_u_fn src1 src2 =
     (let tmp = shift_of src2
      in if tmp \<ge> int LENGTH('a) \<or> tmp < - int LENGTH('a) then 0
         else if tmp = - int LENGTH('a) then drop_bit (LENGTH('a) - 1) src1
         else if tmp < 0 then word_of_int (round_shr (uint src1) tmp) else push_bit (nat tmp) src1)"

definition neon_shl_u8 :: "u32 \<Rightarrow> u32 \<Rightarrow> u32" where
  "neon_shl_u8 = NEON_VOP (shl_u_fn :: u8 \<Rightarrow> _)"

definition neon_shl_u16 :: "u32 \<Rightarrow> u32 \<Rightarrow> u32" where
  "neon_shl_u16 = NEON_VOP (shl_u_fn :: u16 \<Rightarrow> _)"

definition neon_shl_u32 :: "u32 \<Rightarrow> u32 \<Rightarrow> u32" where
  "neon_shl_u32 = NEON_VOP (shl_u_fn :: u32 \<Rightarrow> _)"

definition neon_shl_u64 :: "u64 \<Rightarrow> u64 \<Rightarrow> u64" where
  "neon_shl_u64 val shiftop =
     (let shift = shift_of shiftop
      in if shift \<ge> 64 \<or> shift \<le> - 64 then 0
         else if shift < 0 then drop_bit (nat (- shift)) val else push_bit (nat shift) val)"

definition neon_shl_s8 :: "u32 \<Rightarrow> u32 \<Rightarrow> u32" where
  "neon_shl_s8 = NEON_VOP (shl_s_fn :: u8 \<Rightarrow> _)"

definition neon_shl_s16 :: "u32 \<Rightarrow> u32 \<Rightarrow> u32" where
  "neon_shl_s16 = NEON_VOP (shl_s_fn :: u16 \<Rightarrow> _)"

definition neon_shl_s32 :: "u32 \<Rightarrow> u32 \<Rightarrow> u32" where
  "neon_shl_s32 = NEON_VOP (shl_s_fn :: u32 \<Rightarrow> _)"

definition neon_shl_s64 :: "u64 \<Rightarrow> u64 \<Rightarrow> u64" where
  "neon_shl_s64 valop shiftop =
     (let shift = shift_of shiftop
      in if shift \<ge> 64 then 0
         else if shift \<le> - 64 then signed_drop_bit 63 valop
         else if shift < 0 then signed_drop_bit (nat (- shift)) valop else push_bit (nat shift) valop)"

definition neon_rshl_s8 :: "u32 \<Rightarrow> u32 \<Rightarrow> u32" where
  "neon_rshl_s8 = NEON_VOP (rshl_s_fn :: u8 \<Rightarrow> u8 \<Rightarrow> _)"

definition neon_rshl_s16 :: "u32 \<Rightarrow> u32 \<Rightarrow> u32" where
  "neon_rshl_s16 = NEON_VOP (rshl_s_fn :: u16 \<Rightarrow> u16 \<Rightarrow> _)"

definition neon_rshl_s32 :: "u32 \<Rightarrow> u32 \<Rightarrow> u32" where
  "neon_rshl_s32 valop shiftop = rshl_s_fn valop shiftop"

definition INT64_MAX :: u64 where
  "INT64_MAX = 0x7fffffffffffffff"

text \<open>The rounding right shift of 64 bits: shift by one less, add 1, shift by 1.\<close>

definition rshr_s64 :: "u64 \<Rightarrow> int \<Rightarrow> u64" where
  "rshr_s64 valop shift =
     (let val = signed_drop_bit (nat (- shift - 1)) valop
      in if val = INT64_MAX then 0x4000000000000000 else signed_drop_bit 1 (val + 1))"

definition rshr_u64 :: "u64 \<Rightarrow> int \<Rightarrow> u64" where
  "rshr_u64 valop shift =
     (let val = drop_bit (nat (- shift - 1)) valop
      in if val = - 1 then 0x8000000000000000 else drop_bit 1 (val + 1))"

definition neon_rshl_s64 :: "u64 \<Rightarrow> u64 \<Rightarrow> u64" where
  "neon_rshl_s64 valop shiftop =
     (let shift = shift_of shiftop
      in if shift \<ge> 64 \<or> shift \<le> - 64 then 0
         else if shift < 0 then rshr_s64 valop shift else push_bit (nat shift) valop)"

definition neon_rshl_u8 :: "u32 \<Rightarrow> u32 \<Rightarrow> u32" where
  "neon_rshl_u8 = NEON_VOP (rshl_u_fn :: u8 \<Rightarrow> u8 \<Rightarrow> _)"

definition neon_rshl_u16 :: "u32 \<Rightarrow> u32 \<Rightarrow> u32" where
  "neon_rshl_u16 = NEON_VOP (rshl_u_fn :: u16 \<Rightarrow> u16 \<Rightarrow> _)"

definition neon_rshl_u32 :: "u32 \<Rightarrow> u32 \<Rightarrow> u32" where
  "neon_rshl_u32 val shiftop = rshl_u_fn val shiftop"

definition neon_rshl_u64 :: "u64 \<Rightarrow> u64 \<Rightarrow> u64" where
  "neon_rshl_u64 val shiftop =
     (let shift = shift_of shiftop
      in if shift \<ge> 64 \<or> shift < - 64 then 0
         else if shift = - 64 then drop_bit 63 val
         else if shift < 0 then rshr_u64 val shift else push_bit (nat shift) val)"

subsection \<open>Saturating shifts\<close>

text \<open>\<^verbatim>\<open>dest = src1 << tmp; if ((dest >> tmp) != src1)\<close> saturate, unsigned and signed\<close>

definition qshl_left_u :: "'a::len word \<Rightarrow> nat \<Rightarrow> neon_env \<Rightarrow> 'a word \<times> neon_env" where
  "qshl_left_u src1 tmp env =
     (let dest = push_bit tmp src1
      in if drop_bit tmp dest \<noteq> src1 then (- 1, SET_QC env) else (dest, env))"

text \<open>\<^verbatim>\<open>dest = 1 << (sizeof(src1) * 8 - 1); if (src1 > 0) dest--;\<close>\<close>

definition qshl_limit :: "'a::len word \<Rightarrow> 'a word" where
  "qshl_limit src1 =
     (let dest = push_bit (LENGTH('a) - 1) 1 in if sint src1 > 0 then dest - 1 else dest)"

definition qshl_left_s :: "'a::len word \<Rightarrow> nat \<Rightarrow> 'a word \<Rightarrow> neon_env \<Rightarrow> 'a word \<times> neon_env" where
  "qshl_left_s src1 tmp limit env =
     (let dest = push_bit tmp src1
      in if signed_drop_bit tmp dest \<noteq> src1 then (limit, SET_QC env) else (dest, env))"

definition qshl_u_fn :: "'a::len word \<Rightarrow> 'a word \<Rightarrow> neon_env \<Rightarrow> 'a word \<times> neon_env" where
  "qshl_u_fn src1 src2 env =
     (let tmp = shift_of src2
      in if tmp \<ge> int LENGTH('a) then if src1 \<noteq> 0 then (- 1, SET_QC env) else (0, env)
         else if tmp \<le> - int LENGTH('a) then (0, env)
         else if tmp < 0 then (drop_bit (nat (- tmp)) src1, env)
         else qshl_left_u src1 (nat tmp) env)"

definition neon_qshl_u8 :: "u32 \<Rightarrow> u32 \<Rightarrow> neon_env \<Rightarrow> u32 \<times> neon_env" where
  "neon_qshl_u8 = NEON_VOP_ENV (qshl_u_fn :: u8 \<Rightarrow> _)"

definition neon_qshl_u16 :: "u32 \<Rightarrow> u32 \<Rightarrow> neon_env \<Rightarrow> u32 \<times> neon_env" where
  "neon_qshl_u16 = NEON_VOP_ENV (qshl_u_fn :: u16 \<Rightarrow> _)"

definition neon_qshl_u32 :: "u32 \<Rightarrow> u32 \<Rightarrow> neon_env \<Rightarrow> u32 \<times> neon_env" where
  "neon_qshl_u32 = NEON_VOP_ENV (qshl_u_fn :: u32 \<Rightarrow> _)"

definition neon_qshl_u64 :: "u64 \<Rightarrow> u64 \<Rightarrow> neon_env \<Rightarrow> u64 \<times> neon_env" where
  "neon_qshl_u64 val shiftop env =
     (let shift = shift_of shiftop
      in if shift \<ge> 64 then if val \<noteq> 0 then (- 1, SET_QC env) else (val, env)
         else if shift \<le> - 64 then (0, env)
         else if shift < 0 then (drop_bit (nat (- shift)) val, env)
         else qshl_left_u val (nat shift) env)"

definition qshl_s_fn :: "'a::len word \<Rightarrow> 'a word \<Rightarrow> neon_env \<Rightarrow> 'a word \<times> neon_env" where
  "qshl_s_fn src1 src2 env =
     (let tmp = shift_of src2
      in if tmp \<ge> int LENGTH('a) then if src1 \<noteq> 0 then (qshl_limit src1, SET_QC env) else (src1, env)
         else if tmp \<le> - int LENGTH('a) then (signed_drop_bit 31 src1, env)
         else if tmp < 0 then (signed_drop_bit (nat (- tmp)) src1, env)
         else qshl_left_s src1 (nat tmp) (qshl_limit src1) env)"

definition neon_qshl_s8 :: "u32 \<Rightarrow> u32 \<Rightarrow> neon_env \<Rightarrow> u32 \<times> neon_env" where
  "neon_qshl_s8 = NEON_VOP_ENV (qshl_s_fn :: u8 \<Rightarrow> _)"

definition neon_qshl_s16 :: "u32 \<Rightarrow> u32 \<Rightarrow> neon_env \<Rightarrow> u32 \<times> neon_env" where
  "neon_qshl_s16 = NEON_VOP_ENV (qshl_s_fn :: u16 \<Rightarrow> _)"

definition neon_qshl_s32 :: "u32 \<Rightarrow> u32 \<Rightarrow> neon_env \<Rightarrow> u32 \<times> neon_env" where
  "neon_qshl_s32 = NEON_VOP_ENV (qshl_s_fn :: u32 \<Rightarrow> _)"

definition neon_qshl_s64 :: "u64 \<Rightarrow> u64 \<Rightarrow> neon_env \<Rightarrow> u64 \<times> neon_env" where
  "neon_qshl_s64 valop shiftop env =
     (let shift = shift_of shiftop; limit = signed_drop_bit 63 valop XOR NOT SIGNBIT64
      in if shift \<ge> 64 then if valop \<noteq> 0 then (limit, SET_QC env) else (valop, env)
         else if shift \<le> - 64 then (signed_drop_bit 63 valop, env)
         else if shift < 0 then (signed_drop_bit (nat (- shift)) valop, env)
         else qshl_left_s valop (nat shift) limit env)"

definition qshlu_s_fn :: "'a::len word \<Rightarrow> 'a word \<Rightarrow> neon_env \<Rightarrow> 'a word \<times> neon_env" where
  "qshlu_s_fn src1 src2 env =
     (if src1 AND push_bit (LENGTH('a) - 1) 1 \<noteq> 0 then (0, SET_QC env)
      else qshl_u_fn src1 src2 env)"

definition neon_qshlu_s8 :: "u32 \<Rightarrow> u32 \<Rightarrow> neon_env \<Rightarrow> u32 \<times> neon_env" where
  "neon_qshlu_s8 = NEON_VOP_ENV (qshlu_s_fn :: u8 \<Rightarrow> _)"

definition neon_qshlu_s16 :: "u32 \<Rightarrow> u32 \<Rightarrow> neon_env \<Rightarrow> u32 \<times> neon_env" where
  "neon_qshlu_s16 = NEON_VOP_ENV (qshlu_s_fn :: u16 \<Rightarrow> _)"

definition neon_qshlu_s32 :: "u32 \<Rightarrow> u32 \<Rightarrow> neon_env \<Rightarrow> u32 \<times> neon_env" where
  "neon_qshlu_s32 valop shiftop env =
     (if sint valop < 0 then (0, SET_QC env) else neon_qshl_u32 valop shiftop env)"

definition neon_qshlu_s64 :: "u64 \<Rightarrow> u64 \<Rightarrow> neon_env \<Rightarrow> u64 \<times> neon_env" where
  "neon_qshlu_s64 valop shiftop env =
     (if sint valop < 0 then (0, SET_QC env) else neon_qshl_u64 valop shiftop env)"

definition qrshl_u_fn :: "'a::len word \<Rightarrow> 'b::len word \<Rightarrow> neon_env \<Rightarrow> 'a word \<times> neon_env" where
  "qrshl_u_fn src1 src2 env =
     (let tmp = shift_of src2
      in if tmp \<ge> int LENGTH('a) then if src1 \<noteq> 0 then (- 1, SET_QC env) else (0, env)
         else if tmp < - int LENGTH('a) then (0, env)
         else if tmp = - int LENGTH('a) then (drop_bit (LENGTH('a) - 1) src1, env)
         else if tmp < 0 then (word_of_int (round_shr (uint src1) tmp), env)
         else qshl_left_u src1 (nat tmp) env)"

definition neon_qrshl_u8 :: "u32 \<Rightarrow> u32 \<Rightarrow> neon_env \<Rightarrow> u32 \<times> neon_env" where
  "neon_qrshl_u8 = NEON_VOP_ENV (qrshl_u_fn :: u8 \<Rightarrow> u8 \<Rightarrow> _)"

definition neon_qrshl_u16 :: "u32 \<Rightarrow> u32 \<Rightarrow> neon_env \<Rightarrow> u32 \<times> neon_env" where
  "neon_qrshl_u16 = NEON_VOP_ENV (qrshl_u_fn :: u16 \<Rightarrow> u16 \<Rightarrow> _)"

definition neon_qrshl_u32 :: "u32 \<Rightarrow> u32 \<Rightarrow> neon_env \<Rightarrow> u32 \<times> neon_env" where
  "neon_qrshl_u32 val shiftop env = qrshl_u_fn val shiftop env"

definition neon_qrshl_u64 :: "u64 \<Rightarrow> u64 \<Rightarrow> neon_env \<Rightarrow> u64 \<times> neon_env" where
  "neon_qrshl_u64 val shiftop env =
     (let shift = shift_of shiftop
      in if shift \<ge> 64 then if val \<noteq> 0 then (- 1, SET_QC env) else (val, env)
         else if shift < - 64 then (0, env)
         else if shift = - 64 then (drop_bit 63 val, env)
         else if shift < 0 then (rshr_u64 val shift, env)
         else qshl_left_u val (nat shift) env)"

definition qrshl_s_fn :: "'a::len word \<Rightarrow> 'a word \<Rightarrow> neon_env \<Rightarrow> 'a word \<times> neon_env" where
  "qrshl_s_fn src1 src2 env =
     (let tmp = shift_of src2
      in if tmp \<ge> int LENGTH('a) then if src1 \<noteq> 0 then (qshl_limit src1, SET_QC env) else (0, env)
         else if tmp \<le> - int LENGTH('a) then (0, env)
         else if tmp < 0 then (word_of_int (round_shr (sint src1) tmp), env)
         else qshl_left_s src1 (nat tmp) (qshl_limit src1) env)"

definition neon_qrshl_s8 :: "u32 \<Rightarrow> u32 \<Rightarrow> neon_env \<Rightarrow> u32 \<times> neon_env" where
  "neon_qrshl_s8 = NEON_VOP_ENV (qrshl_s_fn :: u8 \<Rightarrow> _)"

definition neon_qrshl_s16 :: "u32 \<Rightarrow> u32 \<Rightarrow> neon_env \<Rightarrow> u32 \<times> neon_env" where
  "neon_qrshl_s16 = NEON_VOP_ENV (qrshl_s_fn :: u16 \<Rightarrow> _)"

definition neon_qrshl_s32 :: "u32 \<Rightarrow> u32 \<Rightarrow> neon_env \<Rightarrow> u32 \<times> neon_env" where
  "neon_qrshl_s32 valop shiftop env =
     (let shift = shift_of shiftop; limit = signed_drop_bit 31 valop XOR NOT SIGNBIT
      in if shift \<ge> 32 then if valop \<noteq> 0 then (limit, SET_QC env) else (0, env)
         else if shift \<le> - 32 then (0, env)
         else if shift < 0 then (word_of_int (round_shr (sint valop) shift), env)
         else qshl_left_s valop (nat shift) limit env)"

definition neon_qrshl_s64 :: "u64 \<Rightarrow> u64 \<Rightarrow> neon_env \<Rightarrow> u64 \<times> neon_env" where
  "neon_qrshl_s64 valop shiftop env =
     (let shift = shift_of shiftop; limit = signed_drop_bit 63 valop XOR NOT SIGNBIT64
      in if shift \<ge> 64 then if valop \<noteq> 0 then (limit, SET_QC env) else (valop, env)
         else if shift \<le> - 64 then (0, env)
         else if shift < 0 then (rshr_s64 valop shift, env)
         else qshl_left_s valop (nat shift) limit env)"

section \<open>The exact results\<close>

definition shift_exact :: "int \<Rightarrow> int \<Rightarrow> int" where
  "shift_exact v s = (if s < 0 then v div 2 ^ nat (- s) else v * 2 ^ nat s)"

definition rshift_exact :: "int \<Rightarrow> int \<Rightarrow> int" where
  "rshift_exact v s = (if s < 0 then (v + 2 ^ nat (- s - 1)) div 2 ^ nat (- s) else v * 2 ^ nat s)"

lemma word_shifts:
  fixes x :: "'a::len word"
  shows "word_of_int (uint x div 2 ^ k) = drop_bit k x" "word_of_int (sint x div 2 ^ k) = signed_drop_bit k x"
    "word_of_int (uint x * 2 ^ k) = push_bit k x" "word_of_int (sint x * 2 ^ k) = push_bit k x"
proof -
  show "word_of_int (uint x div 2 ^ k) = drop_bit k x"
    unfolding drop_bit_eq_div [symmetric] by (rule bit_word_eqI) (auto simp: bit_simps)
  show "word_of_int (sint x div 2 ^ k) = signed_drop_bit k x"
    unfolding drop_bit_eq_div [symmetric] sint_signed_drop_bit_eq [symmetric] by simp
qed (simp_all add: push_bit_eq_mult)

lemma far_shifts:
  fixes x :: "'a::len word"
  shows "LENGTH('a) \<le> k \<Longrightarrow> push_bit k x = 0" "LENGTH('a) \<le> k \<Longrightarrow> drop_bit k x = 0"
    "LENGTH('a) \<le> Suc k \<Longrightarrow> signed_drop_bit k x = signed_drop_bit (LENGTH('a) - 1) x"
proof -
  show "LENGTH('a) \<le> k \<Longrightarrow> push_bit k x = 0" by (rule bit_word_eqI) (simp add: bit_simps)
  show "LENGTH('a) \<le> k \<Longrightarrow> drop_bit k x = 0"
    by (rule bit_word_eqI) (auto simp: bit_simps dest: bit_imp_le_length)
  assume k: "LENGTH('a) \<le> Suc k"
  show "signed_drop_bit k x = signed_drop_bit (LENGTH('a) - 1) x"
  proof (cases "k = LENGTH('a) - 1")
    case False
    then have "LENGTH('a) \<le> k" using k by simp
    then show ?thesis using signed_drop_bit_beyond [of k x] sign_shift [of x] bit_last_iff [of x] by simp
  qed simp
qed

lemma far_mult: "LENGTH('a) \<le> k \<Longrightarrow> (x :: 'a::len word) * 2 ^ k = 0"
  using far_shifts(1) [of k x] by (simp add: push_bit_eq_mult)

lemma div_int_less: "(v :: int) < c * 2 ^ k \<Longrightarrow> v div 2 ^ k < c"
proof -
  assume "v < c * 2 ^ k"
  moreover have "v div 2 ^ k * 2 ^ k \<le> v" 
  proof -
    have "0 \<le> v mod 2 ^ k" by simp
    then show ?thesis using div_mult_mod_eq [of v "2 ^ k"] by linarith
  qed
  ultimately have "v div 2 ^ k * 2 ^ k < c * 2 ^ k" by linarith
  then show ?thesis by simp
qed

lemma round_twice:
  "(v + 2 ^ k) div 2 ^ Suc k = (v div 2 ^ k + 1) div (2 :: int)"
proof -
  have "(v + 2 ^ k) div 2 ^ Suc k = (v + 2 ^ k) div 2 ^ k div 2"
    using zdiv_zmult2_eq [of 2 "v + 2 ^ k" "2 ^ k"] by (simp add: mult.commute)
  also have "(v + 2 ^ k) div 2 ^ k = v div 2 ^ k + 1" by (rule div_add_self2) simp
  finally show ?thesis .
qed

lemma round_shr_exact: "s < 0 \<Longrightarrow> round_shr v s = rshift_exact v s"
proof -
  have "- 1 - s = - s - 1" by simp
  then show "s < 0 \<Longrightarrow> round_shr v s = rshift_exact v s"
    by (simp only: round_shr_def rshift_exact_def drop_bit_eq_div push_bit_eq_mult mult_1 if_True)
qed

lemma rshift_small:
  assumes "s < 0" "- (2 ^ nat (- s - 1)) \<le> v" "v < 2 ^ nat (- s - 1)"
  shows "rshift_exact v s = 0"
proof -
  have "(2 :: int) ^ nat (- s) = 2 * 2 ^ nat (- s - 1)"
    using assms(1) power_Suc [of "2 :: int" "nat (- s - 1)"] by (simp add: Suc_nat_eq_nat_zadd1)
  then show ?thesis using assms by (simp add: rshift_exact_def)
qed

lemma shift_nonneg: "0 \<le> s \<Longrightarrow> shift_exact v s = v * 2 ^ nat s" "0 \<le> s \<Longrightarrow> rshift_exact v s = v * 2 ^ nat s"
  by (simp_all add: shift_exact_def rshift_exact_def)

lemma shl_fns:
  fixes x y :: "'a::len word"
  shows "shl_u_fn x y = word_of_int (shift_exact (uint x) (shift_of y))"
    and "shl_s_fn x y = word_of_int (shift_exact (sint x) (shift_of y))"
proof -
  show "shl_u_fn x y = word_of_int (shift_exact (uint x) (shift_of y))"
    using less_le_trans [of 0 "int LENGTH('a)" "- shift_of y"]
    by (auto simp: shl_u_fn_def Let_def shift_exact_def word_shifts(1) push_bit_eq_mult far_shifts(2) far_mult)
  show "shl_s_fn x y = word_of_int (shift_exact (sint x) (shift_of y))"
    using far_shifts(3) [of "nat (- shift_of y)" x]
    by (auto simp: shl_s_fn_def Let_def shift_exact_def word_shifts(2) push_bit_eq_mult far_mult)
qed

lemma rshift_far:
  fixes x :: "'a::len word"
  shows "s \<le> - int LENGTH('a) \<Longrightarrow> rshift_exact (sint x) s = 0"
    "s < - int LENGTH('a) \<Longrightarrow> rshift_exact (uint x) s = 0"
    "rshift_exact (uint x) (- int LENGTH('a)) = uint x div 2 ^ (LENGTH('a) - 1)"
proof -
  have mono: "(2 :: int) ^ j \<le> 2 ^ k" if "j \<le> k" for j k using that by (rule power_increasing) simp
  show "rshift_exact (sint x) s = 0" if s: "s \<le> - int LENGTH('a)"
  proof (rule rshift_small)
    have "LENGTH('a) - 1 \<le> nat (- s - 1)" using s by linarith
    from mono [OF this] sint_range [of x]
    show "- (2 ^ nat (- s - 1)) \<le> sint x" "sint x < 2 ^ nat (- s - 1)" by linarith+
    show "s < 0" using s len_gt_0 [where 'a = 'a] by linarith
  qed
  show "rshift_exact (uint x) s = 0" if s: "s < - int LENGTH('a)"
  proof (rule rshift_small)
    have "LENGTH('a) \<le> nat (- s - 1)" using s by linarith
    from mono [OF this] uint_lt2p [of x]
    show "uint x < 2 ^ nat (- s - 1)" by linarith
    show "- (2 ^ nat (- s - 1)) \<le> uint x" by (rule order_trans [OF _ uint_ge_0]) simp
    show "s < 0" using s by linarith
  qed
  obtain k where k: "LENGTH('a) = Suc k" using len_gt_0 [where 'a = 'a] by (cases "LENGTH('a)") auto
  have "uint x div 2 ^ k < 2"
    using uint_lt2p [of x] unfolding k by (intro div_int_less) (simp_all add: mult.commute)
  moreover have "0 \<le> uint x div 2 ^ k" by (simp add: pos_imp_zdiv_nonneg_iff)
  ultimately consider "uint x div 2 ^ k = 0" | "uint x div 2 ^ k = 1" by linarith
  then have "(uint x div 2 ^ k + 1) div 2 = uint x div 2 ^ k" by cases simp_all
  then show "rshift_exact (uint x) (- int LENGTH('a)) = uint x div 2 ^ (LENGTH('a) - 1)"
    unfolding k rshift_exact_def using round_twice [of "uint x" k] by (simp add: nat_add_distrib)
qed

lemma rshl_fns:
  fixes x :: "'a::len word" and y :: "'b::len word"
  shows "rshl_s_fn x y = word_of_int (rshift_exact (sint x) (shift_of y))"
    and "rshl_u_fn x y = word_of_int (rshift_exact (uint x) (shift_of y))"
proof -
  show "rshl_s_fn x y = word_of_int (rshift_exact (sint x) (shift_of y))"
    using rshift_far(1) [where 'a = 'a]
    by (auto simp: rshl_s_fn_def Let_def round_shr_exact shift_nonneg push_bit_eq_mult far_mult)
  show "rshl_u_fn x y = word_of_int (rshift_exact (uint x) (shift_of y))"
    using rshift_far(2,3) [where 'a = 'a]
    by (auto simp: rshl_u_fn_def Let_def round_shr_exact shift_nonneg word_shifts(1) push_bit_eq_mult far_mult)
qed

section \<open>Saturating left shifts\<close>

lemma shl_fits_u:
  fixes x :: "'a::len word"
  assumes "k < LENGTH('a)"
  shows "drop_bit k (push_bit k x) = x \<longleftrightarrow> uint x * 2 ^ k < 2 ^ LENGTH('a)"
proof -
  have "drop_bit k (push_bit k x) = take_bit (LENGTH('a) - k) x"
    using assms by (intro bit_word_eqI) (auto simp: bit_simps)
  then have "drop_bit k (push_bit k x) = x \<longleftrightarrow> take_bit (LENGTH('a) - k) (uint x) = uint x"
    by (metis unsigned_take_bit_eq unsigned_word_eqI)
  also have "\<dots> \<longleftrightarrow> uint x < 2 ^ (LENGTH('a) - k)"
    by (metis take_bit_int_eq_self take_bit_int_less_exp uint_ge_0)
  also have "\<dots> \<longleftrightarrow> uint x * 2 ^ k < 2 ^ (LENGTH('a) - k) * 2 ^ k" by simp
  also have "(2 :: int) ^ (LENGTH('a) - k) * 2 ^ k = 2 ^ LENGTH('a)" using assms by (simp flip: power_add)
  finally show ?thesis .
qed

lemma shl_fits_s:
  fixes x :: "'a::len word"
  assumes k: "k < LENGTH('a)"
  shows "signed_drop_bit k (push_bit k x) = x \<longleftrightarrow>
    - (2 ^ (LENGTH('a) - 1)) \<le> sint x * 2 ^ k \<and> sint x * 2 ^ k < 2 ^ (LENGTH('a) - 1)"
proof -
  let ?v = "signed_take_bit (LENGTH('a) - 1) (sint x * 2 ^ k)"
  have v: "sint (push_bit k x) = ?v"
    using sint_sbintrunc' [where 'a = 'a, of "sint x * 2 ^ k"] by (simp add: push_bit_eq_mult)
  have "take_bit k (signed_take_bit (LENGTH('a) - 1) (sint x * 2 ^ k)) = take_bit k (sint x * 2 ^ k)"
    using k by (simp add: take_bit_signed_take_bit)
  then have dvd: "?v div 2 ^ k * 2 ^ k = ?v"
    using div_mult_mod_eq [of ?v "2 ^ k"] by (simp add: take_bit_eq_mod)
  have "signed_drop_bit k (push_bit k x) = x \<longleftrightarrow> ?v div 2 ^ k = sint x"
    by (metis v sint_signed_drop_bit_eq drop_bit_eq_div signed_word_eqI)
  also have "\<dots> \<longleftrightarrow> ?v = sint x * 2 ^ k"
    using dvd by (metis nonzero_mult_div_cancel_right power_not_zero zero_neq_numeral)
  also have "\<dots> \<longleftrightarrow> - (2 ^ (LENGTH('a) - 1)) \<le> sint x * 2 ^ k \<and> sint x * 2 ^ k < 2 ^ (LENGTH('a) - 1)"
    by (metis signed_take_bit_int_eq_self signed_take_bit_int_greater_eq_minus_exp signed_take_bit_int_less_exp)
  finally show ?thesis .
qed

text \<open>A non-zero value shifted by the width or more is out of range.\<close>

lemma shl_far_range:
  fixes x :: "'a::len word"
  assumes "LENGTH('a) \<le> k" "x \<noteq> 0"
  shows "2 ^ LENGTH('a) \<le> uint x * 2 ^ k"
    and "sint x < 0 \<Longrightarrow> sint x * 2 ^ k < - (2 ^ (LENGTH('a) - 1))"
    and "\<not> sint x < 0 \<Longrightarrow> 2 ^ (LENGTH('a) - 1) \<le> sint x * 2 ^ k"
proof -
  have p: "(2 :: int) ^ LENGTH('a) \<le> 2 ^ k" using assms(1) by (rule power_increasing) simp
  have h: "(2 :: int) ^ LENGTH('a) = 2 * 2 ^ (LENGTH('a) - 1)" "(0 :: int) < 2 ^ (LENGTH('a) - 1)"
    using half_range [where 'a = 'a] by simp_all
  have scale: "2 ^ LENGTH('a) \<le> c * 2 ^ k" if "1 \<le> c" for c :: int
  proof -
    have "1 * 2 ^ k \<le> c * 2 ^ k" using that by (rule mult_right_mono) simp
    then show ?thesis using p by linarith
  qed
  have "uint x \<noteq> 0" using assms(2) unsigned_eq_0_iff [of x] by blast
  then have "1 \<le> uint x" using uint_ge_0 [of x] by linarith
  then show "2 ^ LENGTH('a) \<le> uint x * 2 ^ k" by (rule scale)
  show "sint x * 2 ^ k < - (2 ^ (LENGTH('a) - 1))" if "sint x < 0"
    using scale [of "- sint x"] that h by linarith
  show "2 ^ (LENGTH('a) - 1) \<le> sint x * 2 ^ k" if "\<not> sint x < 0"
  proof -
    have "sint x \<noteq> 0" using assms(2) signed_eq_0_iff [of x] by blast
    with that have "1 \<le> sint x" by linarith
    from scale [OF this] h show ?thesis by linarith
  qed
qed

lemma qshl_left_u_q:
  "k < LENGTH('a) \<Longrightarrow> qshl_left_u (x :: 'a::len word) k env = q_result (sat_u LENGTH('a)) (uint x * 2 ^ k) env"
proof -
  assume "k < LENGTH('a)"
  note f = shl_fits_u [OF this, of x]
  have pos: "(uint x * 2 ^ k < 0) = False" by (simp add: not_less)
  show ?thesis
    unfolding qshl_left_u_def Let_def q_result_u f pos by (simp add: push_bit_eq_mult not_less)
qed

lemma qshl_left_s_q:
  assumes "k < LENGTH('a)" "limit = (if sint x < 0 then min_s else max_s)"
  shows "qshl_left_s (x :: 'a::len word) k limit env = q_result (sat_s LENGTH('a)) (sint x * 2 ^ k) env"
proof -
  have "(0 :: int) < 2 ^ (LENGTH('a) - 1)" by simp
  moreover have "sint x < 0 \<Longrightarrow> sint x * 2 ^ k \<le> 0" "\<not> sint x < 0 \<Longrightarrow> 0 \<le> sint x * 2 ^ k"
    by (simp_all add: mult_nonpos_nonneg)
  ultimately have "sint x < 0 \<Longrightarrow> \<not> 2 ^ (LENGTH('a) - 1) \<le> sint x * 2 ^ k"
    "\<not> sint x < 0 \<Longrightarrow> \<not> sint x * 2 ^ k < - (2 ^ (LENGTH('a) - 1))" by linarith+
  then show ?thesis
    unfolding qshl_left_s_def Let_def q_result_s shl_fits_s [OF assms(1), of x] assms(2)
    by (auto simp: push_bit_eq_mult)
qed

lemma half_word: "(2 ^ (LENGTH('a) - 1) :: 'a::len word) = min_s"
proof -
  have "(2 ^ (LENGTH('a) - 1) + 2 ^ (LENGTH('a) - 1) :: 'a word) = 2 ^ LENGTH('a)"
    using power_Suc [of "2 :: 'a word" "LENGTH('a) - 1"] by simp
  then have "(2 ^ (LENGTH('a) - 1) + 2 ^ (LENGTH('a) - 1) :: 'a word) = 0" by simp
  then have "(2 ^ (LENGTH('a) - 1) :: 'a word) = - (2 ^ (LENGTH('a) - 1))"
    by (simp only: eq_neg_iff_add_eq_0)
  then show ?thesis by (simp add: min_s_def)
qed

lemma qshl_limit_s:
  assumes "x \<noteq> 0"
  shows "qshl_limit (x :: 'a::len word) = (if sint x < 0 then min_s else max_s)"
proof -
  have "sint x \<noteq> 0" using assms signed_eq_0_iff [of x] by blast
  then show ?thesis
    using half_word [where 'a = 'a] by (simp add: qshl_limit_def Let_def max_s_def push_bit_eq_mult)
qed

lemma q_zero [simp]: "q_result (sat_u n) 0 env = (0, env)" "q_result (sat_s n) 0 env = (0, env)"
  by (simp_all add: q_result_def sat_u_cases sat_s_cases)

text \<open>Results that are certainly in range\<close>

lemma q_result_in_u: "0 \<le> v \<Longrightarrow> v < 2 ^ n \<Longrightarrow> q_result (sat_u n) v env = (word_of_int v, env)"
  by (simp add: q_result_u)

lemma q_result_in_s:
  "- (2 ^ (LENGTH('a) - 1)) \<le> v \<Longrightarrow> v < 2 ^ (LENGTH('a) - 1) \<Longrightarrow>
   q_result (sat_s LENGTH('a::len)) v env = (word_of_int v :: 'a word, env)"
  by (simp add: q_result_s)

lemma div_int_ge: "c * 2 ^ k \<le> (v :: int) \<Longrightarrow> c \<le> v div 2 ^ k"
  using zdiv_mono1 [of "c * 2 ^ k" v "2 ^ k"] by simp

lemma shift_right_bounds:
  fixes v lo hi :: int
  assumes "s < 0" "lo \<le> v" "v < hi" "lo \<le> 0" "0 < hi"
  shows "lo \<le> shift_exact v s \<and> shift_exact v s < hi" "lo \<le> rshift_exact v s \<and> rshift_exact v s < hi"
proof -
  have b: "lo \<le> v div 2 ^ j \<and> v div 2 ^ j < hi" for j
  proof -
    have "lo * 2 ^ j \<le> lo * 1" using assms(4) by (intro mult_left_mono_neg) simp_all
    moreover have "hi * 1 \<le> hi * 2 ^ j" using assms(5) by (intro mult_left_mono) simp_all
    ultimately show ?thesis using assms(2,3) by (intro conjI div_int_ge div_int_less) linarith+
  qed
  then show "lo \<le> shift_exact v s \<and> shift_exact v s < hi" using assms(1) by (simp add: shift_exact_def)
  obtain k where k: "nat (- s) = Suc k" "nat (- s - 1) = k" using assms(1) by (cases "nat (- s)") auto
  have "lo \<le> (v div 2 ^ k + 1) div 2 \<and> (v div 2 ^ k + 1) div 2 < hi" using b [of k] assms(4,5) by linarith
  then show "lo \<le> rshift_exact v s \<and> rshift_exact v s < hi"
    using assms(1) round_twice [of v k] by (simp only: rshift_exact_def k if_True)
qed

lemma q_shift_right:
  fixes x :: "'a::len word"
  assumes "s < 0"
  shows "q_result (sat_u LENGTH('a)) (shift_exact (uint x) s) env = (drop_bit (nat (- s)) x, env)"
    "q_result (sat_s LENGTH('a)) (shift_exact (sint x) s) env = (signed_drop_bit (nat (- s)) x, env)"
    "q_result (sat_u LENGTH('a)) (rshift_exact (uint x) s) env = (word_of_int (rshift_exact (uint x) s) :: 'a word, env)"
    "q_result (sat_s LENGTH('a)) (rshift_exact (sint x) s) env = (word_of_int (rshift_exact (sint x) s) :: 'a word, env)"
proof -
  note u = shift_right_bounds [OF assms uint_ge_0 uint_lt2p, of x]
  note s = shift_right_bounds [OF assms sint_range(1) sint_range(2), of x]
  show "q_result (sat_u LENGTH('a)) (shift_exact (uint x) s) env = (drop_bit (nat (- s)) x, env)"
    using u(1) assms by (simp add: q_result_in_u shift_exact_def word_shifts(1))
  show "q_result (sat_s LENGTH('a)) (shift_exact (sint x) s) env = (signed_drop_bit (nat (- s)) x, env)"
    using s(1) assms by (simp add: q_result_in_s shift_exact_def word_shifts(2))
  show "q_result (sat_u LENGTH('a)) (rshift_exact (uint x) s) env = (word_of_int (rshift_exact (uint x) s) :: 'a word, env)"
    using u(2) by (simp add: q_result_in_u)
  show "q_result (sat_s LENGTH('a)) (rshift_exact (sint x) s) env = (word_of_int (rshift_exact (sint x) s) :: 'a word, env)"
    using s(2) by (simp add: q_result_in_s)
qed

lemma q_shift_far:
  fixes x :: "'a::len word"
  assumes "int LENGTH('a) \<le> s"
  shows "q_result (sat_u LENGTH('a)) (uint x * 2 ^ nat s) env = (if x \<noteq> 0 then (- 1 :: 'a word, SET_QC env) else (0, env))"
    "q_result (sat_s LENGTH('a)) (sint x * 2 ^ nat s) env =
       (if x \<noteq> 0 then (if sint x < 0 then min_s else max_s :: 'a word, SET_QC env) else (0, env))"
proof -
  have k: "LENGTH('a) \<le> nat s" using assms by linarith
  show "q_result (sat_u LENGTH('a)) (uint x * 2 ^ nat s) env = (if x \<noteq> 0 then (- 1 :: 'a word, SET_QC env) else (0, env))"
    using shl_far_range(1) [OF k, of x] by (auto simp: q_result_u)
  have "(0 :: int) < 2 ^ (LENGTH('a) - 1)" by simp
  then show "q_result (sat_s LENGTH('a)) (sint x * 2 ^ nat s) env =
       (if x \<noteq> 0 then (if sint x < 0 then min_s else max_s :: 'a word, SET_QC env) else (0, env))"
  proof -
    assume "(0 :: int) < 2 ^ (LENGTH('a) - 1)"
    then have "x \<noteq> 0 \<Longrightarrow> sint x < 0 \<Longrightarrow> \<not> 2 ^ (LENGTH('a) - 1) \<le> sint x * 2 ^ nat s"
      using shl_far_range(2) [OF k, of x] by linarith
    then show ?thesis using shl_far_range(2,3) [OF k, of x] unfolding q_result_s by auto
  qed
qed

section \<open>The saturating lane operations\<close>

lemma shift_cases:
  obtains (far) "int LENGTH('a::len) \<le> s" "\<not> s < 0"
  | (out) "\<not> int LENGTH('a::len) \<le> s" "s \<le> - int LENGTH('a::len)" "s < 0" "LENGTH('a) \<le> nat (- s)"
  | (right) "\<not> int LENGTH('a::len) \<le> s" "\<not> s \<le> - int LENGTH('a::len)" "\<not> s < - int LENGTH('a::len)" "s \<noteq> - int LENGTH('a::len)" "s < 0"
  | (left) "\<not> int LENGTH('a::len) \<le> s" "\<not> s \<le> - int LENGTH('a::len)" "\<not> s < - int LENGTH('a::len)" "s \<noteq> - int LENGTH('a::len)" "\<not> s < 0" "0 \<le> s" "nat s < LENGTH('a)"
  using len_gt_0 [where 'a = 'a] by linarith

lemma qshl_u_fn_q:
  fixes x y :: "'a::len word"
  shows "qshl_u_fn x y env = q_result (sat_u LENGTH('a)) (shift_exact (uint x) (shift_of y)) env"
  by (cases rule: shift_cases [where 'a = 'a and s = "shift_of y"])
    (simp_all add: qshl_u_fn_def Let_def shift_nonneg q_shift_far q_shift_right qshl_left_u_q far_shifts(2))

lemma qshl_s_fn_q:
  fixes x y :: "'a::len word"
  assumes "LENGTH('a) \<le> 32"
  shows "qshl_s_fn x y env = q_result (sat_s LENGTH('a)) (shift_exact (sint x) (shift_of y)) env"
proof (cases rule: shift_cases [where 'a = 'a and s = "shift_of y"])
  case out
  then have "signed_drop_bit (nat (- shift_of y)) x = signed_drop_bit 31 x"
    using assms far_shifts(3) [of "nat (- shift_of y)" x] far_shifts(3) [of 31 x] by simp
  then show ?thesis using out by (simp add: qshl_s_fn_def Let_def q_shift_right)
next
  case left
  then show ?thesis
    by (cases "x = 0") (simp_all add: qshl_s_fn_def Let_def shift_nonneg qshl_left_s_q qshl_limit_s, simp add: qshl_left_s_def)
qed (simp_all add: qshl_s_fn_def Let_def shift_nonneg q_shift_far q_shift_right qshl_limit_s)

lemma qrshl_u_fn_q:
  fixes x :: "'a::len word" and y :: "'b::len word"
  shows "qrshl_u_fn x y env = q_result (sat_u LENGTH('a)) (rshift_exact (uint x) (shift_of y)) env"
proof (cases rule: shift_cases [where 'a = 'a and s = "shift_of y"])
  case out
  then show ?thesis
  proof (cases "shift_of y < - int LENGTH('a)")
    case True
    then show ?thesis using out rshift_far(2) [OF True, of x] by (simp add: qrshl_u_fn_def Let_def)
  next
    case False
    then have s: "shift_of y = - int LENGTH('a)" using out by linarith
    have "q_result (sat_u LENGTH('a)) (rshift_exact (uint x) (- int LENGTH('a))) env =
        (drop_bit (LENGTH('a) - 1) x, env)"
      using q_shift_right(3) [OF out(3), of x] by (simp only: s rshift_far(3) word_shifts(1))
    then show ?thesis by (simp add: qrshl_u_fn_def s)
  qed
qed (simp_all add: qrshl_u_fn_def Let_def shift_nonneg q_shift_far q_shift_right qshl_left_u_q round_shr_exact)

lemma qrshl_s_fn_q:
  fixes x y :: "'a::len word"
  shows "qrshl_s_fn x y env = q_result (sat_s LENGTH('a)) (rshift_exact (sint x) (shift_of y)) env"
proof (cases rule: shift_cases [where 'a = 'a and s = "shift_of y"])
  case left
  then show ?thesis
    by (cases "x = 0") (simp_all add: qrshl_s_fn_def Let_def shift_nonneg qshl_left_s_q qshl_limit_s, simp add: qshl_left_s_def)
qed (simp_all add: qrshl_s_fn_def Let_def shift_nonneg q_shift_far q_shift_right qshl_limit_s rshift_far(1) round_shr_exact)

lemma shift_exact_neg: "v < 0 \<Longrightarrow> shift_exact v s < 0"
  by (simp add: shift_exact_def div_neg_pos_less0 mult_neg_pos)

lemma sint_nonneg_uint: "\<not> sint (x :: 'a::len word) < 0 \<Longrightarrow> sint x = uint x"
proof -
  assume "\<not> sint x < 0"
  moreover have "sint x < 2 ^ LENGTH('a)"
    using sint_range(2) [of x] half_range [where 'a = 'a] zero_less_power [of "2 :: int" "LENGTH('a) - 1"] by linarith
  ultimately have "take_bit LENGTH('a) (sint x) = sint x" by (simp add: take_bit_int_eq_self)
  then show ?thesis by (simp add: uint_sint)
qed

lemma sign_mask: "x AND push_bit (LENGTH('a) - 1) 1 \<noteq> 0 \<longleftrightarrow> sint (x :: 'a::len word) < 0"
  using and_exp_eq_0_iff_not_bit [of x "LENGTH('a) - 1"] bit_last_iff [of x] by (simp add: push_bit_eq_mult)

lemma qshlu_q:
  fixes x y :: "'a::len word"
  shows "(if sint x < 0 then (0, SET_QC env) else q_result (sat_u LENGTH('a)) (shift_exact (uint x) s) env) =
    q_result (sat_u LENGTH('a)) (shift_exact (sint x) s) env"
proof -
  have "(0 :: int) < 2 ^ LENGTH('a)" by simp
  then have "sint x < 0 \<Longrightarrow> \<not> 2 ^ LENGTH('a) \<le> shift_exact (sint x) s" using shift_exact_neg [of "sint x" s] by linarith
  then show ?thesis using shift_exact_neg [of "sint x" s] sint_nonneg_uint [of x] unfolding q_result_u by auto
qed

lemma qshlu_s_fn_q:
  fixes x y :: "'a::len word"
  shows "qshlu_s_fn x y env = q_result (sat_u LENGTH('a)) (shift_exact (sint x) (shift_of y)) env"
  unfolding qshlu_s_fn_def sign_mask qshl_u_fn_q qshlu_q ..

section \<open>64-bit values\<close>

lemma rshift_split: "s < 0 \<Longrightarrow> rshift_exact v s = (v div 2 ^ nat (- s - 1) + 1) div 2"
proof -
  assume s: "s < 0"
  then have "nat (- s) = Suc (nat (- s - 1))" by linarith
  then show ?thesis using s round_twice [of v "nat (- s - 1)"] by (simp only: rshift_exact_def if_True)
qed

lemma uint_take_bit_self: "take_bit LENGTH('a) (uint (x :: 'a::len word)) = uint x"
  by (simp add: take_bit_int_eq_self uint_lt2p)

lemma uint_drop_bit: "uint (drop_bit k (x :: 'a::len word)) = uint x div 2 ^ k"
  by (simp only: unsigned_drop_bit_eq drop_bit_eq_div [symmetric] uint_take_bit_self)

lemma rshr_64:
  assumes "s < 0"
  shows "rshr_u64 v s = word_of_int (rshift_exact (uint v) s)"
    and "rshr_s64 v s = word_of_int (rshift_exact (sint v) s)"
proof -
  let ?u = "drop_bit (nat (- s - 1)) v" and ?w = "signed_drop_bit (nat (- s - 1)) v"
  have u: "uint v div 2 ^ nat (- s - 1) = uint ?u" by (simp only: uint_drop_bit)
  show "rshr_u64 v s = word_of_int (rshift_exact (uint v) s)"
  proof (cases "?u = - 1")
    case True
    then have "uint ?u = 2 ^ 64 - 1" by (simp add: unsigned_minus_1_eq_mask mask_eq_exp_minus_1)
    then show ?thesis using True assms by (simp add: rshr_u64_def rshift_split u)
  next
    case False
    moreover have m: "uint (- 1 :: u64) = 2 ^ 64 - 1" by (simp add: unsigned_minus_1_eq_mask mask_eq_exp_minus_1)
    ultimately have "uint ?u \<noteq> 2 ^ 64 - 1" by (metis unsigned_word_eqI)
    then have "uint ?u + 1 < 2 ^ 64" using uint_lt2p [of ?u] by simp
    then have "uint (?u + 1) = uint ?u + 1" using uint_plus_if' [of ?u 1] by simp
    then have "drop_bit 1 (?u + 1) = word_of_int ((uint ?u + 1) div 2)"
      using word_shifts(1) [of "?u + 1" 1] by simp
    then show ?thesis using False assms by (simp add: rshr_u64_def Let_def rshift_split u)
  qed
  have w: "sint v div 2 ^ nat (- s - 1) = sint ?w" by (simp add: sint_signed_drop_bit_eq drop_bit_eq_div)
  have mx: "sint INT64_MAX = 2 ^ 63 - 1" by (simp add: INT64_MAX_def)
  show "rshr_s64 v s = word_of_int (rshift_exact (sint v) s)"
  proof (cases "?w = INT64_MAX")
    case True
    then show ?thesis using assms mx by (simp add: rshr_s64_def rshift_split w)
  next
    case False
    then have "sint ?w \<noteq> 2 ^ 63 - 1" by (metis mx signed_word_eqI)
    then have "sint ?w + 1 < 2 ^ 63" "- (2 ^ 63) \<le> sint ?w + 1" using sint_range [of ?w] by simp_all
    then have "sint (?w + 1) = sint ?w + 1"
      using sint_add_wrap_s [of ?w 1] by (simp add: wrap_s_def)
    then have "signed_drop_bit 1 (?w + 1) = word_of_int ((sint ?w + 1) div 2)"
      using word_shifts(2) [of "?w + 1" 1] by simp
    then show ?thesis using False assms by (simp add: rshr_s64_def Let_def rshift_split w)
  qed
qed

lemma widths:
  "LENGTH(32) = 32" "LENGTH(64) = 64" "int 32 = 32" "int 64 = 64" "(32 :: nat) - 1 = 31" "(64 :: nat) - 1 = 63"
  by simp_all

lemma shl_64:
  "neon_shl_u64 v y = word_of_int (shift_exact (uint v) (shift_of y))"
  "neon_shl_s64 v y = word_of_int (shift_exact (sint v) (shift_of y))"
  using shl_fns [of v y] unfolding neon_shl_u64_def neon_shl_s64_def shl_u_fn_def shl_s_fn_def widths .

lemma rshl_64:
  "neon_rshl_u64 v y = word_of_int (rshift_exact (uint v) (shift_of y))"
  "neon_rshl_s64 v y = word_of_int (rshift_exact (sint v) (shift_of y))"
proof -
  show "neon_rshl_u64 v y = word_of_int (rshift_exact (uint v) (shift_of y))"
    using rshl_fns(2) [of v y] unfolding neon_rshl_u64_def rshl_u_fn_def Let_def widths
    by (auto simp: rshr_64 round_shr_exact split: if_splits)
  show "neon_rshl_s64 v y = word_of_int (rshift_exact (sint v) (shift_of y))"
    using rshl_fns(1) [of v y] unfolding neon_rshl_s64_def rshl_s_fn_def Let_def widths
    by (auto simp: rshr_64 round_shr_exact split: if_splits)
qed

lemma qrshl_u64_q: "neon_qrshl_u64 v y env = q_result (sat_u 64) (rshift_exact (uint v) (shift_of y)) env"
  using qrshl_u_fn_q [of v y env] unfolding neon_qrshl_u64_def qrshl_u_fn_def Let_def widths
  by (auto simp: rshr_64 round_shr_exact split: if_splits)

lemma qshl_u64_q: "neon_qshl_u64 v y env = q_result (sat_u 64) (shift_exact (uint v) (shift_of y)) env"
  using qshl_u_fn_q [of v y env] unfolding neon_qshl_u64_def qshl_u_fn_def Let_def widths
  by (auto split: if_splits)

text \<open>The sign-bit form of the limit, for 32- and 64-bit values\<close>

lemma sign_limit:
  "x \<noteq> 0 \<Longrightarrow> qshl_limit (x :: u32) = signed_drop_bit 31 x XOR NOT SIGNBIT"
  "y \<noteq> 0 \<Longrightarrow> qshl_limit (y :: u64) = signed_drop_bit 63 y XOR NOT SIGNBIT64"
  unfolding sat_limits by (auto simp: qshl_limit_s)

lemma qshl_left_zero: "qshl_left_s 0 k limit env = (0, env)"
  by (simp add: qshl_left_s_def)

lemma qshl_s64_q: "neon_qshl_s64 v y env = q_result (sat_s 64) (shift_exact (sint v) (shift_of y)) env"
proof (cases rule: shift_cases [where 'a = 64 and s = "shift_of y"])
  case out
  then have "signed_drop_bit (nat (- shift_of y)) v = signed_drop_bit 63 v"
    using far_shifts(3) [of "nat (- shift_of y)" v] by simp
  then show ?thesis
    using q_shift_right(2) [OF out(3), of v env] out by (simp add: neon_qshl_s64_def Let_def)
next
  case right
  then show ?thesis using q_shift_right(2) [OF right(5), of v env] by (simp add: neon_qshl_s64_def Let_def)
next
  case far
  then show ?thesis
    using q_shift_far(2) [of "shift_of y" v env] by (auto simp: neon_qshl_s64_def Let_def shift_nonneg sat_limits)
next
  case left
  have "qshl_left_s v (nat (shift_of y)) (if sint v < 0 then min_s else max_s) env =
      q_result (sat_s 64) (sint v * 2 ^ nat (shift_of y)) env"
    using qshl_left_s_q [of "nat (shift_of y)" _ v env] left by simp
  then show ?thesis using left by (simp add: neon_qshl_s64_def Let_def shift_nonneg sat_limits)
qed

lemma qrshl_s_words:
  "neon_qrshl_s32 x y env = q_result (sat_s 32) (rshift_exact (sint x) (shift_of y)) env"
  "neon_qrshl_s64 v w env = q_result (sat_s 64) (rshift_exact (sint v) (shift_of w)) env"
proof -
  show "neon_qrshl_s32 x y env = q_result (sat_s 32) (rshift_exact (sint x) (shift_of y)) env"
    using qrshl_s_fn_q [of x y env] unfolding neon_qrshl_s32_def qrshl_s_fn_def Let_def widths
    by (cases "x = 0") (auto simp: sign_limit qshl_left_zero split: if_splits)
  show "neon_qrshl_s64 v w env = q_result (sat_s 64) (rshift_exact (sint v) (shift_of w)) env"
    using qrshl_s_fn_q [of v w env] unfolding neon_qrshl_s64_def qrshl_s_fn_def Let_def widths
    by (cases "v = 0") (auto simp: sign_limit qshl_left_zero rshr_64 round_shr_exact split: if_splits)
qed

lemma qshl_u32_q: "neon_qshl_u32 a b env = q_result (sat_u 32) (shift_exact (uint a) (shift_of b)) env"
  by (simp add: neon_qshl_u32_def NEON_VOP_ENV_def NEON_UNPACK_def qshl_u_fn_q Let_def q_result_def)

section \<open>Properties\<close>

text \<open>
  C33. Register-count shifts, plain and rounding, of unsigned and signed lanes of 8, 16, 32 and 64
  bits: for every count from -128 to 127 each lane of the result is the value multiplied by
  \<open>2\<close> to the count, with a negative count the floor of the quotient (for the rounding forms the
  quotient rounded to nearest), reduced to the lane.
\<close>

theorem neon_shl_rshl_exact:
  "neon_shl_u8 = NEON_VOP (\<lambda>x y :: u8. word_of_int (shift_exact (uint x) (shift_of y))) \<and>
   neon_shl_u16 = NEON_VOP (\<lambda>x y :: u16. word_of_int (shift_exact (uint x) (shift_of y))) \<and>
   neon_shl_u32 = NEON_VOP (\<lambda>x y :: u32. word_of_int (shift_exact (uint x) (shift_of y))) \<and>
   neon_shl_u64 v w = word_of_int (shift_exact (uint v) (shift_of w)) \<and>
   neon_shl_s8 = NEON_VOP (\<lambda>x y :: u8. word_of_int (shift_exact (sint x) (shift_of y))) \<and>
   neon_shl_s16 = NEON_VOP (\<lambda>x y :: u16. word_of_int (shift_exact (sint x) (shift_of y))) \<and>
   neon_shl_s32 = NEON_VOP (\<lambda>x y :: u32. word_of_int (shift_exact (sint x) (shift_of y))) \<and>
   neon_shl_s64 v w = word_of_int (shift_exact (sint v) (shift_of w)) \<and>
   neon_rshl_u8 = NEON_VOP (\<lambda>x y :: u8. word_of_int (rshift_exact (uint x) (shift_of y))) \<and>
   neon_rshl_u16 = NEON_VOP (\<lambda>x y :: u16. word_of_int (rshift_exact (uint x) (shift_of y))) \<and>
   neon_rshl_u32 a b = word_of_int (rshift_exact (uint a) (shift_of b)) \<and>
   neon_rshl_u64 v w = word_of_int (rshift_exact (uint v) (shift_of w)) \<and>
   neon_rshl_s8 = NEON_VOP (\<lambda>x y :: u8. word_of_int (rshift_exact (sint x) (shift_of y))) \<and>
   neon_rshl_s16 = NEON_VOP (\<lambda>x y :: u16. word_of_int (rshift_exact (sint x) (shift_of y))) \<and>
   neon_rshl_s32 a b = word_of_int (rshift_exact (sint a) (shift_of b)) \<and>
   neon_rshl_s64 v w = word_of_int (rshift_exact (sint v) (shift_of w))"
  by (simp add: neon_shl_u8_def neon_shl_u16_def neon_shl_u32_def neon_shl_s8_def neon_shl_s16_def neon_shl_s32_def
    neon_rshl_u8_def neon_rshl_u16_def neon_rshl_u32_def neon_rshl_s8_def neon_rshl_s16_def neon_rshl_s32_def
    shl_64 rshl_64 shl_fns [abs_def] rshl_fns [abs_def])

text \<open>
  C32. Saturating shifts, plain and rounding, of every width, and the signed-to-unsigned forms
  \<^verbatim>\<open>qshlu\<close>: each lane is the exact shifted value clamped to the range of the result, and \<^verbatim>\<open>QC\<close> is set
  exactly when some lane was clamped.
\<close>

theorem neon_qshl_qrshl_saturate:
  "neon_qshl_u8 a b env = q_vector (sat_u 8) (\<lambda>x y :: u8. shift_exact (uint x) (shift_of y)) a b env \<and>
   neon_qshl_u16 a b env = q_vector (sat_u 16) (\<lambda>x y :: u16. shift_exact (uint x) (shift_of y)) a b env \<and>
   neon_qshl_u32 a b env = q_vector (sat_u 32) (\<lambda>x y :: u32. shift_exact (uint x) (shift_of y)) a b env \<and>
   neon_qshl_u64 v w env = q_result (sat_u 64) (shift_exact (uint v) (shift_of w)) env \<and>
   neon_qshl_s8 a b env = q_vector (sat_s 8) (\<lambda>x y :: u8. shift_exact (sint x) (shift_of y)) a b env \<and>
   neon_qshl_s16 a b env = q_vector (sat_s 16) (\<lambda>x y :: u16. shift_exact (sint x) (shift_of y)) a b env \<and>
   neon_qshl_s32 a b env = q_vector (sat_s 32) (\<lambda>x y :: u32. shift_exact (sint x) (shift_of y)) a b env \<and>
   neon_qshl_s64 v w env = q_result (sat_s 64) (shift_exact (sint v) (shift_of w)) env \<and>
   neon_qshlu_s8 a b env = q_vector (sat_u 8) (\<lambda>x y :: u8. shift_exact (sint x) (shift_of y)) a b env \<and>
   neon_qshlu_s16 a b env = q_vector (sat_u 16) (\<lambda>x y :: u16. shift_exact (sint x) (shift_of y)) a b env \<and>
   neon_qshlu_s32 a b env = q_result (sat_u 32) (shift_exact (sint a) (shift_of b)) env \<and>
   neon_qshlu_s64 v w env = q_result (sat_u 64) (shift_exact (sint v) (shift_of w)) env \<and>
   neon_qrshl_u8 a b env = q_vector (sat_u 8) (\<lambda>x y :: u8. rshift_exact (uint x) (shift_of y)) a b env \<and>
   neon_qrshl_u16 a b env = q_vector (sat_u 16) (\<lambda>x y :: u16. rshift_exact (uint x) (shift_of y)) a b env \<and>
   neon_qrshl_u32 a b env = q_result (sat_u 32) (rshift_exact (uint a) (shift_of b)) env \<and>
   neon_qrshl_u64 v w env = q_result (sat_u 64) (rshift_exact (uint v) (shift_of w)) env \<and>
   neon_qrshl_s8 a b env = q_vector (sat_s 8) (\<lambda>x y :: u8. rshift_exact (sint x) (shift_of y)) a b env \<and>
   neon_qrshl_s16 a b env = q_vector (sat_s 16) (\<lambda>x y :: u16. rshift_exact (sint x) (shift_of y)) a b env \<and>
   neon_qrshl_s32 a b env = q_result (sat_s 32) (rshift_exact (sint a) (shift_of b)) env \<and>
   neon_qrshl_s64 v w env = q_result (sat_s 64) (rshift_exact (sint v) (shift_of w)) env"
proof -
  have "neon_qshlu_s32 a b env = q_result (sat_u 32) (shift_exact (sint a) (shift_of b)) env"
    using qshlu_q [of a env "shift_of b"] by (simp only: neon_qshlu_s32_def qshl_u32_q widths)
  moreover have "neon_qshlu_s64 v w env = q_result (sat_u 64) (shift_exact (sint v) (shift_of w)) env"
    using qshlu_q [of v env "shift_of w"] by (simp only: neon_qshlu_s64_def qshl_u64_q widths)
  moreover have "neon_qrshl_u32 a b env = q_result (sat_u 32) (rshift_exact (uint a) (shift_of b)) env"
    using qrshl_u_fn_q [of a b env] by (simp add: neon_qrshl_u32_def)
  ultimately show ?thesis
    unfolding neon_qshl_u8_def neon_qshl_u16_def neon_qshl_u32_def neon_qshl_s8_def neon_qshl_s16_def neon_qshl_s32_def
      neon_qshlu_s8_def neon_qshlu_s16_def neon_qrshl_u8_def neon_qrshl_u16_def neon_qrshl_s8_def neon_qrshl_s16_def
    by (intro conjI NEON_VOP_ENV_q qshl_u64_q qshl_s64_q qrshl_u64_q qrshl_s_words)
      (simp_all add: qshl_u_fn_q qshl_s_fn_q qshlu_s_fn_q qrshl_u_fn_q qrshl_s_fn_q)
qed

end
