(* ===== verification/NeonArith.thy ===== *)
theory NeonArith
  imports NeonShift
begin

text \<open>
  The non-saturating arithmetic of \<^verbatim>\<open>neon_helper.c\<close>: halving additions and subtractions, comparisons,
  minimum, maximum and absolute difference, the additions and subtractions that work on all
  lanes of a word at once, products, polynomial products, and the bit-counting operations. The
  operations on whole words are shown to agree with the operation on each lane.
\<close>

section \<open>Definitions\<close>

text \<open>
  Lane expressions of 8- and 16-bit operands are computed in \<^verbatim>\<open>int\<close> after the integer promotions and
  cut to the lane when stored: \<open>lane_s\<close> for signed lanes, \<open>lane_u\<close> for unsigned ones.
\<close>

definition lane_s :: "(int \<Rightarrow> int \<Rightarrow> int) \<Rightarrow> 'a::len word \<Rightarrow> 'a word \<Rightarrow> 'a word" where
  "lane_s f x y = word_of_int (f (sint x) (sint y))"

definition lane_u :: "(int \<Rightarrow> int \<Rightarrow> int) \<Rightarrow> 'a::len word \<Rightarrow> 'a word \<Rightarrow> 'a word" where
  "lane_u f x y = word_of_int (f (uint x) (uint y))"

subsection \<open>Halving\<close>

definition hadd_fn :: "int \<Rightarrow> int \<Rightarrow> int" where
  "hadd_fn src1 src2 = drop_bit 1 (src1 + src2)"

definition rhadd_fn :: "int \<Rightarrow> int \<Rightarrow> int" where
  "rhadd_fn src1 src2 = drop_bit 1 (src1 + src2 + 1)"

definition hsub_fn :: "int \<Rightarrow> int \<Rightarrow> int" where
  "hsub_fn src1 src2 = drop_bit 1 (src1 - src2)"

definition neon_hadd_s8 :: "u32 \<Rightarrow> u32 \<Rightarrow> u32" where
  "neon_hadd_s8 = NEON_VOP (lane_s hadd_fn :: u8 \<Rightarrow> _)"

definition neon_hadd_u8 :: "u32 \<Rightarrow> u32 \<Rightarrow> u32" where
  "neon_hadd_u8 = NEON_VOP (lane_u hadd_fn :: u8 \<Rightarrow> _)"

definition neon_hadd_s16 :: "u32 \<Rightarrow> u32 \<Rightarrow> u32" where
  "neon_hadd_s16 = NEON_VOP (lane_s hadd_fn :: u16 \<Rightarrow> _)"

definition neon_hadd_u16 :: "u32 \<Rightarrow> u32 \<Rightarrow> u32" where
  "neon_hadd_u16 = NEON_VOP (lane_u hadd_fn :: u16 \<Rightarrow> _)"

definition neon_hadd_s32 :: "u32 \<Rightarrow> u32 \<Rightarrow> u32" where
  "neon_hadd_s32 src1 src2 =
     (let dest = signed_drop_bit 1 src1 + signed_drop_bit 1 src2 in if src1 AND src2 AND 1 \<noteq> 0 then dest + 1 else dest)"

definition neon_hadd_u32 :: "u32 \<Rightarrow> u32 \<Rightarrow> u32" where
  "neon_hadd_u32 src1 src2 =
     (let dest = drop_bit 1 src1 + drop_bit 1 src2 in if src1 AND src2 AND 1 \<noteq> 0 then dest + 1 else dest)"

definition neon_rhadd_s8 :: "u32 \<Rightarrow> u32 \<Rightarrow> u32" where
  "neon_rhadd_s8 = NEON_VOP (lane_s rhadd_fn :: u8 \<Rightarrow> _)"

definition neon_rhadd_u8 :: "u32 \<Rightarrow> u32 \<Rightarrow> u32" where
  "neon_rhadd_u8 = NEON_VOP (lane_u rhadd_fn :: u8 \<Rightarrow> _)"

definition neon_rhadd_s16 :: "u32 \<Rightarrow> u32 \<Rightarrow> u32" where
  "neon_rhadd_s16 = NEON_VOP (lane_s rhadd_fn :: u16 \<Rightarrow> _)"

definition neon_rhadd_u16 :: "u32 \<Rightarrow> u32 \<Rightarrow> u32" where
  "neon_rhadd_u16 = NEON_VOP (lane_u rhadd_fn :: u16 \<Rightarrow> _)"

definition neon_rhadd_s32 :: "u32 \<Rightarrow> u32 \<Rightarrow> u32" where
  "neon_rhadd_s32 src1 src2 =
     (let dest = signed_drop_bit 1 src1 + signed_drop_bit 1 src2 in if (src1 OR src2) AND 1 \<noteq> 0 then dest + 1 else dest)"

definition neon_rhadd_u32 :: "u32 \<Rightarrow> u32 \<Rightarrow> u32" where
  "neon_rhadd_u32 src1 src2 =
     (let dest = drop_bit 1 src1 + drop_bit 1 src2 in if (src1 OR src2) AND 1 \<noteq> 0 then dest + 1 else dest)"

definition neon_hsub_s8 :: "u32 \<Rightarrow> u32 \<Rightarrow> u32" where
  "neon_hsub_s8 = NEON_VOP (lane_s hsub_fn :: u8 \<Rightarrow> _)"

definition neon_hsub_u8 :: "u32 \<Rightarrow> u32 \<Rightarrow> u32" where
  "neon_hsub_u8 = NEON_VOP (lane_u hsub_fn :: u8 \<Rightarrow> _)"

definition neon_hsub_s16 :: "u32 \<Rightarrow> u32 \<Rightarrow> u32" where
  "neon_hsub_s16 = NEON_VOP (lane_s hsub_fn :: u16 \<Rightarrow> _)"

definition neon_hsub_u16 :: "u32 \<Rightarrow> u32 \<Rightarrow> u32" where
  "neon_hsub_u16 = NEON_VOP (lane_u hsub_fn :: u16 \<Rightarrow> _)"

definition neon_hsub_s32 :: "u32 \<Rightarrow> u32 \<Rightarrow> u32" where
  "neon_hsub_s32 src1 src2 =
     (let dest = signed_drop_bit 1 src1 - signed_drop_bit 1 src2 in if NOT src1 AND src2 AND 1 \<noteq> 0 then dest - 1 else dest)"

definition neon_hsub_u32 :: "u32 \<Rightarrow> u32 \<Rightarrow> u32" where
  "neon_hsub_u32 src1 src2 =
     (let dest = drop_bit 1 src1 - drop_bit 1 src2 in if NOT src1 AND src2 AND 1 \<noteq> 0 then dest - 1 else dest)"

subsection \<open>Comparison, minimum, maximum, absolute difference\<close>

definition cgt_fn :: "int \<Rightarrow> int \<Rightarrow> int" where
  "cgt_fn src1 src2 = (if src1 > src2 then - 1 else 0)"

definition cge_fn :: "int \<Rightarrow> int \<Rightarrow> int" where
  "cge_fn src1 src2 = (if src1 \<ge> src2 then - 1 else 0)"

definition min_fn :: "int \<Rightarrow> int \<Rightarrow> int" where
  "min_fn src1 src2 = (if src1 < src2 then src1 else src2)"

definition max_fn :: "int \<Rightarrow> int \<Rightarrow> int" where
  "max_fn src1 src2 = (if src1 > src2 then src1 else src2)"

definition abd_fn :: "int \<Rightarrow> int \<Rightarrow> int" where
  "abd_fn src1 src2 = (if src1 > src2 then src1 - src2 else src2 - src1)"

definition neon_cgt_s8 :: "u32 \<Rightarrow> u32 \<Rightarrow> u32" where
  "neon_cgt_s8 = NEON_VOP (lane_s cgt_fn :: u8 \<Rightarrow> _)"

definition neon_cgt_u8 :: "u32 \<Rightarrow> u32 \<Rightarrow> u32" where
  "neon_cgt_u8 = NEON_VOP (lane_u cgt_fn :: u8 \<Rightarrow> _)"

definition neon_cgt_s16 :: "u32 \<Rightarrow> u32 \<Rightarrow> u32" where
  "neon_cgt_s16 = NEON_VOP (lane_s cgt_fn :: u16 \<Rightarrow> _)"

definition neon_cgt_u16 :: "u32 \<Rightarrow> u32 \<Rightarrow> u32" where
  "neon_cgt_u16 = NEON_VOP (lane_u cgt_fn :: u16 \<Rightarrow> _)"

definition neon_cgt_s32 :: "u32 \<Rightarrow> u32 \<Rightarrow> u32" where
  "neon_cgt_s32 = NEON_VOP (lane_s cgt_fn :: u32 \<Rightarrow> _)"

definition neon_cgt_u32 :: "u32 \<Rightarrow> u32 \<Rightarrow> u32" where
  "neon_cgt_u32 = NEON_VOP (lane_u cgt_fn :: u32 \<Rightarrow> _)"

definition neon_cge_s8 :: "u32 \<Rightarrow> u32 \<Rightarrow> u32" where
  "neon_cge_s8 = NEON_VOP (lane_s cge_fn :: u8 \<Rightarrow> _)"

definition neon_cge_u8 :: "u32 \<Rightarrow> u32 \<Rightarrow> u32" where
  "neon_cge_u8 = NEON_VOP (lane_u cge_fn :: u8 \<Rightarrow> _)"

definition neon_cge_s16 :: "u32 \<Rightarrow> u32 \<Rightarrow> u32" where
  "neon_cge_s16 = NEON_VOP (lane_s cge_fn :: u16 \<Rightarrow> _)"

definition neon_cge_u16 :: "u32 \<Rightarrow> u32 \<Rightarrow> u32" where
  "neon_cge_u16 = NEON_VOP (lane_u cge_fn :: u16 \<Rightarrow> _)"

definition neon_cge_s32 :: "u32 \<Rightarrow> u32 \<Rightarrow> u32" where
  "neon_cge_s32 = NEON_VOP (lane_s cge_fn :: u32 \<Rightarrow> _)"

definition neon_cge_u32 :: "u32 \<Rightarrow> u32 \<Rightarrow> u32" where
  "neon_cge_u32 = NEON_VOP (lane_u cge_fn :: u32 \<Rightarrow> _)"

definition neon_min_s8 :: "u32 \<Rightarrow> u32 \<Rightarrow> u32" where
  "neon_min_s8 = NEON_VOP (lane_s min_fn :: u8 \<Rightarrow> _)"

definition neon_min_u8 :: "u32 \<Rightarrow> u32 \<Rightarrow> u32" where
  "neon_min_u8 = NEON_VOP (lane_u min_fn :: u8 \<Rightarrow> _)"

definition neon_min_s16 :: "u32 \<Rightarrow> u32 \<Rightarrow> u32" where
  "neon_min_s16 = NEON_VOP (lane_s min_fn :: u16 \<Rightarrow> _)"

definition neon_min_u16 :: "u32 \<Rightarrow> u32 \<Rightarrow> u32" where
  "neon_min_u16 = NEON_VOP (lane_u min_fn :: u16 \<Rightarrow> _)"

definition neon_min_s32 :: "u32 \<Rightarrow> u32 \<Rightarrow> u32" where
  "neon_min_s32 = NEON_VOP (lane_s min_fn :: u32 \<Rightarrow> _)"

definition neon_min_u32 :: "u32 \<Rightarrow> u32 \<Rightarrow> u32" where
  "neon_min_u32 = NEON_VOP (lane_u min_fn :: u32 \<Rightarrow> _)"

definition neon_max_s8 :: "u32 \<Rightarrow> u32 \<Rightarrow> u32" where
  "neon_max_s8 = NEON_VOP (lane_s max_fn :: u8 \<Rightarrow> _)"

definition neon_max_u8 :: "u32 \<Rightarrow> u32 \<Rightarrow> u32" where
  "neon_max_u8 = NEON_VOP (lane_u max_fn :: u8 \<Rightarrow> _)"

definition neon_max_s16 :: "u32 \<Rightarrow> u32 \<Rightarrow> u32" where
  "neon_max_s16 = NEON_VOP (lane_s max_fn :: u16 \<Rightarrow> _)"

definition neon_max_u16 :: "u32 \<Rightarrow> u32 \<Rightarrow> u32" where
  "neon_max_u16 = NEON_VOP (lane_u max_fn :: u16 \<Rightarrow> _)"

definition neon_max_s32 :: "u32 \<Rightarrow> u32 \<Rightarrow> u32" where
  "neon_max_s32 = NEON_VOP (lane_s max_fn :: u32 \<Rightarrow> _)"

definition neon_max_u32 :: "u32 \<Rightarrow> u32 \<Rightarrow> u32" where
  "neon_max_u32 = NEON_VOP (lane_u max_fn :: u32 \<Rightarrow> _)"

definition neon_abd_s8 :: "u32 \<Rightarrow> u32 \<Rightarrow> u32" where
  "neon_abd_s8 = NEON_VOP (lane_s abd_fn :: u8 \<Rightarrow> _)"

definition neon_abd_u8 :: "u32 \<Rightarrow> u32 \<Rightarrow> u32" where
  "neon_abd_u8 = NEON_VOP (lane_u abd_fn :: u8 \<Rightarrow> _)"

definition neon_abd_s16 :: "u32 \<Rightarrow> u32 \<Rightarrow> u32" where
  "neon_abd_s16 = NEON_VOP (lane_s abd_fn :: u16 \<Rightarrow> _)"

definition neon_abd_u16 :: "u32 \<Rightarrow> u32 \<Rightarrow> u32" where
  "neon_abd_u16 = NEON_VOP (lane_u abd_fn :: u16 \<Rightarrow> _)"

definition neon_abd_s32 :: "u32 \<Rightarrow> u32 \<Rightarrow> u32" where
  "neon_abd_s32 = NEON_VOP (lane_s abd_fn :: u32 \<Rightarrow> _)"

definition neon_abd_u32 :: "u32 \<Rightarrow> u32 \<Rightarrow> u32" where
  "neon_abd_u32 = NEON_VOP (lane_u abd_fn :: u32 \<Rightarrow> _)"

definition neon_pmin_s8 :: "u32 \<Rightarrow> u32 \<Rightarrow> u32" where
  "neon_pmin_s8 = NEON_POP (lane_s min_fn :: u8 \<Rightarrow> _)"

definition neon_pmin_u8 :: "u32 \<Rightarrow> u32 \<Rightarrow> u32" where
  "neon_pmin_u8 = NEON_POP (lane_u min_fn :: u8 \<Rightarrow> _)"

definition neon_pmin_s16 :: "u32 \<Rightarrow> u32 \<Rightarrow> u32" where
  "neon_pmin_s16 = NEON_POP (lane_s min_fn :: u16 \<Rightarrow> _)"

definition neon_pmin_u16 :: "u32 \<Rightarrow> u32 \<Rightarrow> u32" where
  "neon_pmin_u16 = NEON_POP (lane_u min_fn :: u16 \<Rightarrow> _)"

definition neon_pmax_s8 :: "u32 \<Rightarrow> u32 \<Rightarrow> u32" where
  "neon_pmax_s8 = NEON_POP (lane_s max_fn :: u8 \<Rightarrow> _)"

definition neon_pmax_u8 :: "u32 \<Rightarrow> u32 \<Rightarrow> u32" where
  "neon_pmax_u8 = NEON_POP (lane_u max_fn :: u8 \<Rightarrow> _)"

definition neon_pmax_s16 :: "u32 \<Rightarrow> u32 \<Rightarrow> u32" where
  "neon_pmax_s16 = NEON_POP (lane_s max_fn :: u16 \<Rightarrow> _)"

definition neon_pmax_u16 :: "u32 \<Rightarrow> u32 \<Rightarrow> u32" where
  "neon_pmax_u16 = NEON_POP (lane_u max_fn :: u16 \<Rightarrow> _)"

subsection \<open>Additions and products\<close>

definition neon_add_u8 :: "u32 \<Rightarrow> u32 \<Rightarrow> u32" where
  "neon_add_u8 a b =
     (let mask = (a XOR b) AND 0x80808080
      in ((a AND NOT 0x80808080) + (b AND NOT 0x80808080)) XOR mask)"

definition neon_add_u16 :: "u32 \<Rightarrow> u32 \<Rightarrow> u32" where
  "neon_add_u16 a b =
     (let mask = (a XOR b) AND 0x80008000
      in ((a AND NOT 0x80008000) + (b AND NOT 0x80008000)) XOR mask)"

definition neon_addl_u16 :: "u64 \<Rightarrow> u64 \<Rightarrow> u64" where
  "neon_addl_u16 a b =
     (let mask = (a XOR b) AND 0x8000800080008000
      in ((a AND NOT 0x8000800080008000) + (b AND NOT 0x8000800080008000)) XOR mask)"

definition neon_addl_u32 :: "u64 \<Rightarrow> u64 \<Rightarrow> u64" where
  "neon_addl_u32 a b =
     (let mask = (a XOR b) AND 0x8000000080000000
      in ((a AND NOT 0x8000000080000000) + (b AND NOT 0x8000000080000000)) XOR mask)"

definition neon_subl_u16 :: "u64 \<Rightarrow> u64 \<Rightarrow> u64" where
  "neon_subl_u16 a b =
     (let mask = (a XOR NOT b) AND 0x8000800080008000
      in ((a OR 0x8000800080008000) - (b AND NOT 0x8000800080008000)) XOR mask)"

definition neon_subl_u32 :: "u64 \<Rightarrow> u64 \<Rightarrow> u64" where
  "neon_subl_u32 a b =
     (let mask = (a XOR NOT b) AND 0x8000000080000000
      in ((a OR 0x8000000080000000) - (b AND NOT 0x8000000080000000)) XOR mask)"

definition neon_paddl_u16 :: "u64 \<Rightarrow> u64 \<Rightarrow> u64" where
  "neon_paddl_u16 a b =
     (let tmp = (a AND 0x0000ffff0000ffff) + (drop_bit 16 a AND 0x0000ffff0000ffff);
          tmp2 = (b AND 0xffff0000ffff0000) + (push_bit 16 b AND 0xffff0000ffff0000)
      in (tmp AND 0xffff) OR (drop_bit 16 tmp AND 0xffff0000)
         OR (push_bit 16 tmp2 AND 0xffff00000000) OR (tmp2 AND 0xffff000000000000))"

definition neon_paddl_u32 :: "u64 \<Rightarrow> u64 \<Rightarrow> u64" where
  "neon_paddl_u32 a b =
     (let low = ucast (a + drop_bit 32 a) :: u32; high = ucast (b + drop_bit 32 b) :: u32
      in ucast low + push_bit 32 (ucast high))"

definition neon_padd_u8 :: "u32 \<Rightarrow> u32 \<Rightarrow> u32" where
  "neon_padd_u8 = NEON_POP (lane_u (+) :: u8 \<Rightarrow> _)"

definition neon_padd_u16 :: "u32 \<Rightarrow> u32 \<Rightarrow> u32" where
  "neon_padd_u16 = NEON_POP (lane_u (+) :: u16 \<Rightarrow> _)"

definition neon_sub_u8 :: "u32 \<Rightarrow> u32 \<Rightarrow> u32" where
  "neon_sub_u8 = NEON_VOP (lane_u (-) :: u8 \<Rightarrow> _)"

definition neon_sub_u16 :: "u32 \<Rightarrow> u32 \<Rightarrow> u32" where
  "neon_sub_u16 = NEON_VOP (lane_u (-) :: u16 \<Rightarrow> _)"

definition neon_mul_u8 :: "u32 \<Rightarrow> u32 \<Rightarrow> u32" where
  "neon_mul_u8 = NEON_VOP (lane_u (*) :: u8 \<Rightarrow> _)"

definition neon_mul_u16 :: "u32 \<Rightarrow> u32 \<Rightarrow> u32" where
  "neon_mul_u16 = NEON_VOP (lane_u (*) :: u16 \<Rightarrow> _)"

text \<open>\<^verbatim>\<open>neon_negl\<close>: each part is negated from the shifted operand and cut to the lane.\<close>

definition neon_negl_u16 :: "u64 \<Rightarrow> u64" where
  "neon_negl_u16 x =
     ucast (ucast (- x) :: u16) OR push_bit 16 (ucast (ucast (- drop_bit 16 x) :: u16))
     OR push_bit 32 (ucast (ucast (- drop_bit 32 x) :: u16)) OR push_bit 48 (ucast (ucast (- drop_bit 48 x) :: u16))"

definition neon_negl_u32 :: "u64 \<Rightarrow> u64" where
  "neon_negl_u32 x =
     ucast (ucast (- x) :: u32) OR push_bit 32 (ucast (ucast (- drop_bit 32 x) :: u32))"

definition neon_negl_u64 :: "u64 \<Rightarrow> u64" where
  "neon_negl_u64 x = - x"

text \<open>The loops of the polynomial products: one bit of every lane of \<open>op1\<close> per turn.\<close>

definition mul_p8_mask :: "u32 \<Rightarrow> u32" where
  "mul_p8_mask op1 =
     (if op1 AND 1 \<noteq> 0 then 0xff else 0) OR (if op1 AND push_bit 8 1 \<noteq> 0 then push_bit 8 0xff else 0)
     OR (if op1 AND push_bit 16 1 \<noteq> 0 then push_bit 16 0xff else 0)
     OR (if op1 AND push_bit 24 1 \<noteq> 0 then push_bit 24 0xff else 0)"

lemma shr_shrinks: "x \<noteq> 0 \<Longrightarrow> unat (drop_bit 1 (x :: 'a::len word)) < unat x"
proof -
  assume "x \<noteq> 0"
  then have "0 < unat x" by (simp add: unat_gt_0)
  moreover have "take_bit LENGTH('a) (unat x) = unat x" using unsigned_less [of x] by (rule take_bit_nat_eq_self)
  then have "unat (drop_bit 1 x) = unat x div 2"
    by (simp only: unsigned_drop_bit_eq) (simp only: drop_bit_eq_div power_one_right)
  ultimately show ?thesis by simp
qed

lemma op1_shrinks: "op1 \<noteq> 0 \<Longrightarrow> unat (drop_bit 1 op1 AND 0x7f7f7f7f :: u32) < unat op1"
proof -
  assume "op1 \<noteq> 0"
  have "unat (drop_bit 1 op1 AND 0x7f7f7f7f) \<le> unat (drop_bit 1 op1)"
    by (rule word_le_nat_alt [THEN iffD1]) (rule word_and_le2)
  also have "\<dots> < unat op1" using \<open>op1 \<noteq> 0\<close> by (rule shr_shrinks)
  finally show ?thesis .
qed

function mul_p8_loop :: "u32 \<Rightarrow> u32 \<Rightarrow> u32 \<Rightarrow> u32" where
  "mul_p8_loop op1 op2 result =
     (if op1 = 0 then result
      else mul_p8_loop (drop_bit 1 op1 AND 0x7f7f7f7f) (push_bit 1 op2 AND 0xfefefefe)
             (result XOR (op2 AND mul_p8_mask op1)))"
  by auto
termination
  by (relation "measure (\<lambda>(op1, _). unat op1)") (simp_all only: in_measure case_prod_conv op1_shrinks wf_measure not_False_eq_True)

definition neon_mul_p8 :: "u32 \<Rightarrow> u32 \<Rightarrow> u32" where
  "neon_mul_p8 op1 op2 = mul_p8_loop op1 op2 0"

definition mull_p8_mask :: "u32 \<Rightarrow> u64" where
  "mull_p8_mask op1 =
     (if op1 AND 1 \<noteq> 0 then 0xffff else 0) OR (if op1 AND push_bit 8 1 \<noteq> 0 then push_bit 16 0xffff else 0)
     OR (if op1 AND push_bit 16 1 \<noteq> 0 then push_bit 32 0xffff else 0)
     OR (if op1 AND push_bit 24 1 \<noteq> 0 then push_bit 48 0xffff else 0)"

function mull_p8_loop :: "u32 \<Rightarrow> u64 \<Rightarrow> u64 \<Rightarrow> u64" where
  "mull_p8_loop op1 op2ex result =
     (if op1 = 0 then result
      else mull_p8_loop (drop_bit 1 op1 AND 0x7f7f7f7f) (push_bit 1 op2ex)
             (result XOR (op2ex AND mull_p8_mask op1)))"
  by auto
termination
  by (relation "measure (\<lambda>(op1, _). unat op1)") (simp_all only: in_measure case_prod_conv op1_shrinks wf_measure not_False_eq_True)

definition neon_mull_p8 :: "u32 \<Rightarrow> u32 \<Rightarrow> u64" where
  "neon_mull_p8 op1 op2 =
     (let op2ex = ucast op2 :: u64
      in mull_p8_loop op1
           ((op2ex AND 0xff) OR push_bit 8 (op2ex AND 0xff00) OR push_bit 16 (op2ex AND 0xff0000)
            OR push_bit 24 (op2ex AND 0xff000000)) 0)"

declare mul_p8_loop.simps [simp del] mull_p8_loop.simps [simp del]

subsection \<open>Tests and bit counts\<close>

definition tst_fn :: "'a::len word \<Rightarrow> 'a word \<Rightarrow> 'a word" where
  "tst_fn src1 src2 = (if src1 AND src2 \<noteq> 0 then - 1 else 0)"

definition neon_tst_u8 :: "u32 \<Rightarrow> u32 \<Rightarrow> u32" where
  "neon_tst_u8 = NEON_VOP (tst_fn :: u8 \<Rightarrow> _)"

definition neon_tst_u16 :: "u32 \<Rightarrow> u32 \<Rightarrow> u32" where
  "neon_tst_u16 = NEON_VOP (tst_fn :: u16 \<Rightarrow> _)"

definition neon_tst_u32 :: "u32 \<Rightarrow> u32 \<Rightarrow> u32" where
  "neon_tst_u32 = NEON_VOP (tst_fn :: u32 \<Rightarrow> _)"

definition ceq_fn :: "'a::len word \<Rightarrow> 'a word \<Rightarrow> 'a word" where
  "ceq_fn src1 src2 = (if src1 = src2 then - 1 else 0)"

definition neon_ceq_u8 :: "u32 \<Rightarrow> u32 \<Rightarrow> u32" where
  "neon_ceq_u8 = NEON_VOP (ceq_fn :: u8 \<Rightarrow> _)"

definition neon_ceq_u16 :: "u32 \<Rightarrow> u32 \<Rightarrow> u32" where
  "neon_ceq_u16 = NEON_VOP (ceq_fn :: u16 \<Rightarrow> _)"

definition neon_ceq_u32 :: "u32 \<Rightarrow> u32 \<Rightarrow> u32" where
  "neon_ceq_u32 = NEON_VOP (ceq_fn :: u32 \<Rightarrow> _)"

definition abs_fn :: "'a::len word \<Rightarrow> 'a word" where
  "abs_fn src = word_of_int (if sint src < 0 then - sint src else sint src)"

definition neon_abs_s8 :: "u32 \<Rightarrow> u32" where
  "neon_abs_s8 = NEON_VOP1 (abs_fn :: u8 \<Rightarrow> _)"

definition neon_abs_s16 :: "u32 \<Rightarrow> u32" where
  "neon_abs_s16 = NEON_VOP1 (abs_fn :: u16 \<Rightarrow> _)"

text \<open>\<^verbatim>\<open>for (n = w; x; n--) x >>= 1;\<close>\<close>

function clz_loop :: "int \<Rightarrow> 'a::len word \<Rightarrow> int" where
  "clz_loop n x = (if x = 0 then n else clz_loop (n - 1) (drop_bit 1 x))"
  by auto
termination
  by (relation "measure (\<lambda>(_, x). unat x)") (simp_all only: in_measure case_prod_conv shr_shrinks wf_measure not_False_eq_True)

declare clz_loop.simps [simp del]

definition do_clz8 :: "u8 \<Rightarrow> int" where
  "do_clz8 x = clz_loop 8 x"

definition do_clz16 :: "u16 \<Rightarrow> int" where
  "do_clz16 x = clz_loop 16 x"

definition neon_clz_u8 :: "u32 \<Rightarrow> u32" where
  "neon_clz_u8 = NEON_VOP1 (\<lambda>src. word_of_int (do_clz8 src))"

definition neon_clz_u16 :: "u32 \<Rightarrow> u32" where
  "neon_clz_u16 = NEON_VOP1 (\<lambda>src. word_of_int (do_clz16 src))"

definition neon_cls_s8 :: "u32 \<Rightarrow> u32" where
  "neon_cls_s8 = NEON_VOP1 (\<lambda>src. word_of_int (do_clz8 (if sint src < 0 then NOT src else src) - 1))"

definition neon_cls_s16 :: "u32 \<Rightarrow> u32" where
  "neon_cls_s16 = NEON_VOP1 (\<lambda>src. word_of_int (do_clz16 (if sint src < 0 then NOT src else src) - 1))"

definition neon_cls_s32 :: "u32 \<Rightarrow> u32" where
  "neon_cls_s32 x = word_of_int (clz_loop 32 (if sint x < 0 then NOT x else x) - 1)"

definition neon_cnt_u8 :: "u32 \<Rightarrow> u32" where
  "neon_cnt_u8 x =
     (let x1 = (x AND 0x55555555) + (drop_bit 1 x AND 0x55555555);
          x2 = (x1 AND 0x33333333) + (drop_bit 2 x1 AND 0x33333333)
      in (x2 AND 0x0f0f0f0f) + (drop_bit 4 x2 AND 0x0f0f0f0f))"

subsection \<open>Doubling multiplies\<close>

definition NEON_QDMULH16 :: "bool \<Rightarrow> u16 \<Rightarrow> u16 \<Rightarrow> neon_env \<Rightarrow> u16 \<times> neon_env" where
  "NEON_QDMULH16 round src1 src2 env =
     (let tmp = (scast src1 :: u32) * scast src2;
          (tmp1, env1) = (if (tmp XOR push_bit 1 tmp) AND SIGNBIT \<noteq> 0
                          then (drop_bit 31 tmp XOR NOT SIGNBIT, SET_QC env) else (push_bit 1 tmp, env));
          (tmp2, env2) = (if round then
                            if sint (tmp1 + push_bit 15 1) < sint tmp1 then (SIGNBIT - 1, SET_QC env1)
                            else (tmp1 + push_bit 15 1, env1)
                          else (tmp1, env1))
      in (ucast (drop_bit 16 tmp2), env2))"

definition neon_qdmulh_s16 :: "u32 \<Rightarrow> u32 \<Rightarrow> neon_env \<Rightarrow> u32 \<times> neon_env" where
  "neon_qdmulh_s16 = NEON_VOP_ENV (NEON_QDMULH16 False)"

definition neon_qrdmulh_s16 :: "u32 \<Rightarrow> u32 \<Rightarrow> neon_env \<Rightarrow> u32 \<times> neon_env" where
  "neon_qrdmulh_s16 = NEON_VOP_ENV (NEON_QDMULH16 True)"

definition NEON_QDMULH32 :: "bool \<Rightarrow> u32 \<Rightarrow> u32 \<Rightarrow> neon_env \<Rightarrow> u32 \<times> neon_env" where
  "NEON_QDMULH32 round src1 src2 env =
     (let tmp = (scast src1 :: u64) * scast src2;
          (tmp1, env1) = (if (tmp XOR push_bit 1 tmp) AND SIGNBIT64 \<noteq> 0
                          then (drop_bit 63 tmp XOR NOT SIGNBIT64, SET_QC env) else (push_bit 1 tmp, env));
          (tmp2, env2) = (if round then
                            if sint (tmp1 + push_bit 31 1) < sint tmp1 then (SIGNBIT64 - 1, SET_QC env1)
                            else (tmp1 + push_bit 31 1, env1)
                          else (tmp1, env1))
      in (ucast (drop_bit 32 tmp2), env2))"

definition neon_qdmulh_s32 :: "u32 \<Rightarrow> u32 \<Rightarrow> neon_env \<Rightarrow> u32 \<times> neon_env" where
  "neon_qdmulh_s32 = NEON_VOP_ENV (NEON_QDMULH32 False)"

definition neon_qrdmulh_s32 :: "u32 \<Rightarrow> u32 \<Rightarrow> neon_env \<Rightarrow> u32 \<times> neon_env" where
  "neon_qrdmulh_s32 = NEON_VOP_ENV (NEON_QDMULH32 True)"

end
