(* ===== verification/NeonSwar.thy ===== *)
theory NeonSwar
  imports NeonArith
begin

text \<open>
  The helpers that operate on all lanes of a word with one addition, subtraction or shift
  (\<^verbatim>\<open>neon_add_u8\<close>, \<^verbatim>\<open>neon_addl\<close>, \<^verbatim>\<open>neon_subl\<close>, \<^verbatim>\<open>neon_paddl\<close>, \<^verbatim>\<open>neon_negl\<close>, \<^verbatim>\<open>neon_cnt_u8\<close>, \<^verbatim>\<open>neon_mul_p8\<close>, \<^verbatim>\<open>neon_mull_p8\<close>)
  agree with the operation on each lane: no carry or borrow crosses a lane.
\<close>

section \<open>Lanes of bitwise operations and shifts\<close>

named_theorems lane_ops \<open>lanes of bitwise operations\<close>

lemma bit_lane:
  "i < LENGTH('b) div LENGTH('a) \<Longrightarrow>
   bit ((NEON_UNPACK (x :: 'b::len word) :: 'a::len word list) ! i) j \<longleftrightarrow> j < LENGTH('a) \<and> bit x (i * LENGTH('a) + j)"
  by (simp add: nth_NEON_UNPACK bit_simps)

lemma NEON_UNPACK_bits [lane_ops]:
  fixes x y :: "'b::len word"
  shows "(NEON_UNPACK (x AND y) :: 'a::len word list) = map2 (AND) (NEON_UNPACK x) (NEON_UNPACK y)"
    "(NEON_UNPACK (x OR y) :: 'a word list) = map2 (OR) (NEON_UNPACK x) (NEON_UNPACK y)"
    "(NEON_UNPACK (x XOR y) :: 'a word list) = map2 (XOR) (NEON_UNPACK x) (NEON_UNPACK y)"
  by (rule nth_equalityI, simp, rule bit_word_eqI, simp add: bit_lane bit_simps)+

lemma lane_in_word:
  assumes "LENGTH('b::len) = n * LENGTH('a::len)" "i < n" "j < LENGTH('a)"
  shows "i * LENGTH('a) + j < LENGTH('b)"
proof -
  have "i * LENGTH('a) + j < (i + 1) * LENGTH('a)" using assms(3) by simp
  also have "\<dots> \<le> n * LENGTH('a)" using assms(2) by (intro mult_le_mono1) simp
  finally show ?thesis using assms(1) by simp
qed

lemma NEON_UNPACK_not:
  fixes x :: "'b::len word"
  assumes "LENGTH('b) = n * LENGTH('a::len)"
  shows "(NEON_UNPACK (NOT x) :: 'a word list) = map NOT (NEON_UNPACK x)"
  using assms lane_in_word [OF assms]
  by (intro nth_equalityI bit_word_eqI) (simp_all add: bit_lane bit_simps)

lemma NEON_UNPACK_shr:
  fixes x m :: "'b::len word" and c :: "'a::len word"
  assumes w: "LENGTH('b) = n * LENGTH('a)" and m: "NEON_UNPACK m = replicate n c"
    and c: "\<And>j. bit c j \<Longrightarrow> j + k < LENGTH('a)"
  shows "NEON_UNPACK (drop_bit k x AND m) = map (\<lambda>v. drop_bit k v AND c) (NEON_UNPACK x)"
proof (rule nth_equalityI)
  fix i assume "i < length (NEON_UNPACK (drop_bit k x AND m) :: 'a word list)"
  then have i: "i < n" "i < LENGTH('b) div LENGTH('a)" using w by simp_all
  have mi: "bit m (i * LENGTH('a) + j) \<longleftrightarrow> bit c j" if "j < LENGTH('a)" for j
    using bit_lane [where 'a = 'a, OF i(2), of m j] that i(1) by (simp add: m)
  show "NEON_UNPACK (drop_bit k x AND m) ! i = map (\<lambda>v. drop_bit k v AND c) (NEON_UNPACK x) ! i"
  proof (rule bit_word_eqI)
    fix j assume j: "j < LENGTH('a)"
    have "k + (i * LENGTH('a) + j) = i * LENGTH('a) + (k + j)" by simp
    then show "bit ((NEON_UNPACK (drop_bit k x AND m) :: 'a word list) ! i) j =
        bit (map (\<lambda>v. drop_bit k v AND c) (NEON_UNPACK x) ! i) j"
      using i j c [of j] mi [OF j] by (auto simp: bit_lane bit_and_iff bit_drop_bit_eq add.left_commute)
  qed
qed simp

lemma NEON_UNPACK_shl:
  fixes x m :: "'b::len word" and c :: "'a::len word"
  assumes w: "LENGTH('b) = n * LENGTH('a)" and m: "NEON_UNPACK m = replicate n c"
    and c: "\<And>j. bit c j \<Longrightarrow> k \<le> j"
  shows "NEON_UNPACK (push_bit k x AND m) = map (\<lambda>v. push_bit k v AND c) (NEON_UNPACK x)"
proof (rule nth_equalityI)
  fix i assume "i < length (NEON_UNPACK (push_bit k x AND m) :: 'a word list)"
  then have i: "i < n" "i < LENGTH('b) div LENGTH('a)" using w by simp_all
  have mi: "bit m (i * LENGTH('a) + j) \<longleftrightarrow> bit c j" if "j < LENGTH('a)" for j
    using bit_lane [where 'a = 'a, OF i(2), of m j] that i(1) by (simp add: m)
  show "NEON_UNPACK (push_bit k x AND m) ! i = map (\<lambda>v. push_bit k v AND c) (NEON_UNPACK x) ! i"
  proof (rule bit_word_eqI)
    fix j assume j: "j < LENGTH('a)"
    have "k \<le> j \<Longrightarrow> i * LENGTH('a) + j - k = i * LENGTH('a) + (j - k)" by simp
    then show "bit ((NEON_UNPACK (push_bit k x AND m) :: 'a word list) ! i) j =
        bit (map (\<lambda>v. push_bit k v AND c) (NEON_UNPACK x) ! i) j"
      using i j c [of j] mi [OF j] lane_in_word [OF w i(1) j]
      by (auto simp: bit_lane bit_and_iff bit_push_bit_iff possible_bit_def)
  qed
qed simp

section \<open>Sums without carries\<close>

lemma NEON_PACK_Cons_plus:
  assumes "LENGTH('a::len) \<le> LENGTH('b::len)"
  shows "NEON_PACK (v # vs :: 'a word list) = (ucast v + push_bit LENGTH('a) (NEON_PACK vs) :: 'b word)"
proof -
  have "(ucast v :: 'b word) AND push_bit LENGTH('a) (NEON_PACK vs) = 0"
    by (rule bit_word_eqI) (auto simp: bit_simps dest: bit_imp_le_length)
  then show ?thesis by (simp add: disjunctive_add_eq_or)
qed

lemma ucast_add_no_carry:
  fixes v w :: "'a::len word"
  assumes "LENGTH('a) \<le> LENGTH('b::len)" "uint v + uint w < 2 ^ LENGTH('a)"
  shows "(ucast v + ucast w :: 'b word) = ucast (v + w)"
proof -
  have "uint (v + w) = uint v + uint w" using assms(2) by (simp add: uint_plus_if')
  then have "(word_of_int (uint v + uint w) :: 'b word) = word_of_int (uint (v + w))" by simp
  then show ?thesis by simp
qed

lemma NEON_PACK_add:
  fixes vs ws :: "'a::len word list"
  assumes "LENGTH('a) \<le> LENGTH('b::len)" "length vs = length ws"
    and "list_all2 (\<lambda>(v :: 'a word) (w :: 'a word). uint v + uint w < 2 ^ LENGTH('a)) vs ws"
  shows "(NEON_PACK vs + NEON_PACK ws :: 'b word) = NEON_PACK (map2 (+) vs ws)"
  using assms(2,3)
proof (induction vs ws rule: list_induct2)
  case (Cons v vs w ws)
  have "(NEON_PACK (v # vs) + NEON_PACK (w # ws) :: 'b word) =
      (ucast v + ucast w) + push_bit LENGTH('a) (NEON_PACK vs + NEON_PACK ws)"
    by (simp add: NEON_PACK_Cons_plus [OF assms(1)] push_bit_add ac_simps del: NEON_PACK.simps)
  also have "\<dots> = ucast (v + w) + push_bit LENGTH('a) (NEON_PACK (map2 (+) vs ws))"
    using Cons ucast_add_no_carry [OF assms(1), of v w] by simp
  finally show ?case by (simp add: NEON_PACK_Cons_plus [OF assms(1)] del: NEON_PACK.simps)
qed simp

lemma NEON_UNPACK_add:
  fixes x y :: "'b::len word"
  assumes w: "LENGTH('b) = n * LENGTH('a::len)"
    and "list_all2 (\<lambda>(v :: 'a word) (w :: 'a word). uint v + uint w < 2 ^ LENGTH('a)) (NEON_UNPACK x :: 'a word list) (NEON_UNPACK y)"
  shows "(NEON_UNPACK (x + y) :: 'a word list) = map2 (+) (NEON_UNPACK x) (NEON_UNPACK y)"
proof -
  have le: "LENGTH('a) \<le> LENGTH('b)" using w by (cases n) simp_all
  have "x + y = NEON_PACK (map2 (+) (NEON_UNPACK x :: 'a word list) (NEON_UNPACK y))"
    using NEON_PACK_add [OF le _ assms(2)] by (simp add: NEON_PACK_UNPACK [OF w])
  then show ?thesis using w by (simp add: NEON_UNPACK_PACK)
qed

lemma NEON_UNPACK_sub:
  fixes x y :: "'b::len word"
  assumes w: "LENGTH('b) = n * LENGTH('a::len)"
    and le: "list_all2 (\<lambda>(v :: 'a word) (w :: 'a word). uint w \<le> uint v) (NEON_UNPACK x :: 'a word list) (NEON_UNPACK y)"
  shows "(NEON_UNPACK (x - y) :: 'a word list) = map2 (-) (NEON_UNPACK x) (NEON_UNPACK y)"
proof -
  let ?d = "map2 (-) (NEON_UNPACK x :: 'a word list) (NEON_UNPACK y)"
  have d: "NEON_UNPACK (NEON_PACK ?d :: 'b word) = ?d" using w by (intro NEON_UNPACK_PACK) simp
  have "list_all2 (\<lambda>(v :: 'a word) (w :: 'a word). uint v + uint w < 2 ^ LENGTH('a)) ?d (NEON_UNPACK y)"
    using le by (simp add: list_all2_conv_all_nth uint_sub_if' uint_lt2p)
  then have "(NEON_UNPACK (NEON_PACK ?d + y) :: 'a word list) = map2 (+) ?d (NEON_UNPACK y)"
    using NEON_UNPACK_add [OF w, of "NEON_PACK ?d" y] by (simp add: d)
  also have "\<dots> = NEON_UNPACK x" by (rule nth_equalityI) simp_all
  finally have "(NEON_UNPACK (NEON_PACK ?d + y) :: 'a word list) = NEON_UNPACK x" .
  then have "NEON_PACK ?d + y = x" using NEON_PACK_UNPACK [where 'a = 'a, OF w] by metis
  then have "x - y = NEON_PACK ?d" by (metis add_diff_cancel_right')
  then show ?thesis by (simp only: d)
qed

section \<open>Addition and subtraction around the top bit of a lane\<close>

lemma top_bit_xor:
  fixes z t :: "'a::len word"
  assumes "t = 0 \<or> t = 2 ^ (LENGTH('a) - 1)"
  shows "z XOR t = z + t"
proof (cases "t = 0")
  case False
  then have t: "t = 2 ^ (LENGTH('a) - 1)" using assms by simp
  have tt: "t + t = 0" using power_Suc [of "2 :: 'a word" "LENGTH('a) - 1"] by (simp add: t)
  show ?thesis
  proof (cases "bit z (LENGTH('a) - 1)")
    case True
    have "(z XOR t) AND t = 0" using True by (intro bit_word_eqI) (auto simp: t bit_simps)
    then have "(z XOR t) + t = (z XOR t) OR t" by (rule disjunctive_add_eq_or)
    also have "\<dots> = z" using True by (intro bit_word_eqI) (auto simp: t bit_simps)
    finally have "z + t = (z XOR t) + (t + t)" by (metis add.assoc)
    then show ?thesis by (simp add: tt)
  next
    case False
    then have "z AND t = 0" by (intro bit_word_eqI) (auto simp: t bit_simps)
    then show ?thesis by (simp add: disjunctive_add_eq_xor)
  qed
qed simp

lemma top_part: "(x :: 'a::len word) AND 2 ^ (LENGTH('a) - 1) = 0 \<or> x AND 2 ^ (LENGTH('a) - 1) = 2 ^ (LENGTH('a) - 1)"
proof (cases "bit x (LENGTH('a) - 1)")
  case True
  then have "x AND 2 ^ (LENGTH('a) - 1) = 2 ^ (LENGTH('a) - 1)" by (intro bit_word_eqI) (auto simp: bit_simps)
  then show ?thesis ..
next
  case False
  then have "x AND 2 ^ (LENGTH('a) - 1) = 0" by (intro bit_word_eqI) (auto simp: bit_simps)
  then show ?thesis ..
qed

lemma split_top: "(x AND NOT h) + (x AND h) = (x :: 'a::len word)"
proof -
  have "(x AND NOT h) AND (x AND h) = 0" by (rule bit_word_eqI) (simp add: bit_simps)
  then have "(x AND NOT h) + (x AND h) = (x AND NOT h) OR (x AND h)" by (rule disjunctive_add_eq_or)
  also have "\<dots> = x" by (rule bit_word_eqI) (auto simp: bit_simps)
  finally show ?thesis .
qed

lemma top_double: "(x :: 'a::len word) AND 2 ^ (LENGTH('a) - 1) = - (x AND 2 ^ (LENGTH('a) - 1))"
proof -
  have "2 ^ (LENGTH('a) - 1) + 2 ^ (LENGTH('a) - 1) = (0 :: 'a word)"
    using power_Suc [of "2 :: 'a word" "LENGTH('a) - 1"] by simp
  then show ?thesis using top_part [of x] by (auto simp: eq_neg_iff_add_eq_0)
qed

lemma lane_add:
  fixes x y h :: "'a::len word"
  assumes h: "h = 2 ^ (LENGTH('a) - 1)"
  shows "((x AND NOT h) + (y AND NOT h)) XOR ((x XOR y) AND h) = x + y"
proof -
  have "(x XOR y) AND h = (x AND h) XOR (y AND h)" by (rule bit_word_eqI) (auto simp: bit_simps)
  also have "\<dots> = (x AND h) + (y AND h)" using top_part [of y] by (simp add: top_bit_xor h)
  finally have "((x AND NOT h) + (y AND NOT h)) XOR ((x XOR y) AND h) = (x AND NOT h) + (y AND NOT h) + ((x AND h) + (y AND h))"
    using top_bit_xor top_part [of "x XOR y"] h by metis
  also have "\<dots> = ((x AND NOT h) + (x AND h)) + ((y AND NOT h) + (y AND h))" by (simp only: ac_simps)
  finally show ?thesis by (simp only: split_top)
qed

lemma lane_sub:
  fixes x y h :: "'a::len word"
  assumes h: "h = 2 ^ (LENGTH('a) - 1)"
  shows "((x OR h) - (y AND NOT h)) XOR ((x XOR NOT y) AND h) = x - y"
proof -
  have "(x AND NOT h) AND h = 0" by (rule bit_word_eqI) (simp add: bit_simps)
  then have "(x AND NOT h) + h = (x AND NOT h) OR h" by (rule disjunctive_add_eq_or)
  also have "\<dots> = x OR h" by (rule bit_word_eqI) (auto simp: bit_simps)
  finally have o: "x OR h = (x AND NOT h) + h" by simp
  have "(x XOR NOT y) AND h = ((x AND h) XOR (y AND h)) XOR h" by (rule bit_word_eqI) (auto simp: bit_simps)
  also have "\<dots> = (x AND h) + (y AND h) + h" using top_part [of y] by (simp add: top_bit_xor h)
  finally have m: "(x XOR NOT y) AND h = (x AND h) + (y AND h) + h" .
  have hh: "h + h = 0" using power_Suc [of "2 :: 'a word" "LENGTH('a) - 1"] by (simp add: h)
  have "((x OR h) - (y AND NOT h)) XOR ((x XOR NOT y) AND h) = (x OR h) - (y AND NOT h) + ((x XOR NOT y) AND h)"
    using top_bit_xor top_part [of "x XOR NOT y"] h by metis
  also have "\<dots> = ((x AND NOT h) + (x AND h)) - (y AND NOT h) + (y AND h) + (h + h)"
    unfolding o m by (simp only: algebra_simps)
  also have "\<dots> = x - ((y AND NOT h) + - (y AND h))" by (simp add: split_top hh)
  also have "- (y AND h) = y AND h" using top_double [of y] by (simp only: h)
  finally show ?thesis by (simp only: split_top)
qed

section \<open>Whole words\<close>

lemma low_part_bound:
  fixes x h :: "'a::len word"
  assumes "h = 2 ^ (LENGTH('a) - 1)"
  shows "uint (x AND NOT h) < 2 ^ (LENGTH('a) - 1)"
proof -
  have "x AND NOT h = take_bit (LENGTH('a) - 1) x"
    by (rule bit_word_eqI) (auto simp: assms bit_simps)
  then show ?thesis by (simp add: unsigned_take_bit_eq)
qed

lemma high_part_bound:
  fixes x h :: "'a::len word"
  assumes "h = 2 ^ (LENGTH('a) - 1)"
  shows "2 ^ (LENGTH('a) - 1) \<le> uint (x OR h)"
proof -
  have "uint h \<le> uint h OR uint x" by (rule or_greater_eq) simp
  moreover have "uint h = 2 ^ (LENGTH('a) - 1)" unfolding assms by (rule bit_eqI) (auto simp: bit_simps)
  moreover have "uint (x OR h) = uint h OR uint x" by (simp add: unsigned_or_eq or.commute)
  ultimately show ?thesis by simp
qed

lemma swar_add:
  fixes a b H :: "'b::len word" and h :: "'a::len word"
  assumes w: "LENGTH('b) = n * LENGTH('a)" and H: "NEON_UNPACK H = replicate n h" and h: "h = 2 ^ (LENGTH('a) - 1)"
  shows "((a AND NOT H) + (b AND NOT H)) XOR ((a XOR b) AND H) =
    NEON_PACK (map2 (+) (NEON_UNPACK a :: 'a word list) (NEON_UNPACK b))"
proof -
  have len: "LENGTH('b) div LENGTH('a) = n" using w by simp
  have and_not: "(NEON_UNPACK (x AND NOT H) :: 'a word list) = map (\<lambda>v. v AND NOT h) (NEON_UNPACK x)" for x
    by (rule nth_equalityI) (simp_all add: lane_ops NEON_UNPACK_not [OF w] H len)
  have "uint (v AND NOT h) + uint (u AND NOT h) < 2 ^ LENGTH('a)" for u v
    using low_part_bound [OF h, of u] low_part_bound [OF h, of v] half_range [where 'a = 'a] by linarith
  then have "list_all2 (\<lambda>(v :: 'a word) (u :: 'a word). uint v + uint u < 2 ^ LENGTH('a)) (NEON_UNPACK (a AND NOT H)) (NEON_UNPACK (b AND NOT H))"
    by (simp add: and_not list_all2_conv_all_nth)
  note sum = NEON_UNPACK_add [OF w this]
  have "(NEON_UNPACK (((a AND NOT H) + (b AND NOT H)) XOR ((a XOR b) AND H)) :: 'a word list) = map2 (+) (NEON_UNPACK a) (NEON_UNPACK b)"
    by (rule nth_equalityI) (simp_all add: NEON_UNPACK_bits(1,3) [of _ H] NEON_UNPACK_bits(3) sum and_not H len lane_add [OF h])
  then show ?thesis by (metis NEON_PACK_UNPACK [where 'a = 'a, OF w])
qed

lemma swar_sub:
  fixes a b H :: "'b::len word" and h :: "'a::len word"
  assumes w: "LENGTH('b) = n * LENGTH('a)" and H: "NEON_UNPACK H = replicate n h" and h: "h = 2 ^ (LENGTH('a) - 1)"
  shows "((a OR H) - (b AND NOT H)) XOR ((a XOR NOT b) AND H) =
    NEON_PACK (map2 (-) (NEON_UNPACK a :: 'a word list) (NEON_UNPACK b))"
proof -
  have len: "LENGTH('b) div LENGTH('a) = n" using w by simp
  have and_not: "(NEON_UNPACK (b AND NOT H) :: 'a word list) = map (\<lambda>v. v AND NOT h) (NEON_UNPACK b)"
    by (rule nth_equalityI) (simp_all add: lane_ops NEON_UNPACK_not [OF w] H len)
  have or_top: "(NEON_UNPACK (a OR H) :: 'a word list) = map (\<lambda>v. v OR h) (NEON_UNPACK a)"
    by (rule nth_equalityI) (simp_all add: lane_ops H len)
  have mask: "(NEON_UNPACK ((a XOR NOT b) AND H) :: 'a word list) = map2 (\<lambda>v u. (v XOR NOT u) AND h) (NEON_UNPACK a) (NEON_UNPACK b)"
    by (rule nth_equalityI) (simp_all only: lane_ops NEON_UNPACK_not [OF w] H, simp_all add: len)
  have "uint (v AND NOT h) \<le> uint (u OR h)" for u v
    using low_part_bound [OF h, of v] high_part_bound [OF h, of u] by linarith
  then have "list_all2 (\<lambda>(v :: 'a word) (u :: 'a word). uint u \<le> uint v) (NEON_UNPACK (a OR H)) (NEON_UNPACK (b AND NOT H))"
    by (simp add: and_not or_top list_all2_conv_all_nth)
  note diff = NEON_UNPACK_sub [OF w this]
  have "(NEON_UNPACK (((a OR H) - (b AND NOT H)) XOR ((a XOR NOT b) AND H)) :: 'a word list) = map2 (-) (NEON_UNPACK a) (NEON_UNPACK b)"
    unfolding NEON_UNPACK_bits(3) [of "_ - _"] diff mask and_not or_top
    using lane_sub [OF h] by (intro nth_equalityI) (simp_all add: len)
  then show ?thesis by (metis NEON_PACK_UNPACK [where 'a = 'a, OF w])
qed

lemma top_masks:
  "NEON_UNPACK (0x80808080 :: u32) = replicate 4 (0x80 :: u8)"
  "NEON_UNPACK (0x80008000 :: u32) = replicate 2 (0x8000 :: u16)"
  "NEON_UNPACK (0x8000800080008000 :: u64) = replicate 4 (0x8000 :: u16)"
  "NEON_UNPACK (0x8000000080000000 :: u64) = replicate 2 (0x80000000 :: u32)"
  by code_simp+

lemma ucast_down:
  fixes x y :: "'b::len word"
  assumes "LENGTH('a::len) \<le> LENGTH('b)"
  shows "(ucast (- x) :: 'a word) = - ucast x" "(ucast (x + y) :: 'a word) = ucast x + ucast y"
proof -
  have cut: "(ucast (word_of_int k :: 'b word) :: 'a word) = word_of_int k" for k
    using assms by transfer (simp add: min_def)
  show "(ucast (- x) :: 'a word) = - ucast x" using cut [of "- uint x"] by simp
  show "(ucast (x + y) :: 'a word) = ucast x + ucast y" using cut [of "uint x + uint y"] by simp
qed

text \<open>The pairwise additions: sums of neighbours in the even lanes.\<close>

definition even_sums :: "u64 \<Rightarrow> u64" where
  "even_sums a = (a AND 0x0000ffff0000ffff) + (drop_bit 16 a AND 0x0000ffff0000ffff)"

lemma even_mask: "bit (0x0000ffff0000ffff :: u64) i \<longleftrightarrow> i < 16 \<or> 32 \<le> i \<and> i < 48"
proof -
  have m: "(0x0000ffff0000ffff :: u64) = mask 16 OR push_bit 32 (mask 16)" by (simp add: mask_eq_exp_minus_1)
  show ?thesis unfolding m by (auto simp: bit_simps)
qed

lemma unpack_u32x2: "(NEON_UNPACK (y :: u64) :: u32 list) = [ucast y, ucast (drop_bit 32 y)]"
  by (simp add: NEON_UNPACK_def upt_rec)

lemma even_sums_lanes:
  "(ucast (even_sums a) :: u16) = ucast a + ucast (drop_bit 16 a)"
  "(ucast (drop_bit 32 (even_sums a)) :: u16) = ucast (drop_bit 32 a) + ucast (drop_bit 48 a)"
proof -
  have c: "(ucast (x AND 0x0000ffff0000ffff :: u64) :: u16) = ucast x" for x
    by (rule bit_word_eqI) (simp only: bit_ucast_iff bit_and_iff even_mask, auto)
  show "(ucast (even_sums a) :: u16) = ucast a + ucast (drop_bit 16 a)"
    by (simp add: even_sums_def ucast_down(2) c)
  have half: "(NEON_UNPACK (x AND 0x0000ffff0000ffff :: u64) :: u32 list) =
      [ucast (ucast x :: u16), ucast (ucast (drop_bit 32 x) :: u16)]" for x
  proof -
    have "(ucast (x AND 0x0000ffff0000ffff) :: u32) = ucast (ucast x :: u16)"
      by (rule bit_word_eqI) (simp only: bit_ucast_iff bit_and_iff even_mask, auto)
    moreover have "(ucast (drop_bit 32 (x AND 0x0000ffff0000ffff)) :: u32) = ucast (ucast (drop_bit 32 x) :: u16)"
      by (rule bit_word_eqI) (simp only: bit_ucast_iff bit_and_iff bit_drop_bit_eq o_apply even_mask, auto)
    ultimately show ?thesis by (simp only: unpack_u32x2)
  qed
  have small: "uint (ucast (v :: u16) :: u32) < 65536" for v
    using uint_lt2p [of v] by (simp add: uint_widen)
  then have "list_all2 (\<lambda>(v :: u32) (w :: u32). uint v + uint w < 2 ^ LENGTH(32))
      (NEON_UNPACK (a AND 0x0000ffff0000ffff)) (NEON_UNPACK (drop_bit 16 a AND 0x0000ffff0000ffff))"
    unfolding half using add_strict_mono [OF small small] by (simp add: less_trans [where y = 131072])
  then have "(NEON_UNPACK (even_sums a) :: u32 list) ! 1 =
      ucast (ucast (drop_bit 32 a) :: u16) + ucast (ucast (drop_bit 48 a) :: u16)"
    unfolding even_sums_def by (subst NEON_UNPACK_add [where n = 2]) (simp_all add: half)
  then have "(ucast (ucast (drop_bit 32 (even_sums a)) :: u32) :: u16) =
      ucast (ucast (ucast (drop_bit 32 a) :: u16) + ucast (ucast (drop_bit 48 a) :: u16) :: u32)"
    by (simp add: nth_NEON_UNPACK)
  moreover have "(ucast (ucast y :: u32) :: u16) = ucast y" for y :: u64
    by (rule bit_word_eqI) (simp add: bit_simps)
  moreover have "(ucast (ucast v :: u32) :: u16) = v" for v :: u16
    by (rule bit_word_eqI) (simp add: bit_simps)
  ultimately show "(ucast (drop_bit 32 (even_sums a)) :: u16) = ucast (drop_bit 32 a) + ucast (drop_bit 48 a)"
    by (simp add: ucast_down(2))
qed

lemma paddl_u16_sums:
  "neon_paddl_u16 a b = NEON_PACK
     [ucast (even_sums a) :: u16, ucast (drop_bit 32 (even_sums a)), ucast (even_sums b), ucast (drop_bit 32 (even_sums b))]"
proof -
  have m: "(0xffff0000ffff0000 :: u64) = push_bit 16 0x0000ffff0000ffff" by simp
  have "b AND 0xffff0000ffff0000 = push_bit 16 (drop_bit 16 b AND 0x0000ffff0000ffff)"
    unfolding m by (rule bit_word_eqI) (auto simp only: bit_and_iff bit_push_bit_iff bit_drop_bit_eq o_apply le_add_diff_inverse)
  moreover have "push_bit 16 b AND 0xffff0000ffff0000 = push_bit 16 (b AND 0x0000ffff0000ffff)"
    unfolding m by (rule bit_word_eqI) (auto simp only: bit_and_iff bit_push_bit_iff)
  ultimately have t: "(b AND 0xffff0000ffff0000) + (push_bit 16 b AND 0xffff0000ffff0000) = push_bit 16 (even_sums b)"
    by (simp only: even_sums_def push_bit_add add.commute)
  have ms: "(0xffff :: u64) = mask 16" "(0xffff0000 :: u64) = push_bit 16 (mask 16)"
    "(0xffff00000000 :: u64) = push_bit 32 (mask 16)" "(0xffff000000000000 :: u64) = push_bit 48 (mask 16)"
    by (simp_all add: mask_eq_exp_minus_1)
  show ?thesis
    unfolding neon_paddl_u16_def Let_def t even_sums_def [symmetric, of a] unfolding ms
    by (rule bit_word_eqI) (auto simp: bit_simps bit_NEON_PACK)
qed

section \<open>Lane by lane\<close>

text \<open>
  C36. The additions, subtractions and negations done on whole 32- and 64-bit words act on each
  lane as if the lanes were separate, and the pairwise long additions add neighbouring lanes:
  no carry crosses from one lane to the next.
\<close>

theorem neon_whole_word_lanes:
  "neon_add_u8 a b = NEON_PACK (map2 (+) (NEON_UNPACK a :: u8 list) (NEON_UNPACK b)) \<and>
   neon_add_u16 a b = NEON_PACK (map2 (+) (NEON_UNPACK a :: u16 list) (NEON_UNPACK b)) \<and>
   neon_addl_u16 c d = NEON_PACK (map2 (+) (NEON_UNPACK c :: u16 list) (NEON_UNPACK d)) \<and>
   neon_addl_u32 c d = NEON_PACK (map2 (+) (NEON_UNPACK c :: u32 list) (NEON_UNPACK d)) \<and>
   neon_subl_u16 c d = NEON_PACK (map2 (-) (NEON_UNPACK c :: u16 list) (NEON_UNPACK d)) \<and>
   neon_subl_u32 c d = NEON_PACK (map2 (-) (NEON_UNPACK c :: u32 list) (NEON_UNPACK d)) \<and>
   neon_paddl_u16 c d = NEON_PACK (pairwise (+) (NEON_UNPACK c @ NEON_UNPACK d :: u16 list)) \<and>
   neon_paddl_u32 c d = NEON_PACK (pairwise (+) (NEON_UNPACK c @ NEON_UNPACK d :: u32 list)) \<and>
   neon_negl_u16 c = NEON_PACK (map uminus (NEON_UNPACK c :: u16 list)) \<and>
   neon_negl_u32 c = NEON_PACK (map uminus (NEON_UNPACK c :: u32 list))"
proof (intro conjI)
  show "neon_paddl_u16 c d = NEON_PACK (pairwise (+) (NEON_UNPACK c @ NEON_UNPACK d :: u16 list))"
    unfolding paddl_u16_sums even_sums_lanes by (simp add: NEON_UNPACK_def upt_rec del: NEON_PACK.simps)
  show "neon_paddl_u32 c d = NEON_PACK (pairwise (+) (NEON_UNPACK c @ NEON_UNPACK d :: u32 list))"
    by (simp add: neon_paddl_u32_def unpack_u32x2 ucast_down(2) NEON_PACK_Cons_plus del: NEON_PACK.simps(2))
  show "neon_negl_u32 c = NEON_PACK (map uminus (NEON_UNPACK c :: u32 list))"
    by (simp add: neon_negl_u32_def unpack_u32x2 ucast_down(1))
  show "neon_negl_u16 c = NEON_PACK (map uminus (NEON_UNPACK c :: u16 list))"
    by (simp add: neon_negl_u16_def NEON_UNPACK_def upt_rec ucast_down(1) push_bit_or or.assoc)
qed (unfold neon_add_u8_def neon_add_u16_def neon_addl_u16_def neon_addl_u32_def neon_subl_u16_def neon_subl_u32_def Let_def,
     rule swar_add [OF _ top_masks(1)] swar_add [OF _ top_masks(2)] swar_add [OF _ top_masks(3)] swar_add [OF _ top_masks(4)]
          swar_sub [OF _ top_masks(3)] swar_sub [OF _ top_masks(4)]; simp)+

end
