(* ===== verification/NeonBits.thy ===== *)
theory NeonBits
  imports NeonSwar
begin

text \<open>
  The loops and bit tricks of \<^verbatim>\<open>neon_helper.c\<close>: polynomial products over GF(2), population counts and
  counts of leading zero and sign bits, each against a direct description of one lane.
\<close>

section \<open>Polynomial products\<close>

text \<open>The product of two polynomials over GF(2), the coefficients being the bits.\<close>

definition clmul :: "'a::len word \<Rightarrow> 'b::len word \<Rightarrow> 'b word" where
  "clmul x y = foldr (\<lambda>i r. (if bit x i then push_bit i y else 0) XOR r) [0..<LENGTH('a)] 0"

lemma clmul_0 [simp]: "clmul 0 y = 0"
proof -
  have "foldr (\<lambda>i r. (if bit (0 :: 'a::len word) i then push_bit i y else 0) XOR r) is 0 = 0" for "is"
    by (induction "is") simp_all
  then show ?thesis by (simp add: clmul_def)
qed

lemma clmul_step:
  fixes x :: "'a::len word" and y :: "'b::len word"
  shows "clmul x y = (if bit x 0 then y else 0) XOR clmul (drop_bit 1 x) (push_bit 1 y)"
proof -
  obtain m where m: "LENGTH('a) = Suc m" using len_gt_0 [where 'a = 'a] by (cases "LENGTH('a)") auto
  let ?t = "\<lambda>i. if bit x i then push_bit i y else 0"
  let ?s = "\<lambda>i. if bit (drop_bit 1 x) i then push_bit i (push_bit 1 y) else 0"
  have shift: "?t (Suc i) = ?s i" for i by (simp add: bit_simps)
  have "foldr (\<lambda>i r. ?t i XOR r) (map Suc is) 0 = foldr (\<lambda>i r. ?s i XOR r) is 0" for "is"
    by (induction "is") (simp_all add: shift)
  moreover have "foldr (\<lambda>i r. ?s i XOR r) [0..<Suc m] 0 = foldr (\<lambda>i r. ?s i XOR r) [0..<m] 0"
  proof -
    have "\<not> bit (drop_bit 1 x) m" using bit_imp_le_length [of x "Suc m"] m by (auto simp: bit_simps)
    then show ?thesis by simp
  qed
  moreover have "[0..<Suc m] = 0 # map Suc [0..<m]" by (simp add: map_Suc_upt upt_conv_Cons)
  ultimately show ?thesis unfolding clmul_def m by (simp del: upt_Suc)
qed

lemma mul_p8_mask_lanes:
  "NEON_UNPACK (mul_p8_mask op1) = map (\<lambda>v :: u8. if bit v 0 then 0xff else (0 :: u8)) (NEON_UNPACK op1)"
proof -
  have b: "op1 AND 1 \<noteq> 0 \<longleftrightarrow> bit op1 0" "op1 AND push_bit 8 1 \<noteq> 0 \<longleftrightarrow> bit op1 8"
    "op1 AND push_bit 16 1 \<noteq> 0 \<longleftrightarrow> bit op1 16" "op1 AND push_bit 24 1 \<noteq> 0 \<longleftrightarrow> bit op1 24"
    using and_exp_eq_0_iff_not_bit [of op1 0] and_exp_eq_0_iff_not_bit [of op1 8]
      and_exp_eq_0_iff_not_bit [of op1 16] and_exp_eq_0_iff_not_bit [of op1 24] by simp_all
  have "mul_p8_mask op1 = NEON_PACK (map (\<lambda>v :: u8. if bit v 0 then 0xff else (0 :: u8)) (NEON_UNPACK op1))"
    unfolding mul_p8_mask_def b by (simp add: NEON_UNPACK_def upt_rec bit_simps)
  then show ?thesis by (simp add: NEON_UNPACK_PACK)
qed

lemma lane_masks:
  "NEON_UNPACK (0x7f7f7f7f :: u32) = replicate 4 (0x7f :: u8)"
  "NEON_UNPACK (0xfefefefe :: u32) = replicate 4 (0xfe :: u8)"
  "NEON_UNPACK (0x55555555 :: u32) = replicate 4 (0x55 :: u8)"
  "NEON_UNPACK (0x33333333 :: u32) = replicate 4 (0x33 :: u8)"
  "NEON_UNPACK (0x0f0f0f0f :: u32) = replicate 4 (0x0f :: u8)"
  by code_simp+

lemma byte_mask: "bit (0x7f :: u8) j \<longleftrightarrow> j < 7" "bit (0xfe :: u8) j \<longleftrightarrow> 1 \<le> j \<and> j < 8"
proof -
  have m: "(0x7f :: u8) = mask 7" "(0xfe :: u8) = push_bit 1 (mask 7)" by (simp_all add: mask_eq_exp_minus_1)
  show "bit (0x7f :: u8) j \<longleftrightarrow> j < 7" unfolding m by (auto simp: bit_simps)
  show "bit (0xfe :: u8) j \<longleftrightarrow> 1 \<le> j \<and> j < 8"
    unfolding m by (simp only: bit_push_bit_iff bit_mask_iff possible_bit_def) auto
qed

lemma len8: "j < 7 \<Longrightarrow> j + 1 < LENGTH(8)"
  by simp

lemma op1_lanes: "NEON_UNPACK (drop_bit 1 op1 AND 0x7f7f7f7f :: u32) = map (drop_bit 1) (NEON_UNPACK op1 :: u8 list)"
proof -
  have "drop_bit 1 v AND 0x7f = drop_bit 1 v" for v :: u8
    by (rule bit_word_eqI) (simp only: bit_and_iff bit_drop_bit_eq byte_mask o_apply, auto dest: bit_imp_le_length)
  moreover have "NEON_UNPACK (drop_bit 1 op1 AND 0x7f7f7f7f) = map (\<lambda>v :: u8. drop_bit 1 v AND 0x7f) (NEON_UNPACK op1)"
    by (rule NEON_UNPACK_shr [OF _ lane_masks(1)]) (simp, simp only: byte_mask len8)
  ultimately show ?thesis by (simp only:)
qed

lemma op2_lanes: "NEON_UNPACK (push_bit 1 op2 AND 0xfefefefe :: u32) = map (push_bit 1) (NEON_UNPACK op2 :: u8 list)"
proof -
  have "push_bit 1 v AND 0xfe = push_bit 1 v" for v :: u8
    by (rule bit_word_eqI) (simp only: bit_and_iff bit_push_bit_iff byte_mask, auto)
  moreover have "NEON_UNPACK (push_bit 1 op2 AND 0xfefefefe) = map (\<lambda>v :: u8. push_bit 1 v AND 0xfe) (NEON_UNPACK op2)"
    by (rule NEON_UNPACK_shl [OF _ lane_masks(2)]) (simp, simp only: byte_mask)
  ultimately show ?thesis by (simp only:)
qed

lemma mul_p8_loop_lanes:
  "NEON_UNPACK (mul_p8_loop op1 op2 r) =
     map2 (XOR) (NEON_UNPACK r) (map2 clmul (NEON_UNPACK op1 :: u8 list) (NEON_UNPACK op2 :: u8 list))"
proof (induction op1 op2 r rule: mul_p8_loop.induct)
  case (1 op1 op2 r)
  show ?case
  proof (cases "op1 = 0")
    case True
    have "(NEON_UNPACK (0 :: u32) :: u8 list) = replicate 4 0" by code_simp
    then show ?thesis using True by (simp add: mul_p8_loop.simps) (rule nth_equalityI, simp_all)
  next
    case False
    have sel: "v AND (if bit u 0 then 0xff else 0) = (if bit u 0 then v else 0)" for u v :: u8
    proof -
      have "v AND 0xff = v AND - 1" by (rule arg_cong [where f = "\<lambda>m. v AND m"]) simp
      then show ?thesis by simp
    qed
    have "NEON_UNPACK (mul_p8_loop op1 op2 r) =
        map2 (XOR) (NEON_UNPACK (r XOR (op2 AND mul_p8_mask op1)))
          (map2 clmul (map (drop_bit 1) (NEON_UNPACK op1 :: u8 list)) (map (push_bit 1) (NEON_UNPACK op2 :: u8 list)))"
      using 1 [OF False] False by (simp only: mul_p8_loop.simps [of op1] if_False op1_lanes op2_lanes)
    also have "\<dots> = map2 (XOR) (NEON_UNPACK r) (map2 clmul (NEON_UNPACK op1 :: u8 list) (NEON_UNPACK op2))"
      by (rule nth_equalityI)
        (simp_all add: lane_ops mul_p8_mask_lanes sel xor.assoc clmul_step [of "NEON_UNPACK op1 ! _"])
    finally show ?thesis .
  qed
qed

lemma neon_mul_p8_lanes:
  "neon_mul_p8 a b = NEON_PACK (map2 clmul (NEON_UNPACK a :: u8 list) (NEON_UNPACK b :: u8 list))"
proof -
  have "(NEON_UNPACK (0 :: u32) :: u8 list) = replicate 4 0" by code_simp
  then have "NEON_UNPACK (neon_mul_p8 a b) = map2 clmul (NEON_UNPACK a :: u8 list) (NEON_UNPACK b :: u8 list)"
    unfolding neon_mul_p8_def mul_p8_loop_lanes by (intro nth_equalityI) simp_all
  then show ?thesis by (metis u8x4.pack_unpack)
qed

lemma mull_p8_mask_lanes:
  "NEON_UNPACK (mull_p8_mask op1) = map (\<lambda>v :: u8. if bit v 0 then 0xffff else (0 :: u16)) (NEON_UNPACK op1)"
proof -
  have b: "op1 AND 1 \<noteq> 0 \<longleftrightarrow> bit op1 0" "op1 AND push_bit 8 1 \<noteq> 0 \<longleftrightarrow> bit op1 8"
    "op1 AND push_bit 16 1 \<noteq> 0 \<longleftrightarrow> bit op1 16" "op1 AND push_bit 24 1 \<noteq> 0 \<longleftrightarrow> bit op1 24"
    using and_exp_eq_0_iff_not_bit [of op1 0] and_exp_eq_0_iff_not_bit [of op1 8]
      and_exp_eq_0_iff_not_bit [of op1 16] and_exp_eq_0_iff_not_bit [of op1 24] by simp_all
  have "mull_p8_mask op1 = NEON_PACK (map (\<lambda>v :: u8. if bit v 0 then 0xffff else (0 :: u16)) (NEON_UNPACK op1))"
    unfolding mull_p8_mask_def b by (simp add: NEON_UNPACK_def upt_rec bit_simps)
  then show ?thesis by (simp add: NEON_UNPACK_PACK)
qed

lemma NEON_UNPACK_double:
  fixes x :: "'b::len word"
  assumes w: "LENGTH('b) = n * LENGTH('a::len)"
    and top: "list_all (\<lambda>v :: 'a word. \<not> bit v (LENGTH('a) - 1)) (NEON_UNPACK x)"
  shows "(NEON_UNPACK (push_bit 1 x) :: 'a word list) = map (push_bit 1) (NEON_UNPACK x)"
proof (rule nth_equalityI)
  fix i assume "i < length (NEON_UNPACK (push_bit 1 x) :: 'a word list)"
  then have i: "i < n" "i < LENGTH('b) div LENGTH('a)" using w by simp_all
  show "(NEON_UNPACK (push_bit 1 x) :: 'a word list) ! i = map (push_bit 1) (NEON_UNPACK x) ! i"
  proof (rule bit_word_eqI)
    fix j assume j: "j < LENGTH('a)"
    have "\<not> bit x (i * LENGTH('a) - 1) \<or> i = 0"
    proof (cases i)
      case (Suc k)
      then have "\<not> bit ((NEON_UNPACK x :: 'a word list) ! k) (LENGTH('a) - 1)"
        using top i(2) by (simp add: list_all_length)
      moreover have "k * LENGTH('a) + (LENGTH('a) - 1) = i * LENGTH('a) - 1"
        using Suc len_gt_0 [where 'a = 'a] by (cases "LENGTH('a)") simp_all
      ultimately show ?thesis using i(2) Suc by (simp only: bit_lane) simp
    qed simp
    then show "bit ((NEON_UNPACK (push_bit 1 x) :: 'a word list) ! i) j =
        bit (map (push_bit 1) (NEON_UNPACK x :: 'a word list) ! i) j"
      using i j lane_in_word [OF w i(1) j]
      by (cases j) (auto simp: bit_lane bit_push_bit_iff possible_bit_def simp del: push_bit_of_1 One_nat_def)
  qed
qed simp

lemma mull_p8_loop_lanes:
  assumes "k \<le> 8" "list_all (\<lambda>v :: u8. \<forall>i \<ge> 8 - k. \<not> bit v i) (NEON_UNPACK op1)"
    and "list_all (\<lambda>v :: u16. \<forall>i \<ge> 8 + k. \<not> bit v i) (NEON_UNPACK ex)"
  shows "NEON_UNPACK (mull_p8_loop op1 ex r) =
     map2 (XOR) (NEON_UNPACK r) (map2 clmul (NEON_UNPACK op1 :: u8 list) (NEON_UNPACK ex :: u16 list))"
  using assms
proof (induction op1 ex r arbitrary: k rule: mull_p8_loop.induct)
  case (1 op1 ex r)
  have zero: "(NEON_UNPACK (0 :: u32) :: u8 list) = replicate 4 0" by code_simp
  show ?case
  proof (cases "op1 = 0")
    case True
    then show ?thesis using zero by (simp add: mull_p8_loop.simps) (rule nth_equalityI, simp_all)
  next
    case False
    have k: "k < 8"
    proof (rule ccontr)
      assume "\<not> k < 8"
      then have "(NEON_UNPACK op1 :: u8 list) = NEON_UNPACK (0 :: u32)"
        using 1(3) unfolding zero
        by (intro nth_equalityI) (simp_all add: list_all_length bit_eq_iff)
      then show False using False u8x4.unpack_inject by metis
    qed
    have sel: "v AND (if bit u 0 then 0xffff else 0) = (if bit u 0 then v else 0)" for u :: u8 and v :: u16
    proof -
      have "v AND 0xffff = v AND - 1" by (rule arg_cong [where f = "\<lambda>m. v AND m"]) simp
      then show ?thesis by simp
    qed
    have "list_all (\<lambda>v :: u16. \<not> bit v (LENGTH(16) - 1)) (NEON_UNPACK ex)"
      using 1(4) k by (auto simp: list_all_length)
    then have dbl: "(NEON_UNPACK (push_bit 1 ex) :: u16 list) = map (push_bit 1) (NEON_UNPACK ex)"
      by (intro NEON_UNPACK_double [where n = 4]) simp_all
    have "NEON_UNPACK (mull_p8_loop (drop_bit 1 op1 AND 0x7f7f7f7f) (push_bit 1 ex) (r XOR (ex AND mull_p8_mask op1))) =
        map2 (XOR) (NEON_UNPACK (r XOR (ex AND mull_p8_mask op1)))
          (map2 clmul (map (drop_bit 1) (NEON_UNPACK op1 :: u8 list)) (map (push_bit 1) (NEON_UNPACK ex :: u16 list)))"
      unfolding dbl [symmetric] op1_lanes [symmetric]
    proof (rule 1(1) [OF False, of "Suc k"])
      show "list_all (\<lambda>v :: u8. \<forall>i \<ge> 8 - Suc k. \<not> bit v i) (NEON_UNPACK (drop_bit 1 op1 AND 0x7f7f7f7f))"
        using 1(3) k unfolding op1_lanes
        by (auto simp: list_all_length bit_drop_bit_eq simp del: drop_bit_Suc One_nat_def)
      show "list_all (\<lambda>v :: u16. \<forall>i \<ge> 8 + Suc k. \<not> bit v i) (NEON_UNPACK (push_bit 1 ex))"
        using 1(4) unfolding dbl
        by (auto simp: list_all_length bit_push_bit_iff simp del: push_bit_Suc One_nat_def)
    qed (use k in simp)
    also have "\<dots> = map2 (XOR) (NEON_UNPACK r) (map2 clmul (NEON_UNPACK op1 :: u8 list) (NEON_UNPACK ex))"
      by (rule nth_equalityI)
        (simp_all add: lane_ops mull_p8_mask_lanes sel xor.assoc clmul_step [of "NEON_UNPACK op1 ! _"])
    finally show ?thesis using False by (simp only: mull_p8_loop.simps [of op1] if_False)
  qed
qed

lemma neon_mull_p8_lanes:
  "neon_mull_p8 a b =
     NEON_PACK (map2 (\<lambda>x y. clmul x (ucast y :: u16)) (NEON_UNPACK a :: u8 list) (NEON_UNPACK b :: u8 list))"
proof -
  let ?e = "ucast b :: u64"
  let ?ex = "(?e AND 0xff) OR push_bit 8 (?e AND 0xff00) OR push_bit 16 (?e AND 0xff0000) OR push_bit 24 (?e AND 0xff000000)"
  have m: "(0xff :: u64) = mask 8" "(0xff00 :: u64) = push_bit 8 (mask 8)" "(0xff0000 :: u64) = push_bit 16 (mask 8)"
    "(0xff000000 :: u64) = push_bit 24 (mask 8)" by (simp_all add: mask_eq_exp_minus_1)
  have part: "push_bit j (?e AND push_bit j (mask 8)) = push_bit (2 * j) (ucast (ucast (ucast (drop_bit j b) :: u8) :: u16))" for j
  proof (rule bit_word_eqI)
    fix i assume "i < LENGTH(64)"
    then have "2 * j \<le> i \<Longrightarrow> i - j = j + (i - 2 * j)" by simp
    then show "bit (push_bit j (?e AND push_bit j (mask 8))) i =
        bit (push_bit (2 * j) (ucast (ucast (ucast (drop_bit j b) :: u8) :: u16) :: u64)) i"
      by (auto simp: bit_simps)
  qed
  have "?ex = NEON_PACK (map ucast (NEON_UNPACK b :: u8 list) :: u16 list)"
    using part [of 0] part [of 8] part [of 16] part [of 24] unfolding m
    by (simp add: NEON_UNPACK_def upt_rec push_bit_or or.assoc del: push_bit_and)
  then have ex: "NEON_UNPACK ?ex = (map ucast (NEON_UNPACK b :: u8 list) :: u16 list)"
    by (simp add: NEON_UNPACK_PACK)
  have zero: "(NEON_UNPACK (0 :: u64) :: u16 list) = replicate 4 0" by code_simp
  have "NEON_UNPACK (neon_mull_p8 a b) =
      map2 (XOR) (NEON_UNPACK (0 :: u64)) (map2 clmul (NEON_UNPACK a :: u8 list) (map ucast (NEON_UNPACK b :: u8 list) :: u16 list))"
    unfolding neon_mull_p8_def Let_def
    by (subst mull_p8_loop_lanes [where k = 0])
      (simp_all only: ex, simp_all add: list_all_length bit_simps, auto dest: bit_imp_le_length)
  also have "\<dots> = map2 (\<lambda>x y. clmul x (ucast y :: u16)) (NEON_UNPACK a :: u8 list) (NEON_UNPACK b :: u8 list)"
    unfolding zero by (rule nth_equalityI) simp_all
  finally show ?thesis by (metis u16x4.pack_unpack)
qed

text \<open>
  C37. The polynomial products end, and compute in each lane the product over GF(2): cut to 8 bits
  for \<^verbatim>\<open>neon_mul_p8\<close>, all 16 bits for \<^verbatim>\<open>neon_mull_p8\<close>.
\<close>

theorem neon_polynomial_products:
  "neon_mul_p8 a b = NEON_PACK (map2 clmul (NEON_UNPACK a :: u8 list) (NEON_UNPACK b :: u8 list)) \<and>
   neon_mull_p8 a b =
     NEON_PACK (map2 (\<lambda>x y. clmul x (ucast y :: u16)) (NEON_UNPACK a :: u8 list) (NEON_UNPACK b :: u8 list))"
  by (intro conjI neon_mul_p8_lanes neon_mull_p8_lanes)

section \<open>Population count\<close>

definition popcount :: "'a::len word \<Rightarrow> nat" where
  "popcount x = length (filter (bit x) [0..<LENGTH('a)])"

definition cnt_byte :: "u8 \<Rightarrow> u8" where
  "cnt_byte x =
     (let x1 = (x AND 0x55) + (drop_bit 1 x AND 0x55);
          x2 = (x1 AND 0x33) + (drop_bit 2 x1 AND 0x33)
      in (x2 AND 0x0f) + (drop_bit 4 x2 AND 0x0f))"

lemma cnt_byte_popcount: "cnt_byte x = of_nat (popcount x)"
proof -
  have "list_all (\<lambda>n. cnt_byte (word_of_nat n) = of_nat (popcount (word_of_nat n :: u8))) [0..<256]"
    by code_simp
  moreover have "unat x \<in> set [0..<256]" using unsigned_less [of x] by simp
  ultimately have "cnt_byte (word_of_nat (unat x)) = of_nat (popcount (word_of_nat (unat x) :: u8))"
    unfolding list_all_iff by blast
  then show ?thesis by simp
qed

text \<open>One step of the count: neighbouring fields of \<open>k\<close> bits are added, in each byte.\<close>

lemma cnt_step:
  fixes x m :: u32 and c :: u8
  assumes m: "NEON_UNPACK m = replicate 4 c" and c: "\<forall>j. bit c j \<longrightarrow> j + k < LENGTH(8)" and small: "uint c < 128"
  shows "NEON_UNPACK ((x AND m) + (drop_bit k x AND m)) = map (\<lambda>v. (v AND c) + (drop_bit k v AND c)) (NEON_UNPACK x)"
proof -
  have l: "NEON_UNPACK (x AND m) = map (\<lambda>v. v AND c) (NEON_UNPACK x)"
    unfolding lane_ops m by (rule nth_equalityI) simp_all
  have r: "NEON_UNPACK (drop_bit k x AND m) = map (\<lambda>v. drop_bit k v AND c) (NEON_UNPACK x)"
    by (rule NEON_UNPACK_shr [OF _ m]) (use c in simp_all)
  have le: "uint (v AND c) < 128" for v
    using word_and_le1 [of v c] small by (simp add: word_le_def)
  have "uint (v AND c) + uint (w AND c) < 2 ^ LENGTH(8)" for v w using le [of v] le [of w] by simp
  then have "NEON_UNPACK ((x AND m) + (drop_bit k x AND m)) = map2 (+) (NEON_UNPACK (x AND m)) (NEON_UNPACK (drop_bit k x AND m) :: u8 list)"
    by (intro NEON_UNPACK_add [where n = 4]) (simp_all only: l r, simp_all add: list_all2_conv_all_nth)
  also have "\<dots> = map (\<lambda>v. (v AND c) + (drop_bit k v AND c)) (NEON_UNPACK x)"
    unfolding l r by (rule nth_equalityI) simp_all
  finally show ?thesis .
qed

lemma neon_cnt_u8_lanes: "neon_cnt_u8 x = NEON_PACK (map cnt_byte (NEON_UNPACK x))"
proof -
  have f: "j < 8 \<Longrightarrow> j + k < 8 \<or> j = 7 \<or> j = 6 \<and> 2 \<le> k \<or> (j = 4 \<or> j = 5) \<and> 4 \<le> k" if "k = 1 \<or> k = 2 \<or> k = 4" for j k :: nat
    using that by auto
  have b: "(bit (0x55 :: u8) j \<longrightarrow> j + 1 < LENGTH(8)) \<and> (bit (0x33 :: u8) j \<longrightarrow> j + 2 < LENGTH(8)) \<and>
      (bit (0x0f :: u8) j \<longrightarrow> j + 4 < LENGTH(8))" for j
    using f [of 1 j] f [of 2 j] f [of 4 j] by auto
  then have c: "\<forall>j. bit (0x55 :: u8) j \<longrightarrow> j + 1 < LENGTH(8)" "\<forall>j. bit (0x33 :: u8) j \<longrightarrow> j + 2 < LENGTH(8)"
    "\<forall>j. bit (0x0f :: u8) j \<longrightarrow> j + 4 < LENGTH(8)" by blast+
  have small: "uint (0x55 :: u8) < 128" "uint (0x33 :: u8) < 128" "uint (0x0f :: u8) < 128" by simp_all
  have "NEON_UNPACK (neon_cnt_u8 x) = map cnt_byte (NEON_UNPACK x)"
    unfolding neon_cnt_u8_def Let_def cnt_step [OF lane_masks(3) c(1) small(1)]
      cnt_step [OF lane_masks(4) c(2) small(2)] cnt_step [OF lane_masks(5) c(3) small(3)]
    by (simp only: map_map o_def cnt_byte_def [abs_def] Let_def)
  then show ?thesis by (metis u8x4.pack_unpack)
qed

section \<open>Leading zeros and sign bits\<close>

definition leading_zeros :: "'a::len word \<Rightarrow> nat" where
  "leading_zeros x = length (takeWhile (\<lambda>i. \<not> bit x i) (rev [0..<LENGTH('a)]))"

text \<open>The number of bits below the sign bit that equal it, counted from the top.\<close>

definition sign_copies :: "'a::len word \<Rightarrow> nat" where
  "sign_copies x =
     length (takeWhile (\<lambda>i. bit x i = bit x (LENGTH('a) - 1)) (rev [0..<LENGTH('a) - 1]))"

lemma clz_loop_count:
  fixes x :: "'a::len word"
  shows "\<exists>k. clz_loop n x = n - int k \<and> (\<forall>i \<ge> k. \<not> bit x i) \<and> (k = 0 \<or> bit x (k - 1))"
proof (induction n x rule: clz_loop.induct)
  case (1 n x)
  show ?case
  proof (cases "x = 0")
    case True
    then show ?thesis by (intro exI [of _ 0]) (simp add: clz_loop.simps)
  next
    case False
    from 1 [OF False] obtain k where k: "clz_loop (n - 1) (drop_bit 1 x) = n - 1 - int k"
      "\<forall>i \<ge> k. \<not> bit (drop_bit 1 x) i" "k = 0 \<or> bit (drop_bit 1 x) (k - 1)" by (elim exE conjE)
    have above: "\<not> bit x i" if "Suc k \<le> i" for i
      using k(2) that by (cases i) (auto simp: bit_drop_bit_eq)
    have "bit x k"
    proof (cases "k = 0")
      case True
      have "x = 0" if "\<not> bit x 0"
      proof (rule bit_word_eqI)
        fix i show "bit x i = bit (0 :: 'a word) i" using that above [of i] True by (cases i) simp_all
      qed
      then show ?thesis using False True by blast
    next
      case False
      then show ?thesis using k(3) by (cases k) (auto simp: bit_drop_bit_eq)
    qed
    moreover have "clz_loop n x = n - int (Suc k)" using False k(1) by (subst clz_loop.simps) simp
    ultimately show ?thesis using above by (intro exI [of _ "Suc k"] conjI) simp_all
  qed
qed

lemma clz_loop_leading: "clz_loop (int LENGTH('a)) (x :: 'a::len word) = int (leading_zeros x)"
proof -
  obtain k where k: "clz_loop (int LENGTH('a)) x = int LENGTH('a) - int k" "\<forall>i \<ge> k. \<not> bit x i" "k = 0 \<or> bit x (k - 1)"
    using clz_loop_count [of "int LENGTH('a)" x] by (elim exE conjE)
  have le: "k \<le> LENGTH('a)" using k(3) bit_imp_le_length [of x "k - 1"] by auto
  have "[0..<LENGTH('a)] = [0..<k] @ [k..<LENGTH('a)]" using le by (metis le_add_diff_inverse upt_add_eq_append zero_le)
  then have rv: "rev [0..<LENGTH('a)] = rev [k..<LENGTH('a)] @ rev [0..<k]" by (simp only: rev_append)
  have "takeWhile (\<lambda>i. \<not> bit x i) (rev [0..<LENGTH('a)]) = rev [k..<LENGTH('a)] @ takeWhile (\<lambda>i. \<not> bit x i) (rev [0..<k])"
    unfolding rv by (rule takeWhile_append2) (use k(2) in simp)
  moreover have "takeWhile (\<lambda>i. \<not> bit x i) (rev [0..<k]) = []"
    using k(3) by (cases k) simp_all
  ultimately have "leading_zeros x = LENGTH('a) - k" by (simp add: leading_zeros_def)
  then show ?thesis using k(1) le by simp
qed

lemma sign_copies_clz:
  fixes x :: "'a::len word"
  shows "clz_loop (int LENGTH('a)) (if sint x < 0 then NOT x else x) - 1 = int (sign_copies x)"
proof -
  obtain m where m: "LENGTH('a) = Suc m" using len_gt_0 [where 'a = 'a] by (cases "LENGTH('a)") auto
  let ?y = "if sint x < 0 then NOT x else x"
  have neg: "sint x < 0 \<longleftrightarrow> bit x m" using bit_last_iff [of x] m by simp
  have y: "\<not> bit ?y i \<longleftrightarrow> bit x i = bit x m" if "i \<le> m" for i
    using that m by (auto simp: neg bit_simps)
  have "takeWhile (\<lambda>i. \<not> bit ?y i) (rev [0..<m]) = takeWhile (\<lambda>i. bit x i = bit x m) (rev [0..<m])"
    by (rule takeWhile_cong) (use y in auto)
  moreover have "\<not> bit ?y m" using y [of m] by simp
  ultimately have "leading_zeros ?y = Suc (sign_copies x)"
    unfolding leading_zeros_def sign_copies_def m by simp
  then show ?thesis unfolding clz_loop_leading by simp
qed

text \<open>
  The bit counts of each lane: \<^verbatim>\<open>cnt\<close> is the number of one bits, \<^verbatim>\<open>clz\<close> the number of zero bits
  above the first one bit, \<^verbatim>\<open>cls\<close> the number of bits below the sign bit that repeat it. The loops
  of \<^verbatim>\<open>do_clz8\<close>, \<^verbatim>\<open>do_clz16\<close> and \<^verbatim>\<open>neon_cls_s32\<close> end for every value.
\<close>

theorem neon_bit_counts:
  "neon_cnt_u8 a = NEON_PACK (map (\<lambda>v :: u8. of_nat (popcount v) :: u8) (NEON_UNPACK a)) \<and>
   neon_clz_u8 a = NEON_PACK (map (\<lambda>v :: u8. of_nat (leading_zeros v) :: u8) (NEON_UNPACK a)) \<and>
   neon_clz_u16 a = NEON_PACK (map (\<lambda>v :: u16. of_nat (leading_zeros v) :: u16) (NEON_UNPACK a)) \<and>
   neon_cls_s8 a = NEON_PACK (map (\<lambda>v :: u8. of_nat (sign_copies v) :: u8) (NEON_UNPACK a)) \<and>
   neon_cls_s16 a = NEON_PACK (map (\<lambda>v :: u16. of_nat (sign_copies v) :: u16) (NEON_UNPACK a)) \<and>
   neon_cls_s32 a = of_nat (sign_copies a)"
proof -
  have n8: "(8 :: int) = int LENGTH(8)" and n16: "(16 :: int) = int LENGTH(16)" and n32: "(32 :: int) = int LENGTH(32)" by simp_all
  show ?thesis
    unfolding neon_cnt_u8_lanes cnt_byte_popcount [abs_def] neon_clz_u8_def neon_clz_u16_def neon_cls_s8_def
      neon_cls_s16_def neon_cls_s32_def NEON_VOP1_def do_clz8_def do_clz16_def
    unfolding n8 n16 n32 sign_copies_clz unfolding clz_loop_leading by simp
qed

end
