(* ===== verification/NeonLaneOps.thy ===== *)
theory NeonLaneOps
  imports NeonSwar
begin

text \<open>
  Halving operations, comparisons, minimum, maximum and absolute difference, and the saturating
  doubling multiplies of \<^verbatim>\<open>neon_helper.c\<close>.
\<close>

section \<open>Halving\<close>

lemma div2_split:
  fixes v w :: int
  shows "(v + w) div 2 = v div 2 + w div 2 + (if odd v \<and> odd w then 1 else 0)"
    "(v + w + 1) div 2 = v div 2 + w div 2 + (if odd v \<or> odd w then 1 else 0)"
    "(v - w) div 2 = v div 2 - w div 2 - (if even v \<and> odd w then 1 else 0)"
  by presburger+

lemma and_1_iff: "(x :: 'a::len word) AND 1 \<noteq> 0 \<longleftrightarrow> bit x 0"
  using and_exp_eq_0_iff_not_bit [of x 0] by simp

lemma parity:
  fixes a :: "'a::len word"
  shows "odd (uint a) \<longleftrightarrow> bit a 0" "odd (sint a) \<longleftrightarrow> bit a 0" "even (uint a) \<longleftrightarrow> \<not> bit a 0" "even (sint a) \<longleftrightarrow> \<not> bit a 0"
proof -
  show o: "odd (uint a) \<longleftrightarrow> bit a 0" "odd (sint a) \<longleftrightarrow> bit a 0" by (simp_all add: bit_simps flip: bit_0)
  show "even (uint a) \<longleftrightarrow> \<not> bit a 0" "even (sint a) \<longleftrightarrow> \<not> bit a 0" using o by blast+
qed

lemma half_words:
  fixes a b :: "'a::len word"
  shows "word_of_int (uint a div 2) = drop_bit 1 a" "word_of_int (sint a div 2) = signed_drop_bit 1 a"
  using word_shifts(1) [of a 1] word_shifts(2) [of a 1] by simp_all

lemma halving_words:
  "neon_hadd_s32 a b = word_of_int ((sint a + sint b) div 2)"
  "neon_hadd_u32 a b = word_of_int ((uint a + uint b) div 2)"
  "neon_rhadd_s32 a b = word_of_int ((sint a + sint b + 1) div 2)"
  "neon_rhadd_u32 a b = word_of_int ((uint a + uint b + 1) div 2)"
  "neon_hsub_s32 a b = word_of_int ((sint a - sint b) div 2)"
  "neon_hsub_u32 a b = word_of_int ((uint a - uint b) div 2)"
  unfolding neon_hadd_s32_def neon_hadd_u32_def neon_rhadd_s32_def neon_rhadd_u32_def neon_hsub_s32_def neon_hsub_u32_def
    Let_def div2_split and.assoc [symmetric] and_1_iff parity of_int_add of_int_diff half_words
  by (simp_all add: bit_simps parity)

text \<open>
  Halving additions, rounding halving additions and halving subtractions of every width are
  the floor of half the exact sum, of half the sum plus one, and of half the difference; for 32
  bits this is computed without a wider type.
\<close>

theorem neon_halving_exact:
  "neon_hadd_s8 = NEON_VOP (\<lambda>x y :: u8. word_of_int ((sint x + sint y) div 2)) \<and>
   neon_hadd_u8 = NEON_VOP (\<lambda>x y :: u8. word_of_int ((uint x + uint y) div 2)) \<and>
   neon_hadd_s16 = NEON_VOP (\<lambda>x y :: u16. word_of_int ((sint x + sint y) div 2)) \<and>
   neon_hadd_u16 = NEON_VOP (\<lambda>x y :: u16. word_of_int ((uint x + uint y) div 2)) \<and>
   neon_hadd_s32 a b = word_of_int ((sint a + sint b) div 2) \<and>
   neon_hadd_u32 a b = word_of_int ((uint a + uint b) div 2) \<and>
   neon_rhadd_s8 = NEON_VOP (\<lambda>x y :: u8. word_of_int ((sint x + sint y + 1) div 2)) \<and>
   neon_rhadd_u8 = NEON_VOP (\<lambda>x y :: u8. word_of_int ((uint x + uint y + 1) div 2)) \<and>
   neon_rhadd_s16 = NEON_VOP (\<lambda>x y :: u16. word_of_int ((sint x + sint y + 1) div 2)) \<and>
   neon_rhadd_u16 = NEON_VOP (\<lambda>x y :: u16. word_of_int ((uint x + uint y + 1) div 2)) \<and>
   neon_rhadd_s32 a b = word_of_int ((sint a + sint b + 1) div 2) \<and>
   neon_rhadd_u32 a b = word_of_int ((uint a + uint b + 1) div 2) \<and>
   neon_hsub_s8 = NEON_VOP (\<lambda>x y :: u8. word_of_int ((sint x - sint y) div 2)) \<and>
   neon_hsub_u8 = NEON_VOP (\<lambda>x y :: u8. word_of_int ((uint x - uint y) div 2)) \<and>
   neon_hsub_s16 = NEON_VOP (\<lambda>x y :: u16. word_of_int ((sint x - sint y) div 2)) \<and>
   neon_hsub_u16 = NEON_VOP (\<lambda>x y :: u16. word_of_int ((uint x - uint y) div 2)) \<and>
   neon_hsub_s32 a b = word_of_int ((sint a - sint b) div 2) \<and>
   neon_hsub_u32 a b = word_of_int ((uint a - uint b) div 2)"
proof -
  have "hadd_fn v w = (v + w) div 2" "rhadd_fn v w = (v + w + 1) div 2" "hsub_fn v w = (v - w) div 2" for v w
    by (simp_all add: hadd_fn_def rhadd_fn_def hsub_fn_def drop_bit_eq_div)
  then show ?thesis
    by (simp only: halving_words neon_hadd_s8_def neon_hadd_u8_def neon_hadd_s16_def neon_hadd_u16_def
      neon_rhadd_s8_def neon_rhadd_u8_def neon_rhadd_s16_def neon_rhadd_u16_def
      neon_hsub_s8_def neon_hsub_u8_def neon_hsub_s16_def neon_hsub_u16_def lane_s_def [abs_def] lane_u_def [abs_def])
qed

section \<open>Comparison, minimum, maximum\<close>

lemma lane_count: "32 = n * LENGTH('a::len) \<Longrightarrow> 32 div LENGTH('a) * LENGTH('a) = 32"
  by (metis dvd_div_mult_self dvd_triv_right)

lemma NEON_VOP_compose:
  assumes "32 = n * LENGTH('a::len)"
  shows "NEON_VOP f (NEON_VOP g a b) (NEON_VOP h a b) = NEON_VOP (\<lambda>(x :: 'a word) (y :: 'a word). f (g x y) (h x y)) a b"
proof -
  have w: "LENGTH(32) = length (map2 k (NEON_UNPACK a :: 'a word list) (NEON_UNPACK b :: 'a word list)) * LENGTH('a)" for k :: "'a word \<Rightarrow> 'a word \<Rightarrow> 'a word"
    by (simp add: lane_count [OF assms])
  have "map2 f (map2 g xs ys) (map2 h xs ys) = map2 (\<lambda>x y. f (g x y) (h x y)) xs ys" for xs ys
    by (rule nth_equalityI) simp_all
  then show ?thesis by (simp only: NEON_VOP_def NEON_UNPACK_PACK [OF w])
qed

lemma NEON_VOP_not:
  assumes "32 = n * LENGTH('a::len)"
  shows "NOT (NEON_VOP f a b) = NEON_VOP (\<lambda>(x :: 'a word) y. NOT (f x y)) a b"
proof -
  have w: "LENGTH(32) = n * LENGTH('a)" using assms by simp
  have l: "LENGTH(32) = length (map2 f (NEON_UNPACK a :: 'a word list) (NEON_UNPACK b :: 'a word list)) * LENGTH('a)"
    by (simp add: lane_count [OF assms])
  have "NEON_UNPACK (NOT (NEON_VOP f a b)) = map NOT (map2 f (NEON_UNPACK a) (NEON_UNPACK b))"
    unfolding NEON_UNPACK_not [OF w] NEON_VOP_def NEON_UNPACK_PACK [OF l] ..
  then have "NOT (NEON_VOP f a b) = NEON_PACK (map NOT (map2 f (NEON_UNPACK a) (NEON_UNPACK b)))"
    by (metis NEON_PACK_UNPACK [OF w])
  moreover have "map NOT (map2 f xs ys) = map2 (\<lambda>x y. NOT (f x y)) xs ys" for xs ys
    by (rule nth_equalityI) simp_all
  ultimately show ?thesis by (simp only: NEON_VOP_def)
qed

lemma NEON_VOP_swap: "NEON_VOP f b a = NEON_VOP (\<lambda>x y. f y x) a b"
proof -
  have "map2 f ys xs = map2 (\<lambda>x y. f y x) xs ys" if "length xs = length ys" for xs ys
    using that by (intro nth_equalityI) simp_all
  then show ?thesis by (simp add: NEON_VOP_def)
qed

lemma lane_minmax:
  fixes x y :: "'a::len word"
  shows "lane_u (-) (lane_s max_fn x y) (lane_s min_fn x y) = lane_s abd_fn x y"
    "lane_u (-) (lane_u max_fn x y) (lane_u min_fn x y) = lane_u abd_fn x y"
    "NOT (lane_s cgt_fn y x) = lane_s cge_fn x y" "NOT (lane_u cgt_fn y x) = lane_u cge_fn x y"
  by (simp_all add: lane_s_def lane_u_def max_fn_def min_fn_def abd_fn_def cgt_fn_def cge_fn_def)

text \<open>
  Minimum, maximum, absolute difference and the comparisons agree with each other in every
  lane: the absolute difference is the maximum minus the minimum, of signed lanes too, where it
  is to be read as unsigned, and \<^verbatim>\<open>cge\<close> is the complement of \<^verbatim>\<open>cgt\<close> with the operands exchanged.
\<close>

theorem neon_minmax_consistent:
  "neon_abd_s8 a b = neon_sub_u8 (neon_max_s8 a b) (neon_min_s8 a b) \<and>
   neon_abd_u8 a b = neon_sub_u8 (neon_max_u8 a b) (neon_min_u8 a b) \<and>
   neon_abd_s16 a b = neon_sub_u16 (neon_max_s16 a b) (neon_min_s16 a b) \<and>
   neon_abd_u16 a b = neon_sub_u16 (neon_max_u16 a b) (neon_min_u16 a b) \<and>
   neon_abd_s32 a b = neon_max_s32 a b - neon_min_s32 a b \<and>
   neon_abd_u32 a b = neon_max_u32 a b - neon_min_u32 a b \<and>
   neon_cge_s8 a b = NOT (neon_cgt_s8 b a) \<and> neon_cge_u8 a b = NOT (neon_cgt_u8 b a) \<and>
   neon_cge_s16 a b = NOT (neon_cgt_s16 b a) \<and> neon_cge_u16 a b = NOT (neon_cgt_u16 b a) \<and>
   neon_cge_s32 a b = NOT (neon_cgt_s32 b a) \<and> neon_cge_u32 a b = NOT (neon_cgt_u32 b a)"
proof -
  have word: "x - y = NEON_VOP (lane_u (-) :: u32 \<Rightarrow> _) x y" for x y :: u32
    by (simp add: NEON_VOP_def NEON_UNPACK_def lane_u_def)
  show ?thesis
    unfolding word neon_abd_s8_def neon_abd_u8_def neon_abd_s16_def neon_abd_u16_def neon_abd_s32_def neon_abd_u32_def
      neon_max_s8_def neon_max_u8_def neon_max_s16_def neon_max_u16_def neon_max_s32_def neon_max_u32_def
      neon_min_s8_def neon_min_u8_def neon_min_s16_def neon_min_u16_def neon_min_s32_def neon_min_u32_def
      neon_sub_u8_def neon_sub_u16_def neon_cge_s8_def neon_cge_u8_def neon_cge_s16_def neon_cge_u16_def
      neon_cge_s32_def neon_cge_u32_def neon_cgt_s8_def neon_cgt_u8_def neon_cgt_s16_def neon_cgt_u16_def
      neon_cgt_s32_def neon_cgt_u32_def
      NEON_VOP_compose [where 'a = 8 and n = 4, simplified] NEON_VOP_compose [where 'a = 16 and n = 2, simplified]
      NEON_VOP_compose [where 'a = 32 and n = 1, simplified]
      NEON_VOP_not [where 'a = 8 and n = 4, simplified] NEON_VOP_not [where 'a = 16 and n = 2, simplified]
      NEON_VOP_not [where 'a = 32 and n = 1, simplified]
    by (simp add: NEON_VOP_swap [of _ b a] lane_minmax)
qed

section \<open>Doubling multiplies\<close>

lemma mult_range:
  fixes x y M :: int
  assumes "- M \<le> x" "x < M" "- M \<le> y" "y < M"
  shows "x * y = M * M \<or> x * y \<le> M * M - M" "M - M * M \<le> x * y"
proof -
  have ab: "\<bar>x\<bar> \<le> M" "\<bar>y\<bar> \<le> M" "0 < M" using assms by linarith+
  have b: "\<bar>x * y\<bar> \<le> M * (M - 1)" if "\<bar>x\<bar> \<le> M - 1 \<or> \<bar>y\<bar> \<le> M - 1"
    using that
  proof
    assume "\<bar>x\<bar> \<le> M - 1"
    then have "\<bar>x\<bar> * \<bar>y\<bar> \<le> (M - 1) * M" using ab by (intro mult_mono) linarith+
    then show ?thesis by (simp add: abs_mult mult.commute)
  next
    assume "\<bar>y\<bar> \<le> M - 1"
    then have "\<bar>x\<bar> * \<bar>y\<bar> \<le> M * (M - 1)" using ab by (intro mult_mono) linarith+
    then show ?thesis by (simp add: abs_mult)
  qed
  have c: "\<bar>x\<bar> \<le> M - 1 \<or> \<bar>y\<bar> \<le> M - 1 \<or> x = - M \<and> y = - M" using assms by linarith
  have e: "M * (M - 1) = M * M - M" by (simp add: algebra_simps)
  have p: "M \<le> M * M" using ab(3) mult_left_mono [of 1 M M] by simp
  show "x * y = M * M \<or> x * y \<le> M * M - M" using c b e by auto
  show "M - M * M \<le> x * y" using c b e p ab(3) by auto
qed

lemma qdmulh_cut:
  "(ucast (drop_bit 16 (t :: u32)) :: u16) = word_of_int (sint t div 2 ^ 16)"
  "(ucast (drop_bit 32 (u :: u64)) :: u32) = word_of_int (sint u div 2 ^ 32)"
  unfolding drop_bit_eq_div [symmetric] by (rule bit_word_eqI, simp add: bit_simps)+

lemma NEON_QDMULH16_q:
  "NEON_QDMULH16 r x y env = q_result (sat_s 16) ((2 * (sint x * sint y) + (if r then 2 ^ 15 else 0)) div 2 ^ 16) env"
proof -
  let ?t = "(scast x :: u32) * scast y" and ?p = "sint x * sint y"
  have pb: "?p = 1073741824 \<or> ?p \<le> 1073709056" "- 1073709056 \<le> ?p"
    using mult_range [of 32768 "sint x" "sint y"] sint_range [of x] sint_range [of y] by simp_all
  have t: "?t = word_of_int ?p" by simp
  have "sint ?t = signed_take_bit 31 ?p" unfolding t using sint_sbintrunc' [where 'a = 32, of ?p] by simp
  also have "\<dots> = ?p" using pb by (intro signed_take_bit_int_eq_self) auto
  finally have p: "sint ?t = ?p" .
  have d: "sint (push_bit 1 ?t) = wrap_s 32 (2 * ?p)"
    using sint_add_wrap_s [of ?t ?t] by (simp only: p push_bit_eq_mult power_one_right mult_2 mult_2_right) simp
  have c: "(?t XOR push_bit 1 ?t) AND SIGNBIT \<noteq> 0 \<longleftrightarrow> ?p = 1073741824"
    unfolding and_SIGNBIT sign_xor d p wrap_s_def using pb by auto
  show ?thesis
  proof (cases "?p = 1073741824")
    case True
    have "drop_bit 31 ?t = 0" unfolding t True by simp
    then show ?thesis
      unfolding NEON_QDMULH16_def Let_def c True by (simp add: SIGNBIT_def q_result_def sat_s_cases)
  next
    case False
    then have le: "?p \<le> 1073709056" using pb(1) by blast
    then have s1: "sint (push_bit 1 ?t) = 2 * ?p" unfolding d wrap_s_def using pb(2) by simp
    have s2: "sint (push_bit 1 ?t + push_bit 15 1) = 2 * ?p + 2 ^ 15"
      unfolding sint_add_wrap_s s1 wrap_s_def using le pb(2) by simp
    have sat: "sat_s 16 ((2 * ?p + k) div 2 ^ 16) = (2 * ?p + k) div 2 ^ 16" if "k = 0 \<or> k = 2 ^ 15" for k
      unfolding sat_s_cases using that le pb(2) by auto
    have le': "\<not> 2 * ?p + 2 ^ 15 < 2 * ?p" by simp
    show ?thesis
      using False sat [of 0] sat [of "2 ^ 15"] unfolding NEON_QDMULH16_def Let_def c qdmulh_cut q_result_def
      by (cases r) (simp_all only: if_False if_True prod.case s1 s2 le' add_0_right not_True_eq_False simp_thms)
  qed
qed

lemma NEON_QDMULH32_q:
  "NEON_QDMULH32 r x y env = q_result (sat_s 32) ((2 * (sint x * sint y) + (if r then 2 ^ 31 else 0)) div 2 ^ 32) env"
proof -
  let ?t = "(scast x :: u64) * scast y" and ?p = "sint x * sint y"
  have pb: "?p = 4611686018427387904 \<or> ?p \<le> 4611686016279904256" "- 4611686016279904256 \<le> ?p"
    using mult_range [of 2147483648 "sint x" "sint y"] sint_range [of x] sint_range [of y] by simp_all
  have t: "?t = word_of_int ?p" by simp
  have "sint ?t = signed_take_bit 63 ?p" unfolding t using sint_sbintrunc' [where 'a = 64, of ?p] by simp
  also have "\<dots> = ?p" using pb by (intro signed_take_bit_int_eq_self) auto
  finally have p: "sint ?t = ?p" .
  have d: "sint (push_bit 1 ?t) = wrap_s 64 (2 * ?p)"
    using sint_add_wrap_s [of ?t ?t] by (simp only: p push_bit_eq_mult power_one_right mult_2 mult_2_right) simp
  have c: "(?t XOR push_bit 1 ?t) AND SIGNBIT64 \<noteq> 0 \<longleftrightarrow> ?p = 4611686018427387904"
    unfolding and_SIGNBIT64 sign_xor d p wrap_s_def using pb by auto
  show ?thesis
  proof (cases "?p = 4611686018427387904")
    case True
    have "drop_bit 63 ?t = 0" unfolding t True by simp
    then show ?thesis
      unfolding NEON_QDMULH32_def Let_def c True by (simp add: SIGNBIT64_def q_result_def sat_s_cases)
  next
    case False
    then have le: "?p \<le> 4611686016279904256" using pb(1) by blast
    then have s1: "sint (push_bit 1 ?t) = 2 * ?p" unfolding d wrap_s_def using pb(2) by simp
    have s2: "sint (push_bit 1 ?t + push_bit 31 1) = 2 * ?p + 2 ^ 31"
      unfolding sint_add_wrap_s s1 wrap_s_def using le pb(2) by simp
    have sat: "sat_s 32 ((2 * ?p + k) div 2 ^ 32) = (2 * ?p + k) div 2 ^ 32" if "k = 0 \<or> k = 2 ^ 31" for k
      unfolding sat_s_cases using that le pb(2) by auto
    have le': "\<not> 2 * ?p + 2 ^ 31 < 2 * ?p" by simp
    show ?thesis
      using False sat [of 0] sat [of "2 ^ 31"] unfolding NEON_QDMULH32_def Let_def c qdmulh_cut q_result_def
      by (cases r) (simp_all only: if_False if_True prod.case s1 s2 le' add_0_right not_True_eq_False simp_thms)
  qed
qed

text \<open>
  C40. The doubling multiplies that return the high half, plain and rounding: each lane is twice
  the product, plus half a unit for the rounding form, divided by \<open>2\<close> to the width, rounded down
  and saturated; \<^verbatim>\<open>QC\<close> is set exactly when both operands of a lane are the most negative value.
\<close>

theorem neon_qdmulh_saturate:
  "neon_qdmulh_s16 a b env = q_vector (sat_s 16) (\<lambda>x y :: u16. 2 * (sint x * sint y) div 2 ^ 16) a b env \<and>
   neon_qrdmulh_s16 a b env = q_vector (sat_s 16) (\<lambda>x y :: u16. (2 * (sint x * sint y) + 2 ^ 15) div 2 ^ 16) a b env \<and>
   neon_qdmulh_s32 a b env = q_vector (sat_s 32) (\<lambda>x y :: u32. 2 * (sint x * sint y) div 2 ^ 32) a b env \<and>
   neon_qrdmulh_s32 a b env = q_vector (sat_s 32) (\<lambda>x y :: u32. (2 * (sint x * sint y) + 2 ^ 31) div 2 ^ 32) a b env"
  unfolding neon_qdmulh_s16_def neon_qrdmulh_s16_def neon_qdmulh_s32_def neon_qrdmulh_s32_def
  by (intro conjI NEON_VOP_ENV_q) (simp_all only: NEON_QDMULH16_q NEON_QDMULH32_q if_True if_False add_0_right)

end
