(* ===== verification/NeonWiden.thy ===== *)
theory NeonWiden
  imports NeonSwar
begin

text \<open>
  The operations of \<^verbatim>\<open>neon_helper.c\<close> that change the width of lanes: narrowing (plain, high half,
  rounded high half, saturating), widening, and the long absolute differences and products.
\<close>

section \<open>Definitions\<close>

subsection \<open>Narrowing\<close>

definition neon_narrow_u8 :: "u64 \<Rightarrow> u32" where
  "neon_narrow_u8 x =
     ucast ((x AND 0xff) OR (drop_bit 8 x AND 0xff00) OR (drop_bit 16 x AND 0xff0000) OR (drop_bit 24 x AND 0xff000000))"

definition neon_narrow_u16 :: "u64 \<Rightarrow> u32" where
  "neon_narrow_u16 x = ucast ((x AND 0xffff) OR (drop_bit 16 x AND 0xffff0000))"

definition neon_narrow_high_u8 :: "u64 \<Rightarrow> u32" where
  "neon_narrow_high_u8 x =
     ucast ((drop_bit 8 x AND 0xff) OR (drop_bit 16 x AND 0xff00) OR (drop_bit 24 x AND 0xff0000) OR (drop_bit 32 x AND 0xff000000))"

definition neon_narrow_high_u16 :: "u64 \<Rightarrow> u32" where
  "neon_narrow_high_u16 x = ucast ((drop_bit 16 x AND 0xffff) OR (drop_bit 32 x AND 0xffff0000))"

definition neon_narrow_round_high_u8 :: "u64 \<Rightarrow> u32" where
  "neon_narrow_round_high_u8 x =
     (let x = (x AND 0xff80ff80ff80ff80) + 0x0080008000800080
      in ucast ((drop_bit 8 x AND 0xff) OR (drop_bit 16 x AND 0xff00) OR (drop_bit 24 x AND 0xff0000) OR (drop_bit 32 x AND 0xff000000)))"

definition neon_narrow_round_high_u16 :: "u64 \<Rightarrow> u32" where
  "neon_narrow_round_high_u16 x =
     (let x = (x AND 0xffff8000ffff8000) + 0x0000800000008000
      in ucast ((drop_bit 16 x AND 0xffff) OR (drop_bit 32 x AND 0xffff0000)))"

text \<open>
  \<^verbatim>\<open>SAT8(n)\<close> in its three forms: the lane \<open>s\<close> at bit \<open>n\<close> is cut to \<open>d\<close> and put at bit \<open>n / 2\<close>. The form of
  \<^verbatim>\<open>neon_unarrow_sat8\<close> leaves a negative lane at the zero \<open>res\<close> started with.
\<close>

definition unarrow_SAT8 :: "u64 \<Rightarrow> nat \<Rightarrow> u32 \<times> neon_env \<Rightarrow> u32 \<times> neon_env" where
  "unarrow_SAT8 x n = (\<lambda>(res, env).
     let s = ucast (drop_bit n x) :: u16
     in if s AND 0x8000 \<noteq> 0 then (res, SET_QC env)
        else let (d, env') = (if s > 0xff then (0xff, SET_QC env) else (ucast s :: u8, env))
             in (res OR push_bit (n div 2) (ucast d), env'))"

definition narrow_SAT8_u :: "u64 \<Rightarrow> nat \<Rightarrow> u32 \<times> neon_env \<Rightarrow> u32 \<times> neon_env" where
  "narrow_SAT8_u x n = (\<lambda>(res, env).
     let s = ucast (drop_bit n x) :: u16;
         (d, env') = (if s > 0xff then (0xff, SET_QC env) else (ucast s :: u8, env))
     in (res OR push_bit (n div 2) (ucast d), env'))"

definition narrow_SAT8_s :: "u64 \<Rightarrow> nat \<Rightarrow> u32 \<times> neon_env \<Rightarrow> u32 \<times> neon_env" where
  "narrow_SAT8_s x n = (\<lambda>(res, env).
     let s = ucast (drop_bit n x) :: u16;
         (d, env') = (if s \<noteq> scast (ucast s :: u8)
                      then (ucast (signed_drop_bit 15 s XOR 0x7f), SET_QC env) else (ucast s :: u8, env))
     in (res OR push_bit (n div 2) (ucast d), env'))"

definition neon_unarrow_sat8 :: "u64 \<Rightarrow> neon_env \<Rightarrow> u32 \<times> neon_env" where
  "neon_unarrow_sat8 x env =
     unarrow_SAT8 x 48 (unarrow_SAT8 x 32 (unarrow_SAT8 x 16 (unarrow_SAT8 x 0 (0, env))))"

definition neon_narrow_sat_u8 :: "u64 \<Rightarrow> neon_env \<Rightarrow> u32 \<times> neon_env" where
  "neon_narrow_sat_u8 x env =
     narrow_SAT8_u x 48 (narrow_SAT8_u x 32 (narrow_SAT8_u x 16 (narrow_SAT8_u x 0 (0, env))))"

definition neon_narrow_sat_s8 :: "u64 \<Rightarrow> neon_env \<Rightarrow> u32 \<times> neon_env" where
  "neon_narrow_sat_s8 x env =
     narrow_SAT8_s x 48 (narrow_SAT8_s x 32 (narrow_SAT8_s x 16 (narrow_SAT8_s x 0 (0, env))))"

text \<open>The two halves of the 16-bit forms\<close>

definition unarrow_half :: "u32 \<Rightarrow> neon_env \<Rightarrow> u32 \<times> neon_env" where
  "unarrow_half low env =
     (if low AND 0x80000000 \<noteq> 0 then (0, SET_QC env)
      else if low > 0xffff then (0xffff, SET_QC env) else (low, env))"

definition narrow_half_u :: "u32 \<Rightarrow> neon_env \<Rightarrow> u32 \<times> neon_env" where
  "narrow_half_u low env = (if low > 0xffff then (0xffff, SET_QC env) else (low, env))"

definition narrow_half_s :: "u32 \<Rightarrow> neon_env \<Rightarrow> u32 \<times> neon_env" where
  "narrow_half_s low env =
     (if low \<noteq> scast (ucast low :: u16) then (signed_drop_bit 31 low XOR 0x7fff, SET_QC env) else (low, env))"

definition neon_unarrow_sat16 :: "u64 \<Rightarrow> neon_env \<Rightarrow> u32 \<times> neon_env" where
  "neon_unarrow_sat16 x env =
     (let (low, env1) = unarrow_half (ucast x) env; (high, env2) = unarrow_half (ucast (drop_bit 32 x)) env1
      in (low OR push_bit 16 high, env2))"

definition neon_narrow_sat_u16 :: "u64 \<Rightarrow> neon_env \<Rightarrow> u32 \<times> neon_env" where
  "neon_narrow_sat_u16 x env =
     (let (low, env1) = narrow_half_u (ucast x) env; (high, env2) = narrow_half_u (ucast (drop_bit 32 x)) env1
      in (low OR push_bit 16 high, env2))"

definition neon_narrow_sat_s16 :: "u64 \<Rightarrow> neon_env \<Rightarrow> u32 \<times> neon_env" where
  "neon_narrow_sat_s16 x env =
     (let (low, env1) = narrow_half_s (ucast x) env; (high, env2) = narrow_half_s (ucast (drop_bit 32 x)) env1
      in (ucast (ucast low :: u16) OR push_bit 16 high, env2))"

definition neon_unarrow_sat32 :: "u64 \<Rightarrow> neon_env \<Rightarrow> u32 \<times> neon_env" where
  "neon_unarrow_sat32 x env =
     (if x AND 0x8000000000000000 \<noteq> 0 then (0, SET_QC env)
      else if x > 0xffffffff then (0xffffffff, SET_QC env) else (ucast x, env))"

definition neon_narrow_sat_u32 :: "u64 \<Rightarrow> neon_env \<Rightarrow> u32 \<times> neon_env" where
  "neon_narrow_sat_u32 x env = (if x > 0xffffffff then (0xffffffff, SET_QC env) else (ucast x, env))"

definition neon_narrow_sat_s32 :: "u64 \<Rightarrow> neon_env \<Rightarrow> u32 \<times> neon_env" where
  "neon_narrow_sat_s32 x env =
     (if x \<noteq> scast (ucast x :: u32) then (ucast (signed_drop_bit 63 x XOR 0x7fffffff), SET_QC env)
      else (ucast x, env))"

subsection \<open>Widening\<close>

definition neon_widen_u8 :: "u32 \<Rightarrow> u64" where
  "neon_widen_u8 x =
     ucast (ucast x :: u8) OR push_bit 16 (ucast (ucast (drop_bit 8 x) :: u8))
     OR push_bit 32 (ucast (ucast (drop_bit 16 x) :: u8)) OR push_bit 48 (ucast (ucast (drop_bit 24 x) :: u8))"

definition neon_widen_s8 :: "u32 \<Rightarrow> u64" where
  "neon_widen_s8 x =
     ucast (scast (ucast x :: u8) :: u16) OR push_bit 16 (ucast (scast (ucast (drop_bit 8 x) :: u8) :: u16))
     OR push_bit 32 (ucast (scast (ucast (drop_bit 16 x) :: u8) :: u16))
     OR push_bit 48 (ucast (scast (ucast (drop_bit 24 x) :: u8) :: u16))"

definition neon_widen_u16 :: "u32 \<Rightarrow> u64" where
  "neon_widen_u16 x = ucast (ucast x :: u16) OR push_bit 32 (ucast (ucast (drop_bit 16 x) :: u16))"

definition neon_widen_s16 :: "u32 \<Rightarrow> u64" where
  "neon_widen_s16 x =
     ucast (scast (ucast x :: u16) :: u32) OR push_bit 32 (scast (ucast (drop_bit 16 x) :: u16))"

subsection \<open>Long differences and products\<close>

definition DO_ABD :: "int \<Rightarrow> int \<Rightarrow> u64" where
  "DO_ABD tmp_x tmp_y = word_of_int (if tmp_x > tmp_y then tmp_x - tmp_y else tmp_y - tmp_x)"

definition neon_abdl_u16 :: "u32 \<Rightarrow> u32 \<Rightarrow> u64" where
  "neon_abdl_u16 a b =
     DO_ABD (uint (ucast a :: u8)) (uint (ucast b :: u8))
     OR push_bit 16 (DO_ABD (uint (ucast (drop_bit 8 a) :: u8)) (uint (ucast (drop_bit 8 b) :: u8)))
     OR push_bit 32 (DO_ABD (uint (ucast (drop_bit 16 a) :: u8)) (uint (ucast (drop_bit 16 b) :: u8)))
     OR push_bit 48 (DO_ABD (uint (ucast (drop_bit 24 a) :: u8)) (uint (ucast (drop_bit 24 b) :: u8)))"

definition neon_abdl_s16 :: "u32 \<Rightarrow> u32 \<Rightarrow> u64" where
  "neon_abdl_s16 a b =
     DO_ABD (sint (ucast a :: u8)) (sint (ucast b :: u8))
     OR push_bit 16 (DO_ABD (sint (ucast (drop_bit 8 a) :: u8)) (sint (ucast (drop_bit 8 b) :: u8)))
     OR push_bit 32 (DO_ABD (sint (ucast (drop_bit 16 a) :: u8)) (sint (ucast (drop_bit 16 b) :: u8)))
     OR push_bit 48 (DO_ABD (sint (ucast (drop_bit 24 a) :: u8)) (sint (ucast (drop_bit 24 b) :: u8)))"

definition neon_abdl_u32 :: "u32 \<Rightarrow> u32 \<Rightarrow> u64" where
  "neon_abdl_u32 a b =
     DO_ABD (uint (ucast a :: u16)) (uint (ucast b :: u16))
     OR push_bit 32 (DO_ABD (uint (ucast (drop_bit 16 a) :: u16)) (uint (ucast (drop_bit 16 b) :: u16)))"

definition neon_abdl_s32 :: "u32 \<Rightarrow> u32 \<Rightarrow> u64" where
  "neon_abdl_s32 a b =
     DO_ABD (sint (ucast a :: u16)) (sint (ucast b :: u16))
     OR push_bit 32 (DO_ABD (sint (ucast (drop_bit 16 a) :: u16)) (sint (ucast (drop_bit 16 b) :: u16)))"

definition neon_abdl_u64 :: "u32 \<Rightarrow> u32 \<Rightarrow> u64" where
  "neon_abdl_u64 a b = DO_ABD (uint a) (uint b)"

definition neon_abdl_s64 :: "u32 \<Rightarrow> u32 \<Rightarrow> u64" where
  "neon_abdl_s64 a b = DO_ABD (sint a) (sint b)"

text \<open>\<^verbatim>\<open>DO_MULL\<close>: the product is taken in the wider unsigned type.\<close>

definition DO_MULL_u :: "'a::len word \<Rightarrow> 'a word \<Rightarrow> 'b::len word" where
  "DO_MULL_u tmp_x tmp_y = ucast tmp_x * ucast tmp_y"

definition DO_MULL_s :: "'a::len word \<Rightarrow> 'a word \<Rightarrow> 'b::len word" where
  "DO_MULL_s tmp_x tmp_y = scast tmp_x * scast tmp_y"

definition neon_mull_u8 :: "u32 \<Rightarrow> u32 \<Rightarrow> u64" where
  "neon_mull_u8 a b =
     ucast (DO_MULL_u (ucast a :: u8) (ucast b) :: u16)
     OR push_bit 16 (ucast (DO_MULL_u (ucast (drop_bit 8 a) :: u8) (ucast (drop_bit 8 b)) :: u16))
     OR push_bit 32 (ucast (DO_MULL_u (ucast (drop_bit 16 a) :: u8) (ucast (drop_bit 16 b)) :: u16))
     OR push_bit 48 (ucast (DO_MULL_u (ucast (drop_bit 24 a) :: u8) (ucast (drop_bit 24 b)) :: u16))"

definition neon_mull_s8 :: "u32 \<Rightarrow> u32 \<Rightarrow> u64" where
  "neon_mull_s8 a b =
     ucast (DO_MULL_s (ucast a :: u8) (ucast b) :: u16)
     OR push_bit 16 (ucast (DO_MULL_s (ucast (drop_bit 8 a) :: u8) (ucast (drop_bit 8 b)) :: u16))
     OR push_bit 32 (ucast (DO_MULL_s (ucast (drop_bit 16 a) :: u8) (ucast (drop_bit 16 b)) :: u16))
     OR push_bit 48 (ucast (DO_MULL_s (ucast (drop_bit 24 a) :: u8) (ucast (drop_bit 24 b)) :: u16))"

definition neon_mull_u16 :: "u32 \<Rightarrow> u32 \<Rightarrow> u64" where
  "neon_mull_u16 a b =
     ucast (DO_MULL_u (ucast a :: u16) (ucast b) :: u32)
     OR push_bit 32 (ucast (DO_MULL_u (ucast (drop_bit 16 a) :: u16) (ucast (drop_bit 16 b)) :: u32))"

definition neon_mull_s16 :: "u32 \<Rightarrow> u32 \<Rightarrow> u64" where
  "neon_mull_s16 a b =
     ucast (DO_MULL_s (ucast a :: u16) (ucast b) :: u32)
     OR push_bit 32 (ucast (DO_MULL_s (ucast (drop_bit 16 a) :: u16) (ucast (drop_bit 16 b)) :: u32))"

section \<open>Lanes of the results\<close>

lemma unpack_lists:
  "(NEON_UNPACK (x :: u32) :: u8 list) = [ucast x, ucast (drop_bit 8 x), ucast (drop_bit 16 x), ucast (drop_bit 24 x)]"
  "(NEON_UNPACK (x :: u32) :: u16 list) = [ucast x, ucast (drop_bit 16 x)]"
  "(NEON_UNPACK (y :: u64) :: u16 list) = [ucast y, ucast (drop_bit 16 y), ucast (drop_bit 32 y), ucast (drop_bit 48 y)]"
  "(NEON_UNPACK (y :: u64) :: u32 list) = [ucast y, ucast (drop_bit 32 y)]"
  by (simp_all add: NEON_UNPACK_def upt_rec)

lemma pack_lists:
  "(NEON_PACK [a, b, c, d :: u8] :: u32) =
     ucast a OR push_bit 8 (ucast b) OR push_bit 16 (ucast c) OR push_bit 24 (ucast d)"
  "(NEON_PACK [e, f :: u16] :: u32) = ucast e OR push_bit 16 (ucast f)"
  "(NEON_PACK [e, f, g, h :: u16] :: u64) =
     ucast e OR push_bit 16 (ucast f) OR push_bit 32 (ucast g) OR push_bit 48 (ucast h)"
  "(NEON_PACK [i, j :: u32] :: u64) = ucast i OR push_bit 32 (ucast j)"
  by (simp_all add: push_bit_or or.assoc)

lemma cut:
  fixes x :: u64
  assumes "LENGTH('a::len) = w"
  shows "(ucast (drop_bit k x AND push_bit j (mask w)) :: u32) = push_bit j (ucast (ucast (drop_bit (k + j) x) :: 'a word))"
proof (rule bit_word_eqI)
  fix i assume "i < LENGTH(32)"
  have "j \<le> i \<Longrightarrow> k + j + (i - j) = k + i" by simp
  then show "bit (ucast (drop_bit k x AND push_bit j (mask w)) :: u32) i =
      bit (push_bit j (ucast (ucast (drop_bit (k + j) x) :: 'a word)) :: u32) i"
    using assms \<open>i < LENGTH(32)\<close> by (auto simp: bit_simps)
qed

lemma part_masks:
  "(0xff :: u64) = push_bit 0 (mask 8)" "(0xff00 :: u64) = push_bit 8 (mask 8)"
  "(0xff0000 :: u64) = push_bit 16 (mask 8)" "(0xff000000 :: u64) = push_bit 24 (mask 8)"
  "(0xffff :: u64) = push_bit 0 (mask 16)" "(0xffff0000 :: u64) = push_bit 16 (mask 16)"
  by (simp_all add: mask_eq_exp_minus_1)

lemma narrow_parts:
  "(ucast ((drop_bit k x AND 0xff) OR (drop_bit (k + 8) x AND 0xff00) OR (drop_bit (k + 16) x AND 0xff0000)
      OR (drop_bit (k + 24) x AND 0xff000000) :: u64) :: u32) =
   NEON_PACK [ucast (drop_bit k x) :: u8, ucast (drop_bit (k + 16) x), ucast (drop_bit (k + 32) x), ucast (drop_bit (k + 48) x)]"
  "(ucast ((drop_bit k x AND 0xffff) OR (drop_bit (k + 16) x AND 0xffff0000) :: u64) :: u32) =
   NEON_PACK [ucast (drop_bit k x) :: u16, ucast (drop_bit (k + 32) x)]"
proof -
  have c8: "(ucast (drop_bit m x AND push_bit j (mask 8)) :: u32) = push_bit j (ucast (ucast (drop_bit (m + j) x) :: u8))" for m j
    by (rule cut) simp
  have c16: "(ucast (drop_bit m x AND push_bit j (mask 16)) :: u32) = push_bit j (ucast (ucast (drop_bit (m + j) x) :: u16))" for m j
    by (rule cut) simp
  show "(ucast ((drop_bit k x AND 0xff) OR (drop_bit (k + 8) x AND 0xff00) OR (drop_bit (k + 16) x AND 0xff0000)
      OR (drop_bit (k + 24) x AND 0xff000000) :: u64) :: u32) =
   NEON_PACK [ucast (drop_bit k x) :: u8, ucast (drop_bit (k + 16) x), ucast (drop_bit (k + 32) x), ucast (drop_bit (k + 48) x)]"
    unfolding part_masks unsigned_or_eq c8 pack_lists by (simp add: add.commute)
  show "(ucast ((drop_bit k x AND 0xffff) OR (drop_bit (k + 16) x AND 0xffff0000) :: u64) :: u32) =
   NEON_PACK [ucast (drop_bit k x) :: u16, ucast (drop_bit (k + 32) x)]"
    unfolding part_masks unsigned_or_eq c16 pack_lists by (simp add: add.commute)
qed

lemma narrow_lanes:
  "neon_narrow_u8 x = NEON_PACK (map ucast (NEON_UNPACK x :: u16 list) :: u8 list)"
  "neon_narrow_u16 x = NEON_PACK (map ucast (NEON_UNPACK x :: u32 list) :: u16 list)"
  "neon_narrow_high_u8 x = NEON_PACK (map (\<lambda>v :: u16. ucast (drop_bit 8 v)) (NEON_UNPACK x) :: u8 list)"
  "neon_narrow_high_u16 x = NEON_PACK (map (\<lambda>v :: u32. ucast (drop_bit 16 v)) (NEON_UNPACK x) :: u16 list)"
proof -
  have u8: "(ucast (ucast y :: u16) :: u8) = ucast y" "(ucast (drop_bit 8 (ucast y :: u16)) :: u8) = ucast (drop_bit 8 y)" for y :: u64
    by (rule bit_word_eqI, simp add: bit_simps)+
  have u16: "(ucast (ucast y :: u32) :: u16) = ucast y" "(ucast (drop_bit 16 (ucast y :: u32)) :: u16) = ucast (drop_bit 16 y)" for y :: u64
    by (rule bit_word_eqI, simp add: bit_simps)+
  show "neon_narrow_u8 x = NEON_PACK (map ucast (NEON_UNPACK x :: u16 list) :: u8 list)"
    using narrow_parts(1) [of 0 x] unfolding neon_narrow_u8_def unpack_lists by (simp add: u8 del: NEON_PACK.simps)
  show "neon_narrow_u16 x = NEON_PACK (map ucast (NEON_UNPACK x :: u32 list) :: u16 list)"
    using narrow_parts(2) [of 0 x] unfolding neon_narrow_u16_def unpack_lists by (simp add: u16 del: NEON_PACK.simps)
  show "neon_narrow_high_u8 x = NEON_PACK (map (\<lambda>v :: u16. ucast (drop_bit 8 v)) (NEON_UNPACK x) :: u8 list)"
    using narrow_parts(1) [of 8 x] unfolding neon_narrow_high_u8_def unpack_lists by (simp add: u8 del: NEON_PACK.simps)
  show "neon_narrow_high_u16 x = NEON_PACK (map (\<lambda>v :: u32. ucast (drop_bit 16 v)) (NEON_UNPACK x) :: u16 list)"
    using narrow_parts(2) [of 16 x] unfolding neon_narrow_high_u16_def unpack_lists by (simp add: u16 del: NEON_PACK.simps)
qed

lemma widen_lanes:
  "neon_widen_u8 x = NEON_PACK (map ucast (NEON_UNPACK x :: u8 list) :: u16 list)"
  "neon_widen_s8 x = NEON_PACK (map scast (NEON_UNPACK x :: u8 list) :: u16 list)"
  "neon_widen_u16 x = NEON_PACK (map ucast (NEON_UNPACK x :: u16 list) :: u32 list)"
  "neon_widen_s16 x = NEON_PACK (map scast (NEON_UNPACK x :: u16 list) :: u32 list)"
proof -
  have c: "(ucast (ucast y :: u16) :: u64) = ucast y" for y :: u8
    by (rule bit_word_eqI) (auto simp: bit_simps dest: bit_imp_le_length)
  have d: "(ucast (ucast y :: u32) :: u64) = ucast y" for y :: u16
    by (rule bit_word_eqI) (auto simp: bit_simps dest: bit_imp_le_length)
  have e: "push_bit 32 (scast y :: u64) = push_bit 32 (ucast (scast y :: u32))" for y :: u16
    by (rule bit_word_eqI) (auto simp: bit_simps)
  show "neon_widen_u8 x = NEON_PACK (map ucast (NEON_UNPACK x :: u8 list) :: u16 list)"
    unfolding neon_widen_u8_def unpack_lists list.map pack_lists c ..
  show "neon_widen_s8 x = NEON_PACK (map scast (NEON_UNPACK x :: u8 list) :: u16 list)"
    unfolding neon_widen_s8_def unpack_lists list.map pack_lists ..
  show "neon_widen_u16 x = NEON_PACK (map ucast (NEON_UNPACK x :: u16 list) :: u32 list)"
    unfolding neon_widen_u16_def unpack_lists list.map pack_lists d ..
  show "neon_widen_s16 x = NEON_PACK (map scast (NEON_UNPACK x :: u16 list) :: u32 list)"
    unfolding neon_widen_s16_def unpack_lists list.map pack_lists e ..
qed

section \<open>Rounding to the high half\<close>

text \<open>
  Only the bits from \<open>s\<close> up are kept, so that adding the half unit is an addition of one in
  fields that have room for the carry.
\<close>

lemma drop_bit_less:
  "s \<le> LENGTH('a) \<Longrightarrow> uint (drop_bit s (v :: 'a::len word)) < 2 ^ (LENGTH('a) - s)"
  unfolding uint_drop_bit using uint_lt2p [of v] by (intro div_int_less) (simp flip: power_add)

lemma drop_bit_room:
  fixes v :: "'a::len word"
  assumes "0 < s" "s \<le> LENGTH('a)"
  shows "uint (drop_bit s v) + 1 < 2 ^ LENGTH('a) \<or> LENGTH('a) = 1"
proof (cases "LENGTH('a) = 1")
  case False
  have "uint (drop_bit s v) < 2 ^ (LENGTH('a) - s)" using assms by (intro drop_bit_less)
  also have "(2 :: int) ^ (LENGTH('a) - s) \<le> 2 ^ (LENGTH('a) - 1)" using assms by (intro power_increasing) simp_all
  finally show ?thesis
    using half_range [where 'a = 'a] one_le_power [of "2 :: int" "LENGTH('a) - 1"] by linarith
qed simp

lemma round_high_fields:
  fixes x M R ones :: u64 and c :: "'a::len word"
  assumes w: "64 = n * LENGTH('a)" and s: "0 < s" "s < LENGTH('a)" and M: "M = push_bit s M'" and R: "R = push_bit s ones"
    and M': "NEON_UNPACK M' = replicate n c" and c: "c = mask (LENGTH('a) - s)" and ones: "NEON_UNPACK ones = replicate n (1 :: 'a word)"
    and i: "i < n" and j: "s \<le> j" "j < LENGTH('a)"
  shows "bit ((x AND M) + R) (i * LENGTH('a) + j) \<longleftrightarrow> bit (drop_bit s ((NEON_UNPACK x :: 'a word list) ! i) + 1) (j - s)"
proof -
  let ?z = "(drop_bit s x AND M') + ones"
  have "x AND push_bit s M' = push_bit s (drop_bit s x AND M')"
    by (rule bit_word_eqI) (auto simp: bit_simps)
  then have y: "(x AND M) + R = push_bit s ?z" by (simp only: M R push_bit_add)
  have w': "LENGTH(64) = n * LENGTH('a)" using w by simp
  have l: "(NEON_UNPACK (drop_bit s x AND M') :: 'a word list) = map (\<lambda>v. drop_bit s v AND c) (NEON_UNPACK x)"
    by (rule NEON_UNPACK_shr [OF w' M']) (use c s in \<open>auto simp: bit_simps\<close>)
  have id: "drop_bit s v AND c = drop_bit s v" for v :: "'a word"
    using c by (intro bit_word_eqI) (auto simp: bit_simps dest: bit_imp_le_length)
  have room: "uint (drop_bit s v) + uint (1 :: 'a word) < 2 ^ LENGTH('a)" for v :: "'a word"
    using drop_bit_room [of s v] s by simp
  have len: "LENGTH(64) div LENGTH('a) = n" using w' by (metis len_not_eq_0 nonzero_mult_div_cancel_right)
  have "(NEON_UNPACK ?z :: 'a word list) = map2 (+) (map (drop_bit s) (NEON_UNPACK x)) (replicate n 1)"
    using NEON_UNPACK_add [OF w', of "drop_bit s x AND M'" ones] room len
    by (simp add: l id ones list_all2_conv_all_nth)
  then have z: "(NEON_UNPACK ?z :: 'a word list) ! i = drop_bit s ((NEON_UNPACK x :: 'a word list) ! i) + 1"
    using i len by simp
  have "bit (push_bit s ?z) (i * LENGTH('a) + j) \<longleftrightarrow> bit ?z (i * LENGTH('a) + (j - s))"
    using lane_in_word [OF w' i j(2)] j by (simp add: bit_simps)
  also have "\<dots> \<longleftrightarrow> bit ((NEON_UNPACK ?z :: 'a word list) ! i) (j - s)"
    using i j len by (simp add: bit_lane less_imp_diff_less)
  finally show ?thesis by (simp only: y z)
qed

lemma round_high_lane:
  fixes v :: "'a::len word"
  assumes "LENGTH('a) = 2 * Suc s" "0 < s"
  shows "(ucast (drop_bit 1 (drop_bit s v + 1)) :: 'b::len word) = word_of_int ((uint v + 2 ^ s) div 2 ^ Suc s)"
proof -
  have "uint v div 2 ^ s + 1 < 2 ^ LENGTH('a)"
    using drop_bit_room [of s v] assms by (simp add: uint_drop_bit)
  then have "uint (drop_bit s v + 1) = uint v div 2 ^ s + 1" by (simp add: uint_plus_if' uint_drop_bit)
  then have "uint (drop_bit 1 (drop_bit s v + 1)) = (uint v + 2 ^ s) div 2 ^ Suc s"
    by (simp only: uint_drop_bit round_twice power_one_right)
  then have "(word_of_int (uint (drop_bit 1 (drop_bit s v + 1))) :: 'b word) = word_of_int ((uint v + 2 ^ s) div 2 ^ Suc s)"
    by (simp only:)
  then show ?thesis by simp
qed

lemma round_high_lanes:
  "neon_narrow_round_high_u8 x = NEON_PACK (map (\<lambda>v :: u16. word_of_int ((uint v + 2 ^ 7) div 2 ^ 8)) (NEON_UNPACK x) :: u8 list)"
  "neon_narrow_round_high_u16 x = NEON_PACK (map (\<lambda>v :: u32. word_of_int ((uint v + 2 ^ 15) div 2 ^ 16)) (NEON_UNPACK x) :: u16 list)"
proof -
  let ?y = "(x AND 0xff80ff80ff80ff80) + 0x0080008000800080"
  let ?z = "(x AND 0xffff8000ffff8000) + 0x0000800000008000"
  have y: "bit ?y (i * LENGTH(16) + j) \<longleftrightarrow> bit (drop_bit 7 ((NEON_UNPACK x :: u16 list) ! i) + 1) (j - 7)"
    if "i < 4" "7 \<le> j" "j < LENGTH(16)" for i j
  proof (rule round_high_fields [where n = 4 and M' = "0x01ff01ff01ff01ff" and ones = "0x0001000100010001" and c = "0x01ff"])
    show "NEON_UNPACK (0x01ff01ff01ff01ff :: u64) = replicate 4 (0x01ff :: u16)" by code_simp
    show "NEON_UNPACK (0x0001000100010001 :: u64) = replicate 4 (1 :: u16)" by code_simp
  qed (use that in \<open>simp_all add: mask_eq_exp_minus_1\<close>)
  have z: "bit ?z (i * LENGTH(32) + j) \<longleftrightarrow> bit (drop_bit 15 ((NEON_UNPACK x :: u32 list) ! i) + 1) (j - 15)"
    if "i < 2" "15 \<le> j" "j < LENGTH(32)" for i j
  proof (rule round_high_fields [where n = 2 and M' = "0x0001ffff0001ffff" and ones = "0x0000000100000001" and c = "0x1ffff"])
    show "NEON_UNPACK (0x0001ffff0001ffff :: u64) = replicate 2 (0x1ffff :: u32)" by code_simp
    show "NEON_UNPACK (0x0000000100000001 :: u64) = replicate 2 (1 :: u32)" by code_simp
  qed (use that in \<open>simp_all add: mask_eq_exp_minus_1\<close>)
  have y': "bit ?y (i * 16 + (8 + j)) \<longleftrightarrow> bit (drop_bit 7 ((NEON_UNPACK x :: u16 list) ! i) + 1) (Suc j)" if "i < 4" "j < 8" for i j
    using y [of i "8 + j"] that by simp
  have z': "bit ?z (i * 32 + (16 + j)) \<longleftrightarrow> bit (drop_bit 15 ((NEON_UNPACK x :: u32 list) ! i) + 1) (Suc j)" if "i < 2" "j < 16" for i j
    using z [of i "16 + j"] that by simp
  have "map (\<lambda>v :: u16. ucast (drop_bit 8 v) :: u8) (NEON_UNPACK ?y) = map (\<lambda>v :: u16. ucast (drop_bit 1 (drop_bit 7 v + 1))) (NEON_UNPACK x)"
    by (intro nth_equalityI bit_word_eqI) (simp_all add: bit_lane y' bit_ucast_iff bit_drop_bit_eq)
  then show "neon_narrow_round_high_u8 x = NEON_PACK (map (\<lambda>v :: u16. word_of_int ((uint v + 2 ^ 7) div 2 ^ 8)) (NEON_UNPACK x) :: u8 list)"
    using narrow_lanes(3) [of ?y] round_high_lane [where 'a = 16 and 'b = 8 and s = 7]
    by (simp add: neon_narrow_round_high_u8_def neon_narrow_high_u8_def)
  have "map (\<lambda>v :: u32. ucast (drop_bit 16 v) :: u16) (NEON_UNPACK ?z) = map (\<lambda>v :: u32. ucast (drop_bit 1 (drop_bit 15 v + 1))) (NEON_UNPACK x)"
    by (intro nth_equalityI bit_word_eqI) (simp_all add: bit_lane z' bit_ucast_iff bit_drop_bit_eq)
  then show "neon_narrow_round_high_u16 x = NEON_PACK (map (\<lambda>v :: u32. word_of_int ((uint v + 2 ^ 15) div 2 ^ 16)) (NEON_UNPACK x) :: u16 list)"
    using narrow_lanes(4) [of ?z] round_high_lane [where 'a = 32 and 'b = 16 and s = 15]
    by (simp add: neon_narrow_round_high_u16_def neon_narrow_high_u16_def)
qed

section \<open>Saturating narrowing\<close>

lemma scast_down: "LENGTH('a::len) \<le> LENGTH('b::len) \<Longrightarrow> (scast (w :: 'b word) :: 'a word) = ucast w"
proof (rule bit_word_eqI)
  fix i assume "LENGTH('a) \<le> LENGTH('b)" "i < LENGTH('a)"
  then have "min (LENGTH('b) - 1) i = i" by simp
  then show "bit (scast w :: 'a word) i = bit (ucast w :: 'a word) i"
    using \<open>i < LENGTH('a)\<close> by (simp add: bit_simps)
qed

lemma unarrow_SAT8_q:
  "unarrow_SAT8 x n (res, env) =
     (let (d :: u8, env') = q_result (sat_u 8) (sint (ucast (drop_bit n x) :: u16)) env
      in (res OR push_bit (n div 2) (ucast d), env'))"
proof -
  let ?s = "ucast (drop_bit n x) :: u16"
  have neg: "?s AND 0x8000 \<noteq> 0 \<longleftrightarrow> sint ?s < 0" using sign_mask [of ?s] by simp
  have gt: "?s > 0xff \<longleftrightarrow> 255 < uint ?s" by (simp add: word_less_def)
  show ?thesis
    using sint_nonneg_uint [of ?s] sint_range [of ?s]
    unfolding unarrow_SAT8_def Let_def prod.case neg gt q_result_u by (auto simp: scast_down)
qed

lemma narrow_SAT8_u_q:
  "narrow_SAT8_u x n (res, env) =
     (let (d :: u8, env') = q_result (sat_u 8) (uint (ucast (drop_bit n x) :: u16)) env
      in (res OR push_bit (n div 2) (ucast d), env'))"
proof -
  let ?s = "ucast (drop_bit n x) :: u16"
  have gt: "?s > 0xff \<longleftrightarrow> 255 < uint ?s" by (simp add: word_less_def)
  have pos: "(uint ?s < 0) = False" by (simp add: not_less)
  show ?thesis
    unfolding narrow_SAT8_u_def Let_def prod.case gt q_result_u pos by auto
qed

lemma fits_s_gen:
  fixes w :: "'b::len word"
  assumes "LENGTH('a::len) \<le> LENGTH('b)"
  shows "w = scast (ucast w :: 'a word) \<longleftrightarrow> - (2 ^ (LENGTH('a) - 1)) \<le> sint w \<and> sint w < 2 ^ (LENGTH('a) - 1)"
proof -
  have "sint (scast (ucast w :: 'a word) :: 'b word) = signed_take_bit (LENGTH('a) - 1) (sint w)"
    using assms by (intro bit_eqI) (auto simp: bit_simps min_def not_le)
  then have "w = scast (ucast w :: 'a word) \<longleftrightarrow> sint w = signed_take_bit (LENGTH('a) - 1) (sint w)"
    by (metis signed_word_eqI)
  also have "\<dots> \<longleftrightarrow> - (2 ^ (LENGTH('a) - 1)) \<le> sint w \<and> sint w < 2 ^ (LENGTH('a) - 1)"
    by (metis signed_take_bit_int_eq_self signed_take_bit_int_greater_eq_minus_exp signed_take_bit_int_less_exp)
  finally show ?thesis .
qed

lemma narrow_SAT8_s_q:
  "narrow_SAT8_s x n (res, env) =
     (let (d :: u8, env') = q_result (sat_s 8) (sint (ucast (drop_bit n x) :: u16)) env
      in (res OR push_bit (n div 2) (ucast d), env'))"
proof -
  let ?s = "ucast (drop_bit n x) :: u16"
  have fit: "?s = scast (ucast ?s :: u8) \<longleftrightarrow> - 128 \<le> sint ?s \<and> sint ?s < 128"
    using fits_s_gen [where 'a = 8, of ?s] by simp
  have lim: "(ucast (signed_drop_bit 15 ?s XOR 0x7f) :: u8) = (if sint ?s < 0 then min_s else max_s)"
    using sign_shift [of ?s] by (simp add: min_s_def max_s_def)
  have q: "q_result (sat_s 8) (sint ?s) env = (if - 128 \<le> sint ?s \<and> sint ?s < 128 then (ucast ?s :: u8, env)
      else (if sint ?s < 0 then min_s else max_s, SET_QC env))"
    using q_result_s [where 'a = 8, of "sint ?s" env] by (auto simp: scast_down)
  show ?thesis unfolding narrow_SAT8_s_def Let_def prod.case fit lim q by simp
qed

lemma narrow_SAT8_lanes:
  fixes x :: u64
  assumes "\<And>n res env. f n (res, env) =
      (let (d :: u8, env') = q_result sat (exact (ucast (drop_bit n x) :: u16)) env
       in (res OR push_bit (n div 2) (ucast d), env'))"
  shows "f 48 (f 32 (f 16 (f 0 (0, env)))) =
     (let (vs, env') = q_lanes sat (\<lambda>s _. exact s) (NEON_UNPACK x :: u16 list) (NEON_UNPACK x) env
      in (NEON_PACK (vs :: u8 list), env'))"
  by (simp add: assms unpack_lists q_lanes_Cons Let_def case_prod_beta pack_lists or.assoc q_lanes_def [of _ _ "[]"])

lemma narrow_halves_q:
  "unarrow_half low env = (let (d :: u16, env') = q_result (sat_u 16) (sint low) env in (ucast d, env'))"
  "narrow_half_u low env = (let (d :: u16, env') = q_result (sat_u 16) (uint low) env in (ucast d, env'))"
  "(ucast (fst (narrow_half_s low env)) :: u16, snd (narrow_half_s low env)) = q_result (sat_s 16) (sint low) env"
proof -
  have neg: "low AND 0x80000000 \<noteq> 0 \<longleftrightarrow> sint low < 0" using sign_mask [of low] by simp
  have gt: "low > 0xffff \<longleftrightarrow> 65535 < uint low" by (simp add: word_less_def)
  have pos: "(uint low < 0) = False" by (simp add: not_less)
  have same: "ucast (ucast low :: u16) = low" if "uint low < 65536"
    using fits_u [where 'a = 16, of low] that by simp
  show "unarrow_half low env = (let (d :: u16, env') = q_result (sat_u 16) (sint low) env in (ucast d, env'))"
    using sint_nonneg_uint [of low] sint_range [of low] same
    unfolding unarrow_half_def Let_def neg gt q_result_u by (auto simp: scast_down)
  show "narrow_half_u low env = (let (d :: u16, env') = q_result (sat_u 16) (uint low) env in (ucast d, env'))"
    using same unfolding narrow_half_u_def Let_def gt q_result_u pos by auto
  have fit: "low = scast (ucast low :: u16) \<longleftrightarrow> - 32768 \<le> sint low \<and> sint low < 32768"
    using fits_s_gen [where 'a = 16, of low] by simp
  have lim: "(ucast (signed_drop_bit 31 low XOR 0x7fff) :: u16) = (if sint low < 0 then min_s else max_s)"
    using sign_shift [of low] by (simp add: min_s_def max_s_def)
  have q: "q_result (sat_s 16) (sint low) env = (if - 32768 \<le> sint low \<and> sint low < 32768 then (ucast low :: u16, env)
      else (if sint low < 0 then min_s else max_s, SET_QC env))"
    using q_result_s [where 'a = 16, of "sint low" env] by (auto simp: scast_down)
  show "(ucast (fst (narrow_half_s low env)) :: u16, snd (narrow_half_s low env)) = q_result (sat_s 16) (sint low) env"
    unfolding narrow_half_s_def fit q using lim by auto
qed

lemma high_part: "push_bit 16 (h :: u32) = push_bit 16 (ucast (ucast h :: u16))"
  by (rule bit_word_eqI) (auto simp: bit_simps)

lemma narrow_words_q:
  "neon_unarrow_sat32 x env = q_result (sat_u 32) (sint x) env"
  "neon_narrow_sat_u32 x env = q_result (sat_u 32) (uint x) env"
  "neon_narrow_sat_s32 x env = q_result (sat_s 32) (sint x) env"
proof -
  have neg: "x AND 0x8000000000000000 \<noteq> 0 \<longleftrightarrow> sint x < 0" using sign_mask [of x] by simp
  have gt: "x > 0xffffffff \<longleftrightarrow> 4294967295 < uint x" by (simp add: word_less_def)
  have pos: "(uint x < 0) = False" by (simp add: not_less)
  show "neon_unarrow_sat32 x env = q_result (sat_u 32) (sint x) env"
    using sint_nonneg_uint [of x] unfolding neon_unarrow_sat32_def neg gt q_result_u by (auto simp: scast_down)
  show "neon_narrow_sat_u32 x env = q_result (sat_u 32) (uint x) env"
    unfolding neon_narrow_sat_u32_def gt q_result_u pos by auto
  have fit: "x = scast (ucast x :: u32) \<longleftrightarrow> - 2147483648 \<le> sint x \<and> sint x < 2147483648"
    using fits_s_gen [where 'a = 32, of x] by simp
  have lim: "(ucast (signed_drop_bit 63 x XOR 0x7fffffff) :: u32) = (if sint x < 0 then min_s else max_s)"
    using sign_shift [of x] by (simp add: min_s_def max_s_def)
  show "neon_narrow_sat_s32 x env = q_result (sat_s 32) (sint x) env"
    using q_result_s [where 'a = 32, of "sint x" env] unfolding neon_narrow_sat_s32_def fit lim by (auto simp: scast_down)
qed

text \<open>What a saturating narrowing of all lanes of a 64-bit value promises\<close>

definition q_narrow ::
  "(int \<Rightarrow> int) \<Rightarrow> ('a::len word \<Rightarrow> int) \<Rightarrow> 'c::len word itself \<Rightarrow> u64 \<Rightarrow> neon_env \<Rightarrow> u32 \<times> neon_env" where
  "q_narrow sat exact _ x env =
     (let (vs, env') = q_lanes sat (\<lambda>s _. exact s) (NEON_UNPACK x) (NEON_UNPACK x) env
      in (NEON_PACK (vs :: 'c word list), env'))"

lemma narrow_sat_lanes:
  "neon_unarrow_sat8 x env = q_narrow (sat_u 8) (sint :: u16 \<Rightarrow> int) TYPE(8 word) x env"
  "neon_narrow_sat_u8 x env = q_narrow (sat_u 8) (uint :: u16 \<Rightarrow> int) TYPE(8 word) x env"
  "neon_narrow_sat_s8 x env = q_narrow (sat_s 8) (sint :: u16 \<Rightarrow> int) TYPE(8 word) x env"
  "neon_unarrow_sat16 x env = q_narrow (sat_u 16) (sint :: u32 \<Rightarrow> int) TYPE(16 word) x env"
  "neon_narrow_sat_u16 x env = q_narrow (sat_u 16) (uint :: u32 \<Rightarrow> int) TYPE(16 word) x env"
  "neon_narrow_sat_s16 x env = q_narrow (sat_s 16) (sint :: u32 \<Rightarrow> int) TYPE(16 word) x env"
proof -
  show "neon_unarrow_sat8 x env = q_narrow (sat_u 8) (sint :: u16 \<Rightarrow> int) TYPE(8 word) x env"
    unfolding neon_unarrow_sat8_def q_narrow_def by (rule narrow_SAT8_lanes) (rule unarrow_SAT8_q)
  show "neon_narrow_sat_u8 x env = q_narrow (sat_u 8) (uint :: u16 \<Rightarrow> int) TYPE(8 word) x env"
    unfolding neon_narrow_sat_u8_def q_narrow_def by (rule narrow_SAT8_lanes) (rule narrow_SAT8_u_q)
  show "neon_narrow_sat_s8 x env = q_narrow (sat_s 8) (sint :: u16 \<Rightarrow> int) TYPE(8 word) x env"
    unfolding neon_narrow_sat_s8_def q_narrow_def by (rule narrow_SAT8_lanes) (rule narrow_SAT8_s_q)
  show "neon_unarrow_sat16 x env = q_narrow (sat_u 16) (sint :: u32 \<Rightarrow> int) TYPE(16 word) x env"
    "neon_narrow_sat_u16 x env = q_narrow (sat_u 16) (uint :: u32 \<Rightarrow> int) TYPE(16 word) x env"
    by (simp_all add: neon_unarrow_sat16_def neon_narrow_sat_u16_def q_narrow_def narrow_halves_q(1,2) unpack_lists
      q_lanes_Cons Let_def case_prod_beta pack_lists q_lanes_def [of _ _ "[]"])
  have s: "narrow_half_s low e = (fst (narrow_half_s low e), snd (q_result (sat_s 16) (sint low) e :: u16 \<times> _))"
    "(ucast (fst (narrow_half_s low e)) :: u16) = fst (q_result (sat_s 16) (sint low) e)" for low e
    using narrow_halves_q(3) [of low e] by (metis prod.collapse snd_conv, metis fst_conv)
  show "neon_narrow_sat_s16 x env = q_narrow (sat_s 16) (sint :: u32 \<Rightarrow> int) TYPE(16 word) x env"
    unfolding neon_narrow_sat_s16_def q_narrow_def unpack_lists q_lanes_Cons
    by (subst (1 2) s(1)) (simp add: Let_def case_prod_beta pack_lists q_lanes_def [of _ _ "[]"] high_part [of "fst _"] s(2))
qed

text \<open>
  C38. Saturating narrowing of 16-, 32- and 64-bit lanes, from unsigned to unsigned, from signed to
  signed and from signed to unsigned: each lane of the result is the lane clamped to the
  narrower range, and \<^verbatim>\<open>QC\<close> is set exactly when some lane does not fit.
\<close>

theorem neon_narrow_saturate:
  "neon_unarrow_sat8 x env = q_narrow (sat_u 8) (sint :: u16 \<Rightarrow> int) TYPE(8 word) x env \<and>
   neon_narrow_sat_u8 x env = q_narrow (sat_u 8) (uint :: u16 \<Rightarrow> int) TYPE(8 word) x env \<and>
   neon_narrow_sat_s8 x env = q_narrow (sat_s 8) (sint :: u16 \<Rightarrow> int) TYPE(8 word) x env \<and>
   neon_unarrow_sat16 x env = q_narrow (sat_u 16) (sint :: u32 \<Rightarrow> int) TYPE(16 word) x env \<and>
   neon_narrow_sat_u16 x env = q_narrow (sat_u 16) (uint :: u32 \<Rightarrow> int) TYPE(16 word) x env \<and>
   neon_narrow_sat_s16 x env = q_narrow (sat_s 16) (sint :: u32 \<Rightarrow> int) TYPE(16 word) x env \<and>
   neon_unarrow_sat32 x env = q_result (sat_u 32) (sint x) env \<and>
   neon_narrow_sat_u32 x env = q_result (sat_u 32) (uint x) env \<and>
   neon_narrow_sat_s32 x env = q_result (sat_s 32) (sint x) env"
  by (intro conjI narrow_sat_lanes narrow_words_q)

section \<open>Round trips\<close>

lemma lanes_of:
  assumes "64 = n * LENGTH('a::len)" "32 = n * LENGTH('c::len)"
  shows "LENGTH(32) = n * LENGTH('c)" "length (NEON_UNPACK (a :: u32) :: 'c word list) = n"
    "LENGTH(64) = length (map (wd :: 'c word \<Rightarrow> 'a word) (NEON_UNPACK a)) * LENGTH('a)"
proof -
  show w: "LENGTH(32) = n * LENGTH('c)" using assms by simp
  then show l: "length (NEON_UNPACK a :: 'c word list) = n"
    by (metis length_NEON_UNPACK len_not_eq_0 nonzero_mult_div_cancel_right)
  have "LENGTH(64) = n * LENGTH('a)" using assms by simp
  then show "LENGTH(64) = length (map wd (NEON_UNPACK a)) * LENGTH('a)" by (simp only: length_map l)
qed

lemma q_narrow_widened:
  fixes wd :: "'c::len word \<Rightarrow> 'a::len word"
  assumes w: "64 = n * LENGTH('a)" "32 = n * LENGTH('c)"
    and fit: "\<And>v. sat (exact (wd v)) = exact (wd v)" "\<And>v. word_of_int (exact (wd v)) = v"
  shows "q_narrow sat exact TYPE('c word) (NEON_PACK (map wd (NEON_UNPACK a))) env = (a, env)"
proof -
  note w' = lanes_of(1) [OF w] and l = lanes_of(3) [OF w, of wd a]
  have "map2 (\<lambda>x y. word_of_int (exact x) :: 'c word) (map wd (NEON_UNPACK a)) (map wd (NEON_UNPACK a)) = NEON_UNPACK a"
    by (rule nth_equalityI) (simp_all add: fit)
  moreover have "\<not> list_ex (\<lambda>(x, y). sat (exact x) \<noteq> exact x) (zip (map wd (NEON_UNPACK a)) (map wd (NEON_UNPACK a)))"
    by (auto simp: list_ex_iff zip_map1 fit in_set_zip)
  moreover have "map2 (\<lambda>x y. word_of_int (sat (exact x)) :: 'c word) (map wd (NEON_UNPACK a)) (map wd (NEON_UNPACK a)) =
      map2 (\<lambda>x y. word_of_int (exact x) :: 'c word) (map wd (NEON_UNPACK a)) (map wd (NEON_UNPACK a))"
    by (rule nth_equalityI) (simp_all add: fit)
  ultimately show ?thesis
    by (simp add: q_narrow_def q_lanes_def NEON_UNPACK_PACK [OF l] NEON_PACK_UNPACK [OF w'])
qed

lemma sat_fits:
  "sat_u 8 (uint (v :: u8)) = uint v" "sat_s 8 (sint (v :: u8)) = sint v"
  "sat_u 16 (uint (w :: u16)) = uint w" "sat_s 16 (sint (w :: u16)) = sint w"
  using uint_lt2p [of v] sint_range [of v] uint_lt2p [of w] sint_range [of w]
  by (auto simp: sat_u_cases sat_s_cases not_less)

lemma wide_values:
  "uint (ucast (v :: u8) :: u16) = uint v" "sint (scast (v :: u8) :: u16) = sint v" "sint (ucast (v :: u8) :: u16) = uint v"
  "uint (ucast (w :: u16) :: u32) = uint w" "sint (scast (w :: u16) :: u32) = sint w" "sint (ucast (w :: u16) :: u32) = uint w"
  by (rule bit_eqI, auto simp: bit_simps min_def dest: bit_imp_le_length)+

lemma narrow_widened:
  fixes wd :: "'c::len word \<Rightarrow> 'a::len word"
  assumes "64 = n * LENGTH('a)" "32 = n * LENGTH('c)" "\<And>v. (ucast (wd v) :: 'c word) = v"
  shows "NEON_PACK (map ucast (NEON_UNPACK (NEON_PACK (map wd (NEON_UNPACK a)) :: u64) :: 'a word list) :: 'c word list) = (a :: u32)"
proof -
  note w = lanes_of(1) [OF assms(1,2)] and l = lanes_of(3) [OF assms(1,2), of wd a]
  show ?thesis by (simp add: NEON_UNPACK_PACK [OF l] o_def assms(3) NEON_PACK_UNPACK [OF w])
qed

text \<open>
  C39. Widening the lanes of a vector and narrowing them again gives the vector back: plain
  narrowing after zero or sign extension, and saturating narrowing after the extension of
  the same signedness, which moreover does not set \<^verbatim>\<open>QC\<close>.
\<close>

theorem neon_widen_narrow_roundtrip:
  "neon_narrow_u8 (neon_widen_u8 a) = a \<and> neon_narrow_u8 (neon_widen_s8 a) = a \<and>
   neon_narrow_u16 (neon_widen_u16 a) = a \<and> neon_narrow_u16 (neon_widen_s16 a) = a \<and>
   neon_narrow_sat_u8 (neon_widen_u8 a) env = (a, env) \<and> neon_narrow_sat_s8 (neon_widen_s8 a) env = (a, env) \<and>
   neon_unarrow_sat8 (neon_widen_u8 a) env = (a, env) \<and>
   neon_narrow_sat_u16 (neon_widen_u16 a) env = (a, env) \<and> neon_narrow_sat_s16 (neon_widen_s16 a) env = (a, env) \<and>
   neon_unarrow_sat16 (neon_widen_u16 a) env = (a, env)"
proof -
  have cuts: "(ucast (ucast v :: u16) :: u8) = v" "(ucast (scast v :: u16) :: u8) = v"
    "(ucast (ucast w :: u32) :: u16) = w" "(ucast (scast w :: u32) :: u16) = w" for v :: u8 and w :: u16
    by (rule bit_word_eqI, simp add: bit_simps min_absorb2)+
  have 8: "q_narrow (sat_u 8) (uint :: u16 \<Rightarrow> int) TYPE(8 word) (neon_widen_u8 a) env = (a, env)"
    "q_narrow (sat_s 8) (sint :: u16 \<Rightarrow> int) TYPE(8 word) (neon_widen_s8 a) env = (a, env)"
    "q_narrow (sat_u 8) (sint :: u16 \<Rightarrow> int) TYPE(8 word) (neon_widen_u8 a) env = (a, env)"
    unfolding widen_lanes by (rule q_narrow_widened [where n = 4]; simp add: wide_values sat_fits)+
  have 16: "q_narrow (sat_u 16) (uint :: u32 \<Rightarrow> int) TYPE(16 word) (neon_widen_u16 a) env = (a, env)"
    "q_narrow (sat_s 16) (sint :: u32 \<Rightarrow> int) TYPE(16 word) (neon_widen_s16 a) env = (a, env)"
    "q_narrow (sat_u 16) (sint :: u32 \<Rightarrow> int) TYPE(16 word) (neon_widen_u16 a) env = (a, env)"
    unfolding widen_lanes by (rule q_narrow_widened [where n = 2]; simp add: wide_values sat_fits)+
  have plain: "neon_narrow_u8 (neon_widen_u8 a) = a" "neon_narrow_u8 (neon_widen_s8 a) = a"
    unfolding widen_lanes narrow_lanes by (rule narrow_widened [where n = 4]; simp add: cuts)+
  have plain': "neon_narrow_u16 (neon_widen_u16 a) = a" "neon_narrow_u16 (neon_widen_s16 a) = a"
    unfolding widen_lanes narrow_lanes by (rule narrow_widened [where n = 2]; simp add: cuts)+
  show ?thesis by (simp only: 8 16 plain plain' narrow_sat_lanes)
qed

section \<open>Long differences and products\<close>

lemma DO_ABD_lane:
  fixes x y :: "'a::len word"
  shows "LENGTH('a) < LENGTH('b::len) \<Longrightarrow> LENGTH('b) \<le> 64 \<Longrightarrow>
      DO_ABD (uint x) (uint y) = ucast (word_of_int \<bar>uint x - uint y\<bar> :: 'b word)"
    "LENGTH('a) < LENGTH('b) \<Longrightarrow> LENGTH('b) \<le> 64 \<Longrightarrow>
      DO_ABD (sint x) (sint y) = ucast (word_of_int \<bar>sint x - sint y\<bar> :: 'b word)"
proof -
  assume w: "LENGTH('a) < LENGTH('b)" "LENGTH('b) \<le> 64"
  have le: "(2 :: int) ^ LENGTH('a) \<le> 2 ^ LENGTH('b)" using w(1) by (intro power_increasing) simp_all
  have up: "(word_of_int k :: u64) = ucast (word_of_int k :: 'b word)" if "0 \<le> k" "k < 2 ^ LENGTH('b)" for k
  proof -
    have "uint (word_of_int k :: 'b word) = k" using that by (simp add: uint_word_of_int take_bit_int_eq_self)
    then have "(word_of_int (uint (word_of_int k :: 'b word)) :: u64) = word_of_int k" by (simp only:)
    then show ?thesis by simp
  qed
  have abs: "(if v > u then v - u else u - v) = \<bar>v - u\<bar>" for u v :: int by auto
  have "\<bar>uint x - uint y\<bar> < 2 ^ LENGTH('a)"
    using uint_lt2p [of x] uint_lt2p [of y] uint_ge_0 [of x] uint_ge_0 [of y] by linarith
  then show "DO_ABD (uint x) (uint y) = ucast (word_of_int \<bar>uint x - uint y\<bar> :: 'b word)"
    unfolding DO_ABD_def abs using le by (intro up) linarith+
  have "\<bar>sint x - sint y\<bar> < 2 ^ LENGTH('a)"
    using sint_range [of x] sint_range [of y] half_range [where 'a = 'a] by linarith
  then show "DO_ABD (sint x) (sint y) = ucast (word_of_int \<bar>sint x - sint y\<bar> :: 'b word)"
    unfolding DO_ABD_def abs using le by (intro up) linarith+
qed

lemma DO_MULL_lane:
  fixes x y :: "'a::len word"
  shows "(DO_MULL_u x y :: 'b::len word) = word_of_int (uint x * uint y)"
    "(DO_MULL_s x y :: 'b word) = word_of_int (sint x * sint y)"
  by (simp_all add: DO_MULL_u_def DO_MULL_s_def)

text \<open>
  The long absolute differences and the widening multiplies give in each double-width lane
  the exact absolute difference or product of the narrow lanes, signed or unsigned.
\<close>

theorem neon_long_exact:
  "neon_abdl_u16 a b = NEON_PACK (map2 (\<lambda>(x :: u8) (y :: u8). word_of_int \<bar>uint x - uint y\<bar> :: u16) (NEON_UNPACK a) (NEON_UNPACK b)) \<and>
   neon_abdl_s16 a b = NEON_PACK (map2 (\<lambda>(x :: u8) (y :: u8). word_of_int \<bar>sint x - sint y\<bar> :: u16) (NEON_UNPACK a) (NEON_UNPACK b)) \<and>
   neon_abdl_u32 a b = NEON_PACK (map2 (\<lambda>(x :: u16) (y :: u16). word_of_int \<bar>uint x - uint y\<bar> :: u32) (NEON_UNPACK a) (NEON_UNPACK b)) \<and>
   neon_abdl_s32 a b = NEON_PACK (map2 (\<lambda>(x :: u16) (y :: u16). word_of_int \<bar>sint x - sint y\<bar> :: u32) (NEON_UNPACK a) (NEON_UNPACK b)) \<and>
   neon_abdl_u64 a b = word_of_int \<bar>uint a - uint b\<bar> \<and> neon_abdl_s64 a b = word_of_int \<bar>sint a - sint b\<bar> \<and>
   neon_mull_u8 a b = NEON_PACK (map2 (\<lambda>(x :: u8) (y :: u8). word_of_int (uint x * uint y) :: u16) (NEON_UNPACK a) (NEON_UNPACK b)) \<and>
   neon_mull_s8 a b = NEON_PACK (map2 (\<lambda>(x :: u8) (y :: u8). word_of_int (sint x * sint y) :: u16) (NEON_UNPACK a) (NEON_UNPACK b)) \<and>
   neon_mull_u16 a b = NEON_PACK (map2 (\<lambda>(x :: u16) (y :: u16). word_of_int (uint x * uint y) :: u32) (NEON_UNPACK a) (NEON_UNPACK b)) \<and>
   neon_mull_s16 a b = NEON_PACK (map2 (\<lambda>(x :: u16) (y :: u16). word_of_int (sint x * sint y) :: u32) (NEON_UNPACK a) (NEON_UNPACK b))"
proof -
  have list2: "map2 f [p, q, r, t] [p', q', r', t'] = [f p p', f q q', f r r', f t t']" "map2 f [p, q] [p', q'] = [f p p', f q q']"
    for f :: "'c \<Rightarrow> 'd \<Rightarrow> 'e" and p q r t p' q' r' t' by simp_all
  have a8: "DO_ABD (uint x) (uint y) = ucast (word_of_int \<bar>uint x - uint y\<bar> :: u16)"
    "DO_ABD (sint x) (sint y) = ucast (word_of_int \<bar>sint x - sint y\<bar> :: u16)" for x y :: u8
    by (rule DO_ABD_lane; simp)+
  have a16: "DO_ABD (uint x) (uint y) = ucast (word_of_int \<bar>uint x - uint y\<bar> :: u32)"
    "DO_ABD (sint x) (sint y) = ucast (word_of_int \<bar>sint x - sint y\<bar> :: u32)" for x y :: u16
    by (rule DO_ABD_lane; simp)+
  have a32: "DO_ABD (uint a) (uint b) = word_of_int \<bar>uint a - uint b\<bar>" "DO_ABD (sint a) (sint b) = word_of_int \<bar>sint a - sint b\<bar>"
    unfolding DO_ABD_def by (rule arg_cong [where f = word_of_int], simp)+
  show ?thesis
    unfolding neon_abdl_u16_def neon_abdl_s16_def neon_abdl_u32_def neon_abdl_s32_def neon_abdl_u64_def neon_abdl_s64_def
      neon_mull_u8_def neon_mull_s8_def neon_mull_u16_def neon_mull_s16_def unpack_lists list2 pack_lists a8 a16 a32 DO_MULL_lane
    by (intro conjI refl)
qed

text \<open>
  Narrowing to the high half takes the upper part of each lane; the rounding form first adds
  half a unit to each lane without disturbing its neighbours.
\<close>

theorem neon_narrow_high_lanes:
  "neon_narrow_high_u8 x = NEON_PACK (map (\<lambda>v :: u16. ucast (drop_bit 8 v)) (NEON_UNPACK x) :: u8 list) \<and>
   neon_narrow_high_u16 x = NEON_PACK (map (\<lambda>v :: u32. ucast (drop_bit 16 v)) (NEON_UNPACK x) :: u16 list) \<and>
   neon_narrow_round_high_u8 x = NEON_PACK (map (\<lambda>v :: u16. word_of_int ((uint v + 2 ^ 7) div 2 ^ 8)) (NEON_UNPACK x) :: u8 list) \<and>
   neon_narrow_round_high_u16 x = NEON_PACK (map (\<lambda>v :: u32. word_of_int ((uint v + 2 ^ 15) div 2 ^ 16)) (NEON_UNPACK x) :: u16 list)"
  by (intro conjI narrow_lanes round_high_lanes)

end
