(* ===== verification/NeonZip.thy ===== *)
theory NeonZip
  imports NeonWiden
begin

text \<open>
  The permutations of \<^verbatim>\<open>neon_helper.c\<close>: \<^verbatim>\<open>VZIP\<close> and \<^verbatim>\<open>VUZP\<close> on pairs of double registers and on pairs of
  quad registers, lanes of 8, 16 and 32 bits. They read and write \<^verbatim>\<open>env->vfp.regs\<close>, an array of 32
  registers, at the numbers they are given and at their successors; an index outside the array
  is an \<open>OutOfBounds\<close> fault. On lists of lanes they are the interleaving of two lists and
  the separation of a list into its even and odd positions, which undo each other.
\<close>

section \<open>Definitions\<close>

definition ELEM :: "u64 \<Rightarrow> nat \<Rightarrow> nat \<Rightarrow> u64" where
  "ELEM V N SIZE = drop_bit (N * SIZE) V AND (push_bit SIZE 1 - 1)"

definition vfp_read :: "neon_env \<Rightarrow> u32 \<Rightarrow> u64 result" where
  "vfp_read env r =
     check (unat r < length (vfp_regs env)) OutOfBounds (Inr (vfp_regs env ! unat r))"

definition vfp_write :: "u32 \<Rightarrow> u64 \<Rightarrow> neon_env \<Rightarrow> neon_env result" where
  "vfp_write r v env =
     check (unat r < length (vfp_regs env)) OutOfBounds (Inr (env\<lparr>vfp_regs := (vfp_regs env)[unat r := v]\<rparr>))"

text \<open>The reads before and the writes after the permutation, in the order of the code\<close>

definition quad_update ::
  "(u64 \<Rightarrow> u64 \<Rightarrow> u64 \<Rightarrow> u64 \<Rightarrow> u64 \<times> u64 \<times> u64 \<times> u64) \<Rightarrow> u32 \<Rightarrow> u32 \<Rightarrow> neon_env \<Rightarrow> neon_env result" where
  "quad_update f rd rm env =
     res_bind (vfp_read env rm) (\<lambda>zm0. res_bind (vfp_read env (rm + 1)) (\<lambda>zm1.
     res_bind (vfp_read env rd) (\<lambda>zd0. res_bind (vfp_read env (rd + 1)) (\<lambda>zd1.
       let (d0, d1, m0, m1) = f zd0 zd1 zm0 zm1
       in res_bind (vfp_write rm m0 env) (\<lambda>env1. res_bind (vfp_write (rm + 1) m1 env1) (\<lambda>env2.
          res_bind (vfp_write rd d0 env2) (vfp_write (rd + 1) d1)))))))"

definition double_update ::
  "(u64 \<Rightarrow> u64 \<Rightarrow> u64 \<times> u64) \<Rightarrow> u32 \<Rightarrow> u32 \<Rightarrow> neon_env \<Rightarrow> neon_env result" where
  "double_update f rd rm env =
     res_bind (vfp_read env rm) (\<lambda>zm. res_bind (vfp_read env rd) (\<lambda>zd.
       let (d0, m0) = f zd zm
       in res_bind (vfp_write rm m0 env) (vfp_write rd d0)))"

definition neon_qunzip8 :: "u32 \<Rightarrow> u32 \<Rightarrow> neon_env \<Rightarrow> neon_env result" where
  "neon_qunzip8 = quad_update (\<lambda>zd0 zd1 zm0 zm1.
     let d0 = ELEM zd0 0 8 OR push_bit 8 (ELEM zd0 2 8) OR push_bit 16 (ELEM zd0 4 8) OR push_bit 24 (ELEM zd0 6 8)
              OR push_bit 32 (ELEM zd1 0 8) OR push_bit 40 (ELEM zd1 2 8) OR push_bit 48 (ELEM zd1 4 8) OR push_bit 56 (ELEM zd1 6 8);
         d1 = ELEM zm0 0 8 OR push_bit 8 (ELEM zm0 2 8) OR push_bit 16 (ELEM zm0 4 8) OR push_bit 24 (ELEM zm0 6 8)
              OR push_bit 32 (ELEM zm1 0 8) OR push_bit 40 (ELEM zm1 2 8) OR push_bit 48 (ELEM zm1 4 8) OR push_bit 56 (ELEM zm1 6 8);
         m0 = ELEM zd0 1 8 OR push_bit 8 (ELEM zd0 3 8) OR push_bit 16 (ELEM zd0 5 8) OR push_bit 24 (ELEM zd0 7 8)
              OR push_bit 32 (ELEM zd1 1 8) OR push_bit 40 (ELEM zd1 3 8) OR push_bit 48 (ELEM zd1 5 8) OR push_bit 56 (ELEM zd1 7 8);
         m1 = ELEM zm0 1 8 OR push_bit 8 (ELEM zm0 3 8) OR push_bit 16 (ELEM zm0 5 8) OR push_bit 24 (ELEM zm0 7 8)
              OR push_bit 32 (ELEM zm1 1 8) OR push_bit 40 (ELEM zm1 3 8) OR push_bit 48 (ELEM zm1 5 8) OR push_bit 56 (ELEM zm1 7 8)
     in (d0, d1, m0, m1))"

definition neon_qunzip16 :: "u32 \<Rightarrow> u32 \<Rightarrow> neon_env \<Rightarrow> neon_env result" where
  "neon_qunzip16 = quad_update (\<lambda>zd0 zd1 zm0 zm1.
     let d0 = ELEM zd0 0 16 OR push_bit 16 (ELEM zd0 2 16) OR push_bit 32 (ELEM zd1 0 16) OR push_bit 48 (ELEM zd1 2 16);
         d1 = ELEM zm0 0 16 OR push_bit 16 (ELEM zm0 2 16) OR push_bit 32 (ELEM zm1 0 16) OR push_bit 48 (ELEM zm1 2 16);
         m0 = ELEM zd0 1 16 OR push_bit 16 (ELEM zd0 3 16) OR push_bit 32 (ELEM zd1 1 16) OR push_bit 48 (ELEM zd1 3 16);
         m1 = ELEM zm0 1 16 OR push_bit 16 (ELEM zm0 3 16) OR push_bit 32 (ELEM zm1 1 16) OR push_bit 48 (ELEM zm1 3 16)
     in (d0, d1, m0, m1))"

definition neon_qunzip32 :: "u32 \<Rightarrow> u32 \<Rightarrow> neon_env \<Rightarrow> neon_env result" where
  "neon_qunzip32 = quad_update (\<lambda>zd0 zd1 zm0 zm1.
     let d0 = ELEM zd0 0 32 OR push_bit 32 (ELEM zd1 0 32);
         d1 = ELEM zm0 0 32 OR push_bit 32 (ELEM zm1 0 32);
         m0 = ELEM zd0 1 32 OR push_bit 32 (ELEM zd1 1 32);
         m1 = ELEM zm0 1 32 OR push_bit 32 (ELEM zm1 1 32)
     in (d0, d1, m0, m1))"

definition neon_unzip8 :: "u32 \<Rightarrow> u32 \<Rightarrow> neon_env \<Rightarrow> neon_env result" where
  "neon_unzip8 = double_update (\<lambda>zd zm.
     let d0 = ELEM zd 0 8 OR push_bit 8 (ELEM zd 2 8) OR push_bit 16 (ELEM zd 4 8) OR push_bit 24 (ELEM zd 6 8)
              OR push_bit 32 (ELEM zm 0 8) OR push_bit 40 (ELEM zm 2 8) OR push_bit 48 (ELEM zm 4 8) OR push_bit 56 (ELEM zm 6 8);
         m0 = ELEM zd 1 8 OR push_bit 8 (ELEM zd 3 8) OR push_bit 16 (ELEM zd 5 8) OR push_bit 24 (ELEM zd 7 8)
              OR push_bit 32 (ELEM zm 1 8) OR push_bit 40 (ELEM zm 3 8) OR push_bit 48 (ELEM zm 5 8) OR push_bit 56 (ELEM zm 7 8)
     in (d0, m0))"

definition neon_unzip16 :: "u32 \<Rightarrow> u32 \<Rightarrow> neon_env \<Rightarrow> neon_env result" where
  "neon_unzip16 = double_update (\<lambda>zd zm.
     let d0 = ELEM zd 0 16 OR push_bit 16 (ELEM zd 2 16) OR push_bit 32 (ELEM zm 0 16) OR push_bit 48 (ELEM zm 2 16);
         m0 = ELEM zd 1 16 OR push_bit 16 (ELEM zd 3 16) OR push_bit 32 (ELEM zm 1 16) OR push_bit 48 (ELEM zm 3 16)
     in (d0, m0))"

definition neon_qzip8 :: "u32 \<Rightarrow> u32 \<Rightarrow> neon_env \<Rightarrow> neon_env result" where
  "neon_qzip8 = quad_update (\<lambda>zd0 zd1 zm0 zm1.
     let d0 = ELEM zd0 0 8 OR push_bit 8 (ELEM zm0 0 8) OR push_bit 16 (ELEM zd0 1 8) OR push_bit 24 (ELEM zm0 1 8)
              OR push_bit 32 (ELEM zd0 2 8) OR push_bit 40 (ELEM zm0 2 8) OR push_bit 48 (ELEM zd0 3 8) OR push_bit 56 (ELEM zm0 3 8);
         d1 = ELEM zd0 4 8 OR push_bit 8 (ELEM zm0 4 8) OR push_bit 16 (ELEM zd0 5 8) OR push_bit 24 (ELEM zm0 5 8)
              OR push_bit 32 (ELEM zd0 6 8) OR push_bit 40 (ELEM zm0 6 8) OR push_bit 48 (ELEM zd0 7 8) OR push_bit 56 (ELEM zm0 7 8);
         m0 = ELEM zd1 0 8 OR push_bit 8 (ELEM zm1 0 8) OR push_bit 16 (ELEM zd1 1 8) OR push_bit 24 (ELEM zm1 1 8)
              OR push_bit 32 (ELEM zd1 2 8) OR push_bit 40 (ELEM zm1 2 8) OR push_bit 48 (ELEM zd1 3 8) OR push_bit 56 (ELEM zm1 3 8);
         m1 = ELEM zd1 4 8 OR push_bit 8 (ELEM zm1 4 8) OR push_bit 16 (ELEM zd1 5 8) OR push_bit 24 (ELEM zm1 5 8)
              OR push_bit 32 (ELEM zd1 6 8) OR push_bit 40 (ELEM zm1 6 8) OR push_bit 48 (ELEM zd1 7 8) OR push_bit 56 (ELEM zm1 7 8)
     in (d0, d1, m0, m1))"

definition neon_qzip16 :: "u32 \<Rightarrow> u32 \<Rightarrow> neon_env \<Rightarrow> neon_env result" where
  "neon_qzip16 = quad_update (\<lambda>zd0 zd1 zm0 zm1.
     let d0 = ELEM zd0 0 16 OR push_bit 16 (ELEM zm0 0 16) OR push_bit 32 (ELEM zd0 1 16) OR push_bit 48 (ELEM zm0 1 16);
         d1 = ELEM zd0 2 16 OR push_bit 16 (ELEM zm0 2 16) OR push_bit 32 (ELEM zd0 3 16) OR push_bit 48 (ELEM zm0 3 16);
         m0 = ELEM zd1 0 16 OR push_bit 16 (ELEM zm1 0 16) OR push_bit 32 (ELEM zd1 1 16) OR push_bit 48 (ELEM zm1 1 16);
         m1 = ELEM zd1 2 16 OR push_bit 16 (ELEM zm1 2 16) OR push_bit 32 (ELEM zd1 3 16) OR push_bit 48 (ELEM zm1 3 16)
     in (d0, d1, m0, m1))"

definition neon_qzip32 :: "u32 \<Rightarrow> u32 \<Rightarrow> neon_env \<Rightarrow> neon_env result" where
  "neon_qzip32 = quad_update (\<lambda>zd0 zd1 zm0 zm1.
     let d0 = ELEM zd0 0 32 OR push_bit 32 (ELEM zm0 0 32);
         d1 = ELEM zd0 1 32 OR push_bit 32 (ELEM zm0 1 32);
         m0 = ELEM zd1 0 32 OR push_bit 32 (ELEM zm1 0 32);
         m1 = ELEM zd1 1 32 OR push_bit 32 (ELEM zm1 1 32)
     in (d0, d1, m0, m1))"

definition neon_zip8 :: "u32 \<Rightarrow> u32 \<Rightarrow> neon_env \<Rightarrow> neon_env result" where
  "neon_zip8 = double_update (\<lambda>zd zm.
     let d0 = ELEM zd 0 8 OR push_bit 8 (ELEM zm 0 8) OR push_bit 16 (ELEM zd 1 8) OR push_bit 24 (ELEM zm 1 8)
              OR push_bit 32 (ELEM zd 2 8) OR push_bit 40 (ELEM zm 2 8) OR push_bit 48 (ELEM zd 3 8) OR push_bit 56 (ELEM zm 3 8);
         m0 = ELEM zd 4 8 OR push_bit 8 (ELEM zm 4 8) OR push_bit 16 (ELEM zd 5 8) OR push_bit 24 (ELEM zm 5 8)
              OR push_bit 32 (ELEM zd 6 8) OR push_bit 40 (ELEM zm 6 8) OR push_bit 48 (ELEM zd 7 8) OR push_bit 56 (ELEM zm 7 8)
     in (d0, m0))"

definition neon_zip16 :: "u32 \<Rightarrow> u32 \<Rightarrow> neon_env \<Rightarrow> neon_env result" where
  "neon_zip16 = double_update (\<lambda>zd zm.
     let d0 = ELEM zd 0 16 OR push_bit 16 (ELEM zm 0 16) OR push_bit 32 (ELEM zd 1 16) OR push_bit 48 (ELEM zm 1 16);
         m0 = ELEM zd 2 16 OR push_bit 16 (ELEM zm 2 16) OR push_bit 32 (ELEM zd 3 16) OR push_bit 48 (ELEM zm 3 16)
     in (d0, m0))"

section \<open>Lists of lanes\<close>

fun evens :: "'a list \<Rightarrow> 'a list" and odds :: "'a list \<Rightarrow> 'a list" where
  "evens [] = []"
| "evens (x # xs) = x # odds xs"
| "odds [] = []"
| "odds (x # xs) = evens xs"

fun interleave :: "'a list \<Rightarrow> 'a list \<Rightarrow> 'a list" where
  "interleave (x # xs) (y # ys) = x # y # interleave xs ys"
| "interleave _ _ = []"

lemma interleave_evens_odds: "even (length xs) \<Longrightarrow> interleave (evens xs) (odds xs) = xs"
proof (induction xs rule: induct_list012)
  case (3 x y zs)
  then show ?case by simp
qed simp_all

lemma evens_odds_interleave:
  "length xs = length ys \<Longrightarrow> evens (interleave xs ys) = xs \<and> odds (interleave xs ys) = ys"
  by (induction xs ys rule: interleave.induct) auto

lemma length_interleave: "length xs = length ys \<Longrightarrow> length (interleave xs ys) = 2 * length xs"
  by (induction xs ys rule: interleave.induct) auto

lemma length_evens_odds: "even (length xs) \<Longrightarrow> length (evens xs) = length xs div 2 \<and> length (odds xs) = length xs div 2"
  by (induction xs rule: induct_list012) auto

section \<open>Registers as lists of lanes\<close>

text \<open>A double register, and the quad register of two adjacent ones, as a list of lanes\<close>

definition lanes_D :: "u32 \<Rightarrow> neon_env \<Rightarrow> 'a::len word list" where
  "lanes_D r env = NEON_UNPACK (vfp_regs env ! unat r)"

definition put_D :: "u32 \<Rightarrow> 'a::len word list \<Rightarrow> neon_env \<Rightarrow> neon_env" where
  "put_D r vs env = env\<lparr>vfp_regs := (vfp_regs env)[unat r := NEON_PACK vs]\<rparr>"

definition lanes_Q :: "u32 \<Rightarrow> neon_env \<Rightarrow> 'a::len word list" where
  "lanes_Q r env = lanes_D r env @ lanes_D (r + 1) env"

definition put_Q :: "u32 \<Rightarrow> 'a::len word list \<Rightarrow> neon_env \<Rightarrow> neon_env" where
  "put_Q r vs env = put_D (r + 1) (drop (length vs div 2) vs) (put_D r (take (length vs div 2) vs) env)"

definition in_D :: "u32 \<Rightarrow> neon_env \<Rightarrow> bool" where
  "in_D r env \<longleftrightarrow> unat r < length (vfp_regs env)"

definition in_Q :: "u32 \<Rightarrow> neon_env \<Rightarrow> bool" where
  "in_Q r env \<longleftrightarrow> in_D r env \<and> in_D (r + 1) env"

text \<open>The two permutations, on lists of lanes and on registers\<close>

definition unzip_lanes :: "'a list \<Rightarrow> 'a list \<Rightarrow> 'a list \<times> 'a list" where
  "unzip_lanes d m = (evens (d @ m), odds (d @ m))"

definition zip_lanes :: "'a list \<Rightarrow> 'a list \<Rightarrow> 'a list \<times> 'a list" where
  "zip_lanes d m = (take (length d) (interleave d m), drop (length d) (interleave d m))"

definition permute_D ::
  "('a::len word list \<Rightarrow> 'a word list \<Rightarrow> 'a word list \<times> 'a word list) \<Rightarrow> u32 \<Rightarrow> u32 \<Rightarrow> neon_env \<Rightarrow> neon_env result" where
  "permute_D g rd rm env =
     (if in_D rd env \<and> in_D rm env
      then let (d, m) = g (lanes_D rd env) (lanes_D rm env) in Inr (put_D rd d (put_D rm m env))
      else Inl OutOfBounds)"

definition permute_Q ::
  "('a::len word list \<Rightarrow> 'a word list \<Rightarrow> 'a word list \<times> 'a word list) \<Rightarrow> u32 \<Rightarrow> u32 \<Rightarrow> neon_env \<Rightarrow> neon_env result" where
  "permute_Q g rd rm env =
     (if in_Q rd env \<and> in_Q rm env
      then let (d, m) = g (lanes_Q rd env) (lanes_Q rm env) in Inr (put_Q rd d (put_Q rm m env))
      else Inl OutOfBounds)"

lemma unzip_zip_lanes:
  assumes "length d = length m"
  shows "case zip_lanes d m of (d', m') \<Rightarrow> unzip_lanes d' m' = (d, m)"
    and "case unzip_lanes d m of (d', m') \<Rightarrow> zip_lanes d' m' = (d, m)"
proof -
  show "case zip_lanes d m of (d', m') \<Rightarrow> unzip_lanes d' m' = (d, m)"
    using evens_odds_interleave [OF assms] by (simp add: zip_lanes_def unzip_lanes_def)
  have "even (length (d @ m))" using assms by simp
  from interleave_evens_odds [OF this] length_evens_odds [OF this]
  show "case unzip_lanes d m of (d', m') \<Rightarrow> zip_lanes d' m' = (d, m)"
    using assms by (simp add: zip_lanes_def unzip_lanes_def)
qed

lemma lanes_lengths:
  assumes "length d = length m"
  shows "length (fst (zip_lanes d m)) = length m" "length (snd (zip_lanes d m)) = length m"
    "length (fst (unzip_lanes d m)) = length m" "length (snd (unzip_lanes d m)) = length m"
proof -
  have "even (length (d @ m))" using assms by simp
  then show "length (fst (unzip_lanes d m)) = length m" "length (snd (unzip_lanes d m)) = length m"
    using assms length_evens_odds [of "d @ m"] by (simp_all add: unzip_lanes_def)
  show "length (fst (zip_lanes d m)) = length m" "length (snd (zip_lanes d m)) = length m"
    using assms length_interleave [OF assms] by (simp_all add: zip_lanes_def)
qed

section \<open>The helpers permute lanes\<close>

lemma ELEM_lane:
  "ELEM V N 8 = ucast (ucast (drop_bit (N * 8) V) :: u8)" "ELEM V N 16 = ucast (ucast (drop_bit (N * 16) V) :: u16)"
  "ELEM V N 32 = ucast (ucast (drop_bit (N * 32) V) :: u32)"
proof -
  have m: "push_bit k 1 - 1 = (mask k :: u64)" for k by (simp add: mask_eq_exp_minus_1)
  show "ELEM V N 8 = ucast (ucast (drop_bit (N * 8) V) :: u8)" "ELEM V N 16 = ucast (ucast (drop_bit (N * 16) V) :: u16)"
    "ELEM V N 32 = ucast (ucast (drop_bit (N * 32) V) :: u32)"
    unfolding ELEM_def m by (rule bit_word_eqI, auto simp: bit_simps)+
qed

lemma unpack_bytes: "(NEON_UNPACK (y :: u64) :: u8 list) =
    [ucast y, ucast (drop_bit 8 y), ucast (drop_bit 16 y), ucast (drop_bit 24 y),
     ucast (drop_bit 32 y), ucast (drop_bit 40 y), ucast (drop_bit 48 y), ucast (drop_bit 56 y)]"
  by (simp add: NEON_UNPACK_def upt_rec)

lemma pack_bytes: "(NEON_PACK [a, b, c, d, e, f, g, h :: u8] :: u64) =
    ucast a OR push_bit 8 (ucast b) OR push_bit 16 (ucast c) OR push_bit 24 (ucast d) OR
    push_bit 32 (ucast e) OR push_bit 40 (ucast f) OR push_bit 48 (ucast g) OR push_bit 56 (ucast h)"
  by (simp add: push_bit_or or.assoc)

lemma length_lanes:
  "length (lanes_D r env :: 'a::len word list) = 64 div LENGTH('a)"
  "length (lanes_Q r env :: 'a::len word list) = 2 * (64 div LENGTH('a))"
  by (simp_all add: lanes_Q_def lanes_D_def)

lemma quad_update_lanes:
  fixes g :: "'a::len word list \<Rightarrow> 'a word list \<Rightarrow> 'a word list \<times> 'a word list"
  assumes f: "\<forall>zd0 zd1 zm0 zm1. f zd0 zd1 zm0 zm1 =
      (case g (NEON_UNPACK zd0 @ NEON_UNPACK zd1) (NEON_UNPACK zm0 @ NEON_UNPACK zm1) of (d, m) \<Rightarrow>
         (NEON_PACK (take n d), NEON_PACK (drop n d), NEON_PACK (take n m), NEON_PACK (drop n m)))"
    and n: "LENGTH(64) div LENGTH('a) = n"
    and g: "\<forall>d m. length d = length m \<longrightarrow> length (fst (g d m)) = length m \<and> length (snd (g d m)) = length m"
  shows "quad_update f rd rm env = permute_Q g rd rm env"
proof (cases "in_Q rd env \<and> in_Q rm env")
  case True
  obtain d m where dm: "g (lanes_Q rd env) (lanes_Q rm env) = (d, m)" by fastforce
  have "length d = 2 * n" "length m = 2 * n"
    using g [rule_format, of "lanes_Q rd env" "lanes_Q rm env"] n by (simp_all add: dm length_lanes)
  with True dm show ?thesis
    by (simp add: quad_update_def permute_Q_def vfp_read_def vfp_write_def in_Q_def in_D_def f lanes_Q_def lanes_D_def
        put_Q_def put_D_def)
next
  case False
  then show ?thesis
    by (auto simp: quad_update_def permute_Q_def vfp_read_def vfp_write_def in_Q_def in_D_def check_def)
qed

lemma double_update_lanes:
  assumes f: "\<forall>zd zm. f zd zm = (case g (NEON_UNPACK zd) (NEON_UNPACK zm) of (d, m) \<Rightarrow> (NEON_PACK d, NEON_PACK m))"
  shows "double_update f rd rm env = permute_D g rd rm env"
  by (auto simp: double_update_def permute_D_def vfp_read_def vfp_write_def in_D_def f lanes_D_def put_D_def
      check_def split: prod.splits)

lemmas zip_helper_defs = neon_qunzip8_def neon_qunzip16_def neon_qunzip32_def neon_unzip8_def neon_unzip16_def
  neon_qzip8_def neon_qzip16_def neon_qzip32_def neon_zip8_def neon_zip16_def

lemmas zip_unfold = ELEM_lane Let_def unzip_lanes_def zip_lanes_def unpack_lists unpack_bytes

lemma quad_bytes:
  "neon_qunzip8 rd rm env = permute_Q (unzip_lanes :: u8 list \<Rightarrow> _) rd rm env"
  "neon_qzip8 rd rm env = permute_Q (zip_lanes :: u8 list \<Rightarrow> _) rd rm env"
  unfolding zip_helper_defs
  by (rule quad_update_lanes [where n = 8]; simp add: lanes_lengths; simp add: zip_unfold push_bit_or or.assoc)+

lemma quad_halves:
  "neon_qunzip16 rd rm env = permute_Q (unzip_lanes :: u16 list \<Rightarrow> _) rd rm env"
  "neon_qzip16 rd rm env = permute_Q (zip_lanes :: u16 list \<Rightarrow> _) rd rm env"
  unfolding zip_helper_defs
  by (rule quad_update_lanes [where n = 4]; simp add: lanes_lengths; simp add: zip_unfold push_bit_or or.assoc)+

lemma quad_words:
  "neon_qunzip32 rd rm env = permute_Q (unzip_lanes :: u32 list \<Rightarrow> _) rd rm env"
  "neon_qzip32 rd rm env = permute_Q (zip_lanes :: u32 list \<Rightarrow> _) rd rm env"
  unfolding zip_helper_defs
  by (rule quad_update_lanes [where n = 2]; simp add: lanes_lengths; simp add: zip_unfold push_bit_or or.assoc)+

lemma double_lanes:
  "neon_unzip8 rd rm env = permute_D (unzip_lanes :: u8 list \<Rightarrow> _) rd rm env"
  "neon_unzip16 rd rm env = permute_D (unzip_lanes :: u16 list \<Rightarrow> _) rd rm env"
  "neon_zip8 rd rm env = permute_D (zip_lanes :: u8 list \<Rightarrow> _) rd rm env"
  "neon_zip16 rd rm env = permute_D (zip_lanes :: u16 list \<Rightarrow> _) rd rm env"
  unfolding zip_helper_defs by (rule double_update_lanes; simp add: zip_unfold push_bit_or or.assoc)+

lemmas zip_helper_lanes = quad_bytes quad_halves quad_words double_lanes

text \<open>
  C35. The \<^verbatim>\<open>VUZP\<close> helpers put the lanes at even positions of the destination followed by the
  source operand into the destination and those at odd positions into the source operand; the
  \<^verbatim>\<open>VZIP\<close> helpers interleave the two operands. Nothing else changes, and a register number
  outside the file is out of bounds.
\<close>

theorem neon_zip_unzip_lanes:
  "neon_qunzip8 rd rm env = permute_Q (unzip_lanes :: u8 list \<Rightarrow> _) rd rm env \<and>
   neon_qunzip16 rd rm env = permute_Q (unzip_lanes :: u16 list \<Rightarrow> _) rd rm env \<and>
   neon_qunzip32 rd rm env = permute_Q (unzip_lanes :: u32 list \<Rightarrow> _) rd rm env \<and>
   neon_unzip8 rd rm env = permute_D (unzip_lanes :: u8 list \<Rightarrow> _) rd rm env \<and>
   neon_unzip16 rd rm env = permute_D (unzip_lanes :: u16 list \<Rightarrow> _) rd rm env \<and>
   neon_qzip8 rd rm env = permute_Q (zip_lanes :: u8 list \<Rightarrow> _) rd rm env \<and>
   neon_qzip16 rd rm env = permute_Q (zip_lanes :: u16 list \<Rightarrow> _) rd rm env \<and>
   neon_qzip32 rd rm env = permute_Q (zip_lanes :: u32 list \<Rightarrow> _) rd rm env \<and>
   neon_zip8 rd rm env = permute_D (zip_lanes :: u8 list \<Rightarrow> _) rd rm env \<and>
   neon_zip16 rd rm env = permute_D (zip_lanes :: u16 list \<Rightarrow> _) rd rm env"
  by (intro conjI zip_helper_lanes)

section \<open>Zipping and unzipping undo each other\<close>

lemma lanes_put_D:
  assumes "in_D r env" "length vs * LENGTH('a) = 64"
  shows "lanes_D r' (put_D r (vs :: 'a::len word list) env) = (if r' = r then vs else lanes_D r' env)"
proof -
  have "NEON_UNPACK (NEON_PACK vs :: u64) = vs" using assms(2) by (intro NEON_UNPACK_PACK) simp
  moreover have "unat r' = unat r \<longleftrightarrow> r' = r" by (simp add: word_unat_eq_iff)
  ultimately show ?thesis using assms(1) by (auto simp: lanes_D_def put_D_def in_D_def)
qed

lemma in_put_D [simp]: "in_D r (put_D r' vs env) = in_D r env" "in_Q r (put_D r' vs env) = in_Q r env"
  by (simp_all add: in_Q_def in_D_def put_D_def)

lemma in_put_Q [simp]: "in_Q r (put_Q r' vs env) = in_Q r env"
  by (simp add: put_Q_def)

lemma put_D_same:
  assumes "in_D r env" "64 = n * LENGTH('a)"
  shows "put_D r (lanes_D r env :: 'a::len word list) env = env"
proof -
  have "NEON_PACK (NEON_UNPACK w :: 'a word list) = w" for w :: u64 using assms(2) by (intro NEON_PACK_UNPACK) simp
  then show ?thesis by (simp add: put_D_def lanes_D_def)
qed

lemma put_D_twice: "put_D r vs (put_D r us env) = put_D r vs env"
  by (simp add: put_D_def)

lemma put_D_swap: "r \<noteq> r' \<Longrightarrow> put_D r vs (put_D r' us env) = put_D r' us (put_D r vs env)"
  by (simp add: put_D_def list_update_swap word_unat_eq_iff)

lemma permute_D_inverse:
  fixes g h :: "'a::len word list \<Rightarrow> 'a word list \<Rightarrow> 'a word list \<times> 'a word list"
  assumes n: "64 = n * LENGTH('a)"
    and g: "\<forall>d m. length d = length m \<longrightarrow> length (fst (g d m)) = length m \<and> length (snd (g d m)) = length m"
    and h: "\<forall>d m. length d = length m \<longrightarrow> (case g d m of (d', m') \<Rightarrow> h d' m' = (d, m))"
    and r: "in_D rd env" "in_D rm env" "rd \<noteq> rm"
  shows "res_bind (permute_D g rd rm env) (permute_D h rd rm) = Inr env"
proof -
  obtain d m where dm: "g (lanes_D rd env) (lanes_D rm env) = (d, m)" by fastforce
  have len: "length (lanes_D r e :: 'a word list) = n" for r e
    unfolding length_lanes n by simp
  have "length d = n" "length m = n" using g [rule_format, of "lanes_D rd env" "lanes_D rm env"] by (simp_all add: dm len)
  then have "lanes_D rd (put_D rd d (put_D rm m env)) = d" "lanes_D rm (put_D rd d (put_D rm m env)) = m"
    using n r by (simp_all add: lanes_put_D)
  moreover have "h d m = (lanes_D rd env, lanes_D rm env)"
    using h [rule_format, of "lanes_D rd env" "lanes_D rm env"] by (simp add: dm len)
  moreover have "put_D rd (lanes_D rd env :: 'a word list) (put_D rm (lanes_D rm env :: 'a word list) (put_D rd d (put_D rm m env))) = env"
    using r by (simp add: put_D_swap [of rm rd] put_D_twice put_D_same [OF _ n])
  ultimately show ?thesis using r by (simp add: permute_D_def dm)
qed

lemma permute_Q_inverse:
  fixes g h :: "'a::len word list \<Rightarrow> 'a word list \<Rightarrow> 'a word list \<times> 'a word list"
  assumes n: "64 = n * LENGTH('a)"
    and g: "\<forall>d m. length d = length m \<longrightarrow> length (fst (g d m)) = length m \<and> length (snd (g d m)) = length m"
    and h: "\<forall>d m. length d = length m \<longrightarrow> (case g d m of (d', m') \<Rightarrow> h d' m' = (d, m))"
    and r: "in_Q rd env" "in_Q rm env" "distinct [rd, rd + 1, rm, rm + 1]"
  shows "res_bind (permute_Q g rd rm env) (permute_Q h rd rm) = Inr env"
proof -
  obtain d m where dm: "g (lanes_Q rd env) (lanes_Q rm env) = (d, m)" by fastforce
  have len: "length (lanes_D r e :: 'a word list) = n" "length (lanes_Q r e :: 'a word list) = 2 * n" for r e
    unfolding length_lanes n by simp_all
  have l: "length d = 2 * n" "length m = 2 * n"
    using g [rule_format, of "lanes_Q rd env" "lanes_Q rm env"] by (simp_all add: dm len)
  have ne: "rd + 1 \<noteq> rm" "rd \<noteq> rm" "rd \<noteq> rm + 1" "rm \<noteq> rd" "rm \<noteq> rd + 1" "rm + 1 \<noteq> rd" using r(3) by auto
  define env' where "env' = put_Q rd d (put_Q rm m env)"
  have "lanes_Q rd env' = d" "lanes_Q rm env' = m"
    using n r l ne by (simp_all add: env'_def lanes_Q_def put_Q_def lanes_put_D in_Q_def)
  moreover have "h d m = (lanes_Q rd env, lanes_Q rm env)"
    using h [rule_format, of "lanes_Q rd env" "lanes_Q rm env"] by (simp add: dm len)
  moreover have "put_Q rd (lanes_Q rd env :: 'a word list) (put_Q rm (lanes_Q rm env :: 'a word list) env') = env"
    using r ne by (simp add: env'_def put_Q_def len lanes_Q_def in_Q_def put_D_swap [of rm rd] put_D_swap [of "rm + 1" rd]
        put_D_swap [of rm "rd + 1"] put_D_swap [of "rm + 1" "rd + 1"] put_D_swap [of "rd + 1" rd] put_D_swap [of "rm + 1" rm] put_D_twice put_D_same [OF _ n])
  ultimately show ?thesis using r by (simp add: permute_Q_def dm env'_def)
qed

lemma lane_laws:
  "\<forall>d m. length d = length m \<longrightarrow> length (fst (zip_lanes d m)) = length m \<and> length (snd (zip_lanes d m)) = length m"
  "\<forall>d m. length d = length m \<longrightarrow> length (fst (unzip_lanes d m)) = length m \<and> length (snd (unzip_lanes d m)) = length m"
  "\<forall>d m. length d = length m \<longrightarrow> (case zip_lanes d m of (d', m') \<Rightarrow> unzip_lanes d' m' = (d, m))"
  "\<forall>d m. length d = length m \<longrightarrow> (case unzip_lanes d m of (d', m') \<Rightarrow> zip_lanes d' m' = (d, m))"
  using lanes_lengths unzip_zip_lanes by blast+

lemmas zip_Q_inverse = permute_Q_inverse [OF _ lane_laws(1) lane_laws(3)] permute_Q_inverse [OF _ lane_laws(2) lane_laws(4)]

lemmas zip_D_inverse = permute_D_inverse [OF _ lane_laws(1) lane_laws(3)] permute_D_inverse [OF _ lane_laws(2) lane_laws(4)]

text \<open>
  C34. Unzipping undoes zipping and zipping undoes unzipping, the state being exactly restored: for any
  two disjoint quad registers of the file and every lane width, and for any two distinct double
  registers of the file, adjacent ones and the last one included, and every lane width.
\<close>

theorem neon_zip_unzip_roundtrip:
  "(in_Q rd env \<and> in_Q rm env \<and> distinct [rd, rd + 1, rm, rm + 1] \<longrightarrow>
      res_bind (neon_qzip8 rd rm env) (neon_qunzip8 rd rm) = Inr env \<and>
      res_bind (neon_qunzip8 rd rm env) (neon_qzip8 rd rm) = Inr env \<and>
      res_bind (neon_qzip16 rd rm env) (neon_qunzip16 rd rm) = Inr env \<and>
      res_bind (neon_qunzip16 rd rm env) (neon_qzip16 rd rm) = Inr env \<and>
      res_bind (neon_qzip32 rd rm env) (neon_qunzip32 rd rm) = Inr env \<and>
      res_bind (neon_qunzip32 rd rm env) (neon_qzip32 rd rm) = Inr env) \<and>
   (in_D rd env \<and> in_D rm env \<and> rd \<noteq> rm \<longrightarrow>
      res_bind (neon_zip8 rd rm env) (neon_unzip8 rd rm) = Inr env \<and>
      res_bind (neon_unzip8 rd rm env) (neon_zip8 rd rm) = Inr env \<and>
      res_bind (neon_zip16 rd rm env) (neon_unzip16 rd rm) = Inr env \<and>
      res_bind (neon_unzip16 rd rm env) (neon_zip16 rd rm) = Inr env)"
proof -
  have f: "neon_qunzip8 rd rm = permute_Q (unzip_lanes :: u8 list \<Rightarrow> _) rd rm" "neon_qzip8 rd rm = permute_Q (zip_lanes :: u8 list \<Rightarrow> _) rd rm"
    "neon_qunzip16 rd rm = permute_Q (unzip_lanes :: u16 list \<Rightarrow> _) rd rm" "neon_qzip16 rd rm = permute_Q (zip_lanes :: u16 list \<Rightarrow> _) rd rm"
    "neon_qunzip32 rd rm = permute_Q (unzip_lanes :: u32 list \<Rightarrow> _) rd rm" "neon_qzip32 rd rm = permute_Q (zip_lanes :: u32 list \<Rightarrow> _) rd rm"
    "neon_unzip8 rd rm = permute_D (unzip_lanes :: u8 list \<Rightarrow> _) rd rm" "neon_zip8 rd rm = permute_D (zip_lanes :: u8 list \<Rightarrow> _) rd rm"
    "neon_unzip16 rd rm = permute_D (unzip_lanes :: u16 list \<Rightarrow> _) rd rm" "neon_zip16 rd rm = permute_D (zip_lanes :: u16 list \<Rightarrow> _) rd rm"
    by (rule ext, simp only: zip_helper_lanes)+
  have w: "64 = 8 * LENGTH(8)" "64 = 4 * LENGTH(16)" "64 = 2 * LENGTH(32)" by simp_all
  show ?thesis unfolding f
    by (intro conjI impI; elim conjE;
        rule zip_Q_inverse [OF w(1)] zip_Q_inverse [OF w(2)] zip_Q_inverse [OF w(3)] zip_D_inverse [OF w(1)] zip_D_inverse [OF w(2)];
        assumption)
qed

text \<open>The quad registers \<^verbatim>\<open>q1\<close> and \<^verbatim>\<open>q2\<close> and the adjacent double registers \<^verbatim>\<open>d4\<close> and \<^verbatim>\<open>d5\<close>, holding distinct lanes\<close>

definition zip_env :: neon_env where
  "zip_env = \<lparr>fpscr = 0, vfp_regs = [0, 0, 0x0706050403020100, 0x0f0e0d0c0b0a0908, 0x1716151413121110, 0x1f1e1d1c1b1a1918]\<rparr>"

theorem neon_zip_unzip_roundtrip_witness:
  "res_bind (neon_qzip8 2 4 zip_env) (neon_qunzip8 2 4) = Inr zip_env \<and>
   res_bind (neon_zip8 4 5 zip_env) (neon_unzip8 4 5) = Inr zip_env"
proof -
  have "in_Q 2 zip_env" "in_Q 4 zip_env" "in_D 4 zip_env" "in_D 5 zip_env"
    by (simp_all add: zip_env_def in_Q_def in_D_def)
  then show ?thesis using neon_zip_unzip_roundtrip [of 2 zip_env 4] neon_zip_unzip_roundtrip [of 4 zip_env 5] by simp
qed

end
