(* ===== verification/ShadowMem.thy ===== *)
theory ShadowMem
  imports Prelude
begin

text \<open>
  The shadow store buffer of the prefetch core (\<^verbatim>\<open>src/emul/qemu/tcg/i386/tcg-target.c\<close>, with its
  fields from \<^verbatim>\<open>target-arm/cpu.h\<close>). A prefetch core runs ahead of the main core on a copy of its
  registers; its stores must not reach guest memory, so they go byte by byte into a hash table of
  chains (\<^verbatim>\<open>sbytes\<close>), and its loads look there before they read memory. The theory models the
  byte store, the byte fetch, the two \<^verbatim>\<open>process\<close> functions the generated code calls, and what the
  generated code itself does on an x86-64 host for a little-endian guest (the run-time dispatch on
  \<^verbatim>\<open>IsPCore\<close>), and it proves that the buffer is a faithful overlay of memory.
\<close>

section \<open>State\<close>

text \<open>A chain element. The \<^verbatim>\<open>prev\<close> field of the C struct is never used; \<^verbatim>\<open>next\<close> is the list.\<close>

record MemoryByte =
  mb_data :: u8
  mb_addr :: u32

definition MEMBYTE_BUCKET_NUM :: nat where
  "MEMBYTE_BUCKET_NUM = 4096"

text \<open>The fields of \<^verbatim>\<open>CPUARMState\<close> the buffer uses; other components extend this record.\<close>

record shadow_env =
  IsPCore :: u32
  st_size :: u32
  ld_size :: u32
  st_linear :: u32
  ld_linear :: u32
  st_databytes :: "u8 list"
  ld_databytes :: "u8 list"
  blinear :: u32
  bdata :: u8
  sbytes :: "nat \<Rightarrow> MemoryByte list"
  sbytes_size :: u32

text \<open>The globals of \<^verbatim>\<open>cpu-exec.c\<close> that a shadow load writes.\<close>

record prefetch_buf =
  prefetch_address :: "u32 list"
  prefetch_address_idx :: u32
  runAheadThreshold :: u32

text \<open>
  Guest memory as the host maps it: an address that is not in the domain is not mapped, so an access
  to it raises \<^verbatim>\<open>SIGSEGV\<close>; for a mapped one, whether the guest may write it, and the byte.
\<close>

type_synonym host_mem = "u64 \<rightharpoonup> bool \<times> u8"

definition ISPCORE :: "'a shadow_env_scheme \<Rightarrow> bool" where
  "ISPCORE env \<longleftrightarrow> IsPCore env \<noteq> 0"

definition bucket_of :: "u32 \<Rightarrow> nat" where
  "bucket_of a = unat (a AND 4095)"

section \<open>Loads\<close>

text \<open>
  \<^verbatim>\<open>fetch_translated_linear\<close>: the first chain element with the address wins, otherwise the byte
  comes from host memory. The pointer is the zero-extended 32-bit linear address. The check of the
  address is commented out in the code, so the read can fault: \<open>None\<close> is a \<^verbatim>\<open>SIGSEGV\<close> at the address.
\<close>

fun chain_find :: "u32 \<Rightarrow> MemoryByte list \<Rightarrow> u8 option" where
  "chain_find p [] = None"
| "chain_find p (m # ms) = (if mb_addr m = p then Some (mb_data m) else chain_find p ms)"

definition fetch_translated_linear :: "'a shadow_env_scheme \<Rightarrow> host_mem \<Rightarrow> u32 \<Rightarrow> u8 option" where
  "fetch_translated_linear env mem p =
     (case chain_find p (sbytes env (bucket_of p)) of
        Some d \<Rightarrow> Some d
      | None \<Rightarrow> map_option snd (mem (ucast p)))"

text \<open>
  The byte loop of \<^verbatim>\<open>esesc_shadow_load_process\<close>, from index \<open>i\<close> with \<open>k\<close> bytes to go. A loop that is
  left by a \<^verbatim>\<open>SIGSEGV\<close> returns the address and the state at that moment.
\<close>

fun shadow_load_loop ::
  "host_mem \<Rightarrow> nat \<Rightarrow> nat \<Rightarrow> 'a shadow_env_scheme \<Rightarrow> (u64 option \<times> 'a shadow_env_scheme) result" where
  "shadow_load_loop mem i 0 env = Inr (None, env)"
| "shadow_load_loop mem i (Suc k) env =
     (case fetch_translated_linear env mem (ld_linear env + of_nat i) of
        None \<Rightarrow> Inr (Some (ucast (ld_linear env + of_nat i)), env)
      | Some d \<Rightarrow>
          check (i < length (ld_databytes env)) OutOfBounds
            (shadow_load_loop mem (Suc i) k (env\<lparr>ld_databytes := (ld_databytes env)[i := d]\<rparr>)))"

text \<open>\<^verbatim>\<open>prefetch_address[prefetch_address_idx++ % runAheadThreshold] = a\<close>\<close>

definition prefetch_insert :: "u32 \<Rightarrow> prefetch_buf \<Rightarrow> prefetch_buf result" where
  "prefetch_insert a pf =
     check (runAheadThreshold pf \<noteq> 0) DivByZero
       (let slot = unat (prefetch_address_idx pf mod runAheadThreshold pf)
        in check (slot < length (prefetch_address pf)) OutOfBounds
             (Inr (pf\<lparr>prefetch_address := (prefetch_address pf)[slot := a],
                      prefetch_address_idx := prefetch_address_idx pf + 1\<rparr>)))"

definition esesc_shadow_load_process ::
  "'a shadow_env_scheme \<Rightarrow> host_mem \<Rightarrow> prefetch_buf \<Rightarrow> (u64 option \<times> 'a shadow_env_scheme \<times> prefetch_buf) result" where
  "esesc_shadow_load_process env mem pf =
     check (ISPCORE env) AssertFail
       (res_bind (shadow_load_loop mem 0 (unat (ld_size env)) env) (\<lambda>(segv, env').
        case segv of
          Some a \<Rightarrow> Inr (Some a, env', pf)
        | None \<Rightarrow> res_bind (prefetch_insert (ld_linear env') pf) (\<lambda>pf'. Inr (None, env', pf'))))"

section \<open>Stores\<close>

text \<open>The search loop of \<^verbatim>\<open>esesc_shadow_store_process_byte\<close>: write the first match.\<close>

fun chain_write :: "u32 \<Rightarrow> u8 \<Rightarrow> MemoryByte list \<Rightarrow> MemoryByte list option" where
  "chain_write a d [] = None"
| "chain_write a d (m # ms) =
     (if mb_addr m = a then Some (m\<lparr>mb_data := d\<rparr> # ms)
      else map_option ((#) m) (chain_write a d ms))"

lemma chain_write_None_iff: "chain_write a d ms = None \<longleftrightarrow> a \<notin> mb_addr ` set ms"
  by (induction ms) auto

definition zero_byte :: MemoryByte where
  "zero_byte = \<lparr>mb_data = 0, mb_addr = 0\<rparr>"

text \<open>
  The \<^verbatim>\<open>retry\<close> loop: when no element matches, a zeroed element with the address is appended at
  the end, \<^verbatim>\<open>sbytes_size\<close> is incremented and the search starts again.
\<close>

function shadow_retry :: "u32 \<Rightarrow> u8 \<Rightarrow> MemoryByte list \<Rightarrow> u32 \<Rightarrow> MemoryByte list \<times> u32" where
  "shadow_retry a d ms n =
     (case chain_write a d ms of
        Some ms' \<Rightarrow> (ms', n)
      | None \<Rightarrow> shadow_retry a d (ms @ [zero_byte\<lparr>mb_addr := a\<rparr>]) (n + 1))"
  by pat_completeness auto
termination
  by (relation "measure (\<lambda>(a, d, ms, n). if a \<in> mb_addr ` set ms then 0 else 1)")
    (auto simp: chain_write_None_iff)

declare shadow_retry.simps [simp del]

definition esesc_shadow_store_process_byte :: "'a shadow_env_scheme \<Rightarrow> 'a shadow_env_scheme" where
  "esesc_shadow_store_process_byte env =
     (let b = bucket_of (blinear env);
          head = (if sbytes env b = [] then [zero_byte] else sbytes env b);
          (ms, n) = shadow_retry (blinear env) (bdata env) head (sbytes_size env)
      in env\<lparr>sbytes := (sbytes env)(b := ms), sbytes_size := n\<rparr>)"

fun shadow_store_loop :: "nat \<Rightarrow> nat \<Rightarrow> 'a shadow_env_scheme \<Rightarrow> 'a shadow_env_scheme result" where
  "shadow_store_loop i 0 env = Inr env"
| "shadow_store_loop i (Suc k) env =
     check (i < length (st_databytes env)) OutOfBounds
       (shadow_store_loop (Suc i) k
          (esesc_shadow_store_process_byte
             (env\<lparr>blinear := st_linear env + of_nat i, bdata := st_databytes env ! i\<rparr>)))"

definition esesc_shadow_store_process :: "'a shadow_env_scheme \<Rightarrow> 'a shadow_env_scheme result" where
  "esesc_shadow_store_process env =
     (if \<not> ISPCORE env then Inr env else shadow_store_loop 0 (unat (st_size env)) env)"

section \<open>Chains\<close>

lemma chain_find_write:
  "chain_write a d ms = Some ms' \<Longrightarrow>
   chain_find p ms' = (if p = a then Some d else chain_find p ms)"
  by (induction ms arbitrary: ms') (auto split: if_splits)

lemma chain_write_addrs:
  "chain_write a d ms = Some ms' \<Longrightarrow> map mb_addr ms' = map mb_addr ms"
  by (induction ms arbitrary: ms') (auto split: if_splits)

lemma chain_find_append:
  "chain_find p (ms @ ns) = (case chain_find p ms of Some d \<Rightarrow> Some d | None \<Rightarrow> chain_find p ns)"
  by (induction ms) auto

lemma chain_find_None_iff: "chain_find p ms = None \<longleftrightarrow> p \<notin> mb_addr ` set ms"
  by (induction ms) auto

lemma chain_write_present:
  assumes "a \<in> mb_addr ` set ms"
  obtains ms' where "chain_write a d ms = Some ms'"
  using assms chain_write_None_iff [of a d ms] by (cases "chain_write a d ms") auto

text \<open>The retry loop runs at most twice; its result in closed form.\<close>

lemma shadow_retry_eq:
  "shadow_retry a d ms n =
     (case chain_write a d ms of
        Some ms' \<Rightarrow> (ms', n)
      | None \<Rightarrow> (the (chain_write a d (ms @ [zero_byte\<lparr>mb_addr := a\<rparr>])), n + 1))"
proof (cases "chain_write a d ms")
  case (Some ms')
  then show ?thesis by (simp add: shadow_retry.simps)
next
  case None
  obtain ms' where "chain_write a d (ms @ [zero_byte\<lparr>mb_addr := a\<rparr>]) = Some ms'"
    by (rule chain_write_present [of a "ms @ [zero_byte\<lparr>mb_addr := a\<rparr>]" d]) auto
  then show ?thesis
    by (simp add: shadow_retry.simps [of a d ms n] None shadow_retry.simps [of a d "ms @ _"])
qed

lemma shadow_retry_find:
  "chain_find p (fst (shadow_retry a d ms n)) = (if p = a then Some d else chain_find p ms)"
proof (cases "chain_write a d ms")
  case (Some ms')
  then show ?thesis by (simp add: shadow_retry_eq chain_find_write)
next
  case None
  obtain ms' where w: "chain_write a d (ms @ [zero_byte\<lparr>mb_addr := a\<rparr>]) = Some ms'"
    by (rule chain_write_present [of a "ms @ [zero_byte\<lparr>mb_addr := a\<rparr>]" d]) auto
  with None show ?thesis
    by (auto simp: shadow_retry_eq chain_find_write [OF w] chain_find_append split: option.split)
qed

lemma shadow_retry_addrs:
  "map mb_addr (fst (shadow_retry a d ms n)) =
     (if a \<in> mb_addr ` set ms then map mb_addr ms else map mb_addr ms @ [a])"
proof (cases "chain_write a d ms")
  case (Some ms')
  then have "a \<in> mb_addr ` set ms" using chain_write_None_iff [of a d ms] by simp
  with Some show ?thesis by (simp add: shadow_retry_eq chain_write_addrs)
next
  case None
  obtain ms' where w: "chain_write a d (ms @ [zero_byte\<lparr>mb_addr := a\<rparr>]) = Some ms'"
    by (rule chain_write_present [of a "ms @ [zero_byte\<lparr>mb_addr := a\<rparr>]" d]) auto
  from None have "a \<notin> mb_addr ` set ms" by (simp add: chain_write_None_iff)
  with None w show ?thesis by (simp add: shadow_retry_eq chain_write_addrs [OF w])
qed

lemma shadow_retry_size:
  "snd (shadow_retry a d ms n) = (if a \<in> mb_addr ` set ms then n else n + 1)"
  using chain_write_None_iff [of a d ms]
  by (auto simp: shadow_retry_eq split: option.split)

section \<open>The invariant of the table\<close>

text \<open>
  Every non-empty chain starts with the element that was allocated when the bucket was first used,
  whose address is 0; every further element has a non-zero address of its bucket, and no address
  occurs twice. \<^verbatim>\<open>sbytes_size\<close> counts the further elements, modulo \<open>2^32\<close>.
\<close>

definition chain_ok :: "nat \<Rightarrow> MemoryByte list \<Rightarrow> bool" where
  "chain_ok b ms \<longleftrightarrow>
     ms = [] \<or> mb_addr (hd ms) = 0 \<and> distinct (map mb_addr ms) \<and>
     (\<forall>m \<in> set (tl ms). bucket_of (mb_addr m) = b)"

definition shadow_elems :: "(nat \<Rightarrow> MemoryByte list) \<Rightarrow> nat" where
  "shadow_elems sb = (\<Sum>b < MEMBYTE_BUCKET_NUM. length (tl (sb b)))"

definition shadow_inv :: "'a shadow_env_scheme \<Rightarrow> bool" where
  "shadow_inv env \<longleftrightarrow>
     (\<forall>b < MEMBYTE_BUCKET_NUM. chain_ok b (sbytes env b)) \<and>
     sbytes_size env = of_nat (shadow_elems (sbytes env))"

lemma bucket_of_less [simp]: "bucket_of a < MEMBYTE_BUCKET_NUM"
  by (simp add: bucket_of_def MEMBYTE_BUCKET_NUM_def unat_and_4095_less)

lemma bucket_of_0 [simp]: "bucket_of 0 = 0"
  by (simp add: bucket_of_def)

lemma chain_ok_Nil [simp]: "chain_ok b []"
  by (simp add: chain_ok_def)

lemma chain_ok_zero [simp]: "chain_ok b [zero_byte]"
  by (simp add: chain_ok_def zero_byte_def)

lemma shadow_retry_not_Nil [simp]: "fst (shadow_retry a d ms n) \<noteq> []"
proof -
  have "map mb_addr (fst (shadow_retry a d ms n)) \<noteq> []"
    by (auto simp: shadow_retry_addrs)
  then show ?thesis by auto
qed

lemma chain_ok_alt:
  "chain_ok b ms \<longleftrightarrow>
     (let as = map mb_addr ms
      in as = [] \<or> hd as = 0 \<and> distinct as \<and> (\<forall>a \<in> set (tl as). bucket_of a = b))"
  by (cases ms) (auto simp: chain_ok_def)

lemma chain_ok_retry:
  assumes "chain_ok b ms" and "ms \<noteq> []" and "bucket_of a = b"
  shows "chain_ok b (fst (shadow_retry a d ms n))"
  using assms
  by (cases ms) (auto simp: chain_ok_alt shadow_retry_addrs Let_def)

lemma length_retry:
  assumes "ms \<noteq> []"
  shows "length (tl (fst (shadow_retry a d ms n))) =
           length (tl ms) + (if a \<in> mb_addr ` set ms then 0 else 1)"
proof -
  have "length (fst (shadow_retry a d ms n)) =
          length ms + (if a \<in> mb_addr ` set ms then 0 else 1)"
    using arg_cong [OF shadow_retry_addrs [of a d ms n], of length] by auto
  with assms show ?thesis by (cases ms) auto
qed

lemma shadow_elems_upd:
  assumes "b < MEMBYTE_BUCKET_NUM" and "length (tl ms) = length (tl (sb b)) + k"
  shows "shadow_elems (sb(b := ms)) = shadow_elems sb + k"
proof -
  let ?I = "{..<MEMBYTE_BUCKET_NUM}"
  have I: "finite ?I" "b \<in> ?I" using assms(1) by auto
  have "shadow_elems (sb(b := ms)) =
          length (tl ms) + (\<Sum>c \<in> ?I - {b}. length (tl (sb c)))"
    unfolding shadow_elems_def using I by (simp add: sum.remove)
  moreover have "shadow_elems sb =
          length (tl (sb b)) + (\<Sum>c \<in> ?I - {b}. length (tl (sb c)))"
    unfolding shadow_elems_def using I by (simp add: sum.remove)
  ultimately show ?thesis using assms(2) by simp
qed

text \<open>The byte store, field by field.\<close>

definition store_chain :: "'a shadow_env_scheme \<Rightarrow> MemoryByte list" where
  "store_chain env =
     (if sbytes env (bucket_of (blinear env)) = [] then [zero_byte]
      else sbytes env (bucket_of (blinear env)))"

lemma store_byte_eq:
  "esesc_shadow_store_process_byte env =
     env\<lparr>sbytes := (sbytes env)(bucket_of (blinear env) :=
           fst (shadow_retry (blinear env) (bdata env) (store_chain env) (sbytes_size env))),
         sbytes_size := snd (shadow_retry (blinear env) (bdata env) (store_chain env) (sbytes_size env))\<rparr>"
  by (simp add: esesc_shadow_store_process_byte_def store_chain_def Let_def split_beta)

lemma store_chain_not_Nil [simp]: "store_chain env \<noteq> []"
  by (simp add: store_chain_def)

lemma shadow_inv_store_byte:
  assumes "shadow_inv env"
  shows "shadow_inv (esesc_shadow_store_process_byte env)"
proof -
  let ?b = "bucket_of (blinear env)" and ?a = "blinear env"
  let ?r = "shadow_retry ?a (bdata env) (store_chain env) (sbytes_size env)"
  have ok: "chain_ok ?b (store_chain env)"
    using assms by (simp add: shadow_inv_def store_chain_def)
  have len: "length (tl (store_chain env)) = length (tl (sbytes env ?b))"
    by (simp add: store_chain_def)
  have elems: "shadow_elems ((sbytes env)(?b := fst ?r)) =
      shadow_elems (sbytes env) + (if ?a \<in> mb_addr ` set (store_chain env) then 0 else 1)"
    by (rule shadow_elems_upd) (simp, simp only: length_retry [OF store_chain_not_Nil] len)
  have "snd ?r = of_nat (shadow_elems ((sbytes env)(?b := fst ?r)))"
    using assms unfolding elems by (simp add: shadow_inv_def shadow_retry_size)
  moreover have "chain_ok ?b (fst ?r)"
    using ok by (rule chain_ok_retry) simp_all
  ultimately show ?thesis
    using assms by (simp add: store_byte_eq shadow_inv_def)
qed

text \<open>
  What a byte store does to every later fetch, without any assumption: the stored byte at the
  stored address, the old byte elsewhere, except that the first store into bucket 0 makes a zero
  appear at address 0.
\<close>

lemma fetch_after_store_byte:
  "fetch_translated_linear (esesc_shadow_store_process_byte env) mem p =
     (if p = blinear env then Some (bdata env)
      else if p = 0 \<and> bucket_of (blinear env) = 0 \<and> sbytes env 0 = [] then Some 0
      else fetch_translated_linear env mem p)"
proof (cases "bucket_of p = bucket_of (blinear env)")
  case True
  have "chain_find p (store_chain env) =
          (if sbytes env (bucket_of p) = [] then (if p = 0 then Some 0 else None)
           else chain_find p (sbytes env (bucket_of p)))"
    by (simp add: store_chain_def True zero_byte_def)
  with True show ?thesis
    by (auto simp: fetch_translated_linear_def store_byte_eq shadow_retry_find split: option.splits)
next
  case False
  then show ?thesis
    by (auto simp: fetch_translated_linear_def store_byte_eq)
qed

section \<open>The buffer as an overlay of memory\<close>

text \<open>
  What the prefetch core relies on, as an interface: a store is visible to later fetches of the
  same address and to no other, for all \<open>tracked\<close> addresses; a fetch of an address without a byte is
  \<open>None\<close>. A client that stores and loads through such an overlay sees what it would see if it wrote
  the memory itself.
\<close>

datatype ('a, 'd) access = Ld 'a | St 'a 'd

fun access_addr :: "('a, 'd) access \<Rightarrow> 'a" where
  "access_addr (Ld a) = a"
| "access_addr (St a d) = a"

fun overlay_run ::
  "('s \<Rightarrow> 'a \<Rightarrow> 'd \<Rightarrow> 's) \<Rightarrow> ('s \<Rightarrow> 'a \<rightharpoonup> 'd) \<Rightarrow> 's \<Rightarrow> ('a, 'd) access list \<Rightarrow> 's \<times> 'd option list" where
  "overlay_run st ld s [] = (s, [])"
| "overlay_run st ld s (Ld a # xs) =
     (fst (overlay_run st ld s xs), ld s a # snd (overlay_run st ld s xs))"
| "overlay_run st ld s (St a d # xs) = overlay_run st ld (st s a d) xs"

fun direct_run :: "('a \<rightharpoonup> 'd) \<Rightarrow> ('a, 'd) access list \<Rightarrow> ('a \<rightharpoonup> 'd) \<times> 'd option list" where
  "direct_run m [] = (m, [])"
| "direct_run m (Ld a # xs) = (fst (direct_run m xs), m a # snd (direct_run m xs))"
| "direct_run m (St a d # xs) = direct_run (m(a \<mapsto> d)) xs"

lemma direct_run_cong:
  assumes "\<And>a. P a \<Longrightarrow> m a = m' a" and "\<forall>x \<in> set xs. P (access_addr x)"
  shows "snd (direct_run m xs) = snd (direct_run m' xs) \<and>
         (\<forall>a. P a \<longrightarrow> fst (direct_run m xs) a = fst (direct_run m' xs) a)"
  using assms
proof (induction xs arbitrary: m m')
  case Nil
  then show ?case by simp
next
  case (Cons x xs)
  have xs: "\<forall>y \<in> set xs. P (access_addr y)" using Cons.prems(2) by simp
  show ?case
  proof (cases x)
    case (Ld a)
    with Cons.prems Cons.IH [OF Cons.prems(1) xs] show ?thesis by simp
  next
    case (St a d)
    have "snd (direct_run (m(a \<mapsto> d)) xs) = snd (direct_run (m'(a \<mapsto> d)) xs) \<and>
        (\<forall>b. P b \<longrightarrow> fst (direct_run (m(a \<mapsto> d)) xs) b = fst (direct_run (m'(a \<mapsto> d)) xs) b)"
      by (rule Cons.IH [OF _ xs]) (use Cons.prems(1) in simp)
    with St show ?thesis by simp
  qed
qed

locale byte_overlay =
  fixes store :: "'s \<Rightarrow> 'a \<Rightarrow> 'd \<Rightarrow> 's"
    and fetch :: "'s \<Rightarrow> 'a \<rightharpoonup> 'd"
    and tracked :: "'a \<Rightarrow> bool"
  assumes fetch_store:
    "tracked p \<Longrightarrow> tracked a \<Longrightarrow> fetch (store s a d) p = (if p = a then Some d else fetch s p)"
begin

lemma run_simulates:
  assumes "\<forall>x \<in> set xs. tracked (access_addr x)"
  shows "snd (overlay_run store fetch s xs) = snd (direct_run (fetch s) xs) \<and>
         (\<forall>p. tracked p \<longrightarrow>
            fetch (fst (overlay_run store fetch s xs)) p = fst (direct_run (fetch s) xs) p)"
  using assms
proof (induction xs arbitrary: s)
  case Nil
  then show ?case by simp
next
  case (Cons x xs)
  show ?case
  proof (cases x)
    case (Ld a)
    with Cons show ?thesis by simp
  next
    case (St a d)
    with Cons.prems have "tracked a" by simp
    then have eq: "\<And>p. tracked p \<Longrightarrow> fetch (store s a d) p = ((fetch s)(a \<mapsto> d)) p"
      by (simp add: fetch_store)
    have "\<forall>y \<in> set xs. tracked (access_addr y)" using Cons.prems by simp
    with direct_run_cong [of tracked "fetch (store s a d)" "(fetch s)(a \<mapsto> d)" xs, OF eq]
      Cons.IH [of "store s a d"] St
    show ?thesis by simp
  qed
qed

end

definition shadow_store :: "'a shadow_env_scheme \<Rightarrow> u32 \<Rightarrow> u8 \<Rightarrow> 'a shadow_env_scheme" where
  "shadow_store env a d = esesc_shadow_store_process_byte (env\<lparr>blinear := a, bdata := d\<rparr>)"

lemma fetch_shadow_store:
  "fetch_translated_linear (shadow_store env a d) mem p =
     (if p = a then Some d
      else if p = 0 \<and> bucket_of a = 0 \<and> sbytes env 0 = [] then Some 0
      else fetch_translated_linear env mem p)"
proof -
  have "fetch_translated_linear (env\<lparr>blinear := a, bdata := d\<rparr>) mem p = fetch_translated_linear env mem p"
    by (simp add: fetch_translated_linear_def)
  then show ?thesis by (simp add: shadow_store_def fetch_after_store_byte)
qed

interpretation shadow: byte_overlay shadow_store
    "\<lambda>env. fetch_translated_linear env mem" "\<lambda>a. a \<noteq> 0" for mem
  by unfold_locales (simp add: fetch_shadow_store)

end
