(* ===== verification/GuestAccess.thy ===== *)
theory GuestAccess
  imports ShadowMem
begin

text \<open>
  What the code generated for guest loads and stores does at run time
  (\<^verbatim>\<open>tcg_out_qemu_ld_shadow\<close>, \<^verbatim>\<open>tcg_out_qemu_ld_direct\<close>, \<^verbatim>\<open>tcg_out_qemu_st_shadow\<close> and
  \<^verbatim>\<open>tcg_out_qemu_st_direct\<close> of \<^verbatim>\<open>src/emul/qemu/tcg/i386/tcg-target.c\<close>), for an x86-64 host
  (\<^verbatim>\<open>TCG_TARGET_REG_BITS == 64\<close>), user-mode emulation and a little-endian guest. The emitted code
  compares \<^verbatim>\<open>IsPCore\<close> with 0: the main core goes straight to host memory, the prefetch core fills
  the \<^verbatim>\<open>ld_\<close>/\<^verbatim>\<open>st_\<close> fields and calls the shadow buffer. A \<^verbatim>\<open>sizeop\<close> holds the logarithm of the
  width in its low two bits and asks for sign extension with bit 2. The model takes the values of the
  base and data registers as arguments: it speaks of operands that live outside \<^verbatim>\<open>RDI\<close>, \<^verbatim>\<open>RSI\<close> and
  \<^verbatim>\<open>RDX\<close>, the registers the emitted test of \<^verbatim>\<open>IsPCore\<close> overwrites, and leaves out the encodings.
\<close>

section \<open>Bytes and words\<close>

fun le_word :: "u8 list \<Rightarrow> u64" where
  "le_word [] = 0"
| "le_word (b # bs) = ucast b OR push_bit 8 (le_word bs)"

definition le_bytes :: "nat \<Rightarrow> u64 \<Rightarrow> u8 list" where
  "le_bytes n w = map (\<lambda>i. ucast (drop_bit (8 * i) w)) [0..<n]"

definition readable :: "host_mem \<Rightarrow> u64 \<Rightarrow> bool" where
  "readable mem a \<longleftrightarrow> mem a \<noteq> None"

definition writable :: "host_mem \<Rightarrow> u64 \<Rightarrow> bool" where
  "writable mem a \<longleftrightarrow> (case mem a of Some (w, b) \<Rightarrow> w | None \<Rightarrow> False)"

text \<open>
  The address that an access of \<open>n\<close> bytes at \<open>a\<close> faults at: the first byte that the access is not allowed
  for. A store that faults writes nothing.
\<close>

definition host_segv :: "(u64 \<Rightarrow> bool) \<Rightarrow> u64 \<Rightarrow> nat \<Rightarrow> u64 option" where
  "host_segv allowed a n = List.find (\<lambda>p. \<not> allowed p) (map (\<lambda>i. a + of_nat i) [0..<n])"

definition host_load :: "host_mem \<Rightarrow> u64 \<Rightarrow> nat \<Rightarrow> u8 list" where
  "host_load mem a n = map (\<lambda>i. snd (the (mem (a + of_nat i)))) [0..<n]"

definition host_store :: "host_mem \<Rightarrow> u64 \<Rightarrow> u8 list \<Rightarrow> host_mem" where
  "host_store mem a bs = fold (\<lambda>i m. m(a + of_nat i \<mapsto> (True, bs ! i))) [0..<length bs] mem"

lemma length_host_load [simp]: "length (host_load mem a n) = n"
  by (simp add: host_load_def)

lemma length_le_bytes [simp]: "length (le_bytes n w) = n"
  by (simp add: le_bytes_def)

section \<open>Loads\<close>

text \<open>\<^verbatim>\<open>MOVZBL\<close>, \<^verbatim>\<open>MOVSBL\<close>, \<^verbatim>\<open>MOVZWL\<close>, \<^verbatim>\<open>MOVSWL\<close>, a 32-bit load, \<^verbatim>\<open>MOVSLQ\<close>, a 64-bit load\<close>

definition ld_extend :: "nat \<Rightarrow> u64 \<Rightarrow> u64" where
  "ld_extend sizeop w =
     (if sizeop = 4 then signed_take_bit 7 w
      else if sizeop = 5 then signed_take_bit 15 w
      else if sizeop = 6 then signed_take_bit 31 w
      else w)"

definition ld_width :: "nat \<Rightarrow> nat" where
  "ld_width sizeop = 2 ^ (sizeop AND 3)"

datatype host_read = Loaded u64 | Segv u64

text \<open>The load instruction itself\<close>

definition host_ld :: "nat \<Rightarrow> host_mem \<Rightarrow> u64 \<Rightarrow> host_read" where
  "host_ld sizeop mem a =
     (case host_segv (readable mem) a (ld_width sizeop) of
        Some p \<Rightarrow> Segv p
      | None \<Rightarrow> Loaded (ld_extend sizeop (le_word (host_load mem a (ld_width sizeop)))))"

definition qemu_ld_shadow ::
  "u64 \<Rightarrow> u64 \<Rightarrow> nat \<Rightarrow> 'a shadow_env_scheme \<Rightarrow> host_mem \<Rightarrow> prefetch_buf
   \<Rightarrow> (u64 option \<times> 'a shadow_env_scheme \<times> prefetch_buf) result" where
  "qemu_ld_shadow base ofs sizeop env mem pf =
     esesc_shadow_load_process
       (env\<lparr>ld_size := of_nat (ld_width sizeop), ld_linear := ucast (base + ofs)\<rparr>) mem pf"

definition qemu_ld_direct ::
  "nat \<Rightarrow> u64 \<Rightarrow> u64 \<Rightarrow> 'a shadow_env_scheme \<Rightarrow> host_mem \<Rightarrow> prefetch_buf
   \<Rightarrow> (host_read \<times> 'a shadow_env_scheme \<times> prefetch_buf) result" where
  "qemu_ld_direct sizeop base ofs env mem pf =
     (if sizeop \<notin> {0, 1, 2, 3, 4, 5, 6} then Inl AbortCall
      else if IsPCore env = 0 then Inr (host_ld sizeop mem (base + ofs), env, pf)
      else
        res_bind (qemu_ld_shadow base ofs sizeop env mem pf) (\<lambda>(segv, env', pf').
        Inr (case segv of
               Some a \<Rightarrow> Segv a
             | None \<Rightarrow> Loaded (ld_extend sizeop (le_word (take (ld_width sizeop) (ld_databytes env')))), env', pf')))"

section \<open>Stores\<close>

text \<open>
  The two 32-bit stores of \<^verbatim>\<open>datalo\<close> and \<^verbatim>\<open>datahi\<close> into \<^verbatim>\<open>st_databytes\<close>, then the call. For a
  width below 8 bytes \<^verbatim>\<open>datahi\<close> is whatever the register numbered 0 holds.
\<close>

definition qemu_st_shadow ::
  "u64 \<Rightarrow> u64 \<Rightarrow> u64 \<Rightarrow> u64 \<Rightarrow> nat \<Rightarrow> 'a shadow_env_scheme \<Rightarrow> 'a shadow_env_scheme result" where
  "qemu_st_shadow datalo datahi base ofs sizeop env =
     esesc_shadow_store_process
       (env\<lparr>st_size := of_nat (2 ^ sizeop),
            st_databytes := le_bytes 4 datalo @ le_bytes 4 datahi,
            st_linear := ucast (base + ofs)\<rparr>)"

text \<open>
  In the 64-bit case of an x86-64 host only the normal store is emitted: the displacement of the
  conditional jump taken by the prefetch core is never patched.
\<close>

definition qemu_st_direct ::
  "nat \<Rightarrow> u64 \<Rightarrow> u64 \<Rightarrow> u64 \<Rightarrow> u64 \<Rightarrow> 'a shadow_env_scheme \<Rightarrow> host_mem
   \<Rightarrow> (u64 option \<times> 'a shadow_env_scheme \<times> host_mem) result" where
  "qemu_st_direct sizeop datalo datahi base ofs env mem =
     (if sizeop \<notin> {0, 1, 2, 3} then Inl AbortCall
      else if IsPCore env = 0 then
        Inr (case host_segv (writable mem) (base + ofs) (2 ^ sizeop) of
               Some a \<Rightarrow> (Some a, env, mem)
             | None \<Rightarrow> (None, env, host_store mem (base + ofs) (le_bytes (2 ^ sizeop) datalo)))
      else if sizeop = 3 then Inl WildJump
      else
        res_bind (qemu_st_shadow datalo datahi base ofs sizeop env) (\<lambda>env'. Inr (None, env', mem)))"

section \<open>A run of guest accesses\<close>

datatype guest_access =
    GLoad nat u64 u64             \<comment> \<open>\<^verbatim>\<open>sizeop\<close>, base, offset\<close>
  | GStore nat u64 u64 u64 u64    \<comment> \<open>\<^verbatim>\<open>sizeop\<close>, low and high data, base, offset\<close>

text \<open>
  The loaded values, the fault that ended the run, if one did (whether by a write, and its address), and the
  state.
\<close>

fun guest_run ::
  "guest_access list \<Rightarrow> 'a shadow_env_scheme \<Rightarrow> host_mem \<Rightarrow> prefetch_buf
   \<Rightarrow> (u64 list \<times> (bool \<times> u64) option \<times> 'a shadow_env_scheme \<times> host_mem \<times> prefetch_buf) result" where
  "guest_run [] env mem pf = Inr ([], None, env, mem, pf)"
| "guest_run (GLoad sizeop base ofs # xs) env mem pf =
     res_bind (qemu_ld_direct sizeop base ofs env mem pf) (\<lambda>(r, env', pf').
     case r of
       Segv a \<Rightarrow> Inr ([], Some (False, a), env', mem, pf')
     | Loaded v \<Rightarrow> res_bind (guest_run xs env' mem pf') (\<lambda>(vs, r). Inr (v # vs, r)))"
| "guest_run (GStore sizeop lo hi base ofs # xs) env mem pf =
     res_bind (qemu_st_direct sizeop lo hi base ofs env mem) (\<lambda>(segv, env', mem').
     case segv of
       Some a \<Rightarrow> Inr ([], Some (True, a), env', mem', pf)
     | None \<Rightarrow> guest_run xs env' mem' pf)"

section \<open>Byte loops in closed form\<close>

lemma fetch_simps [simp]:
  "fetch_translated_linear (env\<lparr>ld_databytes := v\<rparr>) mem p = fetch_translated_linear env mem p"
  "fetch_translated_linear (env\<lparr>ld_size := n, ld_linear := a\<rparr>) mem p = fetch_translated_linear env mem p"
  "fetch_translated_linear (env\<lparr>st_size := n, st_databytes := bs, st_linear := a\<rparr>) mem p =
     fetch_translated_linear env mem p"
  by (simp_all add: fetch_translated_linear_def)

lemma shadow_load_loop_ok:
  assumes "i + k \<le> length (ld_databytes env)"
    and "\<And>j. i \<le> j \<Longrightarrow> j < i + k \<Longrightarrow> fetch_translated_linear env mem (ld_linear env + of_nat j) = Some (g j)"
  shows "shadow_load_loop mem i k env =
    Inr (None, env\<lparr>ld_databytes := take i (ld_databytes env) @ map g [i..<i + k] @ drop (i + k) (ld_databytes env)\<rparr>)"
  using assms
proof (induction k arbitrary: i env)
  case 0
  then show ?case by simp
next
  case (Suc k)
  have "[i..<i + Suc k] = i # [Suc i..<Suc i + k]"
    by (simp add: upt_conv_Cons del: upt_Suc)
  with Suc show ?case
    by (simp add: take_Suc_conv_app_nth take_update_cancel drop_update_cancel del: upt_Suc)
qed

lemma shadow_load_loop_segv:
  assumes "i + k \<le> length (ld_databytes env)" "i \<le> j" "j < i + k"
    and "\<And>l. i \<le> l \<Longrightarrow> l < j \<Longrightarrow> fetch_translated_linear env mem (ld_linear env + of_nat l) \<noteq> None"
    and "fetch_translated_linear env mem (ld_linear env + of_nat j) = None"
  shows "\<exists>v. length v = length (ld_databytes env) \<and>
    shadow_load_loop mem i k env = Inr (Some (ucast (ld_linear env + of_nat j)), env\<lparr>ld_databytes := v\<rparr>)"
  using assms
proof (induction k arbitrary: i env)
  case (Suc k)
  show ?case
  proof (cases "i = j")
    case True
    then show ?thesis using Suc.prems(5) by (auto intro!: exI [of _ "ld_databytes env"])
  next
    case False
    then obtain d where d: "fetch_translated_linear env mem (ld_linear env + of_nat i) = Some d"
      using Suc.prems(2) Suc.prems(4) [of i] by auto
    let ?e = "env\<lparr>ld_databytes := (ld_databytes env)[i := d]\<rparr>"
    have "\<exists>v. length v = length (ld_databytes ?e) \<and>
        shadow_load_loop mem (Suc i) k ?e = Inr (Some (ucast (ld_linear ?e + of_nat j)), ?e\<lparr>ld_databytes := v\<rparr>)"
      by (rule Suc.IH) (use Suc.prems False in auto)
    then show ?thesis using d Suc.prems(1) by auto
  qed
qed simp

lemma store_byte_frame [simp]:
  "ld_databytes (shadow_store env a d) = ld_databytes env"
  "st_databytes (shadow_store env a d) = st_databytes env"
  "st_linear (shadow_store env a d) = st_linear env"
  "IsPCore (shadow_store env a d) = IsPCore env"
  by (simp_all add: shadow_store_def store_byte_eq)

lemma shadow_inv_frame [simp]:
  "shadow_inv (env\<lparr>blinear := a, bdata := d\<rparr>) = shadow_inv env"
  "shadow_inv (env\<lparr>ld_databytes := v\<rparr>) = shadow_inv env"
  "shadow_inv (env\<lparr>ld_size := n, ld_linear := a\<rparr>) = shadow_inv env"
  "shadow_inv (env\<lparr>st_size := n, st_databytes := bs, st_linear := a\<rparr>) = shadow_inv env"
  by (simp_all add: shadow_inv_def)

lemma shadow_inv_shadow_store: "shadow_inv env \<Longrightarrow> shadow_inv (shadow_store env a d)"
  by (simp add: shadow_store_def shadow_inv_store_byte)

lemma shadow_store_loop_eq:
  assumes "i + k \<le> length (st_databytes env)"
  shows "shadow_store_loop i k env =
    Inr (fold (\<lambda>j e. shadow_store e (st_linear env + of_nat j) (st_databytes env ! j))
           [i..<i + k] env)"
  using assms
proof (induction k arbitrary: i env)
  case 0
  then show ?case by simp
next
  case (Suc k)
  let ?e = "shadow_store env (st_linear env + of_nat i) (st_databytes env ! i)"
  have upt: "[i..<i + Suc k] = i # [Suc i..<Suc i + k]"
    by (simp add: upt_conv_Cons del: upt_Suc)
  have "shadow_store_loop i (Suc k) env = shadow_store_loop (Suc i) k ?e"
    using Suc.prems by (simp add: shadow_store_def)
  also have "\<dots> = Inr (fold (\<lambda>j e. shadow_store e (st_linear env + of_nat j) (st_databytes env ! j))
           [Suc i..<Suc i + k] ?e)"
    using Suc.prems by (subst Suc.IH) (simp_all del: upt_Suc)
  finally show ?case by (simp only: upt fold_simps)
qed

section \<open>The prefetch core sees what a direct execution would see\<close>

text \<open>
  \<open>access_ok n a\<close>: the \<open>n\<close> bytes from host address \<open>a\<close> lie in the 32-bit linear space and do not
  start at address 0.
\<close>

definition access_ok :: "nat \<Rightarrow> u64 \<Rightarrow> bool" where
  "access_ok n a \<longleftrightarrow> 0 < unat a \<and> unat a + n \<le> 2 ^ 32"

definition shadow_rel :: "'a shadow_env_scheme \<Rightarrow> host_mem \<Rightarrow> host_mem \<Rightarrow> bool" where
  "shadow_rel env mem md \<longleftrightarrow> (\<forall>p. p \<noteq> 0 \<longrightarrow> fetch_translated_linear env mem p = map_option snd (md (ucast p)))"

definition pf_ok :: "prefetch_buf \<Rightarrow> bool" where
  "pf_ok pf \<longleftrightarrow> runAheadThreshold pf \<noteq> 0 \<and> length (prefetch_address pf) = unat (runAheadThreshold pf)"

lemma linear_addr:
  assumes "access_ok n a" and "j < n"
  shows "(ucast (ucast a + of_nat j :: u32) :: u64) = a + of_nat j"
    and "(ucast a + of_nat j :: u32) \<noteq> 0"
proof -
  have b: "unat a + j < 4294967296" and pos: "0 < unat a"
    using assms by (simp_all add: access_ok_def)
  have ua: "unat (ucast a :: u32) = unat a"
    using b by (simp add: unsigned_ucast_eq take_bit_eq_mod)
  have u32: "unat (ucast a + of_nat j :: u32) = unat a + j"
    using b ua by (simp add: unat_word_ariths unat_of_nat)
  have u64: "unat (a + of_nat j) = unat a + j"
    using b by (simp add: unat_word_ariths unat_of_nat)
  have "unat (ucast (ucast a + of_nat j :: u32) :: u64) = unat a + j"
    using u32 b by (simp add: unsigned_ucast_eq take_bit_eq_mod)
  with u64 show "(ucast (ucast a + of_nat j :: u32) :: u64) = a + of_nat j"
    by (simp add: word_unat_eq_iff)
  show "(ucast a + of_nat j :: u32) \<noteq> 0"
    using u32 pos by (metis add_gr_0 neq0_conv unat_0)
qed

lemma ucast_32_64_inj: "(ucast (p :: u32) :: u64) = ucast q \<longleftrightarrow> p = q"
proof
  assume "(ucast p :: u64) = ucast q"
  then have "unat (ucast p :: u64) = unat (ucast q :: u64)" by simp
  then show "p = q"
    using unsigned_less [of p, where 'a = nat] unsigned_less [of q, where 'a = nat]
    by (simp add: unsigned_ucast_eq take_bit_eq_mod word_unat_eq_iff)
qed simp

lemma shadow_rel_store:
  "shadow_rel env mem md \<Longrightarrow> a \<noteq> 0 \<Longrightarrow> shadow_rel (shadow_store env a d) mem (md(ucast a \<mapsto> (True, d)))"
  by (simp add: shadow_rel_def fetch_shadow_store ucast_32_64_inj)

lemma shadow_rel_fold:
  assumes "shadow_rel env mem md" and "\<forall>j \<in> set js. f j \<noteq> 0"
  shows "shadow_rel (fold (\<lambda>j e. shadow_store e (f j) (g j)) js env) mem
           (fold (\<lambda>j m. m(ucast (f j) \<mapsto> (True, g j))) js md)"
  using assms by (induction js arbitrary: env md) (simp_all add: shadow_rel_store)

lemma fold_store_frame:
  "ld_databytes (fold (\<lambda>j e. shadow_store e (f j) (g j)) js env) = ld_databytes env"
  "IsPCore (fold (\<lambda>j e. shadow_store e (f j) (g j)) js env) = IsPCore env"
  by (induction js arbitrary: env) simp_all

lemma shadow_inv_fold:
  "shadow_inv env \<Longrightarrow> shadow_inv (fold (\<lambda>j e. shadow_store e (f j) (g j)) js env)"
  by (induction js arbitrary: env) (simp_all add: shadow_inv_shadow_store)

text \<open>The conditions under which the prefetch core's accesses return.\<close>

definition pcore_ok :: "'a shadow_env_scheme \<Rightarrow> bool" where
  "pcore_ok env \<longleftrightarrow> ISPCORE env \<and> length (ld_databytes env) = 8 \<and> shadow_inv env"

lemma le_bytes_append:
  assumes "n \<le> 4"
  shows "i < n \<Longrightarrow> (le_bytes 4 lo @ le_bytes 4 hi) ! i = le_bytes n lo ! i"
  using assms by (simp add: le_bytes_def nth_append)

lemma qemu_st_pcore:
  assumes "pcore_ok env" and "sizeop \<in> {0, 1, 2}" and "access_ok (2 ^ sizeop) (base + ofs)"
    and "shadow_rel env mem md"
  obtains env' where "qemu_st_direct sizeop lo hi base ofs env mem = Inr (None, env', mem)"
    and "pcore_ok env'"
    and "shadow_rel env' mem (host_store md (base + ofs) (le_bytes (2 ^ sizeop) lo))"
proof -
  let ?e = "env\<lparr>st_size := of_nat (2 ^ sizeop),
                st_databytes := le_bytes 4 lo @ le_bytes 4 hi,
                st_linear := ucast (base + ofs)\<rparr>"
  let ?f = "\<lambda>j. ucast (base + ofs) + of_nat j :: u32"
  let ?bs = "le_bytes 4 lo @ le_bytes 4 hi"
  let ?r = "fold (\<lambda>j e. shadow_store e (?f j) (?bs ! j)) [0..<2 ^ sizeop] ?e"
  have n: "(2::nat) ^ sizeop \<le> 4" using assms(2) by auto
  have P: "IsPCore env \<noteq> 0" using assms(1) by (simp add: pcore_ok_def ISPCORE_def)
  have sz: "unat (of_nat (2 ^ sizeop) :: u32) = 2 ^ sizeop" using n by (subst unat_of_nat) simp
  have "shadow_store_loop 0 (2 ^ sizeop) ?e = Inr ?r"
    using n by (subst shadow_store_loop_eq) (simp_all add: le_bytes_def)
  then have st: "qemu_st_direct sizeop lo hi base ofs env mem = Inr (None, ?r, mem)"
    using assms(2) P sz
    by (auto simp: qemu_st_direct_def qemu_st_shadow_def esesc_shadow_store_process_def ISPCORE_def)
  have "shadow_rel ?e mem md" using assms(4) by (simp add: shadow_rel_def)
  moreover have "\<forall>j \<in> set [0..<2 ^ sizeop]. ?f j \<noteq> 0"
    using linear_addr(2) [OF assms(3)] by auto
  ultimately have "shadow_rel ?r mem (fold (\<lambda>j m. m(ucast (?f j) \<mapsto> (True, ?bs ! j))) [0..<2 ^ sizeop] md)"
    by (rule shadow_rel_fold)
  also have "fold (\<lambda>j m. m(ucast (?f j) \<mapsto> (True, ?bs ! j))) [0..<2 ^ sizeop] md =
      host_store md (base + ofs) (le_bytes (2 ^ sizeop) lo)"
    unfolding host_store_def
    by (rule fold_cong) (auto simp: linear_addr(1) [OF assms(3)] le_bytes_append [OF n])
  finally have "shadow_rel ?r mem (host_store md (base + ofs) (le_bytes (2 ^ sizeop) lo))" .
  moreover have "pcore_ok ?r"
    using assms(1) unfolding pcore_ok_def ISPCORE_def
    by (simp add: fold_store_frame shadow_inv_fold)
  ultimately show ?thesis using st that by blast
qed

lemma ld_width_cases:
  assumes "sizeop \<in> {0, 1, 2, 3, 4, 5, 6::nat}"
  shows "ld_width sizeop \<in> {1, 2, 4, 8}"
  using assms unfolding ld_width_def by auto

lemma prefetch_insert_ok:
  assumes "pf_ok pf"
  obtains pf' where "prefetch_insert a pf = Inr pf'" and "pf_ok pf'"
proof -
  let ?s = "unat (prefetch_address_idx pf mod runAheadThreshold pf)"
  have "?s < unat (runAheadThreshold pf)"
    using assms by (simp add: pf_ok_def unat_mod unat_gt_0)
  then have "prefetch_insert a pf =
      Inr (pf\<lparr>prefetch_address := (prefetch_address pf)[?s := a],
              prefetch_address_idx := prefetch_address_idx pf + 1\<rparr>)"
    using assms by (simp add: prefetch_insert_def pf_ok_def Let_def)
  then show ?thesis by (rule that) (use assms in \<open>simp add: pf_ok_def\<close>)
qed

lemma host_segv_None: "host_segv ok a n = None \<longleftrightarrow> (\<forall>j < n. ok (a + of_nat j))"
  by (auto simp: host_segv_def find_None_iff)

lemma host_segv_Some:
  assumes "host_segv ok a n = Some p"
  obtains j where "j < n" "p = a + of_nat j" "\<not> ok p" "\<forall>l < j. ok (a + of_nat l)"
proof -
  obtain j where j: "j < n" "p = a + of_nat j" "\<not> ok p" "\<forall>l < j. ok (map (\<lambda>i. a + of_nat i) [0..<n] ! l)"
    using assms by (auto simp: host_segv_def find_Some_iff)
  show ?thesis by (rule that [OF j(1-3)]) (use j(1,4) in auto)
qed

lemma qemu_ld_pcore:
  assumes "pcore_ok env" and "sizeop \<in> {0, 1, 2, 3, 4, 5, 6}"
    and "access_ok (ld_width sizeop) (base + ofs)" and "pf_ok pf"
    and "shadow_rel env mem md"
  obtains env' pf' where
    "qemu_ld_direct sizeop base ofs env mem pf = Inr (host_ld sizeop md (base + ofs), env', pf')"
    and "pcore_ok env'" and "pf_ok pf'" and "shadow_rel env' mem md"
proof -
  let ?w = "ld_width sizeop"
  let ?e = "env\<lparr>ld_size := of_nat ?w, ld_linear := ucast (base + ofs)\<rparr>"
  have w: "?w \<le> 8" using ld_width_cases [OF assms(2)] by auto
  have sz: "unat (of_nat ?w :: u32) = ?w" using w by (simp add: unat_of_nat)
  have P: "IsPCore env \<noteq> 0" and len: "length (ld_databytes env) = 8"
    using assms(1) by (simp_all add: pcore_ok_def ISPCORE_def)
  have F: "fetch_translated_linear ?e mem (ld_linear ?e + of_nat j) = map_option snd (md (base + ofs + of_nat j))" if "j < ?w" for j
    using assms(5) linear_addr [OF assms(3) that] by (simp add: shadow_rel_def)
  have ok: "pcore_ok (?e\<lparr>ld_databytes := v\<rparr>)" "shadow_rel (?e\<lparr>ld_databytes := v\<rparr>) mem md" if "length v = 8" for v
    using assms(1,5) that by (simp_all add: pcore_ok_def ISPCORE_def shadow_rel_def)
  show ?thesis
  proof (cases "host_segv (readable md) (base + ofs) ?w")
    case None
    let ?bs = "host_load md (base + ofs) ?w"
    let ?r = "?e\<lparr>ld_databytes := ?bs @ drop ?w (ld_databytes env)\<rparr>"
    have "fetch_translated_linear ?e mem (ld_linear ?e + of_nat j) = Some (snd (the (md (base + ofs + of_nat j))))" if "j < ?w" for j
      using F [OF that] None that by (auto simp: host_segv_None readable_def)
    then have "shadow_load_loop mem 0 ?w ?e = Inr (None, ?r)"
      using w len by (subst shadow_load_loop_ok [where g = "\<lambda>j. snd (the (md (base + ofs + of_nat j)))"]) (simp_all add: host_load_def)
    moreover obtain pf' where pf': "prefetch_insert (ucast (base + ofs)) pf = Inr pf'" "pf_ok pf'"
      using prefetch_insert_ok [OF assms(4)] by blast
    ultimately have "qemu_ld_direct sizeop base ofs env mem pf = Inr (host_ld sizeop md (base + ofs), ?r, pf')"
      using assms(2) P None
      by (simp add: qemu_ld_direct_def qemu_ld_shadow_def esesc_shadow_load_process_def ISPCORE_def sz host_ld_def)
    then show ?thesis by (rule that) (use ok pf'(2) w len in simp_all)
  next
    case (Some p)
    obtain j where j0: "j < ?w" "p = base + ofs + of_nat j" "\<not> readable md p" "\<forall>l < j. readable md (base + ofs + of_nat l)"
      by (rule host_segv_Some [OF Some])
    note j = j0 [unfolded readable_def not_not]
    have "\<exists>v. length v = length (ld_databytes ?e) \<and>
        shadow_load_loop mem 0 ?w ?e = Inr (Some (ucast (ld_linear ?e + of_nat j)), ?e\<lparr>ld_databytes := v\<rparr>)"
      by (rule shadow_load_loop_segv) (use w len j F in auto)
    then obtain v where v: "length v = 8" "shadow_load_loop mem 0 ?w ?e = Inr (Some p, ?e\<lparr>ld_databytes := v\<rparr>)"
      using len j(2) linear_addr(1) [OF assms(3) j(1)] by auto
    then have "qemu_ld_direct sizeop base ofs env mem pf = Inr (host_ld sizeop md (base + ofs), ?e\<lparr>ld_databytes := v\<rparr>, pf)"
      using assms(2) P Some
      by (simp add: qemu_ld_direct_def qemu_ld_shadow_def esesc_shadow_load_process_def ISPCORE_def sz host_ld_def)
    then show ?thesis by (rule that) (use ok v(1) assms(4) in simp_all)
  qed
qed

section \<open>Runs\<close>

fun access_valid :: "guest_access \<Rightarrow> bool" where
  "access_valid (GLoad sizeop base ofs) \<longleftrightarrow>
     sizeop \<in> {0, 1, 2, 3, 4, 5, 6} \<and> access_ok (ld_width sizeop) (base + ofs)"
| "access_valid (GStore sizeop lo hi base ofs) \<longleftrightarrow>
     sizeop \<in> {0, 1, 2, 3} \<and> access_ok (2 ^ sizeop) (base + ofs)"

fun wide_store :: "guest_access \<Rightarrow> bool" where
  "wide_store (GLoad sizeop base ofs) \<longleftrightarrow> False"
| "wide_store (GStore sizeop lo hi base ofs) \<longleftrightarrow> sizeop = 3"

lemma guest_run_main:
  assumes "IsPCore menv = 0" and "\<forall>x \<in> set xs. access_valid x"
  shows "\<exists>vs segv md'. guest_run xs menv md pf = Inr (vs, segv, menv, md', pf)"
  using assms
proof (induction xs arbitrary: md)
  case Nil
  then show ?case by simp
next
  case (Cons x xs)
  have IH: "\<exists>vs segv md'. guest_run xs menv m pf = Inr (vs, segv, menv, md', pf)" for m
    using Cons by simp
  show ?case
  proof (cases x)
    case (GLoad sizeop base ofs)
    then show ?thesis using Cons.prems IH [of md]
      by (cases "host_ld sizeop md (base + ofs)") (auto simp: qemu_ld_direct_def)
  next
    case (GStore sizeop lo hi base ofs)
    then show ?thesis using Cons.prems IH [of "host_store md (base + ofs) (le_bytes (2 ^ sizeop) lo)"]
      by (cases "host_segv (writable md) (base + ofs) (2 ^ sizeop)") (auto simp: qemu_st_direct_def)
  qed
qed

lemma guest_run_sim:
  assumes "pcore_ok env" and "pf_ok pf" and "shadow_rel env mem md"
    and "IsPCore menv = 0" and "\<forall>x \<in> set xs. access_valid x \<and> \<not> wide_store x"
    and "guest_run xs menv md mpf = Inr (vs, segv, menv', md', mpf')" and "\<And>a. segv \<noteq> Some (True, a)"
  shows "\<exists>env' pf'. guest_run xs env mem pf = Inr (vs, segv, env', mem, pf') \<and>
           pcore_ok env' \<and> pf_ok pf' \<and> shadow_rel env' mem md'"
  using assms
proof (induction xs arbitrary: env pf md vs)
  case Nil
  then show ?case by auto
next
  case (Cons x xs)
  show ?case
  proof (cases x)
    case (GLoad sizeop base ofs)
    let ?r = "host_ld sizeop md (base + ofs)"
    have v: "sizeop \<in> {0, 1, 2, 3, 4, 5, 6}" "access_ok (ld_width sizeop) (base + ofs)"
      using Cons.prems(5) GLoad by auto
    obtain env1 pf1 where e1: "qemu_ld_direct sizeop base ofs env mem pf = Inr (?r, env1, pf1)"
      "pcore_ok env1" "pf_ok pf1" "shadow_rel env1 mem md"
      using qemu_ld_pcore [OF Cons.prems(1) v Cons.prems(2,3)] by blast
    have m: "qemu_ld_direct sizeop base ofs menv md mpf = Inr (?r, menv, mpf)"
      using v(1) Cons.prems(4) by (simp add: qemu_ld_direct_def)
    show ?thesis
    proof (cases ?r)
      case (Segv a)
      then show ?thesis using Cons.prems(6) e1 m GLoad by auto
    next
      case (Loaded w)
      obtain ws where ws: "vs = w # ws" "guest_run xs menv md mpf = Inr (ws, segv, menv', md', mpf')"
        using Cons.prems(6) m GLoad Loaded by auto
      from Cons.IH [OF e1(2-4) Cons.prems(4) _ ws(2) Cons.prems(7)] Cons.prems(5) e1(1) ws(1) GLoad Loaded
      show ?thesis by auto
    qed
  next
    case (GStore sizeop lo hi base ofs)
    have v: "sizeop \<in> {0, 1, 2}" "access_ok (2 ^ sizeop) (base + ofs)"
      using Cons.prems(5) GStore by auto
    let ?md = "host_store md (base + ofs) (le_bytes (2 ^ sizeop) lo)"
    obtain env1 where e1: "qemu_st_direct sizeop lo hi base ofs env mem = Inr (None, env1, mem)"
      "pcore_ok env1" "shadow_rel env1 mem ?md"
      using qemu_st_pcore [OF Cons.prems(1) v Cons.prems(3)] by blast
    have m: "qemu_st_direct sizeop lo hi base ofs menv md =
        Inr (case host_segv (writable md) (base + ofs) (2 ^ sizeop) of Some a \<Rightarrow> (Some a, menv, md) | None \<Rightarrow> (None, menv, ?md))"
      using v(1) Cons.prems(4) by (auto simp: qemu_st_direct_def simp del: power_numeral)
    have "guest_run xs menv ?md mpf = Inr (vs, segv, menv', md', mpf')"
    proof (cases "host_segv (writable md) (base + ofs) (2 ^ sizeop)")
      case None
      then show ?thesis using Cons.prems(6) GStore m by simp
    next
      case (Some a)
      then have "segv = Some (True, a)" using Cons.prems(6) GStore m by simp
      then show ?thesis using Cons.prems(7) by blast
    qed
    from Cons.IH [OF e1(2) Cons.prems(2) e1(3) Cons.prems(4) _ this Cons.prems(7)] Cons.prems(5) e1(1) GStore
    show ?thesis by auto
  qed
qed

lemma guest_run_append:
  "guest_run xs env mem pf = Inr (vs, None, env', mem', pf') \<Longrightarrow>
   guest_run (xs @ ys) env mem pf = res_bind (guest_run ys env' mem' pf') (\<lambda>(ws, r). Inr (vs @ ws, r))"
proof (induction xs env mem pf arbitrary: vs rule: guest_run.induct)
  case (1 env mem pf)
  then show ?case by (cases "guest_run ys env' mem' pf'") auto
next
  case (2 sizeop base ofs xs env mem pf)
  obtain r env1 pf1 where r: "qemu_ld_direct sizeop base ofs env mem pf = Inr (r, env1, pf1)" using "2.prems" by auto
  then obtain v ws where "r = Loaded v" "guest_run xs env1 mem pf1 = Inr (ws, None, env', mem', pf')" "vs = v # ws"
    using "2.prems" by (auto split: host_read.splits)
  then show ?case using "2.IH" [of r v env1 pf1 ws] r
    by (cases "guest_run ys env' mem' pf'") auto
next
  case (3 sizeop lo hi base ofs xs env mem pf)
  obtain r env1 mem1 where r: "qemu_st_direct sizeop lo hi base ofs env mem = Inr (r, env1, mem1)" using "3.prems" by auto
  then have "r = None" "guest_run xs env1 mem1 pf = Inr (vs, None, env', mem', pf')"
    using "3.prems" by (auto split: option.splits)
  then show ?case using "3.IH" [of r env1 mem1 vs] r by auto
qed

section \<open>Properties\<close>

text \<open>One shadow store of several bytes, as a fold of byte stores.\<close>

lemma fetch_store_fold:
  assumes "p \<noteq> 0" and "n \<le> 2 ^ 32"
  shows "fetch_translated_linear (fold (\<lambda>j e. shadow_store e (a + of_nat j) (g j)) [0..<n] env) mem p =
    (if unat (p - a) < n then Some (g (unat (p - a))) else fetch_translated_linear env mem p)"
  using assms(2)
proof (induction n)
  case 0
  then show ?case by simp
next
  case (Suc n)
  have "p = a + of_nat n \<longleftrightarrow> unat (p - a) = n"
  proof
    assume "p = a + of_nat n"
    then show "unat (p - a) = n" using Suc.prems by (simp add: unat_of_nat)
  next
    assume "unat (p - a) = n"
    then have "of_nat n = p - a" by auto
    then show "p = a + of_nat n" by simp
  qed
  with Suc assms(1) show ?case
    by (auto simp: fetch_shadow_store less_Suc_eq)
qed

text \<open>
  C2. A run of loads and stores of legal widths, whose addresses lie in the 32-bit space and are not 0,
  on a prefetch core that starts with an empty shadow buffer, against the same run on the main core. Up to the
  first 8-byte store the main core's run returns, and unless it is a store that faults there, the
  prefetch core loads the same values, faults at the same load and address if one faults, leaves memory
  unchanged, and ends with a buffer that overlays memory with exactly what the main core wrote and
  satisfies its invariant. At the first 8-byte store the prefetch core goes astray: the jump around the
  shadow path was never given its target.
\<close>

theorem pcore_run_transparent:
  assumes "ISPCORE env" and "sbytes env = (\<lambda>_. [])" and "sbytes_size env = 0"
    and "length (ld_databytes env) = 8" and "pf_ok pf"
    and "IsPCore menv = 0" and "\<forall>x \<in> set xs. access_valid x"
  shows "\<exists>vs segv md'.
     guest_run (takeWhile (\<lambda>x. \<not> wide_store x) xs) menv mem mpf = Inr (vs, segv, menv, md', mpf) \<and>
     ((\<forall>a. segv \<noteq> Some (True, a)) \<longrightarrow>
       (\<exists>env' pf'. guest_run (takeWhile (\<lambda>x. \<not> wide_store x) xs) env mem pf = Inr (vs, segv, env', mem, pf') \<and>
         (\<forall>p. p \<noteq> 0 \<longrightarrow> fetch_translated_linear env' mem p = map_option snd (md' (ucast p))) \<and> shadow_inv env')) \<and>
     (segv = None \<and> (\<exists>x \<in> set xs. wide_store x) \<longrightarrow> guest_run xs env mem pf = Inl WildJump)"
proof -
  let ?ys = "takeWhile (\<lambda>x. \<not> wide_store x) xs"
  have "shadow_inv env" using assms(2,3) by (simp add: shadow_inv_def shadow_elems_def)
  then have ok: "pcore_ok env" using assms(1,4) by (simp add: pcore_ok_def)
  have rel: "shadow_rel env mem mem"
    using assms(2) by (simp add: shadow_rel_def fetch_translated_linear_def)
  have val: "\<forall>x \<in> set ?ys. access_valid x \<and> \<not> wide_store x" using assms(7) by (auto dest: set_takeWhileD)
  obtain vs segv md' where m: "guest_run ?ys menv mem mpf = Inr (vs, segv, menv, md', mpf)"
    using guest_run_main [OF assms(6), of ?ys] val by blast
  have sim: "\<exists>env' pf'. guest_run ?ys env mem pf = Inr (vs, segv, env', mem, pf') \<and> pcore_ok env' \<and> shadow_rel env' mem md'"
    if "\<forall>a. segv \<noteq> Some (True, a)"
    using guest_run_sim [OF ok assms(5) rel assms(6) val m] that by blast
  have wild: "guest_run xs env mem pf = Inl WildJump" if none: "segv = None" and w: "\<exists>x \<in> set xs. wide_store x"
  proof -
    obtain env' pf' where e: "guest_run ?ys env mem pf = Inr (vs, None, env', mem, pf')" "pcore_ok env'"
      using sim none by blast
    have "dropWhile (\<lambda>x. \<not> wide_store x) xs \<noteq> []" using w by (auto simp: dropWhile_eq_Nil_conv)
    then obtain x zs where x: "dropWhile (\<lambda>x. \<not> wide_store x) xs = x # zs" "wide_store x"
      by (metis hd_dropWhile list.exhaust_sel)
    then obtain lo hi base ofs where "x = GStore 3 lo hi base ofs" by (cases x) auto
    then have "guest_run (x # zs) env' mem pf' = Inl WildJump"
      using e(2) by (simp add: qemu_st_direct_def pcore_ok_def ISPCORE_def)
    then have "guest_run (?ys @ x # zs) env mem pf = Inl WildJump" unfolding guest_run_append [OF e(1)] by simp
    then show ?thesis using takeWhile_dropWhile_id [of "\<lambda>x. \<not> wide_store x" xs] x(1) by simp
  qed
  show ?thesis using m sim wild unfolding pcore_ok_def shadow_rel_def by blast
qed

text \<open>
  C20. A shadow store whose bytes fit \<^verbatim>\<open>st_databytes\<close> returns, keeps the table's invariant, and afterwards
  every address but 0 reads the stored byte if it lies in the stored range (modulo \<open>2^32\<close>) and
  what it read before otherwise.
\<close>

theorem shadow_store_process_spec:
  assumes "ISPCORE env" and "unat (st_size env) \<le> length (st_databytes env)" and "shadow_inv env"
  shows "\<exists>env'. esesc_shadow_store_process env = Inr env' \<and> shadow_inv env' \<and>
     (\<forall>p. p \<noteq> 0 \<longrightarrow> fetch_translated_linear env' mem p =
        (if p - st_linear env < st_size env then Some (st_databytes env ! unat (p - st_linear env))
         else fetch_translated_linear env mem p))"
proof -
  let ?r = "fold (\<lambda>j e. shadow_store e (st_linear env + of_nat j) (st_databytes env ! j))
              [0..<unat (st_size env)] env"
  have "esesc_shadow_store_process env = Inr ?r"
    using assms(1,2) shadow_store_loop_eq [of 0 "unat (st_size env)" env]
    by (simp add: esesc_shadow_store_process_def)
  moreover have "shadow_inv ?r" using assms(3) by (rule shadow_inv_fold)
  moreover have "unat (st_size env) \<le> 2 ^ 32"
    using unsigned_less [of "st_size env", where 'a = nat] by simp
  ultimately show ?thesis by (simp add: fetch_store_fold word_less_nat_alt)
qed

text \<open>
  C23. Byte accesses through the shadow buffer at non-zero addresses read what they would read from
  a memory they wrote directly, whatever the buffer held at the start.
\<close>

theorem shadow_bytes_overlay:
  assumes "\<forall>x \<in> set xs. access_addr x \<noteq> 0"
  shows "snd (overlay_run shadow_store (\<lambda>e. fetch_translated_linear e mem) env xs) =
      snd (direct_run (fetch_translated_linear env mem) xs)"
  using shadow.run_simulates [OF assms] by blast

text \<open>
  C24. What a fetch returns after one byte store, for every table and every address: the stored byte
  at its address, and the byte from before elsewhere, except that the first store into bucket 0 (at
  another address) makes address 0 read as zero whatever memory holds there.
\<close>

theorem shadow_store_byte_exact:
  "fetch_translated_linear (esesc_shadow_store_process_byte env) mem p =
     (if p = blinear env then Some (bdata env)
      else if p = 0 \<and> bucket_of (blinear env) = 0 \<and> sbytes env 0 = [] then Some 0
      else fetch_translated_linear env mem p)"
  by (rule fetch_after_store_byte)

definition ex_env :: "u32 \<Rightarrow> shadow_env" where
  "ex_env p = \<lparr>IsPCore = p, st_size = 2, ld_size = 0, st_linear = 4094, ld_linear = 0,
     st_databytes = [1, 2, 0, 0, 0, 0, 0, 0], ld_databytes = replicate 8 0, blinear = 0, bdata = 0,
     sbytes = (\<lambda>_. []), sbytes_size = 0\<rparr>"

definition ex_pf :: prefetch_buf where
  "ex_pf = \<lparr>prefetch_address = replicate 4 0, prefetch_address_idx = 0, runAheadThreshold = 4\<rparr>"

text \<open>Memory whose first \<open>2^20\<close> bytes are mapped\<close>

definition ex_mem :: "u8 \<Rightarrow> host_mem" where
  "ex_mem d a = (if a < 2 ^ 20 then Some (True, d) else None)"

lemma ex_mem_access: "writable (ex_mem d) a \<longleftrightarrow> a < 2 ^ 20" "readable (ex_mem d) a \<longleftrightarrow> a < 2 ^ 20"
  by (auto simp: writable_def readable_def ex_mem_def)

theorem pcore_run_transparent_witness:
  "guest_run [GStore 2 305419896 0 4096 0, GStore 3 1 0 8192 0] (ex_env 1) (ex_mem 0) ex_pf = Inl WildJump \<and>
   (\<exists>md' env' pf'.
     guest_run [GStore 2 305419896 0 4096 0, GLoad 5 4096 1, GLoad 0 (2 ^ 20) 0] (ex_env 0) (ex_mem 0) ex_pf =
       Inr ([0x3456], Some (False, 2 ^ 20), ex_env 0, md', ex_pf) \<and>
     guest_run [GStore 2 305419896 0 4096 0, GLoad 5 4096 1, GLoad 0 (2 ^ 20) 0] (ex_env 1) (ex_mem 0) ex_pf =
       Inr ([0x3456], Some (False, 2 ^ 20), env', ex_mem 0, pf') \<and> shadow_inv env')"
proof -
  have h: "ISPCORE (ex_env 1)" "sbytes (ex_env 1) = (\<lambda>_. [])" "sbytes_size (ex_env 1) = 0"
    "length (ld_databytes (ex_env 1)) = 8" "pf_ok ex_pf" "IsPCore (ex_env 0) = 0"
    by (simp_all add: ex_env_def ex_pf_def ISPCORE_def pf_ok_def)
  let ?x = "GStore 2 305419896 0 4096 0"
  have v: "\<forall>x \<in> set [?x, GStore 3 1 0 8192 0]. access_valid x" "\<forall>x \<in> set [?x, GLoad 5 4096 1, GLoad 0 (2 ^ 20) 0]. access_valid x"
    by (simp_all add: access_ok_def ld_width_def)
  let ?m = "host_store (ex_mem 0) 4096 (le_bytes 4 305419896)"
  have u4: "[0..<4] = [0, 1, 2, 3 :: nat]" and u2: "[0..<2] = [0, 1 :: nat]" by (simp_all add: upt_rec)
  have st: "qemu_st_direct 2 305419896 0 4096 0 (ex_env 0) (ex_mem 0) = Inr (None, ex_env 0, ?m)"
    by (simp add: qemu_st_direct_def h host_segv_def u4 ex_mem_access)
  have ld: "host_ld 5 ?m 4097 = Loaded 0x3456" "host_ld 0 ?m (2 ^ 20) = Segv (2 ^ 20)"
    by (auto simp: host_ld_def host_segv_def ld_width_def u4 u2 readable_def ex_mem_def host_store_def le_bytes_def host_load_def ld_extend_def)
  have r1: "guest_run [?x] (ex_env 0) (ex_mem 0) ex_pf = Inr ([], None, ex_env 0, ?m, ex_pf)" by (simp add: st)
  have r2: "guest_run [?x, GLoad 5 4096 1, GLoad 0 (2 ^ 20) 0] (ex_env 0) (ex_mem 0) ex_pf = Inr ([0x3456], Some (False, 2 ^ 20), ex_env 0, ?m, ex_pf)"
    using ld by (simp add: st qemu_ld_direct_def h)
  have "guest_run [?x, GStore 3 1 0 8192 0] (ex_env 1) (ex_mem 0) ex_pf = Inl WildJump"
    using pcore_run_transparent [OF h v(1), of "ex_mem 0" ex_pf] r1 by auto
  then show ?thesis using pcore_run_transparent [OF h v(2), of "ex_mem 0" ex_pf] r2 by auto
qed

theorem shadow_store_process_spec_witness:
  "\<exists>env'. esesc_shadow_store_process (ex_env 1) = Inr env' \<and>
     fetch_translated_linear env' (ex_mem 9) 4095 = Some 2 \<and>
     fetch_translated_linear env' (ex_mem 9) 4096 = Some 9"
proof -
  have "ISPCORE (ex_env 1)" "unat (st_size (ex_env 1)) \<le> length (st_databytes (ex_env 1))"
    "shadow_inv (ex_env 1)"
    by (simp_all add: ex_env_def ISPCORE_def shadow_inv_def shadow_elems_def)
  from shadow_store_process_spec [OF this, of "ex_mem 9"] obtain env' where
    e: "esesc_shadow_store_process (ex_env 1) = Inr env'"
    and f: "\<And>p. p \<noteq> 0 \<Longrightarrow> fetch_translated_linear env' (ex_mem 9) p =
        (if p - 4094 < 2 then Some ([1, 2, 0, 0, 0, 0, 0, 0] ! unat (p - 4094))
         else fetch_translated_linear (ex_env 1) (ex_mem 9) p)"
    by (auto simp: ex_env_def)
  have "fetch_translated_linear env' (ex_mem 9) 4095 = Some 2" by (subst f) simp_all
  moreover have "fetch_translated_linear env' (ex_mem 9) 4096 = Some 9"
    by (subst f) (simp_all add: fetch_translated_linear_def ex_env_def ex_mem_def)
  ultimately show ?thesis using e by blast
qed

theorem shadow_bytes_overlay_witness:
  "snd (overlay_run shadow_store (\<lambda>e. fetch_translated_linear e (ex_mem 9)) (ex_env 1)
         [St 5 (3 :: u8), Ld 5, Ld 6, Ld 0xf0000000]) = [Some 3, Some 9, None]"
  using shadow_bytes_overlay [of "[St 5 3, Ld 5, Ld 6, Ld 0xf0000000]" "ex_mem 9" "ex_env 1"]
  by (simp add: fetch_translated_linear_def ex_env_def ex_mem_def)

end
