(* ===== verification/TbCache.thy ===== *)
theory TbCache
  imports Prelude
begin

text \<open>
  The cache of translated code of \<^verbatim>\<open>exec.c\<close> and its lookup in \<^verbatim>\<open>cpu-exec.c\<close>, for user-mode emulation of
  a 32-bit guest with pages of 4096 bytes: the array \<^verbatim>\<open>tbs\<close> of translation blocks, the hash table
  of chains over \<^verbatim>\<open>phys_hash_next\<close>, the list of blocks of every guest page over \<^verbatim>\<open>page_next\<close> (its
  links carry in their two low bits which of the two page slots they continue in), the jump
  caches of the processors, the lists of jumps between blocks, the code buffer, and the
  protection flags of the guest pages. A pointer to a block is its index in \<^verbatim>\<open>tbs\<close>; a tagged
  pointer is the index with the value of the two low bits. The page table \<^verbatim>\<open>l1_map\<close> has two levels
  in this configuration. The translator \<^verbatim>\<open>cpu_gen_code\<close> is a parameter of the functions that
  call it; \<^verbatim>\<open>mprotect\<close>, the locks and the printing are left out. A loop over a chain runs on fuel;
  \<open>OutOfFuel\<close> stands for a chain that does not end.
\<close>

section \<open>Data\<close>

type_synonym tagged = "nat \<times> nat"

record TranslationBlock =
  tb_pc :: u32
  tb_next_pc :: u32
  tb_cs_base :: u32
  tb_flags :: u64
  tb_size :: u16
  tb_cflags :: u16
  tc_ptr :: nat
  phys_hash_next :: "nat option"
  page_next :: "nat \<Rightarrow> tagged option"
  page_addr :: "nat \<Rightarrow> u32"
  tb_next_offset :: "nat \<Rightarrow> u16"
  tb_jmp_offset :: "nat \<Rightarrow> u16"
  jmp_next :: "nat \<Rightarrow> tagged option"
  jmp_first :: tagged
  tb_icount :: u32

record PageDesc =
  first_tb :: "tagged option"
  code_write_count :: u32
  code_bitmap :: "u8 list option"
  page_flags :: u64

text \<open>
  \<open>tb_jmp_cache\<close> and \<open>cpu_list\<close> are the fields \<^verbatim>\<open>tb_jmp_cache\<close> and \<^verbatim>\<open>next_cpu\<close> of the processors, which are
  numbered; \<open>cpu_list\<close> is the chain from \<^verbatim>\<open>first_cpu\<close>. Code addresses count from \<^verbatim>\<open>code_gen_buffer\<close>;
  \<open>jmp_target\<close> is the destination that a patched jump at a code address has.
\<close>

record tb_context =
  tbs :: "TranslationBlock list"
  nb_tbs :: nat
  code_gen_ptr :: nat
  code_gen_buffer_size :: nat
  code_gen_buffer_max_size :: nat
  tb_phys_hash :: "nat \<Rightarrow> nat option"
  l1_map :: "nat \<Rightarrow> (nat \<Rightarrow> PageDesc) option"
  tb_jmp_cache :: "nat \<Rightarrow> nat \<Rightarrow> nat option"
  cpu_list :: "nat list"
  jmp_target :: "nat \<Rightarrow> nat"
  tb_invalidated_flag :: bool
  tb_flush_count :: nat
  tb_phys_invalidate_count :: nat

text \<open>What \<^verbatim>\<open>cpu_gen_code\<close> reports: the fields it fills in the block, and the size of the code.\<close>

record gen_result =
  g_size :: u16
  g_next_pc :: u32
  g_next_offset :: "nat \<Rightarrow> u16"
  g_jmp_offset :: "nat \<Rightarrow> u16"
  g_icount :: u32
  g_code_size :: nat

definition TARGET_PAGE_MASK :: u32 where
  "TARGET_PAGE_MASK = NOT (push_bit 12 1 - 1)"

definition PAGE_READ :: u64 where "PAGE_READ = 1"
definition PAGE_WRITE :: u64 where "PAGE_WRITE = 2"
definition PAGE_VALID :: u64 where "PAGE_VALID = 8"
definition PAGE_WRITE_ORG :: u64 where "PAGE_WRITE_ORG = 0x10"

definition code_gen_max_blocks :: nat where "code_gen_max_blocks = 32 * 1024 * 1024 div 64"

text \<open>
  The state after \<^verbatim>\<open>tcg_exec_init\<close> and \<^verbatim>\<open>code_gen_alloc\<close>, with the static buffer of user-mode emulation; \<open>blocks\<close> is the
  memory that \<^verbatim>\<open>tbs\<close> points to, which is not initialised, and \<open>cpus\<close> the list of processors.
\<close>

definition tcg_exec_init :: "TranslationBlock list \<Rightarrow> nat list \<Rightarrow> tb_context" where
  "tcg_exec_init blocks cpus =
     \<lparr>tbs = blocks, nb_tbs = 0, code_gen_ptr = 0, code_gen_buffer_size = 32 * 1024 * 1024,
      code_gen_buffer_max_size = 32 * 1024 * 1024 - 192 * 4096, tb_phys_hash = (\<lambda>_. None), l1_map = (\<lambda>_. None),
      tb_jmp_cache = (\<lambda>_ _. None), cpu_list = cpus, jmp_target = (\<lambda>_. 0), tb_invalidated_flag = False,
      tb_flush_count = 0, tb_phys_invalidate_count = 0\<rparr>"

section \<open>Hash functions\<close>

definition tb_jmp_cache_hash_func :: "u32 \<Rightarrow> nat" where
  "tb_jmp_cache_hash_func pc =
     (let tmp = pc XOR drop_bit (12 - 6) pc
      in unat ((drop_bit (12 - 6) tmp AND 0xfc0) OR (tmp AND 0x3f)))"

definition tb_phys_hash_func :: "u32 \<Rightarrow> nat" where
  "tb_phys_hash_func pc = unat (drop_bit 2 pc AND (push_bit 15 1 - 1))"

section \<open>The page table\<close>

text \<open>\<open>(i, j)\<close> is the pointer \<^verbatim>\<open>(PageDesc *)l1_map[i] + j\<close>.\<close>

type_synonym page_ptr = "nat \<times> nat"

definition zero_page :: PageDesc where
  "zero_page = \<lparr>first_tb = None, code_write_count = 0, code_bitmap = None, page_flags = 0\<rparr>"

definition page_slot :: "u32 \<Rightarrow> page_ptr" where
  "page_slot index = (unat (drop_bit 10 index AND (push_bit 10 1 - 1)), unat (index AND (push_bit 10 1 - 1)))"

definition page_find :: "u32 \<Rightarrow> tb_context \<Rightarrow> page_ptr option" where
  "page_find index s =
     (case l1_map s (fst (page_slot index)) of None \<Rightarrow> None | Some pd \<Rightarrow> Some (page_slot index))"

definition page_alloc :: "u32 \<Rightarrow> tb_context \<Rightarrow> page_ptr \<times> tb_context" where
  "page_alloc index s =
     (page_slot index,
      case l1_map s (fst (page_slot index)) of
        None \<Rightarrow> s\<lparr>l1_map := (l1_map s)(fst (page_slot index) \<mapsto> (\<lambda>_. zero_page))\<rparr>
      | Some pd \<Rightarrow> s)"

definition page_get :: "tb_context \<Rightarrow> page_ptr \<Rightarrow> PageDesc" where
  "page_get s p = (case l1_map s (fst p) of None \<Rightarrow> zero_page | Some pd \<Rightarrow> pd (snd p))"

definition page_upd :: "page_ptr \<Rightarrow> (PageDesc \<Rightarrow> PageDesc) \<Rightarrow> tb_context \<Rightarrow> tb_context" where
  "page_upd p f s =
     (case l1_map s (fst p) of None \<Rightarrow> s
      | Some pd \<Rightarrow> s\<lparr>l1_map := (l1_map s)(fst p \<mapsto> pd(snd p := f (pd (snd p))))\<rparr>)"

definition invalidate_page_bitmap :: "page_ptr \<Rightarrow> tb_context \<Rightarrow> tb_context" where
  "invalidate_page_bitmap p = page_upd p (\<lambda>d. d\<lparr>code_bitmap := None, code_write_count := 0\<rparr>)"

definition page_flush_tb :: "tb_context \<Rightarrow> tb_context" where
  "page_flush_tb s =
     s\<lparr>l1_map := (\<lambda>i. map_option (\<lambda>pd j. (pd j)\<lparr>first_tb := None, code_bitmap := None, code_write_count := 0\<rparr>)
         (l1_map s i))\<rparr>"

section \<open>Allocation and flushing\<close>

definition tb_upd :: "nat \<Rightarrow> (TranslationBlock \<Rightarrow> TranslationBlock) \<Rightarrow> tb_context \<Rightarrow> tb_context" where
  "tb_upd t f s = s\<lparr>tbs := (tbs s)[t := f (tbs s ! t)]\<rparr>"

text \<open>The array has \<^verbatim>\<open>code_gen_max_blocks\<close> entries.\<close>

definition tb_alloc :: "u32 \<Rightarrow> tb_context \<Rightarrow> nat option \<times> tb_context" where
  "tb_alloc pc s =
     (if nb_tbs s \<ge> length (tbs s) \<or> code_gen_ptr s \<ge> code_gen_buffer_max_size s then (None, s)
      else let t = nb_tbs s
           in (Some t, tb_upd t (\<lambda>b. b\<lparr>tb_pc := pc, tb_cflags := 0\<rparr>) (s\<lparr>nb_tbs := nb_tbs s + 1\<rparr>)))"

definition tb_free :: "nat \<Rightarrow> tb_context \<Rightarrow> tb_context" where
  "tb_free t s =
     (if nb_tbs s > 0 \<and> t = nb_tbs s - 1
      then s\<lparr>code_gen_ptr := tc_ptr (tbs s ! t), nb_tbs := nb_tbs s - 1\<rparr> else s)"

definition clear_caches :: "nat list \<Rightarrow> (nat \<Rightarrow> nat \<Rightarrow> nat option) \<Rightarrow> nat \<Rightarrow> nat \<Rightarrow> nat option" where
  "clear_caches envs c = (\<lambda>env. if env \<in> set envs then (\<lambda>_. None) else c env)"

definition tb_flush :: "tb_context \<Rightarrow> tb_context result" where
  "tb_flush s =
     check (\<not> code_gen_ptr s > code_gen_buffer_size s) AbortCall
       (let s1 = s\<lparr>nb_tbs := 0\<rparr>;
            s2 = s1\<lparr>tb_jmp_cache := clear_caches (cpu_list s1) (tb_jmp_cache s1)\<rparr>;
            s3 = page_flush_tb (s2\<lparr>tb_phys_hash := (\<lambda>_. None)\<rparr>)
        in Inr (s3\<lparr>code_gen_ptr := 0, tb_flush_count := tb_flush_count s3 + 1\<rparr>))"

section \<open>Removal from the lists\<close>

text \<open>
  The loops of \<^verbatim>\<open>tb_remove\<close>, \<^verbatim>\<open>tb_page_remove\<close> and \<^verbatim>\<open>tb_jmp_remove\<close> walk a chain until they find the
  element; they return the slot \<^verbatim>\<open>ptb\<close> that points to it (the head, or the link of an element).
\<close>

fun find_slot :: "nat \<Rightarrow> ('p \<Rightarrow> 'p option) \<Rightarrow> 'q \<Rightarrow> ('p \<Rightarrow> 'q) \<Rightarrow> 'p option \<Rightarrow> ('p \<Rightarrow> bool) \<Rightarrow> ('q \<times> 'p) result" where
  "find_slot 0 nxt ptb slot cur hit = Inl OutOfFuel"
| "find_slot (Suc n) nxt ptb slot cur hit =
     (case cur of None \<Rightarrow> Inl NullDeref
      | Some p \<Rightarrow> if hit p then Inr (ptb, p) else find_slot n nxt (slot p) slot (nxt p) hit)"

definition chain_fuel :: "tb_context \<Rightarrow> nat" where
  "chain_fuel s = 3 * length (tbs s) + 1"

definition hash_link :: "tb_context \<Rightarrow> nat \<Rightarrow> nat option" where
  "hash_link s t = phys_hash_next (tbs s ! t)"

definition tb_remove :: "nat \<Rightarrow> nat \<Rightarrow> tb_context \<Rightarrow> tb_context result" where
  "tb_remove h t s =
     res_bind (find_slot (chain_fuel s) (hash_link s) None Some (tb_phys_hash s h) (\<lambda>p. p = t)) (\<lambda>(ptb, tb1).
       Inr (case ptb of
              None \<Rightarrow> s\<lparr>tb_phys_hash := (tb_phys_hash s)(h := hash_link s tb1)\<rparr>
            | Some q \<Rightarrow> tb_upd q (\<lambda>b. b\<lparr>phys_hash_next := hash_link s tb1\<rparr>) s))"

definition page_link :: "tb_context \<Rightarrow> tagged \<Rightarrow> tagged option" where
  "page_link s p = page_next (tbs s ! fst p) (snd p)"

definition tb_page_remove :: "page_ptr \<Rightarrow> nat \<Rightarrow> tb_context \<Rightarrow> tb_context result" where
  "tb_page_remove pp t s =
     res_bind (find_slot (chain_fuel s) (page_link s) None Some (first_tb (page_get s pp)) (\<lambda>p. fst p = t)) (\<lambda>(ptb, tb1).
       Inr (case ptb of
              None \<Rightarrow> page_upd pp (\<lambda>d. d\<lparr>first_tb := page_link s tb1\<rparr>) s
            | Some q \<Rightarrow> tb_upd (fst q) (\<lambda>b. b\<lparr>page_next := (page_next b)(snd q := page_link s tb1)\<rparr>) s))"

definition jmp_link :: "tb_context \<Rightarrow> tagged \<Rightarrow> tagged option" where
  "jmp_link s p = (if snd p = 2 then Some (jmp_first (tbs s ! fst p)) else jmp_next (tbs s ! fst p) (snd p))"

definition set_jmp_link :: "tagged \<Rightarrow> tagged option \<Rightarrow> tb_context \<Rightarrow> tb_context" where
  "set_jmp_link p v s =
     (if snd p = 2 then (case v of None \<Rightarrow> s | Some w \<Rightarrow> tb_upd (fst p) (\<lambda>b. b\<lparr>jmp_first := w\<rparr>) s)
      else tb_upd (fst p) (\<lambda>b. b\<lparr>jmp_next := (jmp_next b)(snd p := v)\<rparr>) s)"

definition tb_jmp_remove :: "nat \<Rightarrow> nat \<Rightarrow> tb_context \<Rightarrow> tb_context result" where
  "tb_jmp_remove t n s =
     (case jmp_next (tbs s ! t) n of None \<Rightarrow> Inr s
      | Some tb1 \<Rightarrow>
          res_bind (find_slot (chain_fuel s) (jmp_link s) (t, n) id (Some tb1) (\<lambda>p. p = (t, n))) (\<lambda>(ptb, _).
            let s1 = set_jmp_link ptb (jmp_next (tbs s ! t) n) s
            in Inr (tb_upd t (\<lambda>b. b\<lparr>jmp_next := (jmp_next b)(n := None)\<rparr>) s1)))"

definition tb_set_jmp_target :: "nat \<Rightarrow> nat \<Rightarrow> nat \<Rightarrow> tb_context \<Rightarrow> tb_context" where
  "tb_set_jmp_target t n addr s =
     (let b = tbs s ! t
      in s\<lparr>jmp_target := (jmp_target s)(tc_ptr b + unat (tb_jmp_offset b n) := addr)\<rparr>)"

definition tb_reset_jump :: "nat \<Rightarrow> nat \<Rightarrow> tb_context \<Rightarrow> tb_context" where
  "tb_reset_jump t n s =
     (let b = tbs s ! t in tb_set_jmp_target t n (tc_ptr b + unat (tb_next_offset b n)) s)"

fun reset_jumps_to :: "nat \<Rightarrow> tagged \<Rightarrow> tb_context \<Rightarrow> tb_context result" where
  "reset_jumps_to 0 tb1 s = Inl OutOfFuel"
| "reset_jumps_to (Suc k) tb1 s =
     (if snd tb1 = 2 then Inr s
      else case jmp_next (tbs s ! fst tb1) (snd tb1) of
             None \<Rightarrow> Inl NullDeref
           | Some tb2 \<Rightarrow>
               let s1 = tb_reset_jump (fst tb1) (snd tb1) s;
                   s2 = tb_upd (fst tb1) (\<lambda>b. b\<lparr>jmp_next := (jmp_next b)(snd tb1 := None)\<rparr>) s1
               in reset_jumps_to k tb2 s2)"

definition page_remove_at :: "u32 \<Rightarrow> nat \<Rightarrow> tb_context \<Rightarrow> tb_context result" where
  "page_remove_at addr t s =
     (case page_find (drop_bit 12 addr) s of None \<Rightarrow> Inl NullDeref
      | Some p \<Rightarrow> res_bind (tb_page_remove p t s) (\<lambda>s. Inr (invalidate_page_bitmap p s)))"

definition drop_cached :: "nat list \<Rightarrow> nat \<Rightarrow> nat \<Rightarrow> (nat \<Rightarrow> nat \<Rightarrow> nat option) \<Rightarrow> nat \<Rightarrow> nat \<Rightarrow> nat option" where
  "drop_cached envs h t c =
     (\<lambda>env. if env \<in> set envs \<and> c env h = Some t then (c env)(h := None) else c env)"

definition tb_phys_invalidate :: "nat \<Rightarrow> u32 \<Rightarrow> tb_context \<Rightarrow> tb_context result" where
  "tb_phys_invalidate t pg s =
     (let b = tbs s ! t;
          phys_pc = page_addr b 0 + (tb_pc b AND NOT TARGET_PAGE_MASK)
      in res_bind (tb_remove (tb_phys_hash_func phys_pc) t s) (\<lambda>s1.
         res_bind (if page_addr b 0 \<noteq> pg then page_remove_at (page_addr b 0) t s1 else Inr s1) (\<lambda>s2.
         res_bind (if page_addr b 1 \<noteq> - 1 \<and> page_addr b 1 \<noteq> pg then page_remove_at (page_addr b 1) t s2 else Inr s2) (\<lambda>s3.
         let s4 = s3\<lparr>tb_invalidated_flag := True\<rparr>;
             s5 = s4\<lparr>tb_jmp_cache := drop_cached (cpu_list s4) (tb_jmp_cache_hash_func (tb_pc b)) t (tb_jmp_cache s4)\<rparr>
         in res_bind (tb_jmp_remove t 0 s5) (\<lambda>s6. res_bind (tb_jmp_remove t 1 s6) (\<lambda>s7.
            res_bind (reset_jumps_to (chain_fuel s7) (jmp_first (tbs s7 ! t)) s7) (\<lambda>s8.
            let s9 = tb_upd t (\<lambda>b. b\<lparr>jmp_first := (t, 2)\<rparr>) s8
            in Inr (s9\<lparr>tb_phys_invalidate_count := tb_phys_invalidate_count s9 + 1\<rparr>))))))))"

section \<open>Linking and generating\<close>

text \<open>The host page is a guest page, so the loop that write-protects it runs once.\<close>

definition tb_alloc_page :: "nat \<Rightarrow> nat \<Rightarrow> u32 \<Rightarrow> tb_context \<Rightarrow> tb_context" where
  "tb_alloc_page t n pg s =
     (let s1 = tb_upd t (\<lambda>b. b\<lparr>page_addr := (page_addr b)(n := pg)\<rparr>) s;
          (p, s2) = page_alloc (drop_bit 12 pg) s1;
          s3 = tb_upd t (\<lambda>b. b\<lparr>page_next := (page_next b)(n := first_tb (page_get s2 p))\<rparr>) s2;
          s4 = page_upd p (\<lambda>d. d\<lparr>first_tb := Some (t, n)\<rparr>) s3;
          s5 = invalidate_page_bitmap p s4
      in if page_flags (page_get s5 p) AND PAGE_WRITE \<noteq> 0
         then page_upd p (\<lambda>d. d\<lparr>page_flags := page_flags d AND NOT PAGE_WRITE\<rparr>) s5 else s5)"

definition tb_link_page :: "nat \<Rightarrow> u32 \<Rightarrow> u32 \<Rightarrow> tb_context \<Rightarrow> tb_context" where
  "tb_link_page t phys_pc phys_page2 s =
     (let h = tb_phys_hash_func phys_pc;
          s1 = tb_upd t (\<lambda>b. b\<lparr>phys_hash_next := tb_phys_hash s h\<rparr>) s;
          s2 = s1\<lparr>tb_phys_hash := (tb_phys_hash s1)(h := Some t)\<rparr>;
          s3 = tb_alloc_page t 0 (phys_pc AND TARGET_PAGE_MASK) s2;
          s4 = (if phys_page2 \<noteq> - 1 then tb_alloc_page t 1 phys_page2 s3
                else tb_upd t (\<lambda>b. b\<lparr>page_addr := (page_addr b)(1 := - 1)\<rparr>) s3);
          s5 = tb_upd t (\<lambda>b. b\<lparr>jmp_first := (t, 2), jmp_next := (\<lambda>_. None)\<rparr>) s4;
          s6 = (if tb_next_offset (tbs s5 ! t) 0 \<noteq> 0xffff then tb_reset_jump t 0 s5 else s5)
      in if tb_next_offset (tbs s6 ! t) 1 \<noteq> 0xffff then tb_reset_jump t 1 s6 else s6)"

type_synonym translator = "u32 \<Rightarrow> u32 \<Rightarrow> u64 \<Rightarrow> u16 \<Rightarrow> gen_result"

definition tb_gen_code :: "translator \<Rightarrow> u32 \<Rightarrow> u32 \<Rightarrow> u64 \<Rightarrow> u16 \<Rightarrow> tb_context \<Rightarrow> (nat \<times> tb_context) result" where
  "tb_gen_code cpu_gen_code pc cs_base flags cflags s =
     res_bind (case tb_alloc pc s of
         (Some t, s1) \<Rightarrow> Inr (t, s1)
       | (None, s1) \<Rightarrow> res_bind (tb_flush s1) (\<lambda>s2. case tb_alloc pc s2 of
             (Some t, s3) \<Rightarrow> Inr (t, s3\<lparr>tb_invalidated_flag := True\<rparr>)
           | (None, s3) \<Rightarrow> Inl NullDeref)) (\<lambda>(t, s4).
       let g = cpu_gen_code pc cs_base flags cflags;
           s5 = tb_upd t (\<lambda>b. b\<lparr>tc_ptr := code_gen_ptr s4, tb_cs_base := cs_base, tb_flags := flags, tb_cflags := cflags,
                  tb_size := g_size g, tb_next_pc := g_next_pc g, tb_next_offset := g_next_offset g,
                  tb_jmp_offset := g_jmp_offset g, tb_icount := g_icount g\<rparr>) s4;
           s6 = s5\<lparr>code_gen_ptr := (code_gen_ptr s5 + g_code_size g + 15) div 16 * 16\<rparr>;
           virt_page2 = (pc + ucast (g_size g) - 1) AND TARGET_PAGE_MASK;
           phys_page2 = (if pc AND TARGET_PAGE_MASK \<noteq> virt_page2 then virt_page2 else - 1)
       in Inr (t, tb_link_page t pc phys_page2 s6))"

section \<open>Lookup\<close>

definition tb_matches :: "u32 \<Rightarrow> u32 \<Rightarrow> u64 \<Rightarrow> TranslationBlock \<Rightarrow> bool" where
  "tb_matches pc cs_base flags b \<longleftrightarrow>
     tb_pc b = pc \<and> page_addr b 0 = pc AND TARGET_PAGE_MASK \<and> tb_cs_base b = cs_base \<and> tb_flags b = flags \<and>
     (page_addr b 1 \<noteq> - 1 \<longrightarrow> page_addr b 1 = (pc AND TARGET_PAGE_MASK) + 4096)"

text \<open>
  The search loop of \<^verbatim>\<open>tb_find_slow\<close>: the slot \<^verbatim>\<open>ptb1\<close> and the block it holds, or the empty last slot.
\<close>

fun find_phys :: "nat \<Rightarrow> tb_context \<Rightarrow> (TranslationBlock \<Rightarrow> bool) \<Rightarrow> nat option \<Rightarrow> nat option \<Rightarrow> (nat option \<times> nat option) result" where
  "find_phys 0 s ok ptb1 cur = Inl OutOfFuel"
| "find_phys (Suc n) s ok ptb1 cur =
     (case cur of None \<Rightarrow> Inr (ptb1, None)
      | Some t \<Rightarrow> if ok (tbs s ! t) then Inr (ptb1, Some t) else find_phys n s ok (Some t) (hash_link s t))"

definition read_slot :: "nat \<Rightarrow> nat option \<Rightarrow> tb_context \<Rightarrow> nat option" where
  "read_slot h ptb1 s = (case ptb1 of None \<Rightarrow> tb_phys_hash s h | Some q \<Rightarrow> hash_link s q)"

definition write_slot :: "nat \<Rightarrow> nat option \<Rightarrow> nat option \<Rightarrow> tb_context \<Rightarrow> tb_context" where
  "write_slot h ptb1 v s =
     (case ptb1 of None \<Rightarrow> s\<lparr>tb_phys_hash := (tb_phys_hash s)(h := v)\<rparr>
      | Some q \<Rightarrow> tb_upd q (\<lambda>b. b\<lparr>phys_hash_next := v\<rparr>) s)"

definition move_to_front :: "nat \<Rightarrow> nat option \<Rightarrow> nat \<Rightarrow> tb_context \<Rightarrow> tb_context" where
  "move_to_front h ptb1 t s =
     (let s1 = write_slot h ptb1 (hash_link s t) s;
          s2 = tb_upd t (\<lambda>b. b\<lparr>phys_hash_next := tb_phys_hash s1 h\<rparr>) s1
      in s2\<lparr>tb_phys_hash := (tb_phys_hash s2)(h := Some t)\<rparr>)"

text \<open>
  A block that has just been generated comes to the label \<^verbatim>\<open>found\<close> with the slot where the search
  ended; when that slot is not empty any more, the block is moved too.
\<close>

definition tb_find_slow :: "translator \<Rightarrow> nat \<Rightarrow> u32 \<Rightarrow> u32 \<Rightarrow> u64 \<Rightarrow> tb_context \<Rightarrow> (nat \<times> tb_context) result" where
  "tb_find_slow cpu_gen_code env pc cs_base flags s0 =
     (let s = s0\<lparr>tb_invalidated_flag := False\<rparr>; h = tb_phys_hash_func pc
      in res_bind (find_phys (chain_fuel s) s (tb_matches pc cs_base flags) None (tb_phys_hash s h)) (\<lambda>(ptb1, found).
         res_bind (case found of Some t \<Rightarrow> Inr (t, s) | None \<Rightarrow> tb_gen_code cpu_gen_code pc cs_base flags 0 s) (\<lambda>(t, s1).
         let s2 = (if read_slot h ptb1 s1 \<noteq> None then move_to_front h ptb1 t s1 else s1)
         in Inr (t, s2\<lparr>tb_jmp_cache := (tb_jmp_cache s2)(env := (tb_jmp_cache s2 env)(tb_jmp_cache_hash_func pc := Some t))\<rparr>))))"

definition tb_find_fast :: "translator \<Rightarrow> nat \<Rightarrow> u32 \<Rightarrow> u32 \<Rightarrow> u64 \<Rightarrow> tb_context \<Rightarrow> (nat \<times> tb_context) result" where
  "tb_find_fast cpu_gen_code env pc cs_base flags s =
     (case tb_jmp_cache s env (tb_jmp_cache_hash_func pc) of
        Some t \<Rightarrow> if tb_pc (tbs s ! t) \<noteq> pc \<or> tb_cs_base (tbs s ! t) \<noteq> cs_base \<or> tb_flags (tbs s ! t) \<noteq> flags
                  then tb_find_slow cpu_gen_code env pc cs_base flags s else Inr (t, s)
      | None \<Rightarrow> tb_find_slow cpu_gen_code env pc cs_base flags s)"

section \<open>Invalidation of pages\<close>

fun invalidate_page_loop :: "nat \<Rightarrow> u32 \<Rightarrow> tagged option \<Rightarrow> tb_context \<Rightarrow> tb_context result" where
  "invalidate_page_loop 0 addr tb s = Inl OutOfFuel"
| "invalidate_page_loop (Suc k) addr tb s =
     (case tb of None \<Rightarrow> Inr s
      | Some (t, n) \<Rightarrow>
          res_bind (tb_phys_invalidate t addr s) (\<lambda>s1. invalidate_page_loop k addr (page_link s1 (t, n)) s1))"

definition tb_invalidate_phys_page :: "u32 \<Rightarrow> tb_context \<Rightarrow> tb_context result" where
  "tb_invalidate_phys_page addr0 s =
     (let addr = addr0 AND TARGET_PAGE_MASK
      in case page_find (drop_bit 12 addr) s of None \<Rightarrow> Inr s
         | Some p \<Rightarrow>
             res_bind (invalidate_page_loop (chain_fuel s) addr (first_tb (page_get s p)) s) (\<lambda>s1.
               Inr (page_upd p (\<lambda>d. d\<lparr>first_tb := None\<rparr>) s1)))"

definition page_get_flags :: "u32 \<Rightarrow> tb_context \<Rightarrow> u64" where
  "page_get_flags address s =
     (case page_find (drop_bit 12 address) s of None \<Rightarrow> 0 | Some p \<Rightarrow> page_flags (page_get s p))"

text \<open>\<^verbatim>\<open>len\<close> is a multiple of the page size, so the loop runs \<^verbatim>\<open>len / TARGET_PAGE_SIZE\<close> times.\<close>

fun page_set_loop :: "nat \<Rightarrow> u32 \<Rightarrow> u64 \<Rightarrow> tb_context \<Rightarrow> tb_context result" where
  "page_set_loop 0 addr flags s = Inr s"
| "page_set_loop (Suc k) addr flags s =
     (let (p, s1) = page_alloc (drop_bit 12 addr) s; d = page_get s1 p
      in res_bind (if page_flags d AND PAGE_WRITE = 0 \<and> flags AND PAGE_WRITE \<noteq> 0 \<and> first_tb d \<noteq> None
                   then tb_invalidate_phys_page addr s1 else Inr s1) (\<lambda>s2.
         page_set_loop k (addr + 4096) flags (page_upd p (\<lambda>d. d\<lparr>page_flags := flags\<rparr>) s2)))"

definition page_set_flags :: "u32 \<Rightarrow> u32 \<Rightarrow> u64 \<Rightarrow> tb_context \<Rightarrow> tb_context result" where
  "page_set_flags start0 end0 flags0 s =
     check (start0 < end0) AssertFail
       (let start = start0 AND TARGET_PAGE_MASK;
            end' = (end0 + 4096 - 1) AND TARGET_PAGE_MASK;
            flags = (if flags0 AND PAGE_WRITE \<noteq> 0 then flags0 OR PAGE_WRITE_ORG else flags0)
        in page_set_loop (unat (end' - start) div 4096) start flags s)"

text \<open>The result is \<^verbatim>\<open>1\<close> or \<^verbatim>\<open>0\<close>; the host page is a guest page, so the loop runs once.\<close>

definition page_unprotect :: "u32 \<Rightarrow> tb_context \<Rightarrow> (bool \<times> tb_context) result" where
  "page_unprotect address s =
     (case page_find (drop_bit 12 address) s of None \<Rightarrow> Inr (False, s)
      | Some p \<Rightarrow>
          if page_flags (page_get s p) AND PAGE_WRITE_ORG \<noteq> 0 \<and> page_flags (page_get s p) AND PAGE_WRITE = 0
          then let addr = address AND TARGET_PAGE_MASK;
                   s1 = page_upd p (\<lambda>d. d\<lparr>page_flags := page_flags d OR PAGE_WRITE\<rparr>) s
               in res_bind (tb_invalidate_phys_page addr s1) (\<lambda>s2. Inr (True, s2))
          else Inr (False, s))"

text \<open>The result \<^verbatim>\<open>0\<close> is \<open>True\<close>, \<^verbatim>\<open>-1\<close> is \<open>False\<close>.\<close>

fun page_check_loop :: "nat \<Rightarrow> u32 \<Rightarrow> u64 \<Rightarrow> tb_context \<Rightarrow> (bool \<times> tb_context) result" where
  "page_check_loop 0 addr flags s = Inr (True, s)"
| "page_check_loop (Suc k) addr flags s =
     (case page_find (drop_bit 12 addr) s of None \<Rightarrow> Inr (False, s)
      | Some p \<Rightarrow>
          let pf = page_flags (page_get s p)
          in if pf AND PAGE_VALID = 0 then Inr (False, s)
             else if flags AND PAGE_READ \<noteq> 0 \<and> pf AND PAGE_READ = 0 then Inr (False, s)
             else if flags AND PAGE_WRITE \<noteq> 0
               then if pf AND PAGE_WRITE_ORG = 0 then Inr (False, s)
                    else if pf AND PAGE_WRITE = 0 then page_unprotect addr s
                    else Inr (True, s)
             else page_check_loop k (addr + 4096) flags s)"

definition page_check_range :: "u32 \<Rightarrow> u32 \<Rightarrow> u64 \<Rightarrow> tb_context \<Rightarrow> (bool \<times> tb_context) result" where
  "page_check_range start0 len flags s =
     (if len = 0 then Inr (True, s)
      else if start0 + len - 1 < start0 then Inr (False, s)
      else let end' = (start0 + len + 4096 - 1) AND TARGET_PAGE_MASK; start = start0 AND TARGET_PAGE_MASK
           in page_check_loop (unat (end' - start) div 4096) start flags s)"

section \<open>Search by code address\<close>

function find_pc_loop :: "TranslationBlock list \<Rightarrow> nat \<Rightarrow> int \<Rightarrow> int \<Rightarrow> int" where
  "find_pc_loop bs tc m_min m_max =
     (if m_min \<le> m_max
      then let m = (m_min + m_max) div 2; v = tc_ptr (bs ! nat m)
           in if v = tc then m
              else if tc < v then find_pc_loop bs tc m_min (m - 1) else find_pc_loop bs tc (m + 1) m_max
      else m_max)"
  by auto
termination
  by (relation "measure (\<lambda>(bs, tc, m_min, m_max). nat (m_max - m_min + 1))") auto

definition tb_find_pc :: "nat \<Rightarrow> tb_context \<Rightarrow> nat option" where
  "tb_find_pc tc s =
     (if nb_tbs s = 0 then None
      else if tc \<ge> code_gen_ptr s then None
      else Some (nat (find_pc_loop (tbs s) tc 0 (int (nb_tbs s) - 1))))"

end
