(* ===== verification/TbLists.thy ===== *)
theory TbLists
  imports TbCache
begin

text \<open>
  The linked structures of the translation cache as lists: chains from a head over a link
  function, what the removal loops do to them, and the representation predicate \<open>tb_rep\<close>, which
  relates a state to the list of blocks of every hash bucket and of every guest page.
\<close>

declare One_nat_def [simp del]

section \<open>Chains\<close>

fun chain :: "('p \<Rightarrow> 'p option) \<Rightarrow> 'p option \<Rightarrow> 'p list \<Rightarrow> bool" where
  "chain nxt h [] \<longleftrightarrow> h = None"
| "chain nxt h (x # xs) \<longleftrightarrow> h = Some x \<and> chain nxt (nxt x) xs"

lemma chain_None [simp]: "chain nxt None xs \<longleftrightarrow> xs = []"
  by (cases xs) auto

lemma chain_Some: "chain nxt (Some x) xs \<longleftrightarrow> (\<exists>ys. xs = x # ys \<and> chain nxt (nxt x) ys)"
  by (cases xs) auto

lemma chain_unique: "chain nxt h xs \<Longrightarrow> chain nxt h ys \<Longrightarrow> xs = ys"
  by (induction xs arbitrary: h ys) (auto simp: chain_Some)

lemma chain_append: "chain nxt h (xs @ y # ys) \<Longrightarrow> chain nxt (Some y) (y # ys)"
  by (induction xs arbitrary: h) auto

lemma chain_distinct: "chain nxt h xs \<Longrightarrow> distinct xs"
proof (induction xs arbitrary: h)
  case (Cons x xs)
  have "x \<notin> set xs"
  proof
    assume "x \<in> set xs"
    then obtain as bs where "xs = as @ x # bs" by (auto simp: in_set_conv_decomp)
    with Cons.prems have "chain nxt (nxt x) (as @ x # bs)" by simp
    with chain_append have "chain nxt (nxt x) bs" by fastforce
    with \<open>chain nxt (nxt x) (as @ x # bs)\<close> have "bs = as @ x # bs" by (rule chain_unique [rotated])
    then have "length bs = length (as @ x # bs)" by (rule arg_cong)
    then show False by simp
  qed
  with Cons.prems Cons.IH [of "nxt x"] show ?case by simp
qed simp

lemma chain_cong: "(\<And>x. x \<in> set xs \<Longrightarrow> nxt' x = nxt x) \<Longrightarrow> chain nxt' h xs \<longleftrightarrow> chain nxt h xs"
  by (induction xs arbitrary: h) auto

lemma chain_upd: "y \<notin> set xs \<Longrightarrow> chain (nxt(y := v)) h xs \<longleftrightarrow> chain nxt h xs"
  by (rule chain_cong) auto

lemma chain_mid: "chain nxt h (as @ x # bs) \<Longrightarrow> chain nxt (nxt x) bs"
  using chain_append by fastforce

lemma chain_unlink:
  assumes "chain nxt h (as @ x # bs)"
  shows "if as = [] then chain nxt (nxt x) (as @ bs) else chain (nxt(last as := nxt x)) h (as @ bs)"
  using assms chain_distinct [OF assms]
proof (induction as arbitrary: h)
  case (Cons a as)
  show ?case
  proof (cases as)
    case Nil
    with Cons.prems show ?thesis by (simp add: chain_upd)
  next
    case (Cons a' as')
    then have "as \<noteq> []" by simp
    moreover have "a \<noteq> last as" using Cons.prems \<open>as \<noteq> []\<close> by auto
    ultimately show ?thesis using Cons.IH [of "nxt a"] Cons.prems by auto
  qed
qed simp

lemma find_slot_chain:
  assumes "chain nxt cur (as @ x # bs)" "\<forall>y \<in> set as. \<not> hit y" "hit x" "length as < n"
  shows "find_slot n nxt ptb slot cur hit = Inr (if as = [] then ptb else slot (last as), x)"
  using assms
proof (induction as arbitrary: cur n ptb)
  case Nil
  then show ?case by (cases n) auto
next
  case (Cons a as)
  then show ?case by (cases n) auto
qed

lemma find_slot_miss:
  "chain nxt cur xs \<Longrightarrow> \<forall>y \<in> set xs. \<not> hit y \<Longrightarrow> length xs < n \<Longrightarrow> find_slot n nxt ptb slot cur hit = Inl NullDeref"
proof (induction xs arbitrary: cur n ptb)
  case Nil
  then show ?case by (cases n) auto
next
  case (Cons a as)
  then show ?case by (cases n) auto
qed

lemma chain_split:
  assumes "chain nxt h xs" "x \<in> set xs"
  obtains as bs where "xs = as @ x # bs" "x \<notin> set as" "x \<notin> set bs"
  using assms(2) chain_distinct [OF assms(1)] by (auto simp: in_set_conv_decomp)

section \<open>Updates of blocks and pages\<close>

lemma tb_upd_simps [simp]:
  "nb_tbs (tb_upd t f s) = nb_tbs s" "tb_phys_hash (tb_upd t f s) = tb_phys_hash s"
  "l1_map (tb_upd t f s) = l1_map s" "tb_jmp_cache (tb_upd t f s) = tb_jmp_cache s"
  "cpu_list (tb_upd t f s) = cpu_list s" "code_gen_ptr (tb_upd t f s) = code_gen_ptr s"
  "code_gen_buffer_size (tb_upd t f s) = code_gen_buffer_size s"
  "code_gen_buffer_max_size (tb_upd t f s) = code_gen_buffer_max_size s"
  "length (tbs (tb_upd t f s)) = length (tbs s)" "page_get (tb_upd t f s) = page_get s"
  by (simp_all add: tb_upd_def page_get_def fun_eq_iff)

lemma tbs_tb_upd: "tbs (tb_upd t f s) = (tbs s)[t := f (tbs s ! t)]"
  by (simp add: tb_upd_def)

lemma nth_tb_upd: "tbs (tb_upd t f s) ! x = (if x = t \<and> t < length (tbs s) then f (tbs s ! t) else tbs s ! x)"
  by (auto simp: tb_upd_def nth_list_update list_update_beyond)

lemma page_upd_simps [simp]:
  "nb_tbs (page_upd p f s) = nb_tbs s" "tb_phys_hash (page_upd p f s) = tb_phys_hash s"
  "tbs (page_upd p f s) = tbs s" "tb_jmp_cache (page_upd p f s) = tb_jmp_cache s"
  "cpu_list (page_upd p f s) = cpu_list s" "code_gen_ptr (page_upd p f s) = code_gen_ptr s"
  "code_gen_buffer_size (page_upd p f s) = code_gen_buffer_size s"
  "code_gen_buffer_max_size (page_upd p f s) = code_gen_buffer_max_size s"
  "l1_map (page_upd p f s) i = None \<longleftrightarrow> l1_map s i = None"
  by (auto simp: page_upd_def split: option.splits)

lemma page_get_upd:
  "page_get (page_upd p f s) q = (if q = p \<and> l1_map s (fst p) \<noteq> None then f (page_get s p) else page_get s q)"
  by (cases p; cases q) (auto simp: page_upd_def page_get_def split: option.splits)

lemma page_alloc_simps [simp]:
  assumes "page_alloc i s = (p, s')"
  shows "nb_tbs s' = nb_tbs s" "tb_phys_hash s' = tb_phys_hash s" "tbs s' = tbs s" "tb_jmp_cache s' = tb_jmp_cache s"
    "cpu_list s' = cpu_list s" "code_gen_ptr s' = code_gen_ptr s" "code_gen_buffer_size s' = code_gen_buffer_size s"
    "code_gen_buffer_max_size s' = code_gen_buffer_max_size s" "page_get s' = page_get s" "p = page_slot i"
    "l1_map s' (fst (page_slot i)) \<noteq> None"
  using assms by (auto simp: page_alloc_def page_get_def fun_eq_iff split: option.splits if_splits)

section \<open>Representation\<close>

definition page_of :: "u32 \<Rightarrow> page_ptr" where
  "page_of addr = page_slot (drop_bit 12 addr)"

definition live :: "(nat \<Rightarrow> nat list) \<Rightarrow> nat set" where
  "live B = (\<Union>h. set (B h))"

definition hash_rep :: "tb_context \<Rightarrow> (nat \<Rightarrow> nat list) \<Rightarrow> bool" where
  "hash_rep s B \<longleftrightarrow> (\<forall>h. chain (hash_link s) (tb_phys_hash s h) (B h) \<and>
     (\<forall>t \<in> set (B h). tb_phys_hash_func (tb_pc (tbs s ! t)) = h))"

text \<open>The links of a set of blocks that belong to a page\<close>

definition on_page :: "tb_context \<Rightarrow> nat set \<Rightarrow> page_ptr \<Rightarrow> tagged set" where
  "on_page s L p = {(t, n). t \<in> L \<and> (n = 0 \<and> page_of (page_addr (tbs s ! t) 0) = p \<or>
     n = 1 \<and> page_addr (tbs s ! t) 1 \<noteq> - 1 \<and> page_of (page_addr (tbs s ! t) 1) = p)}"

definition page_rep :: "page_ptr set \<Rightarrow> tb_context \<Rightarrow> nat set \<Rightarrow> (page_ptr \<Rightarrow> tagged list) \<Rightarrow> bool" where
  "page_rep g s L P \<longleftrightarrow> (\<forall>p. p \<notin> g \<longrightarrow> chain (page_link s) (first_tb (page_get s p)) (P p) \<and> set (P p) = on_page s L p \<and>
     (P p \<noteq> [] \<longrightarrow> page_flags (page_get s p) AND PAGE_WRITE = 0))"

definition second_page :: "u32 \<Rightarrow> u16 \<Rightarrow> u32" where
  "second_page pc sz =
     (let virt_page2 = (pc + ucast sz - 1) AND TARGET_PAGE_MASK
      in if pc AND TARGET_PAGE_MASK \<noteq> virt_page2 then virt_page2 else - 1)"

definition block_ok :: "nat \<Rightarrow> TranslationBlock \<Rightarrow> bool" where
  "block_ok t b \<longleftrightarrow> page_addr b 0 = tb_pc b AND TARGET_PAGE_MASK \<and> page_addr b 1 = second_page (tb_pc b) (tb_size b) \<and>
     1 \<le> tb_size b \<and> tb_size b \<le> 4096 \<and> jmp_first b = (t, 2) \<and> jmp_next b 0 = None \<and> jmp_next b 1 = None"

definition cache_rep :: "tb_context \<Rightarrow> nat set \<Rightarrow> bool" where
  "cache_rep s L \<longleftrightarrow> (\<forall>env \<in> set (cpu_list s). \<forall>k t. tb_jmp_cache s env k = Some t \<longrightarrow>
     t \<in> L \<and> tb_jmp_cache_hash_func (tb_pc (tbs s ! t)) = k)"

definition tb_rep :: "page_ptr set \<Rightarrow> tb_context \<Rightarrow> (nat \<Rightarrow> nat list) \<Rightarrow> (page_ptr \<Rightarrow> tagged list) \<Rightarrow> bool" where
  "tb_rep g s B P \<longleftrightarrow> nb_tbs s \<le> length (tbs s) \<and> hash_rep s B \<and> page_rep g s (live B) P \<and> cache_rep s (live B) \<and>
     (\<forall>t \<in> live B. t < nb_tbs s \<and> block_ok t (tbs s ! t))"

lemma tb_repD:
  assumes "tb_rep g s B P"
  shows "nb_tbs s \<le> length (tbs s)" "hash_rep s B" "page_rep g s (live B) P" "cache_rep s (live B)"
    "t \<in> live B \<Longrightarrow> t < nb_tbs s" "t \<in> live B \<Longrightarrow> block_ok t (tbs s ! t)" "t \<in> live B \<Longrightarrow> t < length (tbs s)"
  using assms by (auto simp: tb_rep_def)

lemma hash_repD:
  assumes "hash_rep s B"
  shows "chain (hash_link s) (tb_phys_hash s h) (B h)" "t \<in> set (B h) \<Longrightarrow> tb_phys_hash_func (tb_pc (tbs s ! t)) = h"
  using assms by (auto simp: hash_rep_def)

lemma live_bucket: "hash_rep s B \<Longrightarrow> t \<in> live B \<longleftrightarrow> t \<in> set (B (tb_phys_hash_func (tb_pc (tbs s ! t))))"
  by (auto simp: live_def hash_rep_def)

lemma page_repD:
  assumes "page_rep g s L P" "p \<notin> g"
  shows "chain (page_link s) (first_tb (page_get s p)) (P p)" "set (P p) = on_page s L p"
    "P p \<noteq> [] \<Longrightarrow> page_flags (page_get s p) AND PAGE_WRITE = 0"
  using assms unfolding page_rep_def by blast+

text \<open>A state that differs only outside the live blocks, in counters, or in page bitmaps\<close>

lemma tb_rep_cong:
  assumes "tb_rep g s B P"
    and "nb_tbs s \<le> nb_tbs s'" "nb_tbs s' \<le> length (tbs s')"
    and "\<And>t. t \<in> live B \<Longrightarrow> tbs s' ! t = tbs s ! t"
    and "tb_phys_hash s' = tb_phys_hash s" "cpu_list s' = cpu_list s" "tb_jmp_cache s' = tb_jmp_cache s"
    and "\<And>p. p \<notin> g \<Longrightarrow> first_tb (page_get s' p) = first_tb (page_get s p) \<and> page_flags (page_get s' p) = page_flags (page_get s p)"
  shows "tb_rep g s' B P"
proof -
  note r = tb_repD [OF assms(1)]
  have hl: "hash_link s' t = hash_link s t" if "t \<in> live B" for t using assms(4) [OF that] by (simp add: hash_link_def)
  have hr: "hash_rep s' B"
    unfolding hash_rep_def
  proof (intro allI conjI ballI)
    fix h
    have B: "t \<in> live B" if "t \<in> set (B h)" for t using that by (auto simp: live_def)
    show "chain (hash_link s') (tb_phys_hash s' h) (B h)"
      using hash_repD(1) [OF r(2), of h] chain_cong [of "B h" "hash_link s'" "hash_link s", OF hl [OF B]] by (simp add: assms(5))
    show "tb_phys_hash_func (tb_pc (tbs s' ! t)) = h" if "t \<in> set (B h)" for t
      using hash_repD(2) [OF r(2) that] assms(4) [OF B [OF that]] by simp
  qed
  have op: "on_page s' (live B) p = on_page s (live B) p" for p unfolding on_page_def using assms(4) by auto
  have pr: "page_rep g s' (live B) P"
    unfolding page_rep_def
  proof (intro allI impI)
    fix p assume p: "p \<notin> g"
    note P = page_repD [OF r(3) p]
    have "page_link s' x = page_link s x" if "x \<in> set (P p)" for x
      using that P(2) assms(4) by (auto simp: page_link_def on_page_def)
    from P chain_cong [of "P p" "page_link s'" "page_link s", OF this] assms(8) [OF p] op
    show "chain (page_link s') (first_tb (page_get s' p)) (P p) \<and> set (P p) = on_page s' (live B) p \<and>
        (P p \<noteq> [] \<longrightarrow> page_flags (page_get s' p) AND PAGE_WRITE = 0)" by simp
  qed
  have "cache_rep s' (live B)" using r(4) assms(4,6,7) unfolding cache_rep_def by simp
  moreover have "t < nb_tbs s' \<and> block_ok t (tbs s' ! t)" if "t \<in> live B" for t
    using r(5,6) [OF that] assms(2) assms(4) [OF that] by simp
  ultimately show ?thesis using hr pr assms(3) by (simp add: tb_rep_def)
qed

section \<open>Allocation, flushing and linking\<close>

lemma tb_alloc_rep:
  assumes "tb_alloc pc s = (Some t, s')" "tb_rep g s B P"
  shows "tb_rep g s' B P" "t = nb_tbs s" "t \<notin> live B" "nb_tbs s' = Suc t" "t < length (tbs s')" "tb_pc (tbs s' ! t) = pc"
    "length (tbs s') = length (tbs s)" "code_gen_ptr s' = code_gen_ptr s" "cpu_list s' = cpu_list s"
    "tb_phys_hash s' = tb_phys_hash s" "x \<noteq> t \<Longrightarrow> tbs s' ! x = tbs s ! x"
proof -
  have t: "t = nb_tbs s" "t < length (tbs s)"
    and s': "s' = tb_upd t (\<lambda>b. b\<lparr>tb_pc := pc, tb_cflags := 0\<rparr>) (s\<lparr>nb_tbs := nb_tbs s + 1\<rparr>)"
    using assms(1) by (auto simp: tb_alloc_def Let_def split: if_splits)
  show "t = nb_tbs s" by (rule t(1))
  show dead: "t \<notin> live B" using tb_repD(5) [OF assms(2), of t] t by auto
  show "tb_rep g s' B P"
    by (rule tb_rep_cong [OF assms(2)]) (use t dead in \<open>auto simp: s' nth_tb_upd page_get_def\<close>)
  show "nb_tbs s' = Suc t" "t < length (tbs s')" "tb_pc (tbs s' ! t) = pc" "length (tbs s') = length (tbs s)"
    "code_gen_ptr s' = code_gen_ptr s" "cpu_list s' = cpu_list s" "tb_phys_hash s' = tb_phys_hash s"
    "x \<noteq> t \<Longrightarrow> tbs s' ! x = tbs s ! x"
    using t by (simp_all add: s' nth_tb_upd)
qed

lemma tb_flush_Inr:
  assumes "tb_flush s = Inr s'"
  shows "nb_tbs s' = 0" "tbs s' = tbs s" "tb_phys_hash s' = (\<lambda>_. None)" "cpu_list s' = cpu_list s" "code_gen_ptr s' = 0"
    "tb_jmp_cache s' = clear_caches (cpu_list s) (tb_jmp_cache s)"
    "page_get s' p = (page_get s p)\<lparr>first_tb := None, code_bitmap := None, code_write_count := 0\<rparr>"
    "code_gen_buffer_size s' = code_gen_buffer_size s" "code_gen_buffer_max_size s' = code_gen_buffer_max_size s"
  using assms by (auto simp: tb_flush_def Let_def page_flush_tb_def page_get_def zero_page_def split: option.splits)

lemma tb_flush_rep:
  assumes "tb_flush s = Inr s'"
  shows "tb_rep {} s' (\<lambda>_. []) (\<lambda>_. [])"
  using tb_flush_Inr [OF assms]
  by (auto simp: tb_rep_def hash_rep_def page_rep_def cache_rep_def live_def on_page_def clear_caches_def)

lemma tb_alloc_page_proj:
  assumes "t < length (tbs s)"
  shows "tbs (tb_alloc_page t n pg s) = (tbs s)[t := (tbs s ! t)\<lparr>page_addr := (page_addr (tbs s ! t))(n := pg),
      page_next := (page_next (tbs s ! t))(n := first_tb (page_get s (page_of pg)))\<rparr>]"
    "page_get (tb_alloc_page t n pg s) q = (if q = page_of pg then (page_get s q)\<lparr>first_tb := Some (t, n),
      code_bitmap := None, code_write_count := 0, page_flags := page_flags (page_get s q) AND NOT PAGE_WRITE\<rparr> else page_get s q)"
    "nb_tbs (tb_alloc_page t n pg s) = nb_tbs s" "tb_phys_hash (tb_alloc_page t n pg s) = tb_phys_hash s"
    "tb_jmp_cache (tb_alloc_page t n pg s) = tb_jmp_cache s" "cpu_list (tb_alloc_page t n pg s) = cpu_list s"
    "code_gen_ptr (tb_alloc_page t n pg s) = code_gen_ptr s"
    "code_gen_buffer_size (tb_alloc_page t n pg s) = code_gen_buffer_size s"
    "code_gen_buffer_max_size (tb_alloc_page t n pg s) = code_gen_buffer_max_size s"
proof -
  have idem: "w AND NOT PAGE_WRITE = w" if "w AND PAGE_WRITE = 0" for w
  proof (rule bit_word_eqI)
    fix k
    have "bit (w AND PAGE_WRITE) k = bit (0 :: u64) k" by (simp only: that)
    then show "bit (w AND NOT PAGE_WRITE) k = bit w k" if "k < LENGTH(64)" using that by (auto simp: bit_and_iff bit_not_iff)
  qed
  obtain p s2 where a: "page_alloc (drop_bit 12 pg) (tb_upd t (\<lambda>b. b\<lparr>page_addr := (page_addr b)(n := pg)\<rparr>) s) = (p, s2)" by fastforce
  note a' = page_alloc_simps [OF a]
  show "tbs (tb_alloc_page t n pg s) = (tbs s)[t := (tbs s ! t)\<lparr>page_addr := (page_addr (tbs s ! t))(n := pg),
      page_next := (page_next (tbs s ! t))(n := first_tb (page_get s (page_of pg)))\<rparr>]"
    using assms by (simp add: tb_alloc_page_def a Let_def invalidate_page_bitmap_def tbs_tb_upd a' page_of_def)
  show "page_get (tb_alloc_page t n pg s) q = (if q = page_of pg then (page_get s q)\<lparr>first_tb := Some (t, n),
      code_bitmap := None, code_write_count := 0, page_flags := page_flags (page_get s q) AND NOT PAGE_WRITE\<rparr> else page_get s q)"
    using a'(11) by (auto simp: tb_alloc_page_def a Let_def invalidate_page_bitmap_def a' page_of_def page_get_upd idem)
  show "nb_tbs (tb_alloc_page t n pg s) = nb_tbs s" "tb_phys_hash (tb_alloc_page t n pg s) = tb_phys_hash s"
    "tb_jmp_cache (tb_alloc_page t n pg s) = tb_jmp_cache s" "cpu_list (tb_alloc_page t n pg s) = cpu_list s"
    "code_gen_ptr (tb_alloc_page t n pg s) = code_gen_ptr s"
    "code_gen_buffer_size (tb_alloc_page t n pg s) = code_gen_buffer_size s"
    "code_gen_buffer_max_size (tb_alloc_page t n pg s) = code_gen_buffer_max_size s"
    by (simp_all add: tb_alloc_page_def a Let_def invalidate_page_bitmap_def a')
qed

lemma tb_reset_jump_simps [simp]:
  "tbs (tb_reset_jump t n s) = tbs s" "nb_tbs (tb_reset_jump t n s) = nb_tbs s"
  "tb_phys_hash (tb_reset_jump t n s) = tb_phys_hash s" "page_get (tb_reset_jump t n s) = page_get s"
  "tb_jmp_cache (tb_reset_jump t n s) = tb_jmp_cache s" "cpu_list (tb_reset_jump t n s) = cpu_list s"
  "code_gen_ptr (tb_reset_jump t n s) = code_gen_ptr s"
  "code_gen_buffer_size (tb_reset_jump t n s) = code_gen_buffer_size s"
  "code_gen_buffer_max_size (tb_reset_jump t n s) = code_gen_buffer_max_size s"
  by (simp_all add: tb_reset_jump_def tb_set_jmp_target_def Let_def page_get_def fun_eq_iff)

text \<open>The state after \<^verbatim>\<open>tb_link_page\<close>, field by field\<close>

lemma tb_link_page_proj:
  fixes pc pgx :: u32 and s :: tb_context and t :: nat
  assumes "t < length (tbs s)"
  defines "b \<equiv> tbs s ! t" and "p0 \<equiv> page_of (pc AND TARGET_PAGE_MASK)" and "s' \<equiv> tb_link_page t pc pgx s"
  shows "x \<noteq> t \<Longrightarrow> tbs s' ! x = tbs s ! x" "length (tbs s') = length (tbs s)"
    "phys_hash_next (tbs s' ! t) = tb_phys_hash s (tb_phys_hash_func pc)"
    "page_addr (tbs s' ! t) 0 = pc AND TARGET_PAGE_MASK" "page_addr (tbs s' ! t) 1 = pgx"
    "page_next (tbs s' ! t) 0 = first_tb (page_get s p0)"
    "pgx \<noteq> - 1 \<Longrightarrow> page_next (tbs s' ! t) 1 = (if page_of pgx = p0 then Some (t, 0) else first_tb (page_get s (page_of pgx)))"
    "jmp_first (tbs s' ! t) = (t, 2)" "jmp_next (tbs s' ! t) n = None"
    "tb_pc (tbs s' ! t) = tb_pc b" "tb_size (tbs s' ! t) = tb_size b" "tb_cs_base (tbs s' ! t) = tb_cs_base b"
    "tb_flags (tbs s' ! t) = tb_flags b" "tc_ptr (tbs s' ! t) = tc_ptr b" "tb_next_pc (tbs s' ! t) = tb_next_pc b"
    "tb_phys_hash s' = (tb_phys_hash s)(tb_phys_hash_func pc := Some t)"
    "first_tb (page_get s' q) = (if pgx \<noteq> - 1 \<and> q = page_of pgx then Some (t, 1) else if q = p0 then Some (t, 0) else first_tb (page_get s q))"
    "page_flags (page_get s' q) = (if q = p0 \<or> pgx \<noteq> - 1 \<and> q = page_of pgx then page_flags (page_get s q) AND NOT PAGE_WRITE else page_flags (page_get s q))"
    "nb_tbs s' = nb_tbs s" "tb_jmp_cache s' = tb_jmp_cache s" "cpu_list s' = cpu_list s" "code_gen_ptr s' = code_gen_ptr s"
    "code_gen_buffer_size s' = code_gen_buffer_size s" "code_gen_buffer_max_size s' = code_gen_buffer_max_size s"
proof -
  define s2 where "s2 = (tb_upd t (\<lambda>b. b\<lparr>phys_hash_next := tb_phys_hash s (tb_phys_hash_func pc)\<rparr>) s)\<lparr>tb_phys_hash := (tb_phys_hash s)(tb_phys_hash_func pc := Some t)\<rparr>"
  define s3 where "s3 = tb_alloc_page t 0 (pc AND TARGET_PAGE_MASK) s2"
  define s4 where "s4 = (if pgx \<noteq> - 1 then tb_alloc_page t 1 pgx s3 else tb_upd t (\<lambda>b. b\<lparr>page_addr := (page_addr b)(1 := - 1)\<rparr>) s3)"
  define s5 where "s5 = tb_upd t (\<lambda>b. b\<lparr>jmp_first := (t, 2), jmp_next := (\<lambda>_. None)\<rparr>) s4"
  have e: "tbs s' = tbs s5" "tb_phys_hash s' = tb_phys_hash s5" "page_get s' = page_get s5" "nb_tbs s' = nb_tbs s5"
    "tb_jmp_cache s' = tb_jmp_cache s5" "cpu_list s' = cpu_list s5" "code_gen_ptr s' = code_gen_ptr s5"
    "code_gen_buffer_size s' = code_gen_buffer_size s5" "code_gen_buffer_max_size s' = code_gen_buffer_max_size s5"
    by (simp_all add: s'_def tb_link_page_def Let_def s2_def s3_def s4_def s5_def cong: if_cong)
  have l2: "t < length (tbs s2)" using assms(1) by (simp add: s2_def)
  have t2: "tbs s2 = (tbs s)[t := b\<lparr>phys_hash_next := tb_phys_hash s (tb_phys_hash_func pc)\<rparr>]" "page_get s2 = page_get s"
    "tb_phys_hash s2 = (tb_phys_hash s)(tb_phys_hash_func pc := Some t)" "nb_tbs s2 = nb_tbs s" "tb_jmp_cache s2 = tb_jmp_cache s"
    "cpu_list s2 = cpu_list s" "code_gen_ptr s2 = code_gen_ptr s" "code_gen_buffer_size s2 = code_gen_buffer_size s"
    "code_gen_buffer_max_size s2 = code_gen_buffer_max_size s"
    by (simp_all add: s2_def b_def tbs_tb_upd page_get_def fun_eq_iff)
  note p2 = tb_alloc_page_proj [OF l2, of 0 "pc AND TARGET_PAGE_MASK", folded s3_def p0_def]
  have l3: "t < length (tbs s3)" using l2 by (simp add: p2)
  note p3 = tb_alloc_page_proj [OF l3, of 1 pgx]
  note all = s5_def s4_def p3 p2 t2 tbs_tb_upd
  show "x \<noteq> t \<Longrightarrow> tbs s' ! x = tbs s ! x" "length (tbs s') = length (tbs s)"
    "phys_hash_next (tbs s' ! t) = tb_phys_hash s (tb_phys_hash_func pc)"
    "page_addr (tbs s' ! t) 0 = pc AND TARGET_PAGE_MASK" "page_addr (tbs s' ! t) 1 = pgx"
    "page_next (tbs s' ! t) 0 = first_tb (page_get s p0)"
    "jmp_first (tbs s' ! t) = (t, 2)" "jmp_next (tbs s' ! t) n = None"
    "tb_pc (tbs s' ! t) = tb_pc b" "tb_size (tbs s' ! t) = tb_size b" "tb_cs_base (tbs s' ! t) = tb_cs_base b"
    "tb_flags (tbs s' ! t) = tb_flags b" "tc_ptr (tbs s' ! t) = tc_ptr b" "tb_next_pc (tbs s' ! t) = tb_next_pc b"
    "tb_phys_hash s' = (tb_phys_hash s)(tb_phys_hash_func pc := Some t)"
    "first_tb (page_get s' q) = (if pgx \<noteq> - 1 \<and> q = page_of pgx then Some (t, 1) else if q = p0 then Some (t, 0) else first_tb (page_get s q))"
    "nb_tbs s' = nb_tbs s" "tb_jmp_cache s' = tb_jmp_cache s" "cpu_list s' = cpu_list s" "code_gen_ptr s' = code_gen_ptr s"
    "code_gen_buffer_size s' = code_gen_buffer_size s" "code_gen_buffer_max_size s' = code_gen_buffer_max_size s"
    using assms(1) by (simp_all add: e all b_def)
  show "pgx \<noteq> - 1 \<Longrightarrow> page_next (tbs s' ! t) 1 = (if page_of pgx = p0 then Some (t, 0) else first_tb (page_get s (page_of pgx)))"
    using assms(1) by (simp add: e all)
  show "page_flags (page_get s' q) = (if q = p0 \<or> pgx \<noteq> - 1 \<and> q = page_of pgx then page_flags (page_get s q) AND NOT PAGE_WRITE else page_flags (page_get s q))"
    by (simp add: e all)
qed

lemma and_not_PAGE_WRITE [simp]: "(w AND NOT PAGE_WRITE) AND PAGE_WRITE = 0"
  by (simp add: and.assoc)

lemma tb_link_page_rep:
  assumes rep: "tb_rep {} s B P" and t: "t \<notin> live B" "t < nb_tbs s"
    and b: "tb_pc (tbs s ! t) = pc" "1 \<le> tb_size (tbs s ! t)" "tb_size (tbs s ! t) \<le> 4096"
    and pg2: "pg2 = second_page pc (tb_size (tbs s ! t))"
  obtains P' where "tb_rep {} (tb_link_page t pc pg2 s)
    (B(tb_phys_hash_func pc := t # B (tb_phys_hash_func pc))) P'"
proof -
  let ?h = "tb_phys_hash_func pc" and ?p0 = "page_of (pc AND TARGET_PAGE_MASK)"
  define s' where "s' = tb_link_page t pc pg2 s"
  let ?B = "B(?h := t # B ?h)" and ?s = s'
  let ?P = "\<lambda>p. (if pg2 \<noteq> - 1 \<and> p = page_of pg2 then [(t, 1)] else []) @ (if p = ?p0 then [(t, 0)] else []) @ P p"
  note r = tb_repD [OF rep]
  have tl: "t < length (tbs s)" using t(2) r(1) by simp
  note pr = tb_link_page_proj [OF tl, where pc = pc and pgx = pg2, folded s'_def]
  have live: "live ?B = insert t (live B)" by (auto simp: live_def split: if_splits)
  have same: "tbs ?s ! x = tbs s ! x" if "x \<in> live B" for x using that t(1) by (intro pr(1)) auto
  have hl: "hash_link ?s x = hash_link s x" if "x \<in> live B" for x using same [OF that] by (simp add: hash_link_def)
  have ct: "chain (hash_link ?s) (tb_phys_hash s k) (B k)" for k
    using hash_repD(1) [OF r(2)] chain_cong [of "B k" "hash_link ?s" "hash_link s"] hl by (auto simp: live_def)
  have H: "hash_rep ?s ?B"
    unfolding hash_rep_def
  proof (intro allI conjI ballI)
    fix k
    show "chain (hash_link ?s) (tb_phys_hash ?s k) (?B k)" using ct [of k] ct [of ?h] by (auto simp: pr hash_link_def)
    fix x assume x: "x \<in> set (?B k)"
    show "tb_phys_hash_func (tb_pc (tbs ?s ! x)) = k"
    proof (cases "x = t")
      case True
      then have "k = ?h" using x t(1) by (auto simp: live_def split: if_splits)
      then show ?thesis by (simp add: True pr b)
    next
      case False
      then show ?thesis using x pr(1) [OF False] hash_repD(2) [OF r(2), of x k] by (auto split: if_splits)
    qed
  qed
  have pl: "page_link ?s x = page_link s x" if "x \<in> set (P p)" for x p
    using page_repD(2) [OF r(3), of p] that same by (auto simp: page_link_def on_page_def)
  have cp: "chain (page_link ?s) (first_tb (page_get s p)) (P p)" for p
    using page_repD(1) [OF r(3), of p] chain_cong [of "P p" "page_link ?s" "page_link s"] pl by auto
  have op: "on_page ?s (insert t (live B)) p = set (?P p)" for p
  proof -
    have "on_page ?s (live B) p = on_page s (live B) p" using same unfolding on_page_def by auto
    moreover have "on_page ?s (insert t (live B)) p = on_page ?s {t} p \<union> on_page ?s (live B) p" by (auto simp: on_page_def)
    moreover have "on_page ?s {t} p = (if pg2 \<noteq> - 1 \<and> p = page_of pg2 then {(t, 1)} else {}) \<union> (if p = ?p0 then {(t, 0)} else {})"
      by (auto simp: on_page_def pr)
    ultimately show ?thesis using page_repD(2) [OF r(3), of p] by auto
  qed
  have PR: "page_rep {} ?s (live ?B) ?P"
    unfolding page_rep_def live
  proof (intro allI impI conjI)
    fix p
    show "chain (page_link ?s) (first_tb (page_get ?s p)) (?P p)"
      using cp [of p] by (auto simp: pr page_link_def)
    show "set (?P p) = on_page ?s (insert t (live B)) p" by (rule op [symmetric])
    assume "?P p \<noteq> []"
    then show "page_flags (page_get ?s p) AND PAGE_WRITE = 0"
      using page_repD(3) [OF r(3), of p] by (auto simp: pr split: if_splits)
  qed
  have "cache_rep ?s (live ?B)"
    using r(4) same unfolding cache_rep_def live pr(20,21) by fastforce
  moreover have "x < nb_tbs ?s \<and> block_ok x (tbs ?s ! x)" if "x \<in> live ?B" for x
  proof (cases "x = t")
    case True
    then show ?thesis using t(2) b pg2 by (simp add: pr block_ok_def)
  next
    case False
    with that live have "x \<in> live B" by simp
    then show ?thesis using r(5,6) pr(1) [OF False] by (simp add: pr)
  qed
  ultimately have "tb_rep {} ?s ?B ?P" using H PR r(1) by (simp add: tb_rep_def pr)
  then show ?thesis unfolding s'_def by (rule that)
qed

end
