(* ===== verification/TbRemove.thy ===== *)
theory TbRemove
  imports TbLists
begin

text \<open>
  Removal of a block from the hash table, from the page lists and from the jump caches: every
  loop finds the block, and \<^verbatim>\<open>tb_phys_invalidate\<close> makes exactly that block disappear.
\<close>

section \<open>Addresses of pages\<close>

lemma page_of_inj:
  assumes "a AND TARGET_PAGE_MASK = a" "b AND TARGET_PAGE_MASK = b" "page_of a = page_of b"
  shows "a = b"
proof (rule bit_word_eqI)
  fix k assume "k < LENGTH(32)"
  have m: "(push_bit 10 1 - 1 :: u32) = mask 10" "(push_bit 12 1 - 1 :: u32) = mask 12" by (simp_all add: mask_eq_exp_minus_1)
  have low: "\<not> bit x k" if "x AND TARGET_PAGE_MASK = x" "k < 12" for x
  proof -
    have "bit (x AND TARGET_PAGE_MASK) k = (bit x k \<and> \<not> bit (mask 12 :: u32) k)"
      using \<open>k < LENGTH(32)\<close> unfolding TARGET_PAGE_MASK_def m by (simp add: bit_and_iff bit_not_iff)
    with that show ?thesis by (simp add: bit_mask_iff)
  qed
  have hi: "drop_bit 10 (drop_bit 12 a) AND mask 10 = drop_bit 10 (drop_bit 12 b) AND (mask 10 :: u32)"
    and lo: "drop_bit 12 a AND mask 10 = drop_bit 12 b AND (mask 10 :: u32)"
    using assms(3) unfolding page_of_def page_slot_def m prod.inject word_unat_eq_iff by blast+
  consider "k < 12" | "12 \<le> k" "k < 22" | "22 \<le> k" by linarith
  then show "bit a k = bit b k"
  proof cases
    case 1
    then show ?thesis using low assms by blast
  next
    case 2
    have "bit (drop_bit 12 a AND mask 10) (k - 12) = bit (drop_bit 12 b AND (mask 10 :: u32)) (k - 12)" by (simp only: lo)
    moreover have "k - 12 < 10" using 2 by linarith
    ultimately show ?thesis using 2 by (simp add: bit_and_iff bit_drop_bit_eq bit_mask_iff)
  next
    case 3
    have "bit (drop_bit 10 (drop_bit 12 a) AND mask 10) (k - 22) = bit (drop_bit 10 (drop_bit 12 b) AND (mask 10 :: u32)) (k - 22)"
      by (simp only: hi)
    moreover have "k - 22 < 10" using 3 \<open>k < LENGTH(32)\<close> by simp
    ultimately show ?thesis using 3 by (simp add: bit_and_iff bit_drop_bit_eq bit_mask_iff)
  qed
qed

lemma masked_idem [simp]: "(a AND TARGET_PAGE_MASK) AND TARGET_PAGE_MASK = a AND TARGET_PAGE_MASK"
  by (simp add: and.assoc)

lemma second_page_masked: "second_page pc sz \<noteq> - 1 \<Longrightarrow> second_page pc sz AND TARGET_PAGE_MASK = second_page pc sz"
  by (auto simp: second_page_def Let_def split: if_splits)

lemma second_page_other: "second_page pc sz \<noteq> pc AND TARGET_PAGE_MASK"
proof -
  have "(- 1 :: u32) \<noteq> pc AND TARGET_PAGE_MASK"
  proof
    assume "- 1 = pc AND TARGET_PAGE_MASK"
    then have "bit (- 1 :: u32) 0 = bit (pc AND TARGET_PAGE_MASK) 0" by (rule arg_cong)
    moreover have "(push_bit 12 1 - 1 :: u32) = mask 12" by (simp add: mask_eq_exp_minus_1)
    ultimately show False unfolding TARGET_PAGE_MASK_def by (simp add: bit_and_iff bit_not_iff bit_mask_iff)
  qed
  then show ?thesis by (auto simp: second_page_def Let_def)
qed

section \<open>Frames\<close>

text \<open>Everything but the hash links, and everything but the page links and heads\<close>

definition hash_frame :: "tb_context \<Rightarrow> tb_context \<Rightarrow> bool" where
  "hash_frame s s' \<longleftrightarrow> (\<forall>x. \<exists>v. tbs s' ! x = (tbs s ! x)\<lparr>phys_hash_next := v\<rparr>) \<and> length (tbs s') = length (tbs s) \<and>
     nb_tbs s' = nb_tbs s \<and> l1_map s' = l1_map s \<and> tb_jmp_cache s' = tb_jmp_cache s \<and> cpu_list s' = cpu_list s \<and>
     code_gen_ptr s' = code_gen_ptr s \<and> code_gen_buffer_size s' = code_gen_buffer_size s \<and>
     code_gen_buffer_max_size s' = code_gen_buffer_max_size s"

definition page_frame :: "tb_context \<Rightarrow> tb_context \<Rightarrow> bool" where
  "page_frame s s' \<longleftrightarrow> (\<forall>x. \<exists>v. tbs s' ! x = (tbs s ! x)\<lparr>page_next := v\<rparr>) \<and> length (tbs s') = length (tbs s) \<and>
     nb_tbs s' = nb_tbs s \<and> tb_phys_hash s' = tb_phys_hash s \<and> tb_jmp_cache s' = tb_jmp_cache s \<and> cpu_list s' = cpu_list s \<and>
     (\<forall>q. page_flags (page_get s' q) = page_flags (page_get s q)) \<and> (\<forall>i. l1_map s' i = None \<longleftrightarrow> l1_map s i = None) \<and>
     code_gen_ptr s' = code_gen_ptr s \<and> code_gen_buffer_size s' = code_gen_buffer_size s \<and> code_gen_buffer_max_size s' = code_gen_buffer_max_size s"

lemma page_frame_refl [simp]: "page_frame s s"
proof -
  have "\<exists>v. tbs s ! x = (tbs s ! x)\<lparr>page_next := v\<rparr>" for x by (rule exI [of _ "page_next (tbs s ! x)"]) simp
  then show ?thesis by (simp add: page_frame_def)
qed

lemma page_frame_flags: "page_frame s s' \<Longrightarrow> page_flags (page_get s' q) = page_flags (page_get s q)"
  unfolding page_frame_def by blast

lemma page_frame_trans: "page_frame s s1 \<Longrightarrow> page_frame s1 s2 \<Longrightarrow> page_frame s s2"
proof -
  assume a: "page_frame s s1" "page_frame s1 s2"
  have "\<exists>v. tbs s2 ! x = (tbs s ! x)\<lparr>page_next := v\<rparr>" for x
  proof -
    obtain v w where "tbs s1 ! x = (tbs s ! x)\<lparr>page_next := v\<rparr>" "tbs s2 ! x = (tbs s1 ! x)\<lparr>page_next := w\<rparr>"
      using a unfolding page_frame_def by meson
    then have "tbs s2 ! x = (tbs s ! x)\<lparr>page_next := w\<rparr>" by simp
    then show ?thesis by blast
  qed
  with a show ?thesis by (simp add: page_frame_def)
qed

lemma hash_frame_blocks:
  assumes "hash_frame s s'"
  shows "tb_pc (tbs s' ! x) = tb_pc (tbs s ! x)" "page_addr (tbs s' ! x) = page_addr (tbs s ! x)"
    "page_next (tbs s' ! x) = page_next (tbs s ! x)" "block_ok y (tbs s' ! x) = block_ok y (tbs s ! x)"
    "page_link s' p = page_link s p" "page_get s' = page_get s" "on_page s' L q = on_page s L q"
    "tb_cs_base (tbs s' ! x) = tb_cs_base (tbs s ! x)" "tb_flags (tbs s' ! x) = tb_flags (tbs s ! x)"
    "jmp_next (tbs s' ! x) = jmp_next (tbs s ! x)" "jmp_first (tbs s' ! x) = jmp_first (tbs s ! x)"
    "tc_ptr (tbs s' ! x) = tc_ptr (tbs s ! x)"
proof -
  have u: "\<exists>v. tbs s' ! x = (tbs s ! x)\<lparr>phys_hash_next := v\<rparr>" for x using assms by (simp add: hash_frame_def)
  show f: "tb_pc (tbs s' ! x) = tb_pc (tbs s ! x)" "page_addr (tbs s' ! x) = page_addr (tbs s ! x)"
    "page_next (tbs s' ! x) = page_next (tbs s ! x)" "block_ok y (tbs s' ! x) = block_ok y (tbs s ! x)"
    "tb_cs_base (tbs s' ! x) = tb_cs_base (tbs s ! x)" "tb_flags (tbs s' ! x) = tb_flags (tbs s ! x)"
    "jmp_next (tbs s' ! x) = jmp_next (tbs s ! x)" "jmp_first (tbs s' ! x) = jmp_first (tbs s ! x)"
    "tc_ptr (tbs s' ! x) = tc_ptr (tbs s ! x)" for x
    using u [of x] by (auto simp: block_ok_def)
  show "page_link s' p = page_link s p" by (simp add: page_link_def f)
  show "page_get s' = page_get s" using assms by (simp add: hash_frame_def page_get_def fun_eq_iff)
  show "on_page s' L q = on_page s L q" by (simp add: on_page_def f)
qed

lemma page_frame_blocks:
  assumes "page_frame s s'"
  shows "tb_pc (tbs s' ! x) = tb_pc (tbs s ! x)" "page_addr (tbs s' ! x) = page_addr (tbs s ! x)"
    "block_ok y (tbs s' ! x) = block_ok y (tbs s ! x)"
    "hash_link s' x = hash_link s x" "on_page s' L q = on_page s L q"
    "jmp_next (tbs s' ! x) = jmp_next (tbs s ! x)" "jmp_first (tbs s' ! x) = jmp_first (tbs s ! x)"
    "tc_ptr (tbs s' ! x) = tc_ptr (tbs s ! x)" "hash_rep s' B = hash_rep s B"
proof -
  have u: "\<exists>v. tbs s' ! x = (tbs s ! x)\<lparr>page_next := v\<rparr>" for x using assms by (simp add: page_frame_def)
  show f: "tb_pc (tbs s' ! x) = tb_pc (tbs s ! x)" "page_addr (tbs s' ! x) = page_addr (tbs s ! x)"
    "block_ok y (tbs s' ! x) = block_ok y (tbs s ! x)" "hash_link s' x = hash_link s x"
    "jmp_next (tbs s' ! x) = jmp_next (tbs s ! x)" "jmp_first (tbs s' ! x) = jmp_first (tbs s ! x)"
    "tc_ptr (tbs s' ! x) = tc_ptr (tbs s ! x)" for x
    using u [of x] by (auto simp: block_ok_def hash_link_def)
  show "on_page s' L q = on_page s L q" by (simp add: on_page_def f)
  have "hash_link s' = hash_link s" by (rule ext) (rule f)
  then show "hash_rep s' B = hash_rep s B" using assms by (simp add: hash_rep_def page_frame_def f)
qed

section \<open>Removal from a chain\<close>

lemma tb_remove_hash:
  assumes hr: "hash_rep s B" and t: "t \<in> set (B h)" and bound: "\<And>x k. x \<in> set (B k) \<Longrightarrow> x < length (tbs s)"
  obtains s' where "tb_remove h t s = Inr s'" "hash_rep s' (B(h := remove1 t (B h)))" "hash_frame s s'"
proof -
  have c: "chain (hash_link s) (tb_phys_hash s h) (B h)" by (rule hash_repD(1) [OF hr])
  obtain as bs where B: "B h = as @ t # bs" "t \<notin> set as" "t \<notin> set bs" using chain_split [OF c t] .
  have "card (set (B h)) \<le> card {..<length (tbs s)}" using bound by (intro card_mono) auto
  then have "length (B h) \<le> length (tbs s)" using chain_distinct [OF c] by (simp add: distinct_card)
  then have fuel: "length as < chain_fuel s" using B(1) by (simp add: chain_fuel_def)
  have f: "find_slot (chain_fuel s) (hash_link s) None Some (tb_phys_hash s h) (\<lambda>p. p = t) =
      Inr (if as = [] then None else Some (last as), t)"
    by (rule find_slot_chain [OF c [unfolded B(1)]]) (use B fuel in auto)
  have r: "remove1 t (B h) = as @ bs" using B by (simp add: remove1_append)
  have "last as \<in> set (B h)" if "as \<noteq> []" using that B by simp
  then have la: "last as < length (tbs s)" "last as \<in> set (B h)" if "as \<noteq> []" using that bound by auto
  define s' where "s' = (if as = [] then s\<lparr>tb_phys_hash := (tb_phys_hash s)(h := hash_link s t)\<rparr>
      else tb_upd (last as) (\<lambda>b. b\<lparr>phys_hash_next := hash_link s t\<rparr>) s)"
  have "tb_remove h t s = Inr s'" by (simp add: tb_remove_def f s'_def)
  moreover have "hash_frame s s'"
  proof -
    have "\<exists>v. tbs s' ! x = (tbs s ! x)\<lparr>phys_hash_next := v\<rparr>" for x
      by (rule exI [of _ "phys_hash_next (tbs s' ! x)"]) (simp add: s'_def nth_tb_upd)
    then show ?thesis by (simp add: hash_frame_def s'_def)
  qed
  moreover have "hash_rep s' (B(h := remove1 t (B h)))"
    unfolding hash_rep_def
  proof (intro allI conjI ballI)
    fix k
    have l: "hash_link s' = (if as = [] then hash_link s else (hash_link s)(last as := hash_link s t))"
      using la by (auto simp: s'_def hash_link_def nth_tb_upd fun_eq_iff)
    show "chain (hash_link s') (tb_phys_hash s' k) ((B(h := remove1 t (B h))) k)"
    proof (cases "k = h")
      case True
      then show ?thesis using chain_unlink [OF c [unfolded B(1)]] unfolding l r by (auto simp: s'_def)
    next
      case False
      have "last as \<notin> set (B k)" if "as \<noteq> []" using la(2) [OF that] hash_repD(2) [OF hr] False by metis
      moreover have "tb_phys_hash s' k = tb_phys_hash s k" using False by (simp add: s'_def)
      ultimately show ?thesis using False hash_repD(1) [OF hr, of k] by (auto simp: l chain_upd)
    qed
    show "tb_phys_hash_func (tb_pc (tbs s' ! x)) = k" if "x \<in> set ((B(h := remove1 t (B h))) k)" for x
      using that hash_repD(2) [OF hr, of x k] hash_frame_blocks(1) [OF \<open>hash_frame s s'\<close>, of x]
      by (auto split: if_splits dest: notin_set_remove1)
  qed
  ultimately show ?thesis by (blast intro: that)
qed

definition pchain :: "page_ptr set \<Rightarrow> tb_context \<Rightarrow> (page_ptr \<Rightarrow> tagged list) \<Rightarrow> bool" where
  "pchain g s P \<longleftrightarrow> (\<forall>p. p \<notin> g \<longrightarrow> chain (page_link s) (first_tb (page_get s p)) (P p))"

lemma page_remove_at_chain:
  assumes pc: "pchain g s P" and a: "page_of a \<notin> g" "(t, n) \<in> set (P (page_of a))"
    and one: "\<And>m. (t, m) \<in> set (P (page_of a)) \<Longrightarrow> m = n"
    and disj: "\<And>q. q \<notin> g \<Longrightarrow> q \<noteq> page_of a \<Longrightarrow> set (P (page_of a)) \<inter> set (P q) = {}"
    and bound: "set (P (page_of a)) \<subseteq> {..<length (tbs s)} \<times> {0, 1}"
  obtains s' where "page_remove_at a t s = Inr s'" "pchain g s' (P(page_of a := remove1 (t, n) (P (page_of a))))" "page_frame s s'"
    "\<And>x. x \<notin> set (P (page_of a)) \<Longrightarrow> page_link s' x = page_link s x"
    "\<And>q. q \<noteq> page_of a \<Longrightarrow> first_tb (page_get s' q) = first_tb (page_get s q)"
proof -
  let ?p = "page_of a"
  have c: "chain (page_link s) (first_tb (page_get s ?p)) (P ?p)" using pc a(1) unfolding pchain_def by blast
  obtain as bs where B: "P ?p = as @ (t, n) # bs" "(t, n) \<notin> set as" "(t, n) \<notin> set bs" using chain_split [OF c a(2)] .
  have "card (set (P ?p)) \<le> card ({..<length (tbs s)} \<times> {0, 1 :: nat})" using bound by (intro card_mono) auto
  then have "length (P ?p) \<le> 2 * length (tbs s)" using chain_distinct [OF c] by (simp add: distinct_card card_cartesian_product)
  then have fuel: "length as < chain_fuel s" using B(1) by (simp add: chain_fuel_def)
  have miss: "\<forall>y \<in> set as. \<not> fst y = t"
  proof (intro ballI notI)
    fix y assume y: "y \<in> set as" "fst y = t"
    then have "y = (t, snd y)" "(t, snd y) \<in> set (P ?p)" using B(1) by (auto simp: prod_eq_iff)
    with one [of "snd y"] have "y = (t, n)" by simp
    with y B(2) show False by simp
  qed
  have f: "find_slot (chain_fuel s) (page_link s) None Some (first_tb (page_get s ?p)) (\<lambda>p. fst p = t) =
      Inr (if as = [] then None else Some (last as), (t, n))"
    by (rule find_slot_chain [OF c [unfolded B(1)]]) (use miss fuel in auto)
  have "first_tb (page_get s ?p) \<noteq> None" using c a(2) by (cases "P ?p") auto
  then have al: "l1_map s (fst ?p) \<noteq> None" by (auto simp: page_get_def zero_page_def split: option.splits)
  then have pf: "page_find (drop_bit 12 a) s = Some ?p" by (auto simp: page_find_def page_of_def)
  have r: "remove1 (t, n) (P ?p) = as @ bs" using B by (simp add: remove1_append)
  have la: "last as \<in> set (P ?p)" "fst (last as) < length (tbs s)" if "as \<noteq> []"
  proof -
    show "last as \<in> set (P ?p)" using that B by simp
    then have "last as \<in> {..<length (tbs s)} \<times> {0, 1}" using bound by blast
    then show "fst (last as) < length (tbs s)" by (cases "last as") simp
  qed
  define s1 where "s1 = (if as = [] then page_upd ?p (\<lambda>d. d\<lparr>first_tb := page_link s (t, n)\<rparr>) s
      else tb_upd (fst (last as)) (\<lambda>b. b\<lparr>page_next := (page_next b)(snd (last as) := page_link s (t, n))\<rparr>) s)"
  define s' where "s' = invalidate_page_bitmap ?p s1"
  have e: "page_remove_at a t s = Inr s'" by (simp add: page_remove_at_def pf tb_page_remove_def f s1_def s'_def)
  have "l1_map s1 (fst ?p) \<noteq> None" using al by (cases "as = []") (simp_all add: s1_def)
  then have g': "page_get s' q = (if q = ?p then (page_get s1 q)\<lparr>code_bitmap := None, code_write_count := 0\<rparr> else page_get s1 q)" for q
    unfolding s'_def invalidate_page_bitmap_def page_get_upd by simp
  have g1: "page_get s1 q = (if q = ?p \<and> as = [] then (page_get s q)\<lparr>first_tb := page_link s (t, n)\<rparr> else page_get s q)" for q
    using al by (cases "as = []") (simp_all add: s1_def page_get_upd)
  have ft: "first_tb (page_get s' q) = (if q = ?p \<and> as = [] then page_link s (t, n) else first_tb (page_get s q))"
    and fl: "page_flags (page_get s' q) = page_flags (page_get s q)" for q
    unfolding g' g1 by simp_all
  have l: "page_link s' = (if as = [] then page_link s else (page_link s)(last as := page_link s (t, n)))"
  proof (rule ext)
    fix x
    show "page_link s' x = (if as = [] then page_link s else (page_link s)(last as := page_link s (t, n))) x"
    proof (cases "as = []")
      case False
      have "x = last as \<longleftrightarrow> fst x = fst (last as) \<and> snd x = snd (last as)" by (simp add: prod_eq_iff)
      then show ?thesis using False la(2) [OF False]
        by (cases "fst x = fst (last as)") (simp_all add: s'_def s1_def invalidate_page_bitmap_def page_link_def nth_tb_upd)
    qed (simp add: s'_def s1_def invalidate_page_bitmap_def page_link_def)
  qed
  have fr: "page_frame s s'"
  proof -
    have "\<exists>v. tbs s' ! x = (tbs s ! x)\<lparr>page_next := v\<rparr>" for x
      by (rule exI [of _ "page_next (tbs s' ! x)"]) (simp add: s'_def s1_def invalidate_page_bitmap_def nth_tb_upd)
    then show ?thesis using fl by (simp add: page_frame_def s'_def s1_def invalidate_page_bitmap_def)
  qed
  have pc': "pchain g s' (P(?p := remove1 (t, n) (P ?p)))"
    unfolding pchain_def
  proof (intro allI impI)
    fix q assume q: "q \<notin> g"
    show "chain (page_link s') (first_tb (page_get s' q)) ((P(?p := remove1 (t, n) (P ?p))) q)"
    proof (cases "q = ?p")
      case True
      then show ?thesis using chain_unlink [OF c [unfolded B(1)]] unfolding l r ft by auto
    next
      case False
      have "last as \<notin> set (P q)" if "as \<noteq> []" using la(1) [OF that] disj [OF q False] by blast
      moreover have "chain (page_link s) (first_tb (page_get s q)) (P q)" using pc q unfolding pchain_def by blast
      ultimately show ?thesis using False by (simp add: l ft chain_upd)
    qed
  qed
  have "page_link s' x = page_link s x" if "x \<notin> set (P ?p)" for x
    using that la(1) by (cases "as = []") (auto simp: l simp del: split_paired_All)
  moreover have "first_tb (page_get s' q) = first_tb (page_get s q)" if "q \<noteq> ?p" for q using that by (simp add: ft)
  ultimately show ?thesis by (rule that [OF e pc' fr])
qed

section \<open>Invalidation of a block\<close>

lemma chain_fuel_Suc: "chain_fuel s = Suc (3 * length (tbs s))"
  by (simp add: chain_fuel_def)

lemma tb_jmp_remove_none: "jmp_next (tbs s ! t) n = None \<Longrightarrow> tb_jmp_remove t n s = Inr s"
  by (simp add: tb_jmp_remove_def)

lemma on_page_page: "x \<in> on_page s L p \<Longrightarrow> page_of (page_addr (tbs s ! fst x) (snd x)) = p"
  unfolding on_page_def by (elim CollectE case_prodE) (elim conjE disjE; simp)

lemma on_page_disjoint: "p \<noteq> q \<Longrightarrow> on_page s L p \<inter> on_page s L q = {}"
  using on_page_page by blast

lemma on_page_bound: "L \<subseteq> {..<n} \<Longrightarrow> on_page s L p \<subseteq> {..<n} \<times> {0, 1}"
  by (auto simp: on_page_def)

lemma set_remove1_chain: "chain nxt h xs \<Longrightarrow> set (remove1 x xs) = set xs - {x}"
  using chain_distinct [of nxt h xs] by (simp add: set_remove1_eq)

text \<open>
  One of the two page removals of \<^verbatim>\<open>tb_phys_invalidate\<close>: slot \<open>n\<close> of block \<open>t\<close> leaves the list of its
  page, unless that page is being emptied anyway.
\<close>

lemma page_remove_slot:
  assumes pc: "pchain g s P" and sets: "\<And>p. p \<notin> g \<Longrightarrow> set (P p) = X p" and disj: "\<And>p q. p \<noteq> q \<Longrightarrow> X p \<inter> X q = {}"
    and bound: "\<And>p. X p \<subseteq> {..<length (tbs s)} \<times> {0, 1}" and one: "\<And>m. (t, m) \<in> X (page_of a) \<Longrightarrow> m = n"
    and mem: "page_of a \<notin> g \<Longrightarrow> (t, n) \<in> X (page_of a)" and b: "b \<longleftrightarrow> page_of a \<notin> g"
  obtains s' P' where "(if b then page_remove_at a t s else Inr s) = Inr s'" "pchain g s' P'"
    "\<And>p. p \<notin> g \<Longrightarrow> set (P' p) = X p - (if p = page_of a then {(t, n)} else {})" "page_frame s s'"
    "\<And>x p. p \<in> g \<Longrightarrow> x \<in> X p \<Longrightarrow> page_link s' x = page_link s x"
    "\<And>q. q \<in> g \<Longrightarrow> first_tb (page_get s' q) = first_tb (page_get s q)"
proof (cases b)
  case False
  then have g: "page_of a \<in> g" using b by simp
  show ?thesis by (rule that [of s P]) (use False g pc sets in auto)
next
  case True
  then have g: "page_of a \<notin> g" using b by simp
  have X: "set (P (page_of a)) = X (page_of a)" by (rule sets [OF g])
  obtain s' where s': "page_remove_at a t s = Inr s'" "pchain g s' (P(page_of a := remove1 (t, n) (P (page_of a))))" "page_frame s s'"
    "\<And>x. x \<notin> set (P (page_of a)) \<Longrightarrow> page_link s' x = page_link s x"
    "\<And>q. q \<noteq> page_of a \<Longrightarrow> first_tb (page_get s' q) = first_tb (page_get s q)"
  proof (rule page_remove_at_chain [OF pc g, of t n])
    show "(t, n) \<in> set (P (page_of a))" using X mem g by simp
    show "set (P (page_of a)) \<inter> set (P q) = {}" if "q \<notin> g" "q \<noteq> page_of a" for q
      using disj [of "page_of a" q] that sets X by auto
  qed (use X one bound in auto)
  have c: "chain (page_link s) (first_tb (page_get s (page_of a))) (P (page_of a))" using pc g unfolding pchain_def by blast
  show ?thesis
  proof (rule that [OF _ s'(2) _ s'(3)])
    show "(if b then page_remove_at a t s else Inr s) = Inr s'" using True s'(1) by simp
    show "set ((P(page_of a := remove1 (t, n) (P (page_of a)))) p) = X p - (if p = page_of a then {(t, n)} else {})" if "p \<notin> g" for p
      using set_remove1_chain [OF c] X sets [OF that] by auto
    show "page_link s' x = page_link s x" if "p \<in> g" "x \<in> X p" for x p
      using that g disj [of p "page_of a"] X by (intro s'(4)) auto
    show "first_tb (page_get s' q) = first_tb (page_get s q)" if "q \<in> g" for q using that g by (intro s'(5)) auto
  qed
qed

definition block_frame :: "tb_context \<Rightarrow> tb_context \<Rightarrow> bool" where
  "block_frame s s' \<longleftrightarrow> (\<forall>x. tb_pc (tbs s' ! x) = tb_pc (tbs s ! x) \<and> tb_size (tbs s' ! x) = tb_size (tbs s ! x) \<and>
       tb_cs_base (tbs s' ! x) = tb_cs_base (tbs s ! x) \<and> tb_flags (tbs s' ! x) = tb_flags (tbs s ! x) \<and>
       tc_ptr (tbs s' ! x) = tc_ptr (tbs s ! x) \<and> page_addr (tbs s' ! x) = page_addr (tbs s ! x)) \<and>
     nb_tbs s' = nb_tbs s \<and> length (tbs s') = length (tbs s) \<and> cpu_list s' = cpu_list s \<and> code_gen_ptr s' = code_gen_ptr s \<and>
     code_gen_buffer_size s' = code_gen_buffer_size s \<and> code_gen_buffer_max_size s' = code_gen_buffer_max_size s \<and>
     (\<forall>q. page_flags (page_get s' q) = page_flags (page_get s q)) \<and> (\<forall>i. l1_map s' i = None \<longleftrightarrow> l1_map s i = None)"

lemma block_frame_refl [simp]: "block_frame s s"
  by (simp add: block_frame_def)

lemma block_frame_trans [trans]: "block_frame s s1 \<Longrightarrow> block_frame s1 s2 \<Longrightarrow> block_frame s s2"
  by (simp add: block_frame_def)

lemma block_frameD:
  assumes "block_frame s s'"
  shows "nb_tbs s' = nb_tbs s" "length (tbs s') = length (tbs s)" "cpu_list s' = cpu_list s" "code_gen_ptr s' = code_gen_ptr s"
    "tb_pc (tbs s' ! x) = tb_pc (tbs s ! x)" "tb_size (tbs s' ! x) = tb_size (tbs s ! x)" "tc_ptr (tbs s' ! x) = tc_ptr (tbs s ! x)"
    "page_addr (tbs s' ! x) = page_addr (tbs s ! x)" "page_flags (page_get s' q) = page_flags (page_get s q)"
    "tb_cs_base (tbs s' ! x) = tb_cs_base (tbs s ! x)" "tb_flags (tbs s' ! x) = tb_flags (tbs s ! x)"
    "code_gen_buffer_size s' = code_gen_buffer_size s" "code_gen_buffer_max_size s' = code_gen_buffer_max_size s"
    "l1_map s' i = None \<longleftrightarrow> l1_map s i = None"
  using assms unfolding block_frame_def by blast+

lemma hash_block_frame: "hash_frame s s' \<Longrightarrow> block_frame s s'"
proof -
  assume h: "hash_frame s s'"
  have "tb_size (tbs s' ! x) = tb_size (tbs s ! x)" for x
  proof -
    obtain v where "tbs s' ! x = (tbs s ! x)\<lparr>phys_hash_next := v\<rparr>" using h unfolding hash_frame_def by blast
    then show ?thesis by simp
  qed
  then show ?thesis using h hash_frame_blocks [OF h] by (simp add: block_frame_def hash_frame_def)
qed

lemma page_block_frame: "page_frame s s' \<Longrightarrow> block_frame s s'"
proof -
  assume h: "page_frame s s'"
  have "tb_size (tbs s' ! x) = tb_size (tbs s ! x) \<and> tb_cs_base (tbs s' ! x) = tb_cs_base (tbs s ! x) \<and> tb_flags (tbs s' ! x) = tb_flags (tbs s ! x)" for x
  proof -
    obtain v where "tbs s' ! x = (tbs s ! x)\<lparr>page_next := v\<rparr>" using h unfolding page_frame_def by blast
    then show ?thesis by simp
  qed
  then show ?thesis using h page_frame_blocks [OF h] by (simp add: block_frame_def page_frame_def)
qed

lemma on_page_cong: "block_frame s s' \<Longrightarrow> on_page s' L p = on_page s L p"
  by (simp add: block_frame_def on_page_def)

lemma masked_sum: "(pc AND TARGET_PAGE_MASK) + (pc AND NOT TARGET_PAGE_MASK) = pc"
proof -
  have "(pc AND TARGET_PAGE_MASK) + (pc AND NOT TARGET_PAGE_MASK) = (pc AND TARGET_PAGE_MASK) OR (pc AND NOT TARGET_PAGE_MASK)"
    by (rule disjunctive_add_eq_or) (simp add: and.assoc and.left_commute)
  also have "\<dots> = pc" by (rule bit_word_eqI) (auto simp: bit_simps)
  finally show ?thesis .
qed

text \<open>
  The page lists after both removals: for the slots of block \<open>t\<close> on pages that are kept, nothing
  of \<open>t\<close> remains, and the links on a page that is being emptied are as before.
\<close>

lemma page_remove_both:
  assumes pr: "page_rep g s L P" and t: "t \<in> L" "block_ok t (tbs s ! t)" and bound: "L \<subseteq> {..<length (tbs s)}"
    and G: "\<forall>a. a AND TARGET_PAGE_MASK = a \<longrightarrow> (page_of a \<in> g \<longleftrightarrow> a = pg)"
  obtains s1 s2 P' where "(if page_addr (tbs s ! t) 0 \<noteq> pg then page_remove_at (page_addr (tbs s ! t) 0) t s else Inr s) = Inr s1"
    "(if page_addr (tbs s ! t) 1 \<noteq> - 1 \<and> page_addr (tbs s ! t) 1 \<noteq> pg then page_remove_at (page_addr (tbs s ! t) 1) t s1 else Inr s1) = Inr s2"
    "page_rep g s2 (L - {t}) P'" "page_frame s s2"
    "\<And>x p. p \<in> g \<Longrightarrow> x \<in> on_page s L p \<Longrightarrow> page_link s2 x = page_link s x"
    "\<And>q. q \<in> g \<Longrightarrow> first_tb (page_get s2 q) = first_tb (page_get s q)"
proof -
  let ?b = "tbs s ! t" and ?X = "on_page s L"
  let ?a0 = "page_addr ?b 0" and ?a1 = "page_addr ?b 1"
  have a0: "?a0 AND TARGET_PAGE_MASK = ?a0" and a1: "?a1 \<noteq> - 1 \<Longrightarrow> ?a1 AND TARGET_PAGE_MASK = ?a1"
    using t(2) second_page_masked by (auto simp: block_ok_def)
  have ne: "page_of ?a1 \<noteq> page_of ?a0" if "?a1 \<noteq> - 1"
    using page_of_inj [OF a1 [OF that] a0] second_page_other t(2) by (auto simp: block_ok_def)
  have pc0: "pchain g s P" using page_repD(1) [OF pr] unfolding pchain_def by blast
  have one0: "m = 0" if "(t, m) \<in> ?X (page_of ?a0)" for m using that ne by (auto simp: on_page_def)
  have one1: "m = 1" if "(t, m) \<in> ?X (page_of ?a1)" "?a1 \<noteq> - 1" for m using that ne by (auto simp: on_page_def)
  have mem0: "(t, 0) \<in> ?X (page_of ?a0)" using t(1) by (simp add: on_page_def)
  obtain s1 P1 where s1: "(if ?a0 \<noteq> pg then page_remove_at ?a0 t s else Inr s) = Inr s1" "pchain g s1 P1"
    "\<And>p. p \<notin> g \<Longrightarrow> set (P1 p) = ?X p - (if p = page_of ?a0 then {(t, 0)} else {})" "page_frame s s1"
    "\<And>x p. p \<in> g \<Longrightarrow> x \<in> ?X p \<Longrightarrow> page_link s1 x = page_link s x"
    "\<And>q. q \<in> g \<Longrightarrow> first_tb (page_get s1 q) = first_tb (page_get s q)"
    by (rule page_remove_slot [OF pc0 page_repD(2) [OF pr] on_page_disjoint on_page_bound [OF bound] one0, where b = "?a0 \<noteq> pg"])
      (use mem0 G a0 in blast)+
  define X1 where "X1 p = (if p \<in> g then ?X p else ?X p - (if p = page_of ?a0 then {(t, 0)} else {}))" for p
  have sets1: "set (P1 p) = X1 p" if "p \<notin> g" for p using s1(3) [OF that] that by (simp add: X1_def)
  have bound1: "X1 p \<subseteq> {..<length (tbs s1)} \<times> {0, 1}" for p
    using on_page_bound [OF bound, of s p] s1(4) unfolding page_frame_def X1_def by auto
  have disj1: "X1 p \<inter> X1 q = {}" if "p \<noteq> q" for p q using on_page_disjoint [OF that, of s L] unfolding X1_def by auto
  have fin: "X1 p - (if ?a1 \<noteq> - 1 \<and> p = page_of ?a1 then {(t, 1)} else {}) = on_page s (L - {t}) p" if "p \<notin> g" for p
    using that by (auto simp: X1_def on_page_def split: if_splits)
  obtain s2 P2 where s2: "(if ?a1 \<noteq> - 1 \<and> ?a1 \<noteq> pg then page_remove_at ?a1 t s1 else Inr s1) = Inr s2" "pchain g s2 P2"
    "\<And>p. p \<notin> g \<Longrightarrow> set (P2 p) = on_page s (L - {t}) p" "page_frame s1 s2"
    "\<And>x p. p \<in> g \<Longrightarrow> x \<in> X1 p \<Longrightarrow> page_link s2 x = page_link s1 x"
    "\<And>q. q \<in> g \<Longrightarrow> first_tb (page_get s2 q) = first_tb (page_get s1 q)"
  proof (cases "?a1 = - 1")
    case True
    have "set (P1 p) = on_page s (L - {t}) p" if "p \<notin> g" for p using sets1 [OF that] fin [OF that] True by simp
    then show ?thesis by (intro that [OF _ s1(2)]) (simp_all only: True simp_thms if_False page_frame_refl)
  next
    case False
    have g: "?a1 \<noteq> pg \<longleftrightarrow> page_of ?a1 \<notin> g" using G a1 [OF False] by blast
    have mem1: "(t, 1) \<in> X1 (page_of ?a1)" using t(1) False by (simp add: X1_def on_page_def)
    have one1': "m = 1" if "(t, m) \<in> X1 (page_of ?a1)" for m using that one1 [of m] False by (auto simp: X1_def split: if_splits)
    obtain s2 P2 where s2: "(if ?a1 \<noteq> pg then page_remove_at ?a1 t s1 else Inr s1) = Inr s2" "pchain g s2 P2"
      "\<And>p. p \<notin> g \<Longrightarrow> set (P2 p) = X1 p - (if p = page_of ?a1 then {(t, 1)} else {})" "page_frame s1 s2"
      "\<And>x p. p \<in> g \<Longrightarrow> x \<in> X1 p \<Longrightarrow> page_link s2 x = page_link s1 x"
      "\<And>q. q \<in> g \<Longrightarrow> first_tb (page_get s2 q) = first_tb (page_get s1 q)"
      by (rule page_remove_slot [OF s1(2) sets1 disj1 bound1 one1' mem1 g]) blast+
    have "set (P2 p) = on_page s (L - {t}) p" if "p \<notin> g" for p using s2(3) [OF that] fin [OF that] False by simp
    moreover have "(if ?a1 \<noteq> - 1 \<and> ?a1 \<noteq> pg then page_remove_at ?a1 t s1 else Inr s1) = Inr s2" using s2(1) False by simp
    ultimately show ?thesis by (intro that [OF _ s2(2) _ s2(4,5,6)])
  qed
  have fr: "page_frame s s2" by (rule page_frame_trans [OF s1(4) s2(4)])
  have "page_rep g s2 (L - {t}) P2"
    unfolding page_rep_def
  proof (intro allI impI conjI)
    fix p assume p: "p \<notin> g"
    show "chain (page_link s2) (first_tb (page_get s2 p)) (P2 p)" using s2(2) p unfolding pchain_def by blast
    show "set (P2 p) = on_page s2 (L - {t}) p" using s2(3) [OF p] page_frame_blocks(5) [OF fr] by simp
    assume "P2 p \<noteq> []"
    then have "set (P2 p) \<noteq> {}" by simp
    then have "on_page s L p \<noteq> {}" unfolding s2(3) [OF p] by (auto simp: on_page_def)
    then have "P p \<noteq> []" using page_repD(2) [OF pr p] by auto
    then show "page_flags (page_get s2 p) AND PAGE_WRITE = 0" using page_repD(3) [OF pr p] page_frame_flags [OF fr] by simp
  qed
  moreover have "page_link s2 x = page_link s x" if "p \<in> g" "x \<in> ?X p" for x p
    using s1(5) [OF that] s2(5) [OF that(1), of x] that by (simp add: X1_def)
  moreover have "first_tb (page_get s2 q) = first_tb (page_get s q)" if "q \<in> g" for q using s1(6) [OF that] s2(6) [OF that] by simp
  ultimately show ?thesis by (rule that [OF s1(1) s2(1) _ fr])
qed

lemma cache_rep_drop:
  assumes "cache_rep s L" "tb_jmp_cache s' = drop_cached (cpu_list s) (tb_jmp_cache_hash_func (tb_pc (tbs s ! t))) t (tb_jmp_cache s)"
    "cpu_list s' = cpu_list s" "\<And>x. tb_pc (tbs s' ! x) = tb_pc (tbs s ! x)"
  shows "cache_rep s' (L - {t})"
  unfolding cache_rep_def assms(3,4)
proof (intro ballI allI impI)
  fix env k x assume a: "env \<in> set (cpu_list s)" "tb_jmp_cache s' env k = Some x"
  let ?h = "tb_jmp_cache_hash_func (tb_pc (tbs s ! t))"
  have c: "tb_jmp_cache s env k = Some x" "\<not> (k = ?h \<and> x = t)"
    using a(2) unfolding assms(2) drop_cached_def by (auto simp: a(1) split: if_splits)
  then have "x \<in> L \<and> tb_jmp_cache_hash_func (tb_pc (tbs s ! x)) = k" using assms(1) a(1) unfolding cache_rep_def by blast
  with c(2) show "x \<in> L - {t} \<and> tb_jmp_cache_hash_func (tb_pc (tbs s ! x)) = k" by auto
qed

lemma tb_phys_invalidate_rep:
  assumes rep: "tb_rep g s B P" and t: "t \<in> live B"
    and G: "\<forall>a. a AND TARGET_PAGE_MASK = a \<longrightarrow> (page_of a \<in> g \<longleftrightarrow> a = pg)"
  obtains s' B' P' where "tb_phys_invalidate t pg s = Inr s'" "tb_rep g s' B' P'" "live B' = live B - {t}" "block_frame s s'"
    "\<And>x p. p \<in> g \<Longrightarrow> x \<in> on_page s (live B) p \<Longrightarrow> page_link s' x = page_link s x"
    "\<And>q. q \<in> g \<Longrightarrow> first_tb (page_get s' q) = first_tb (page_get s q)"
    "\<And>env. env \<notin> set (cpu_list s) \<Longrightarrow> tb_jmp_cache s' env = tb_jmp_cache s env"
proof -
  let ?b = "tbs s ! t" and ?h = "tb_phys_hash_func (tb_pc (tbs s ! t))"
  note r = tb_repD [OF rep]
  have ok: "block_ok t ?b" by (rule r(6) [OF t])
  have tB: "t \<in> set (B ?h)" using t live_bucket [OF r(2)] by simp
  have phys: "page_addr ?b 0 + (tb_pc ?b AND NOT TARGET_PAGE_MASK) = tb_pc ?b" using ok masked_sum by (simp add: block_ok_def)
  have bd: "x < length (tbs s)" if "x \<in> set (B k)" for x k using that r(7) by (auto simp: live_def)
  define B' where "B' = B(?h := remove1 t (B ?h))"
  obtain s1 where s1: "tb_remove ?h t s = Inr s1" "hash_rep s1 B'" "hash_frame s s1"
    unfolding B'_def by (rule tb_remove_hash [OF r(2) tB bd])
  have live': "live B' = live B - {t}"
  proof -
    have "set (remove1 t (B ?h)) = set (B ?h) - {t}" by (rule set_remove1_chain [OF hash_repD(1) [OF r(2)]])
    moreover have "t \<notin> set (B k)" if "k \<noteq> ?h" for k using that hash_repD(2) [OF r(2)] by blast
    ultimately show ?thesis unfolding live_def B'_def by (auto split: if_splits)
  qed
  note f1 = hash_frame_blocks [OF s1(3)] and b1 = hash_block_frame [OF s1(3)]
  have pr1: "page_rep g s1 (live B) P"
  proof -
    have "page_link s1 = page_link s" by (rule ext) (rule f1)
    then show ?thesis using r(3) unfolding page_rep_def f1(6,7) by simp
  qed
  have ok1: "block_ok t (tbs s1 ! t)" using ok by (simp add: f1)
  have L1: "live B \<subseteq> {..<length (tbs s1)}" using r(7) block_frameD(2) [OF b1] by auto
  obtain s2 s3 P' where s2: "(if page_addr (tbs s1 ! t) 0 \<noteq> pg then page_remove_at (page_addr (tbs s1 ! t) 0) t s1 else Inr s1) = Inr s2"
    and s3: "(if page_addr (tbs s1 ! t) 1 \<noteq> - 1 \<and> page_addr (tbs s1 ! t) 1 \<noteq> pg then page_remove_at (page_addr (tbs s1 ! t) 1) t s2 else Inr s2) = Inr s3"
      "page_rep g s3 (live B - {t}) P'" "page_frame s1 s3"
      "\<And>x p. p \<in> g \<Longrightarrow> x \<in> on_page s1 (live B) p \<Longrightarrow> page_link s3 x = page_link s1 x"
      "\<And>q. q \<in> g \<Longrightarrow> first_tb (page_get s3 q) = first_tb (page_get s1 q)"
    by (rule page_remove_both [OF pr1 t ok1 L1 G]) blast
  note f3 = page_frame_blocks [OF s3(3)] and b3 = block_frame_trans [OF b1 page_block_frame [OF s3(3)]]
  note d3 = block_frameD [OF b3]
  have jc3: "tb_jmp_cache s3 = tb_jmp_cache s" using s1(3) s3(3) by (simp add: hash_frame_def page_frame_def)
  define s5 where "s5 = s3\<lparr>tb_invalidated_flag := True, tb_jmp_cache := drop_cached (cpu_list s3) (tb_jmp_cache_hash_func (tb_pc ?b)) t (tb_jmp_cache s3)\<rparr>"
  define s' where "s' = (tb_upd t (\<lambda>b. b\<lparr>jmp_first := (t, 2)\<rparr>) s5)\<lparr>tb_phys_invalidate_count := tb_phys_invalidate_count s5 + 1\<rparr>"
  have jn: "jmp_next (tbs s5 ! t) 0 = None" "jmp_next (tbs s5 ! t) 1 = None" "jmp_first (tbs s5 ! t) = (t, 2)"
    using ok by (simp_all add: s5_def f3 f1 block_ok_def)
  have rj: "reset_jumps_to (chain_fuel s5) (t, 2) s5 = Inr s5" by (simp add: chain_fuel_Suc)
  have e: "tb_phys_invalidate t pg s = Inr s'"
    using s1(1) s2 s3(1) rj unfolding tb_phys_invalidate_def Let_def phys f1(2)
    by (simp add: tb_jmp_remove_none [OF jn(1)] tb_jmp_remove_none [OF jn(2)] jn(3) s'_def tb_upd_def flip: s5_def)
  have tb': "tbs s' ! x = tbs s3 ! x" for x
  proof -
    have "tbs s5 = tbs s3" by (simp add: s5_def)
    with jn(3) show ?thesis by (cases "x = t") (simp_all add: s'_def nth_tb_upd)
  qed
  have fld: "l1_map s' = l1_map s3" "nb_tbs s' = nb_tbs s3" "length (tbs s') = length (tbs s3)" "tb_phys_hash s' = tb_phys_hash s3" "page_get s' = page_get s3"
    "cpu_list s' = cpu_list s3" "code_gen_ptr s' = code_gen_ptr s3" "code_gen_buffer_size s' = code_gen_buffer_size s3"
    "code_gen_buffer_max_size s' = code_gen_buffer_max_size s3" "tb_jmp_cache s' = drop_cached (cpu_list s3) (tb_jmp_cache_hash_func (tb_pc ?b)) t (tb_jmp_cache s3)"
    by (simp_all add: s'_def s5_def page_get_def fun_eq_iff)
  have pl: "page_link s' = page_link s3" "hash_link s' = hash_link s3" by (simp_all add: page_link_def hash_link_def tb' fun_eq_iff)
  have hr: "hash_rep s' B'" using s1(2) f3(9) [of B'] unfolding hash_rep_def pl fld tb' by simp
  have op: "on_page s' = on_page s3" by (simp add: on_page_def tb' fun_eq_iff)
  have pr: "page_rep g s' (live B') P'" using s3(2) unfolding page_rep_def pl fld op live' .
  have cr: "cache_rep s' (live B')" unfolding live'
    by (rule cache_rep_drop [OF r(4)]) (use jc3 d3 fld tb' in simp_all)
  have "x < nb_tbs s' \<and> block_ok x (tbs s' ! x)" if "x \<in> live B'" for x
    using that r(5,6) by (simp add: live' fld d3 tb' f3 f1)
  then have rep': "tb_rep g s' B' P'" using hr pr cr r(1) by (simp add: tb_rep_def fld d3)
  have bf: "block_frame s s'" using b3 unfolding block_frame_def tb' fld .
  have "page_link s' x = page_link s x" if "p \<in> g" "x \<in> on_page s (live B) p" for x p
    using s3(4) [OF that(1), of x] that(2) f1(5,7) by (simp add: pl)
  moreover have "first_tb (page_get s' q) = first_tb (page_get s q)" if "q \<in> g" for q using s3(5) [OF that] by (simp add: fld f1)
  moreover have "tb_jmp_cache s' env = tb_jmp_cache s env" if "env \<notin> set (cpu_list s)" for env
    using that d3(3) by (simp add: fld jc3 drop_cached_def)
  ultimately show ?thesis by (rule that [OF e rep' live' bf])
qed

end
