(* ===== verification/TbPages.thy ===== *)
theory TbPages
  imports TbRemove
begin

text \<open>
  Invalidation of all the blocks of a page, and the functions that change the protection of
  guest pages: a page becomes writable only when no block lies on it.
\<close>

section \<open>All blocks of a page\<close>

lemma page_of_masked [simp]: "page_of (a AND TARGET_PAGE_MASK) = page_of a"
proof -
  have "drop_bit 12 (a AND TARGET_PAGE_MASK) = drop_bit 12 a"
  proof (rule bit_word_eqI)
    fix k assume "k < LENGTH(32)"
    have m: "(push_bit 12 1 - 1 :: u32) = mask 12" by (simp add: mask_eq_exp_minus_1)
    show "bit (drop_bit 12 (a AND TARGET_PAGE_MASK)) k = bit (drop_bit 12 a) k"
      unfolding TARGET_PAGE_MASK_def m by (auto simp: bit_drop_bit_eq bit_and_iff bit_not_iff bit_mask_iff dest: bit_imp_le_length)
  qed
  then show ?thesis by (simp add: page_of_def)
qed

lemma block_one_slot:
  assumes "block_ok t (tbs s ! t)" "(t, m) \<in> on_page s L p" "(t, n) \<in> on_page s L p"
  shows "m = n"
proof -
  let ?b = "tbs s ! t"
  have "page_of (page_addr ?b 1) \<noteq> page_of (page_addr ?b 0)" if "page_addr ?b 1 \<noteq> - 1"
    using page_of_inj [of "page_addr ?b 1" "page_addr ?b 0"] second_page_masked second_page_other that assms(1)
    by (auto simp: block_ok_def)
  then show ?thesis using assms(2,3) by (auto simp: on_page_def)
qed

lemma on_page_mono: "L \<subseteq> L' \<Longrightarrow> on_page s L p \<subseteq> on_page s L' p"
  by (auto simp: on_page_def)

lemma on_page_fst: "y \<in> on_page s L p \<Longrightarrow> fst y \<in> L"
  by (auto simp: on_page_def)

definition page_blocks :: "tb_context \<Rightarrow> nat set \<Rightarrow> page_ptr \<Rightarrow> nat set" where
  "page_blocks s L p = fst ` on_page s L p"

lemma invalidate_page_loop_rep:
  assumes "tb_rep {page_of addr} s B P" "addr AND TARGET_PAGE_MASK = addr" "chain (page_link s) cur xs"
    "set xs \<subseteq> on_page s (live B) (page_of addr)" "distinct (map fst xs)" "length xs < k"
  obtains s' B' P' where "invalidate_page_loop k addr cur s = Inr s'" "tb_rep {page_of addr} s' B' P'"
    "live B' = live B - fst ` set xs" "block_frame s s'"
    "\<And>env. env \<notin> set (cpu_list s) \<Longrightarrow> tb_jmp_cache s' env = tb_jmp_cache s env"
  using assms
proof (induction xs arbitrary: thesis s B P cur k)
  case Nil
  from Nil.prems have "cur = None" "\<exists>k'. k = Suc k'" by (auto simp: gr0_conv_Suc)
  then show ?case using Nil.prems by (intro Nil.prems(1) [of s B P]) auto
next
  case (Cons x xs)
  obtain t n where x: "x = (t, n)" by fastforce
  obtain k' where k: "k = Suc k'" using Cons.prems(7) by (cases k) auto
  have cur: "cur = Some (t, n)" and rest: "chain (page_link s) (page_link s (t, n)) xs" using Cons.prems(4) x by auto
  have on: "(t, n) \<in> on_page s (live B) (page_of addr)" "set xs \<subseteq> on_page s (live B) (page_of addr)" using Cons.prems(5) x by auto
  then have t: "t \<in> live B" by (auto simp: on_page_def)
  have G: "\<forall>a. a AND TARGET_PAGE_MASK = a \<longrightarrow> (page_of a \<in> {page_of addr} \<longleftrightarrow> a = addr)"
    using page_of_inj Cons.prems(3) by blast
  obtain s1 B1 P1 where s1: "tb_phys_invalidate t addr s = Inr s1" "tb_rep {page_of addr} s1 B1 P1" "live B1 = live B - {t}" "block_frame s s1"
    "\<And>x p. p \<in> {page_of addr} \<Longrightarrow> x \<in> on_page s (live B) p \<Longrightarrow> page_link s1 x = page_link s x"
    "\<And>env. env \<notin> set (cpu_list s) \<Longrightarrow> tb_jmp_cache s1 env = tb_jmp_cache s env"
    by (rule tb_phys_invalidate_rep [OF Cons.prems(2) t G]) blast
  have c1: "chain (page_link s1) (page_link s1 (t, n)) xs"
  proof -
    have l: "page_link s1 y = page_link s y" if "y \<in> on_page s (live B) (page_of addr)" for y using s1(5) [OF _ that] by simp
    have "chain (page_link s1) h xs = chain (page_link s) h xs" for h by (rule chain_cong) (use l on(2) in blast)
    then show ?thesis using rest l [OF on(1)] by simp
  qed
  have on1: "set xs \<subseteq> on_page s1 (live B1) (page_of addr)"
  proof
    fix y assume y: "y \<in> set xs"
    then have "fst y \<noteq> t" using Cons.prems(6) x by auto
    with y on(2) show "y \<in> on_page s1 (live B1) (page_of addr)"
      unfolding on_page_cong [OF s1(4)] s1(3) by (auto simp: on_page_def)
  qed
  obtain s' B' P' where s': "invalidate_page_loop k' addr (page_link s1 (t, n)) s1 = Inr s'" "tb_rep {page_of addr} s' B' P'"
    "live B' = live B1 - fst ` set xs" "block_frame s1 s'"
    "\<And>env. env \<notin> set (cpu_list s1) \<Longrightarrow> tb_jmp_cache s' env = tb_jmp_cache s1 env"
    by (rule Cons.IH [OF _ s1(2) Cons.prems(3) c1 on1, of k']) (use Cons.prems(6,7) k in auto)
  show ?case
  proof (rule Cons.prems(1))
    show "invalidate_page_loop k addr cur s = Inr s'" using s1(1) s'(1) by (simp add: k cur)
    show "live B' = live B - fst ` set (x # xs)" using s'(3) s1(3) x by auto
    show "block_frame s s'" by (rule block_frame_trans [OF s1(4) s'(4)])
    show "tb_jmp_cache s' env = tb_jmp_cache s env" if "env \<notin> set (cpu_list s)" for env
      using s1(6) [OF that] s'(5) [of env] that block_frameD(3) [OF s1(4)] by simp
  qed (rule s'(2))
qed

lemma tb_invalidate_phys_page_rep:
  assumes rep: "tb_rep {page_of addr} s B P" and c: "chain (page_link s) (first_tb (page_get s (page_of addr))) xs"
    and xs: "set xs = on_page s (live B) (page_of addr)"
  obtains s' B' P' where "tb_invalidate_phys_page addr s = Inr s'" "tb_rep {} s' B' P'"
    "live B' = live B - page_blocks s (live B) (page_of addr)" "block_frame s s'" "P' (page_of addr) = []"
    "\<And>env. env \<notin> set (cpu_list s) \<Longrightarrow> tb_jmp_cache s' env = tb_jmp_cache s env"
proof -
  let ?a = "addr AND TARGET_PAGE_MASK" and ?p = "page_of addr"
  note r = tb_repD [OF rep]
  have d: "distinct (map fst xs)"
  proof -
    have "inj_on fst (set xs)"
    proof (rule inj_onI)
      fix y z assume y: "y \<in> set xs" and z: "z \<in> set xs" and e: "fst y = fst z"
      obtain t m n where yz: "y = (t, m)" "z = (t, n)" using e by (cases y, cases z) auto
      then have "t \<in> live B" using y xs by (auto simp: on_page_def)
      then show "y = z" using block_one_slot [OF r(6), of t m "live B" ?p n] y z xs yz by simp
    qed
    then show ?thesis using chain_distinct [OF c] by (simp add: distinct_map)
  qed
  have "card (set xs) \<le> card ({..<length (tbs s)} \<times> {0, 1 :: nat})"
    unfolding xs using r(7) on_page_bound [of "live B" "length (tbs s)" s ?p] by (intro card_mono) auto
  then have fuel: "length xs < chain_fuel s"
    using chain_distinct [OF c] by (simp add: distinct_card card_cartesian_product chain_fuel_def)
  have gone: "page_of ?a = ?p" by simp
  show ?thesis
  proof (cases "page_find (drop_bit 12 ?a) s")
    case None
    then have "l1_map s (fst ?p) = None" using gone by (auto simp: page_find_def page_of_def split: option.splits)
    then have ft: "first_tb (page_get s ?p) = None" by (simp add: page_get_def zero_page_def)
    then have "xs = []" using c by simp
    then have e: "on_page s (live B) ?p = {}" using xs by simp
    have "page_rep {} s (live B) (P(?p := []))"
      unfolding page_rep_def
    proof (intro allI impI conjI)
      fix p
      show "chain (page_link s) (first_tb (page_get s p)) ((P(?p := [])) p)" "set ((P(?p := [])) p) = on_page s (live B) p"
        "(P(?p := [])) p \<noteq> [] \<Longrightarrow> page_flags (page_get s p) AND PAGE_WRITE = 0"
        using page_repD [OF r(3), of p] e ft by (cases "p = ?p"; simp)+
    qed
    then have "tb_rep {} s B (P(?p := []))" using r by (simp add: tb_rep_def)
    moreover have "tb_invalidate_phys_page addr s = Inr s" using None by (simp add: tb_invalidate_phys_page_def)
    moreover have "live B = live B - page_blocks s (live B) ?p" using e by (simp add: page_blocks_def)
    ultimately show ?thesis by (intro that [of s B "P(?p := [])"]) simp_all
  next
    case (Some p')
    then have p': "p' = ?p" and al: "l1_map s (fst ?p) \<noteq> None"
      using gone by (auto simp: page_find_def page_of_def split: option.splits)
    obtain s1 B1 P1 where s1: "invalidate_page_loop (chain_fuel s) ?a (first_tb (page_get s ?p)) s = Inr s1" "tb_rep {?p} s1 B1 P1"
      "live B1 = live B - fst ` set xs" "block_frame s s1"
      "\<And>env. env \<notin> set (cpu_list s) \<Longrightarrow> tb_jmp_cache s1 env = tb_jmp_cache s env"
      by (rule invalidate_page_loop_rep [of ?a s B P, unfolded gone, OF rep masked_idem c _ d fuel]) (use xs in blast)+
    note r1 = tb_repD [OF s1(2)]
    have al1: "l1_map s1 (fst ?p) \<noteq> None" using al block_frameD(14) [OF s1(4)] by simp
    define s' where "s' = page_upd ?p (\<lambda>d. d\<lparr>first_tb := None\<rparr>) s1"
    have e: "tb_invalidate_phys_page addr s = Inr s'"
      using s1(1) Some by (simp add: tb_invalidate_phys_page_def p' s'_def)
    have g': "page_get s' q = (if q = ?p then (page_get s1 q)\<lparr>first_tb := None\<rparr> else page_get s1 q)" for q
      using al1 by (simp add: s'_def page_get_upd)
    have tb': "tbs s' = tbs s1" by (simp add: s'_def)
    have empty: "on_page s1 (live B1) ?p = {}"
    proof -
      have "y \<notin> on_page s (live B1) ?p" for y
      proof
        assume y: "y \<in> on_page s (live B1) ?p"
        have "live B1 \<subseteq> live B" using s1(3) by blast
        then have "on_page s (live B1) ?p \<subseteq> set xs" unfolding xs by (rule on_page_mono)
        then have "fst y \<in> fst ` set xs" using y by blast
        with on_page_fst [OF y] s1(3) show False by simp
      qed
      then show ?thesis unfolding on_page_cong [OF s1(4)] by blast
    qed
    have op: "on_page s' = on_page s1" "page_link s' = page_link s1" "hash_link s' = hash_link s1"
      by (simp_all add: on_page_def page_link_def hash_link_def tb' fun_eq_iff)
    have "page_rep {} s' (live B1) (P1(?p := []))"
      unfolding page_rep_def op
    proof (intro allI impI conjI)
      fix q
      show "chain (page_link s1) (first_tb (page_get s' q)) ((P1(?p := [])) q)" "set ((P1(?p := [])) q) = on_page s1 (live B1) q"
        "(P1(?p := [])) q \<noteq> [] \<Longrightarrow> page_flags (page_get s' q) AND PAGE_WRITE = 0"
        using page_repD [OF r1(3), of q] empty by (cases "q = ?p"; simp add: g')+
    qed
    moreover have "hash_rep s' B1" using r1(2) unfolding hash_rep_def op tb' by (simp add: s'_def)
    moreover have "cache_rep s' (live B1)" using r1(4) unfolding cache_rep_def tb' by (simp add: s'_def)
    ultimately have rep': "tb_rep {} s' B1 (P1(?p := []))" using r1(1,5,6) by (simp add: tb_rep_def tb' s'_def)
    have "block_frame s1 s'" unfolding block_frame_def tb' g' by (simp add: s'_def)
    then have bf: "block_frame s s'" by (rule block_frame_trans [OF s1(4)])
    have "live B1 = live B - page_blocks s (live B) ?p" using s1(3) xs by (simp add: page_blocks_def)
    moreover have "tb_jmp_cache s' env = tb_jmp_cache s env" if "env \<notin> set (cpu_list s)" for env
      using s1(5) [OF that] by (simp add: s'_def)
    ultimately show ?thesis by (intro that [OF e rep' _ bf]) simp_all
  qed
qed

section \<open>Protection\<close>

lemma tb_rep_page:
  assumes "tb_rep {} s B P"
  shows "chain (page_link s) (first_tb (page_get s p)) (P p)" "set (P p) = on_page s (live B) p"
    "P p \<noteq> [] \<Longrightarrow> page_flags (page_get s p) AND PAGE_WRITE = 0"
  using page_repD [OF tb_repD(3) [OF assms], of p] by auto

text \<open>Changing the flags of one page\<close>

lemma tb_rep_set_flags:
  assumes "tb_rep g s B P" "g \<subseteq> {p}" "p \<notin> g \<Longrightarrow> P p = [] \<or> f (page_get s p) AND PAGE_WRITE = 0"
  shows "tb_rep g (page_upd p (\<lambda>d. d\<lparr>page_flags := f d\<rparr>) s) B P"
proof -
  let ?s = "page_upd p (\<lambda>d. d\<lparr>page_flags := f d\<rparr>) s"
  note r = tb_repD [OF assms(1)]
  have l: "page_link ?s = page_link s" "hash_link ?s = hash_link s" "on_page ?s = on_page s"
    by (simp_all add: page_link_def hash_link_def on_page_def fun_eq_iff)
  have "page_rep g ?s (live B) P"
    unfolding page_rep_def l
  proof (intro allI impI conjI)
    fix q assume q: "q \<notin> g"
    note P = page_repD [OF r(3) q]
    show "chain (page_link s) (first_tb (page_get ?s q)) (P q)" using P(1) by (auto simp: page_get_upd)
    show "set (P q) = on_page s (live B) q" by (rule P(2))
    show "page_flags (page_get ?s q) AND PAGE_WRITE = 0" if "P q \<noteq> []"
      using P(3) [OF that] assms(3) q that by (auto simp: page_get_upd)
  qed
  moreover have "hash_rep ?s B" using r(2) by (simp add: hash_rep_def l)
  moreover have "cache_rep ?s (live B)" using r(4) by (simp add: cache_rep_def)
  ultimately show ?thesis using r by (simp add: tb_rep_def)
qed

lemma tb_rep_weaken:
  assumes "tb_rep {} s B P" shows "tb_rep g s B P"
  using assms unfolding tb_rep_def page_rep_def by blast

text \<open>What no change of protection touches\<close>

definition code_frame :: "tb_context \<Rightarrow> tb_context \<Rightarrow> bool" where
  "code_frame s s' \<longleftrightarrow> nb_tbs s' = nb_tbs s \<and> length (tbs s') = length (tbs s) \<and> (\<forall>x. tc_ptr (tbs s' ! x) = tc_ptr (tbs s ! x)) \<and>
     code_gen_ptr s' = code_gen_ptr s \<and> cpu_list s' = cpu_list s \<and> code_gen_buffer_size s' = code_gen_buffer_size s \<and>
     code_gen_buffer_max_size s' = code_gen_buffer_max_size s"

lemma code_frame_refl [simp]: "code_frame s s"
  by (simp add: code_frame_def)

lemma code_frame_trans: "code_frame s s1 \<Longrightarrow> code_frame s1 s2 \<Longrightarrow> code_frame s s2"
  by (simp add: code_frame_def)

lemma block_code_frame: "block_frame s s' \<Longrightarrow> code_frame s s'"
  using block_frameD [of s s'] by (simp add: code_frame_def)

lemma page_upd_code_frame [simp]: "code_frame s (page_upd p f s)"
  by (simp add: code_frame_def)

lemma page_find_Some: "page_find (drop_bit 12 a) s = Some p \<longleftrightarrow> p = page_of a \<and> l1_map s (fst (page_of a)) \<noteq> None"
  by (auto simp: page_find_def page_of_def split: option.splits)

lemma page_unprotect_rep:
  assumes rep: "tb_rep {} s B P"
  obtains r s' B' P' where "page_unprotect address s = Inr (r, s')" "tb_rep {} s' B' P'" "live B' \<subseteq> live B"
    "r \<Longrightarrow> P' (page_of address) = []" "r \<Longrightarrow> live B' = live B - page_blocks s (live B) (page_of address)" "code_frame s s'"
    "r \<longleftrightarrow> page_get_flags address s AND PAGE_WRITE_ORG \<noteq> 0 \<and> page_get_flags address s AND PAGE_WRITE = 0"
proof (cases "page_find (drop_bit 12 address) s")
  case None
  then show ?thesis using that [of False s B P] rep by (simp add: page_unprotect_def page_get_flags_def)
next
  case (Some p)
  let ?p = "page_of address" and ?fl = "page_flags (page_get s (page_of address))"
  have p: "p = ?p" and al: "l1_map s (fst ?p) \<noteq> None" using Some by (simp_all add: page_find_Some)
  have fl: "page_get_flags address s = ?fl" using Some p by (simp add: page_get_flags_def)
  show ?thesis
  proof (cases "?fl AND PAGE_WRITE_ORG \<noteq> 0 \<and> ?fl AND PAGE_WRITE = 0")
    case False
    then show ?thesis using that [of False s B P] rep Some p fl by (simp add: page_unprotect_def)
  next
    case True
    let ?s1 = "page_upd ?p (\<lambda>d. d\<lparr>page_flags := page_flags d OR PAGE_WRITE\<rparr>) s"
    have rep1: "tb_rep {?p} ?s1 B P" by (rule tb_rep_set_flags [OF tb_rep_weaken [OF rep]]) auto
    have l: "page_link ?s1 = page_link s" "on_page ?s1 = on_page s" by (simp_all add: page_link_def on_page_def fun_eq_iff)
    have c: "chain (page_link ?s1) (first_tb (page_get ?s1 ?p)) (P ?p)" using tb_rep_page(1) [OF rep] al by (simp add: l page_get_upd)
    have xs: "set (P ?p) = on_page ?s1 (live B) ?p" using tb_rep_page(2) [OF rep] by (simp add: l)
    obtain s' B' P' where s': "tb_invalidate_phys_page (address AND TARGET_PAGE_MASK) ?s1 = Inr s'" "tb_rep {} s' B' P'"
      "live B' = live B - page_blocks ?s1 (live B) ?p" "block_frame ?s1 s'" "P' ?p = []"
      by (rule tb_invalidate_phys_page_rep [of "address AND TARGET_PAGE_MASK", unfolded page_of_masked, OF rep1 c xs]) blast
    have "page_unprotect address s = Inr (True, s')"
      using Some True s'(1) by (simp add: page_unprotect_def p)
    moreover have "code_frame s s'" by (rule code_frame_trans [OF page_upd_code_frame block_code_frame [OF s'(4)]])
    moreover have "page_blocks ?s1 (live B) ?p = page_blocks s (live B) ?p" by (simp add: page_blocks_def l)
    ultimately show ?thesis using s' True fl by (intro that [of True s' B' P']) auto
  qed
qed

lemma page_set_loop_rep:
  assumes "tb_rep {} s B P"
  obtains s' B' P' where "page_set_loop k addr flags s = Inr s'" "tb_rep {} s' B' P'" "live B' \<subseteq> live B" "code_frame s s'"
  using assms
proof (induction k arbitrary: thesis addr s B P)
  case 0
  then show ?case by simp
next
  case (Suc k)
  obtain p s1 where a: "page_alloc (drop_bit 12 addr) s = (p, s1)" by fastforce
  note a' = page_alloc_simps [OF a]
  have p: "p = page_of addr" using a'(10) by (simp add: page_of_def)
  have rep1: "tb_rep {} s1 B P" by (rule tb_rep_cong [OF Suc.prems(2)]) (use a' tb_repD(1) [OF Suc.prems(2)] in simp_all)
  have f1: "code_frame s s1" by (simp add: code_frame_def a')
  let ?d = "page_get s1 p"
  obtain s2 B2 P2 where s2: "(if page_flags ?d AND PAGE_WRITE = 0 \<and> flags AND PAGE_WRITE \<noteq> 0 \<and> first_tb ?d \<noteq> None
      then tb_invalidate_phys_page addr s1 else Inr s1) = Inr s2" "tb_rep {} s2 B2 P2" "live B2 \<subseteq> live B" "code_frame s1 s2"
    "P2 p = [] \<or> flags AND PAGE_WRITE = 0"
  proof (cases "page_flags ?d AND PAGE_WRITE = 0 \<and> flags AND PAGE_WRITE \<noteq> 0 \<and> first_tb ?d \<noteq> None")
    case True
    obtain s' B' P' where s': "tb_invalidate_phys_page addr s1 = Inr s'" "tb_rep {} s' B' P'"
      "live B' = live B - page_blocks s1 (live B) p" "block_frame s1 s'" "P' p = []"
      unfolding p by (rule tb_invalidate_phys_page_rep [OF tb_rep_weaken [OF rep1] tb_rep_page(1,2) [OF rep1]]) blast
    then show ?thesis using True block_code_frame [OF s'(4)] by (intro that [of s' B' P']) auto
  next
    case False
    have "P p = [] \<or> flags AND PAGE_WRITE = 0"
    proof (rule ccontr)
      assume n: "\<not> (P p = [] \<or> flags AND PAGE_WRITE = 0)"
      then have "page_flags ?d AND PAGE_WRITE = 0" using tb_rep_page(3) [OF rep1] by blast
      moreover have "first_tb ?d \<noteq> None" using tb_rep_page(1) [OF rep1, of p] n by (cases "P p") auto
      ultimately show False using False n by simp
    qed
    then show ?thesis using False rep1 by (intro that [of s1 B P]) auto
  qed
  let ?s3 = "page_upd p (\<lambda>d. d\<lparr>page_flags := flags\<rparr>) s2"
  have rep3: "tb_rep {} ?s3 B2 P2" by (rule tb_rep_set_flags [OF s2(2)]) (use s2(5) in auto)
  obtain s' B' P' where s': "page_set_loop k (addr + 4096) flags ?s3 = Inr s'" "tb_rep {} s' B' P'" "live B' \<subseteq> live B2" "code_frame ?s3 s'"
    by (rule Suc.IH [OF _ rep3])
  have "page_set_loop (Suc k) addr flags s = Inr s'" using s2(1) s'(1) by (simp add: a Let_def)
  moreover have "code_frame s s'"
    by (rule code_frame_trans [OF f1 code_frame_trans [OF s2(4) code_frame_trans [OF page_upd_code_frame s'(4)]]])
  moreover have "live B' \<subseteq> live B" using s'(3) s2(3) by blast
  ultimately show ?case by (intro Suc.prems(1) [OF _ s'(2)])
qed

lemma page_check_loop_rep:
  assumes "tb_rep {} s B P"
  obtains r s' B' P' where "page_check_loop k addr flags s = Inr (r, s')" "tb_rep {} s' B' P'" "live B' \<subseteq> live B" "code_frame s s'"
  using assms
proof (induction k arbitrary: thesis addr)
  case 0
  then show ?case by simp
next
  case (Suc k)
  show ?case
  proof (cases "page_check_loop (Suc k) addr flags s = page_unprotect addr s")
    case True
    show ?thesis
      by (rule page_unprotect_rep [OF Suc.prems(2), of addr]) (use True Suc.prems(1) in auto)
  next
    case False
    then consider r where "page_check_loop (Suc k) addr flags s = Inr (r, s)"
      | "page_check_loop (Suc k) addr flags s = page_check_loop k (addr + 4096) flags s"
      by (auto simp: Let_def split: option.splits if_splits)
    then show ?thesis
    proof cases
      case 1
      then show ?thesis using Suc.prems by (intro Suc.prems(1)) auto
    next
      case 2
      show ?thesis by (rule Suc.IH [OF _ Suc.prems(2), of "addr + 4096"]) (use 2 Suc.prems(1) in auto)
    qed
  qed
qed

end
