(* ===== verification/TbLookup.thy ===== *)
theory TbLookup
  imports TbPages
begin

text \<open>
  Generation of blocks and their lookup: what \<^verbatim>\<open>tb_gen_code\<close>, \<^verbatim>\<open>tb_find_slow\<close> and \<^verbatim>\<open>tb_find_fast\<close> return.
\<close>

section \<open>Page arithmetic\<close>

lemma MASK_mask: "TARGET_PAGE_MASK = NOT (mask 12)"
  unfolding TARGET_PAGE_MASK_def by (simp add: mask_eq_exp_minus_1)

lemma masked_iff: "x AND TARGET_PAGE_MASK = x \<longleftrightarrow> take_bit 12 x = 0"
proof -
  have "x AND TARGET_PAGE_MASK = x \<longleftrightarrow> x AND mask 12 = 0"
  proof
    assume "x AND TARGET_PAGE_MASK = x"
    then have "x AND mask 12 = (x AND NOT (mask 12)) AND mask 12" by (simp add: MASK_mask)
    then show "x AND mask 12 = 0" by (simp add: and.assoc)
  next
    assume a: "x AND mask 12 = 0"
    show "x AND TARGET_PAGE_MASK = x"
    proof (rule bit_word_eqI)
      fix k assume "k < LENGTH(32)"
      have "bit (x AND mask 12) k = bit (0 :: u32) k" by (simp only: a)
      then show "bit (x AND TARGET_PAGE_MASK) k = bit x k"
        using \<open>k < LENGTH(32)\<close> by (auto simp: MASK_mask bit_and_iff bit_not_iff)
    qed
  qed
  then show ?thesis by (simp add: take_bit_eq_mask)
qed

lemma masked_add_4096: "p AND TARGET_PAGE_MASK = p \<Longrightarrow> (p + 4096) AND TARGET_PAGE_MASK = (p + 4096 :: u32)"
proof -
  assume "p AND TARGET_PAGE_MASK = p"
  then have "take_bit 12 p = 0" by (simp add: masked_iff)
  then have "p = push_bit 12 (drop_bit 12 p)" using bits_ident [of 12 p] by simp
  then have "p + 4096 = push_bit 12 (drop_bit 12 p) + push_bit 12 1" by simp
  also have "\<dots> = push_bit 12 (drop_bit 12 p + 1)" by (simp only: push_bit_add)
  finally have "take_bit 12 (p + 4096) = 0" by (simp add: take_bit_push_bit)
  then show ?thesis by (simp add: masked_iff)
qed

lemma masked_add_small:
  assumes "p AND TARGET_PAGE_MASK = p" "k < 4096"
  shows "(p + of_nat k) AND TARGET_PAGE_MASK = (p :: u32)"
proof -
  have kb: "bit (of_nat k :: u32) j \<Longrightarrow> j < 12" for j
  proof -
    assume "bit (of_nat k :: u32) j"
    then have b: "bit k j" by (simp add: bit_of_nat_iff)
    have "take_bit 12 k = k" using assms(2) by (simp add: take_bit_nat_eq_self)
    then have "bit (take_bit 12 k) j = bit k j" by (rule arg_cong)
    with b show "j < 12" by (simp add: bit_take_bit_iff)
  qed
  have pb: "bit p j \<Longrightarrow> 12 \<le> j" for j
  proof -
    assume b: "bit p j"
    have "bit (p AND TARGET_PAGE_MASK) j" using b by (simp only: assms(1))
    then show "12 \<le> j" by (auto simp: MASK_mask bit_and_iff bit_not_iff bit_mask_iff dest: bit_imp_le_length)
  qed
  have "\<not> (bit p j \<and> bit (of_nat k :: u32) j)" for j using kb [of j] pb [of j] by linarith
  then have "p AND of_nat k = 0" by (intro bit_word_eqI) (simp add: bit_and_iff)
  then have "p + of_nat k = p OR of_nat k" by (rule disjunctive_add_eq_or)
  moreover have "bit ((p OR of_nat k) AND TARGET_PAGE_MASK) j = bit p j" if "j < LENGTH(32)" for j
    using kb [of j] pb [of j] that by (auto simp: MASK_mask bit_and_iff bit_or_iff bit_not_iff bit_mask_iff)
  ultimately show ?thesis by (intro bit_word_eqI) simp
qed

lemma page_split:
  fixes pc :: u32
  obtains off where "pc = (pc AND TARGET_PAGE_MASK) + of_nat off" "off < 4096"
proof (rule that [of "unat (pc AND NOT TARGET_PAGE_MASK)"])
  show "pc = (pc AND TARGET_PAGE_MASK) + of_nat (unat (pc AND NOT TARGET_PAGE_MASK))" by (simp add: masked_sum)
  have "unat (pc AND mask 12) < 2 ^ 12" by (rule unat_and_mask_less)
  then show "unat (pc AND NOT TARGET_PAGE_MASK) < 4096" by (simp add: MASK_mask)
qed

lemma page_within:
  fixes pc :: u32
  assumes "i \<le> j" "j < 4096"
  shows "(pc + of_nat i) AND TARGET_PAGE_MASK \<in> {pc AND TARGET_PAGE_MASK, (pc + of_nat j) AND TARGET_PAGE_MASK}"
    and "(pc + of_nat j) AND TARGET_PAGE_MASK \<in> {pc AND TARGET_PAGE_MASK, (pc AND TARGET_PAGE_MASK) + 4096}"
proof -
  define P where "P = pc AND TARGET_PAGE_MASK"
  have P: "P AND TARGET_PAGE_MASK = P" by (simp add: P_def)
  obtain off where off: "pc = P + of_nat off" "off < 4096" unfolding P_def by (rule page_split)
  have at: "(pc + of_nat k) AND TARGET_PAGE_MASK = (if off + k < 4096 then P else P + 4096)" if "k < 4096" for k
  proof (cases "off + k < 4096")
    case True
    have "pc + of_nat k = P + of_nat (off + k)" by (simp add: off(1) add.assoc)
    then show ?thesis using masked_add_small [OF P True] True by (simp only: if_True)
  next
    case False
    define m where "m = off + k - 4096"
    have m: "off + k = 4096 + m" "m < 4096" using False that off(2) by (simp_all add: m_def)
    have "pc + of_nat k = P + of_nat (off + k)" by (simp add: off(1) add.assoc)
    also have "\<dots> = (P + 4096) + of_nat m" by (simp only: m(1) of_nat_add of_nat_numeral add.assoc)
    finally show ?thesis using masked_add_small [OF masked_add_4096 [OF P] m(2)] False by (simp only: if_False)
  qed
  show "(pc + of_nat i) AND TARGET_PAGE_MASK \<in> {pc AND TARGET_PAGE_MASK, (pc + of_nat j) AND TARGET_PAGE_MASK}"
    using at [of i] at [of j] assms by (auto simp: P_def [symmetric])
  show "(pc + of_nat j) AND TARGET_PAGE_MASK \<in> {pc AND TARGET_PAGE_MASK, (pc AND TARGET_PAGE_MASK) + 4096}"
    using at [of j] assms by (auto simp: P_def [symmetric])
qed

lemma last_byte:
  assumes "1 \<le> sz" shows "pc + ucast (sz :: u16) - 1 = (pc + of_nat (unat sz - 1) :: u32)"
proof -
  have "1 \<le> unat sz" using assms by (simp add: word_le_nat_alt)
  then obtain m where m: "unat sz = Suc m" by (cases "unat sz") auto
  have "(ucast sz :: u32) = of_nat (unat sz)" by simp
  also have "\<dots> = of_nat m + 1" by (simp only: m of_nat_Suc add.commute)
  finally have "pc + ucast sz - 1 = pc + (of_nat m + 1) - 1" by (simp only:)
  also have "\<dots> = pc + of_nat m" by simp
  also have "m = unat sz - 1" by (simp only: m diff_Suc_1)
  finally show ?thesis .
qed

lemma second_page_next:
  assumes "second_page pc sz \<noteq> - 1" "1 \<le> sz" "sz \<le> 4096"
  shows "second_page pc sz = (pc AND TARGET_PAGE_MASK) + 4096"
proof -
  have "unat sz - 1 < 4096" using assms(3) by (simp add: word_le_nat_alt)
  from page_within(2) [OF order_refl this, of pc]
  have "(pc + of_nat (unat sz - 1)) AND TARGET_PAGE_MASK = pc AND TARGET_PAGE_MASK \<or>
      (pc + of_nat (unat sz - 1)) AND TARGET_PAGE_MASK = (pc AND TARGET_PAGE_MASK) + 4096" by blast
  moreover have "second_page pc sz = (if pc AND TARGET_PAGE_MASK \<noteq> (pc + of_nat (unat sz - 1)) AND TARGET_PAGE_MASK
      then (pc + of_nat (unat sz - 1)) AND TARGET_PAGE_MASK else - 1)"
    by (simp only: second_page_def Let_def last_byte [OF assms(2)])
  ultimately show ?thesis using assms(1) by presburger
qed

section \<open>The hash chains\<close>

lemma tb_rep_hash_frame:
  assumes rep: "tb_rep g s B P" and f: "hash_frame s s'" and h: "hash_rep s' B'" and l: "live B' = live B"
  shows "tb_rep g s' B' P"
proof -
  note r = tb_repD [OF rep] and b = hash_frame_blocks [OF f] and d = block_frameD [OF hash_block_frame [OF f]]
  have pl: "page_link s' = page_link s" by (rule ext) (rule b(5))
  have "page_rep g s' (live B) P" using r(3) unfolding page_rep_def pl b(6) b(7) .
  moreover have jc: "tb_jmp_cache s' = tb_jmp_cache s" using f unfolding hash_frame_def by blast
  have "cache_rep s' (live B)" using r(4) unfolding cache_rep_def jc b(1) d(3) .
  moreover have "t < nb_tbs s' \<and> block_ok t (tbs s' ! t)" if "t \<in> live B" for t
    using r(5,6) [OF that] unfolding b(4) d(1) by blast
  ultimately show ?thesis using h r(1) unfolding tb_rep_def l d(1,2) by blast
qed

lemma find_phys_chain:
  assumes "chain (hash_link s) cur xs" "length xs < n"
  shows "find_phys n s ok ptb cur =
    (let as = takeWhile (\<lambda>x. \<not> ok (tbs s ! x)) xs; rest = dropWhile (\<lambda>x. \<not> ok (tbs s ! x)) xs
     in Inr (if as = [] then ptb else Some (last as), if rest = [] then None else Some (hd rest)))"
  using assms
proof (induction xs arbitrary: cur n ptb)
  case Nil
  then show ?case by (cases n) auto
next
  case (Cons x xs)
  obtain m where n: "n = Suc m" using Cons.prems(2) by (cases n) auto
  have cur: "cur = Some x" and c: "chain (hash_link s) (hash_link s x) xs" using Cons.prems(1) by auto
  show ?case using Cons.IH [OF c, of m "Some x"] Cons.prems(2) by (simp add: n cur Let_def)
qed

lemma chain_length_fuel:
  assumes "hash_rep s B" "live B \<subseteq> {..<length (tbs s)}" shows "length (B h) < chain_fuel s"
proof -
  have c: "chain (hash_link s) (tb_phys_hash s h) (B h)" by (rule hash_repD(1) [OF assms(1)])
  have "card (set (B h)) \<le> card {..<length (tbs s)}" using assms(2) by (intro card_mono) (auto simp: live_def)
  then show ?thesis using chain_distinct [OF c] by (simp add: distinct_card chain_fuel_def)
qed

lemma move_to_front_rep:
  assumes rep: "tb_rep g s B P" and B: "B h = as @ t # bs"
  obtains B' where "tb_rep g (move_to_front h (if as = [] then None else Some (last as)) t s) B' P" "live B' = live B"
    "hash_frame s (move_to_front h (if as = [] then None else Some (last as)) t s)"
proof -
  let ?ptb = "if as = [] then None else Some (last as)"
  note r = tb_repD [OF rep]
  have c: "chain (hash_link s) (tb_phys_hash s h) (as @ t # bs)" using hash_repD(1) [OF r(2), of h] B by simp
  have d: "t \<notin> set as" "t \<notin> set bs" using chain_distinct [OF c] by auto
  have bd: "x < length (tbs s)" if "x \<in> set (B k)" for x k using that r(7) by (auto simp: live_def)
  have tB: "t \<in> set (B h)" using B by simp
  have t: "t \<in> set (B h)" "t < length (tbs s)" by (rule tB, rule bd [OF tB])
  have "live B \<subseteq> {..<length (tbs s)}" using r(7) by blast
  from chain_length_fuel [OF r(2) this, of h] have fuel: "length as < chain_fuel s" using B by simp
  have f: "find_slot (chain_fuel s) (hash_link s) None Some (tb_phys_hash s h) (\<lambda>p. p = t) = Inr (?ptb, t)"
    by (rule find_slot_chain [OF c]) (use d fuel in auto)
  obtain s1 where s1: "tb_remove h t s = Inr s1" "hash_rep s1 (B(h := remove1 t (B h)))" "hash_frame s s1"
    by (rule tb_remove_hash [OF r(2) t(1) bd])
  have w: "write_slot h ?ptb (hash_link s t) s = s1" using s1(1) by (simp add: tb_remove_def f write_slot_def)
  define s' where "s' = move_to_front h ?ptb t s"
  have s': "s' = (tb_upd t (\<lambda>b. b\<lparr>phys_hash_next := tb_phys_hash s1 h\<rparr>) s1)\<lparr>tb_phys_hash := (tb_phys_hash s1)(h := Some t)\<rparr>"
    unfolding s'_def move_to_front_def w Let_def by simp
  define B' where "B' = B(h := t # as @ bs)"
  have rm: "remove1 t (B h) = as @ bs" using B d by (simp add: remove1_append)
  have tl: "t < length (tbs s1)" using t(2) s1(3) by (simp add: hash_frame_def)
  have nth: "tbs s' ! x = (if x = t then (tbs s1 ! t)\<lparr>phys_hash_next := tb_phys_hash s1 h\<rparr> else tbs s1 ! x)" for x
    using tl by (simp add: s' nth_tb_upd)
  have dead: "t \<notin> set ((B(h := as @ bs)) k)" for k
    using d hash_repD(2) [OF r(2), of t k] hash_repD(2) [OF r(2) t(1)] by auto
  have hl: "hash_link s' x = (if x = t then tb_phys_hash s1 h else hash_link s1 x)" for x by (simp add: hash_link_def nth)
  have ch: "chain (hash_link s') (tb_phys_hash s1 k) ((B(h := as @ bs)) k)" for k
    using hash_repD(1) [OF s1(2), of k, unfolded rm] chain_cong [of "(B(h := as @ bs)) k" "hash_link s'" "hash_link s1"] dead [of k] hl by metis
  have H: "hash_rep s' B'"
    unfolding hash_rep_def
  proof (intro allI conjI ballI)
    fix k
    show "chain (hash_link s') (tb_phys_hash s' k) (B' k)"
      using ch [of k] ch [of h] hl [of t] by (auto simp: B'_def s')
    fix x assume "x \<in> set (B' k)"
    then have "x \<in> set (B k)" using B by (auto simp: B'_def split: if_splits)
    then have "tb_phys_hash_func (tb_pc (tbs s ! x)) = k" by (rule hash_repD(2) [OF r(2)])
    then show "tb_phys_hash_func (tb_pc (tbs s' ! x)) = k" using hash_frame_blocks(1) [OF s1(3)] by (cases "x = t") (simp_all add: nth)
  qed
  have F: "hash_frame s s'"
  proof -
    have "\<exists>v. tbs s' ! x = (tbs s ! x)\<lparr>phys_hash_next := v\<rparr>" for x
    proof -
      obtain v where "tbs s1 ! x = (tbs s ! x)\<lparr>phys_hash_next := v\<rparr>" using s1(3) unfolding hash_frame_def by blast
      then show ?thesis by (cases "x = t") (auto simp: nth)
    qed
    then show ?thesis using s1(3) by (simp add: hash_frame_def s')
  qed
  have "live B' = live B" unfolding B'_def live_def using B by (auto split: if_splits) (metis Un_iff insert_iff list.simps(15) set_append)+
  then show ?thesis using that [of B'] tb_rep_hash_frame [OF rep F H] F by (simp add: s'_def)
qed

section \<open>Generation\<close>

text \<open>
  The code buffer: blocks in the order of the array have growing code addresses, the first at
  the start of the buffer, and the fill pointer lies after the last.
\<close>

definition code_rep :: "tb_context \<Rightarrow> bool" where
  "code_rep s \<longleftrightarrow> (\<forall>i < nb_tbs s. tc_ptr (tbs s ! i) < code_gen_ptr s) \<and>
     (\<forall>j < nb_tbs s. \<forall>i < j. tc_ptr (tbs s ! i) < tc_ptr (tbs s ! j)) \<and>
     (nb_tbs s = 0 \<longrightarrow> code_gen_ptr s = 0) \<and> (0 < nb_tbs s \<longrightarrow> tc_ptr (tbs s ! 0) = 0)"

definition buffer_ok :: "tb_context \<Rightarrow> bool" where
  "buffer_ok s \<longleftrightarrow> 0 < length (tbs s) \<and> 0 < code_gen_buffer_max_size s \<and> code_gen_ptr s \<le> code_gen_buffer_size s"

text \<open>
  What \<^verbatim>\<open>tb_gen_code\<close> relies on: a block covers between one byte and one page of guest code, its code is not
  empty, and fits into the reserve behind \<^verbatim>\<open>code_gen_buffer_max_size\<close>.
\<close>

definition translator_ok :: "translator \<Rightarrow> tb_context \<Rightarrow> bool" where
  "translator_ok tr s \<longleftrightarrow> (\<forall>pc cs_base flags cflags. 1 \<le> g_size (tr pc cs_base flags cflags) \<and> g_size (tr pc cs_base flags cflags) \<le> 4096 \<and>
     0 < g_code_size (tr pc cs_base flags cflags) \<and>
     code_gen_buffer_max_size s + g_code_size (tr pc cs_base flags cflags) + 15 \<le> code_gen_buffer_size s)"

lemma code_rep_cong:
  assumes "code_rep s" "nb_tbs s' = nb_tbs s" "code_gen_ptr s' = code_gen_ptr s" "\<And>i. i < nb_tbs s \<Longrightarrow> tc_ptr (tbs s' ! i) = tc_ptr (tbs s ! i)"
  shows "code_rep s'"
  using assms unfolding code_rep_def by auto

lemma translator_ok_cong:
  "code_gen_buffer_size s' = code_gen_buffer_size s \<Longrightarrow> code_gen_buffer_max_size s' = code_gen_buffer_max_size s \<Longrightarrow>
   translator_ok tr s' = translator_ok tr s"
  by (simp add: translator_ok_def)

lemma round_up_16: "0 < n \<Longrightarrow> p < (p + n + 15) div 16 * 16" "(p + n + 15) div 16 * 16 \<le> p + n + 15" for p n :: nat
proof -
  have "(p + n + 15) div 16 * 16 + (p + n + 15) mod 16 = p + n + 15" by (rule div_mult_mod_eq)
  moreover have "(p + n + 15) mod 16 < 16" by simp
  ultimately show "0 < n \<Longrightarrow> p < (p + n + 15) div 16 * 16" "(p + n + 15) div 16 * 16 \<le> p + n + 15" by linarith+
qed

text \<open>The allocation at the start of \<^verbatim>\<open>tb_gen_code\<close>, which flushes the cache when it is full\<close>

lemma gen_alloc_rep:
  assumes rep: "tb_rep {} s B P" and c: "code_rep s" and b: "buffer_ok s"
  obtains t s1 B0 P0 where
    "(case tb_alloc pc s of (Some t, s1) \<Rightarrow> Inr (t, s1)
       | (None, s1) \<Rightarrow> res_bind (tb_flush s1) (\<lambda>s2. case tb_alloc pc s2 of
             (Some t, s3) \<Rightarrow> Inr (t, s3\<lparr>tb_invalidated_flag := True\<rparr>)
           | (None, s3) \<Rightarrow> Inl NullDeref)) = Inr (t, s1)"
    "tb_rep {} s1 B0 P0" "t \<notin> live B0" "nb_tbs s1 = Suc t" "t < length (tbs s1)" "tb_pc (tbs s1 ! t) = pc"
    "B0 = B \<or> B0 = (\<lambda>_. [])" "length (tbs s1) = length (tbs s)" "cpu_list s1 = cpu_list s"
    "\<And>x. x \<noteq> t \<Longrightarrow> tbs s1 ! x = tbs s ! x" "code_gen_ptr s1 < code_gen_buffer_max_size s"
    "code_gen_buffer_size s1 = code_gen_buffer_size s" "code_gen_buffer_max_size s1 = code_gen_buffer_max_size s"
    "\<And>i. i < t \<Longrightarrow> tc_ptr (tbs s1 ! i) < code_gen_ptr s1" "\<And>j i. j < t \<Longrightarrow> i < j \<Longrightarrow> tc_ptr (tbs s1 ! i) < tc_ptr (tbs s1 ! j)"
    "t = 0 \<Longrightarrow> code_gen_ptr s1 = 0" "0 < t \<Longrightarrow> tc_ptr (tbs s1 ! 0) = 0"
    "\<And>env. env \<notin> set (cpu_list s) \<Longrightarrow> tb_jmp_cache s1 env = tb_jmp_cache s env"
proof (cases "nb_tbs s \<ge> length (tbs s) \<or> code_gen_ptr s \<ge> code_gen_buffer_max_size s")
  case False
  then obtain t s1 where a: "tb_alloc pc s = (Some t, s1)" by (simp add: tb_alloc_def Let_def)
  note a' = tb_alloc_rep [OF a rep]
  have x: "code_gen_buffer_size s1 = code_gen_buffer_size s" "code_gen_buffer_max_size s1 = code_gen_buffer_max_size s"
    "tb_jmp_cache s1 = tb_jmp_cache s"
    using a False by (auto simp: tb_alloc_def Let_def)
  show ?thesis
    by (rule that [of t s1 B P]) (use a a' x False c in \<open>auto simp: code_rep_def\<close>)
next
  case True
  then have a: "tb_alloc pc s = (None, s)" by (simp add: tb_alloc_def)
  obtain s2 where f: "tb_flush s = Inr s2" using b by (simp add: tb_flush_def check_def buffer_ok_def Let_def)
  note f' = tb_flush_Inr [OF f] and r2 = tb_flush_rep [OF f]
  obtain t s3 where a2: "tb_alloc pc s2 = (Some t, s3)"
    using b by (simp add: tb_alloc_def Let_def f' buffer_ok_def)
  note a' = tb_alloc_rep [OF a2 r2]
  let ?s = "s3\<lparr>tb_invalidated_flag := True\<rparr>"
  have rep': "tb_rep {} ?s (\<lambda>_. []) (\<lambda>_. [])"
    by (rule tb_rep_cong [OF a'(1)]) (use tb_repD(1) [OF a'(1)] in \<open>simp_all add: page_get_def\<close>)
  have x: "code_gen_buffer_size s3 = code_gen_buffer_size s" "code_gen_buffer_max_size s3 = code_gen_buffer_max_size s"
    "tb_jmp_cache s3 = tb_jmp_cache s2"
    using a2 f' by (auto simp: tb_alloc_def Let_def split: if_splits)
  show ?thesis
    by (rule that [of t ?s "\<lambda>_. []" "\<lambda>_. []"]) (use a f a2 a' f' x rep' b in \<open>auto simp: clear_caches_def buffer_ok_def\<close>)
qed

lemma tb_gen_code_rep:
  assumes rep: "tb_rep {} s B P" and c: "code_rep s" and b: "buffer_ok s" and tr: "translator_ok tr s"
  obtains t s' B0 P' where "tb_gen_code tr pc cs_base flags cflags s = Inr (t, s')"
    "tb_rep {} s' (B0(tb_phys_hash_func pc := t # B0 (tb_phys_hash_func pc))) P'" "t \<notin> live B0" "B0 = B \<or> B0 = (\<lambda>_. [])"
    "tb_pc (tbs s' ! t) = pc" "tb_cs_base (tbs s' ! t) = cs_base" "tb_flags (tbs s' ! t) = flags"
    "tb_size (tbs s' ! t) = g_size (tr pc cs_base flags cflags)"
    "\<And>x. x \<noteq> t \<Longrightarrow> tbs s' ! x = tbs s ! x" "code_rep s'" "buffer_ok s'" "translator_ok tr s'" "cpu_list s' = cpu_list s"
    "length (tbs s') = length (tbs s)" "\<And>env. env \<notin> set (cpu_list s) \<Longrightarrow> tb_jmp_cache s' env = tb_jmp_cache s env"
proof -
  obtain t s1 B0 P0 where e:
    "(case tb_alloc pc s of (Some t, s1) \<Rightarrow> Inr (t, s1)
       | (None, s1) \<Rightarrow> res_bind (tb_flush s1) (\<lambda>s2. case tb_alloc pc s2 of
             (Some t, s3) \<Rightarrow> Inr (t, s3\<lparr>tb_invalidated_flag := True\<rparr>)
           | (None, s3) \<Rightarrow> Inl NullDeref)) = Inr (t, s1)"
    and a: "tb_rep {} s1 B0 P0" "t \<notin> live B0" "nb_tbs s1 = Suc t" "t < length (tbs s1)" "tb_pc (tbs s1 ! t) = pc"
    "B0 = B \<or> B0 = (\<lambda>_. [])" "length (tbs s1) = length (tbs s)" "cpu_list s1 = cpu_list s"
    "\<And>x. x \<noteq> t \<Longrightarrow> tbs s1 ! x = tbs s ! x" "code_gen_ptr s1 < code_gen_buffer_max_size s"
    "code_gen_buffer_size s1 = code_gen_buffer_size s" "code_gen_buffer_max_size s1 = code_gen_buffer_max_size s"
    and cr: "\<And>i. i < t \<Longrightarrow> tc_ptr (tbs s1 ! i) < code_gen_ptr s1" "\<And>j i. j < t \<Longrightarrow> i < j \<Longrightarrow> tc_ptr (tbs s1 ! i) < tc_ptr (tbs s1 ! j)"
    "t = 0 \<Longrightarrow> code_gen_ptr s1 = 0" "0 < t \<Longrightarrow> tc_ptr (tbs s1 ! 0) = 0"
    "\<And>env. env \<notin> set (cpu_list s) \<Longrightarrow> tb_jmp_cache s1 env = tb_jmp_cache s env"
    by (rule gen_alloc_rep [OF rep c b, of pc]) blast
  define g where "g = tr pc cs_base flags cflags"
  have g: "1 \<le> g_size g" "g_size g \<le> 4096" "0 < g_code_size g" "code_gen_buffer_max_size s + g_code_size g + 15 \<le> code_gen_buffer_size s"
    using tr unfolding translator_ok_def g_def by blast+
  define s6 where "s6 = (tb_upd t (\<lambda>b. b\<lparr>tc_ptr := code_gen_ptr s1, tb_cs_base := cs_base, tb_flags := flags, tb_cflags := cflags,
      tb_size := g_size g, tb_next_pc := g_next_pc g, tb_next_offset := g_next_offset g,
      tb_jmp_offset := g_jmp_offset g, tb_icount := g_icount g\<rparr>) s1)\<lparr>code_gen_ptr := (code_gen_ptr s1 + g_code_size g + 15) div 16 * 16\<rparr>"
  define s' where "s' = tb_link_page t pc (second_page pc (g_size g)) s6"
  have gen: "tb_gen_code tr pc cs_base flags cflags s = Inr (t, s')"
    unfolding tb_gen_code_def e by (simp add: Let_def g_def [symmetric] s'_def s6_def second_page_def)
  have t6: "tb_pc (tbs s6 ! t) = pc" "tb_size (tbs s6 ! t) = g_size g" "tb_cs_base (tbs s6 ! t) = cs_base" "tb_flags (tbs s6 ! t) = flags"
    "tc_ptr (tbs s6 ! t) = code_gen_ptr s1" "nb_tbs s6 = Suc t" "length (tbs s6) = length (tbs s1)" "t < length (tbs s6)"
    using a(3-5) by (simp_all add: s6_def nth_tb_upd)
  have o6: "tbs s6 ! x = tbs s1 ! x" if "x \<noteq> t" for x using that by (simp add: s6_def nth_tb_upd)
  have live6: "tbs s6 ! x = tbs s1 ! x" if "x \<in> live B0" for x by (rule o6) (use that a(2) in blast)
  have rep6: "tb_rep {} s6 B0 P0"
    by (rule tb_rep_cong [OF a(1)]) (use live6 tb_repD(1) [OF a(1)] in \<open>simp_all add: s6_def page_get_def\<close>)
  note l = tb_link_page_proj [OF t6(8), where pc = pc and pgx = "second_page pc (g_size g)", folded s'_def]
  obtain P' where rep': "tb_rep {} s' (B0(tb_phys_hash_func pc := t # B0 (tb_phys_hash_func pc))) P'"
    unfolding s'_def by (rule tb_link_page_rep [OF rep6 a(2)]) (use t6 g in auto)
  have o': "tbs s' ! x = tbs s1 ! x" if "x \<noteq> t" for x using l(1) [OF that] o6 [OF that] by simp
  have ptr: "code_gen_ptr s' = (code_gen_ptr s1 + g_code_size g + 15) div 16 * 16" by (simp add: l s6_def)
  have tc: "tc_ptr (tbs s' ! x) = (if x = t then code_gen_ptr s1 else tc_ptr (tbs s1 ! x))" for x using o' by (simp add: l t6)
  have "code_rep s'"
    unfolding code_rep_def l(19) t6(6) tc ptr
  proof (intro conjI allI impI)
    fix i assume "i < Suc t"
    then show "(if i = t then code_gen_ptr s1 else tc_ptr (tbs s1 ! i)) < (code_gen_ptr s1 + g_code_size g + 15) div 16 * 16"
      using cr(1) [of i] round_up_16(1) [OF g(3), of "code_gen_ptr s1"] by auto
  next
    fix j i assume "j < Suc t" "i < j"
    then show "(if i = t then code_gen_ptr s1 else tc_ptr (tbs s1 ! i)) < (if j = t then code_gen_ptr s1 else tc_ptr (tbs s1 ! j))"
      using cr(1) [of i] cr(2) [of j i] by auto
  qed (use cr(3,4) in auto)
  moreover have "buffer_ok s'"
    using b a(10) round_up_16(2) [of "code_gen_ptr s1" "g_code_size g"] g(4)
    by (simp add: buffer_ok_def ptr l s6_def a(7,11,12) flip: length_greater_0_conv)
  moreover have "translator_ok tr s'" using tr translator_ok_cong [of s' s] by (simp add: l s6_def a(11,12))
  moreover have "tbs s' ! x = tbs s ! x" if "x \<noteq> t" for x using o' [OF that] a(9) [OF that] by simp
  moreover have "tb_pc (tbs s' ! t) = pc" "tb_cs_base (tbs s' ! t) = cs_base" "tb_flags (tbs s' ! t) = flags"
    "tb_size (tbs s' ! t) = g_size (tr pc cs_base flags cflags)" "length (tbs s') = length (tbs s)"
    by (simp_all only: l(2,10-13) t6 a(7) g_def)
  moreover have "cpu_list s' = cpu_list s" "tb_jmp_cache s' = tb_jmp_cache s1" by (simp_all only: l(20,21)) (simp_all add: s6_def a(8))
  ultimately show ?thesis using cr(5) by (intro that [OF gen rep' a(2,6)]) simp_all
qed

section \<open>Lookup\<close>

lemma block_ok_matches:
  assumes "block_ok t b" "tb_pc b = pc" "tb_cs_base b = cs_base" "tb_flags b = flags"
  shows "tb_matches pc cs_base flags b"
proof -
  have "page_addr b 1 = (pc AND TARGET_PAGE_MASK) + 4096" if "page_addr b 1 \<noteq> - 1"
    using second_page_next [of pc "tb_size b"] assms(1,2) that by (simp add: block_ok_def)
  then show ?thesis using assms by (simp add: tb_matches_def block_ok_def)
qed

lemma tb_rep_cache_set:
  assumes rep: "tb_rep g s B P" and t: "t \<in> live B" "tb_pc (tbs s ! t) = pc"
  shows "tb_rep g (s\<lparr>tb_jmp_cache := (tb_jmp_cache s)(env := (tb_jmp_cache s env)(tb_jmp_cache_hash_func pc := Some t))\<rparr>) B P"
    (is "tb_rep g ?s B P")
proof -
  note r = tb_repD [OF rep]
  have l: "page_link ?s = page_link s" "hash_link ?s = hash_link s" "page_get ?s = page_get s"
    by (simp_all add: page_link_def hash_link_def page_get_def fun_eq_iff)
  have op: "on_page ?s L p = on_page s L p" for L p by (simp add: on_page_def)
  have "page_rep g ?s (live B) P" using r(3) unfolding page_rep_def l op .
  moreover have "hash_rep ?s B" using r(2) by (simp add: hash_rep_def l)
  moreover have "cache_rep ?s (live B)" using r(4) t by (auto simp: cache_rep_def)
  ultimately show ?thesis using r by (simp add: tb_rep_def)
qed

lemma chain_last_link: "chain nxt h xs \<Longrightarrow> xs \<noteq> [] \<Longrightarrow> nxt (last xs) = None"
proof (induction xs arbitrary: h)
  case (Cons x xs)
  then show ?case by (cases "xs = []") auto
qed simp

text \<open>After a generation, the slot where the search ended is empty or the head of the chain of the new block\<close>

lemma gen_slot:
  assumes c: "chain (hash_link s) cur xs" "set xs \<subseteq> live B" "xs \<noteq> []"
    and r: "tb_rep {} s' (B0(h := t # B0 h)) P'" and t: "t \<notin> live B0" "B0 = B \<or> B0 = (\<lambda>_. [])"
    and same: "\<And>x. x \<noteq> t \<Longrightarrow> tbs s' ! x = tbs s ! x"
  shows "hash_link s' (last xs) = None"
proof (cases "last xs = t")
  case True
  have "t \<in> live B" using c(2,3) True by auto
  then have "B0 = (\<lambda>_. [])" using t by blast
  then have "chain (hash_link s') (tb_phys_hash s' h) [t]" using hash_repD(1) [OF tb_repD(2) [OF r], of h] by simp
  then show ?thesis by (simp add: True)
next
  case False
  then show ?thesis using same [OF False] chain_last_link [OF c(1,3)] by (simp add: hash_link_def)
qed

text \<open>All that holds of the cache between two operations\<close>

definition tb_good :: "translator \<Rightarrow> tb_context \<Rightarrow> (nat \<Rightarrow> nat list) \<Rightarrow> (page_ptr \<Rightarrow> tagged list) \<Rightarrow> bool" where
  "tb_good tr s B P \<longleftrightarrow> tb_rep {} s B P \<and> code_rep s \<and> buffer_ok s \<and> translator_ok tr s"

lemma tb_goodD:
  assumes "tb_good tr s B P" shows "tb_rep {} s B P" "code_rep s" "buffer_ok s" "translator_ok tr s"
  using assms by (auto simp: tb_good_def)

lemma tb_good_code_frame:
  assumes "tb_good tr s B P" "code_frame s s'" "tb_rep {} s' B' P'" shows "tb_good tr s' B' P'"
proof -
  note g = tb_goodD [OF assms(1)] and f = assms(2) [unfolded code_frame_def]
  have "code_rep s'" by (rule code_rep_cong [OF g(2)]) (use f in simp_all)
  moreover have "buffer_ok s'" using g(3) f by (simp add: buffer_ok_def flip: length_greater_0_conv)
  moreover have "translator_ok tr s'" using g(4) f translator_ok_cong [of s' s] by simp
  ultimately show ?thesis using assms(3) by (simp add: tb_good_def)
qed

lemma hash_code_frame: "hash_frame s s' \<Longrightarrow> code_frame s s'"
  by (rule block_code_frame [OF hash_block_frame])

lemma tb_good_cache_set:
  assumes "tb_good tr s B P" "t \<in> live B" "tb_pc (tbs s ! t) = pc"
  shows "tb_good tr (s\<lparr>tb_jmp_cache := (tb_jmp_cache s)(env := (tb_jmp_cache s env)(tb_jmp_cache_hash_func pc := Some t))\<rparr>) B P"
  by (rule tb_good_code_frame [OF assms(1) _ tb_rep_cache_set [OF tb_goodD(1) [OF assms(1)] assms(2,3)]]) (simp add: code_frame_def)

text \<open>The end of \<^verbatim>\<open>tb_find_slow\<close>, from the label \<^verbatim>\<open>found\<close>\<close>

definition slow_found :: "nat \<Rightarrow> nat \<Rightarrow> u32 \<Rightarrow> nat option \<Rightarrow> nat \<Rightarrow> tb_context \<Rightarrow> tb_context" where
  "slow_found env h pc ptb1 t s1 =
     (let s2 = (if read_slot h ptb1 s1 \<noteq> None then move_to_front h ptb1 t s1 else s1)
      in s2\<lparr>tb_jmp_cache := (tb_jmp_cache s2)(env := (tb_jmp_cache s2 env)(tb_jmp_cache_hash_func pc := Some t))\<rparr>)"

lemma slow_found_good:
  assumes good: "tb_good tr s B P" and t: "t \<in> live B" "tb_pc (tbs s ! t) = pc"
    and slot: "read_slot h ptb1 s = None \<or> (\<exists>as bs. B h = as @ t # bs \<and> ptb1 = (if as = [] then None else Some (last as)))"
  obtains B' where "tb_good tr (slow_found env h pc ptb1 t s) B' P" "live B' = live B" "hash_frame s (slow_found env h pc ptb1 t s\<lparr>tb_jmp_cache := tb_jmp_cache s\<rparr>)"
    "tb_jmp_cache (slow_found env h pc ptb1 t s) = (tb_jmp_cache s)(env := (tb_jmp_cache s env)(tb_jmp_cache_hash_func pc := Some t))"
proof -
  have refl: "hash_frame s s"
  proof -
    have "\<exists>v. tbs s ! x = (tbs s ! x)\<lparr>phys_hash_next := v\<rparr>" for x by (rule exI [of _ "phys_hash_next (tbs s ! x)"]) simp
    then show ?thesis by (simp add: hash_frame_def)
  qed
  define s2 where "s2 = (if read_slot h ptb1 s \<noteq> None then move_to_front h ptb1 t s else s)"
  obtain B' where s2: "tb_rep {} s2 B' P" "live B' = live B" "hash_frame s s2"
  proof (cases "read_slot h ptb1 s = None")
    case True
    then show ?thesis using that [of B] refl tb_goodD(1) [OF good] by (simp add: s2_def)
  next
    case False
    then obtain as bs where "B h = as @ t # bs" "ptb1 = (if as = [] then None else Some (last as))"
      using slot by (elim disjE exE conjE) (blast, rule that)
    note m = this
    have e: "s2 = move_to_front h (if as = [] then None else Some (last as)) t s" unfolding s2_def if_P [OF False] by (simp only: m(2))
    obtain B' where "tb_rep {} s2 B' P" "live B' = live B" "hash_frame s s2"
      unfolding e by (rule move_to_front_rep [OF tb_goodD(1) [OF good] m(1)])
    then show ?thesis by (rule that)
  qed
  have g2: "tb_good tr s2 B' P" by (rule tb_good_code_frame [OF good hash_code_frame [OF s2(3)] s2(1)])
  have pc2: "tb_pc (tbs s2 ! t) = pc" using hash_frame_blocks(1) [OF s2(3)] t(2) by simp
  have j2: "tb_jmp_cache s2 = tb_jmp_cache s" using s2(3) unfolding hash_frame_def by blast
  have e: "slow_found env h pc ptb1 t s =
      s2\<lparr>tb_jmp_cache := (tb_jmp_cache s2)(env := (tb_jmp_cache s2 env)(tb_jmp_cache_hash_func pc := Some t))\<rparr>"
    by (simp only: slow_found_def s2_def Let_def)
  have "hash_frame s (s2\<lparr>tb_jmp_cache := tb_jmp_cache s\<rparr>)" using s2(3) by (simp add: hash_frame_def)
  then show ?thesis
    using that [of B'] tb_good_cache_set [OF g2 _ pc2, of env] t(1) s2(2) by (simp add: e j2)
qed

lemma tb_find_slow_alt:
  "tb_find_slow tr env pc cs_base flags s =
     (let s0 = s\<lparr>tb_invalidated_flag := False\<rparr>; h = tb_phys_hash_func pc
      in res_bind (find_phys (chain_fuel s0) s0 (tb_matches pc cs_base flags) None (tb_phys_hash s0 h)) (\<lambda>(ptb1, found).
         res_bind (case found of Some t \<Rightarrow> Inr (t, s0) | None \<Rightarrow> tb_gen_code tr pc cs_base flags 0 s0) (\<lambda>(t, s1).
           Inr (t, slow_found env h pc ptb1 t s1))))"
  by (simp only: tb_find_slow_def slow_found_def Let_def)

lemma tb_find_slow_good:
  assumes good: "tb_good tr s B P"
  obtains t s' B' P' where "tb_find_slow tr env pc cs_base flags s = Inr (t, s')" "tb_good tr s' B' P'" "t \<in> live B'"
    "tb_matches pc cs_base flags (tbs s' ! t)" "cpu_list s' = cpu_list s"
    "(\<exists>x \<in> live B. tb_matches pc cs_base flags (tbs s ! x)) \<Longrightarrow> live B' = live B"
    "\<And>e. e \<notin> set (cpu_list s) \<Longrightarrow> e \<noteq> env \<Longrightarrow> tb_jmp_cache s' e = tb_jmp_cache s e"
proof -
  let ?h = "tb_phys_hash_func pc" and ?ok = "tb_matches pc cs_base flags"
  define s0 where "s0 = s\<lparr>tb_invalidated_flag := False\<rparr>"
  have f0: "code_frame s s0" by (simp add: code_frame_def s0_def)
  have "tb_rep {} s0 B P"
    by (rule tb_rep_cong [OF tb_goodD(1) [OF good]]) (use tb_repD(1) [OF tb_goodD(1) [OF good]] in \<open>simp_all add: s0_def page_get_def\<close>)
  then have good0: "tb_good tr s0 B P" by (rule tb_good_code_frame [OF good f0])
  note g = tb_goodD [OF good0]
  note r = tb_repD [OF g(1)]
  have c: "chain (hash_link s0) (tb_phys_hash s0 ?h) (B ?h)" by (rule hash_repD(1) [OF r(2)])
  have "live B \<subseteq> {..<length (tbs s0)}" using r(7) by blast
  note fp = find_phys_chain [OF c chain_length_fuel [OF r(2) this, of ?h], of ?ok None]
  define as where "as = takeWhile (\<lambda>x. \<not> ?ok (tbs s0 ! x)) (B ?h)"
  define rest where "rest = dropWhile (\<lambda>x. \<not> ?ok (tbs s0 ! x)) (B ?h)"
  have split: "B ?h = as @ rest" by (simp add: as_def rest_def)
  let ?ptb = "if as = [] then None else Some (last as)"
  have fp': "find_phys (chain_fuel s0) s0 ?ok None (tb_phys_hash s0 ?h) = Inr (?ptb, if rest = [] then None else Some (hd rest))"
    using fp by (simp add: as_def rest_def Let_def)
  have slow: "tb_find_slow tr env pc cs_base flags s =
      res_bind (if rest \<noteq> [] then Inr (hd rest, s0) else tb_gen_code tr pc cs_base flags 0 s0)
        (\<lambda>(t, s1). Inr (t, slow_found env ?h pc ?ptb t s1))"
    unfolding tb_find_slow_alt Let_def s0_def [symmetric] fp' by (cases "rest = []") simp_all
  show ?thesis
  proof (cases "rest = []")
    case False
    then obtain t bs where rest: "rest = t # bs" by (cases rest) auto
    have tB: "B ?h = as @ t # bs" using split rest by simp
    then have t: "t \<in> live B" by (auto simp: live_def intro: exI [of _ ?h])
    have ok: "?ok (tbs s0 ! t)" using hd_dropWhile [of "\<lambda>x. \<not> ?ok (tbs s0 ! x)" "B ?h"] rest by (simp add: rest_def [symmetric])
    obtain B' where s': "tb_good tr (slow_found env ?h pc ?ptb t s0) B' P" "live B' = live B" "hash_frame s0 (slow_found env ?h pc ?ptb t s0\<lparr>tb_jmp_cache := tb_jmp_cache s0\<rparr>)"
      "tb_jmp_cache (slow_found env ?h pc ?ptb t s0) = (tb_jmp_cache s0)(env := (tb_jmp_cache s0 env)(tb_jmp_cache_hash_func pc := Some t))"
      by (rule slow_found_good [OF good0 t, of pc ?h ?ptb]) (use ok tB in \<open>auto simp: tb_matches_def\<close>)
    note hf = hash_frame_blocks [OF s'(3)] block_frameD(3) [OF hash_block_frame [OF s'(3)]]
    have "?ok (tbs (slow_found env ?h pc ?ptb t s0) ! t)" using ok hf by (simp add: tb_matches_def)
    then show ?thesis
      using slow rest s'(2,4) t hf(13) by (intro that [OF _ s'(1)]) (simp_all add: s0_def)
  next
    case True
    have none: "\<not> (\<exists>x \<in> live B. ?ok (tbs s ! x))"
    proof
      assume "\<exists>x \<in> live B. ?ok (tbs s ! x)"
      then obtain x where x: "x \<in> live B" "?ok (tbs s0 ! x)" by (auto simp: s0_def)
      then have "x \<in> set (B ?h)" using live_bucket [OF r(2), of x] by (simp add: tb_matches_def)
      then show False using x(2) True by (auto simp: rest_def dropWhile_eq_Nil_conv)
    qed
    obtain t s1 B0 P' where s1: "tb_gen_code tr pc cs_base flags 0 s0 = Inr (t, s1)" "tb_rep {} s1 (B0(?h := t # B0 ?h)) P'" "t \<notin> live B0" "B0 = B \<or> B0 = (\<lambda>_. [])"
      "tb_pc (tbs s1 ! t) = pc" "tb_cs_base (tbs s1 ! t) = cs_base" "tb_flags (tbs s1 ! t) = flags"
      "\<And>x. x \<noteq> t \<Longrightarrow> tbs s1 ! x = tbs s0 ! x" "code_rep s1" "buffer_ok s1" "translator_ok tr s1" "cpu_list s1 = cpu_list s0"
      "\<And>env. env \<notin> set (cpu_list s0) \<Longrightarrow> tb_jmp_cache s1 env = tb_jmp_cache s0 env"
      by (rule tb_gen_code_rep [OF g, of pc cs_base flags 0]) blast
    let ?B = "B0(?h := t # B0 ?h)"
    have good1: "tb_good tr s1 ?B P'" using s1(2,9,10,11) by (simp add: tb_good_def)
    have t: "t \<in> live ?B" by (auto simp: live_def intro: exI [of _ ?h])
    have slot: "read_slot ?h ?ptb s1 = None \<or> (\<exists>as bs. ?B ?h = as @ t # bs \<and> ?ptb = (if as = [] then None else Some (last as)))"
    proof (cases "as = []")
      case True
      then show ?thesis by (intro disjI2 exI [of _ "[]"] exI [of _ "B0 ?h"]) simp
    next
      case False
      have "set (B ?h) \<subseteq> live B" by (auto simp: live_def)
      then have "hash_link s1 (last as) = None" using gen_slot [OF c _ _ s1(2-4,8)] False True split by simp
      then show ?thesis using False by (simp add: read_slot_def)
    qed
    obtain B' where s': "tb_good tr (slow_found env ?h pc ?ptb t s1) B' P'" "live B' = live ?B" "hash_frame s1 (slow_found env ?h pc ?ptb t s1\<lparr>tb_jmp_cache := tb_jmp_cache s1\<rparr>)"
      "tb_jmp_cache (slow_found env ?h pc ?ptb t s1) = (tb_jmp_cache s1)(env := (tb_jmp_cache s1 env)(tb_jmp_cache_hash_func pc := Some t))"
      by (rule slow_found_good [OF good1 t s1(5) slot])
    note hf = hash_frame_blocks [OF s'(3)] block_frameD(3) [OF hash_block_frame [OF s'(3)]]
    have ok: "?ok (tbs s1 ! t)" by (rule block_ok_matches [OF tb_repD(6) [OF s1(2) t] s1(5-7)])
    then have "?ok (tbs (slow_found env ?h pc ?ptb t s1) ! t)" using hf by (simp add: tb_matches_def)
    then show ?thesis
      using slow True s1(1,12,13) s'(2,4) t hf(13) none by (intro that [OF _ s'(1)]) (simp_all add: s0_def)
  qed
qed

lemma tb_find_fast_good:
  assumes good: "tb_good tr s B P" and env: "env \<in> set (cpu_list s)"
  obtains t s' B' P' where "tb_find_fast tr env pc cs_base flags s = Inr (t, s')" "tb_good tr s' B' P'" "t \<in> live B'"
    "tb_matches pc cs_base flags (tbs s' ! t)" "cpu_list s' = cpu_list s"
    "(\<exists>x \<in> live B. tb_matches pc cs_base flags (tbs s ! x)) \<Longrightarrow> live B' = live B"
proof (cases "tb_find_fast tr env pc cs_base flags s = tb_find_slow tr env pc cs_base flags s")
  case True
  show ?thesis by (rule tb_find_slow_good [OF good, of env pc cs_base flags]) (use True in \<open>auto intro: that\<close>)
next
  case False
  then obtain t where t: "tb_jmp_cache s env (tb_jmp_cache_hash_func pc) = Some t" "tb_pc (tbs s ! t) = pc" "tb_cs_base (tbs s ! t) = cs_base" "tb_flags (tbs s ! t) = flags"
    and e: "tb_find_fast tr env pc cs_base flags s = Inr (t, s)"
    by (auto simp: tb_find_fast_def split: option.splits if_splits)
  note r = tb_repD [OF tb_goodD(1) [OF good]]
  have l: "t \<in> live B" using r(4) env t(1) unfolding cache_rep_def by blast
  show ?thesis by (rule that [OF e good l block_ok_matches [OF r(6) [OF l] t(2-4)]]) simp_all
qed

end
