(* ===== verification/TbInv.thy ===== *)
theory TbInv
  imports TbLookup
begin

text \<open>
  The invariant of the translation cache over all its operations, as a step relation, and what
  follows from it: no operation fails (but \<^verbatim>\<open>cpu_exec_nocache\<close> of a block whose stores drop the block
  itself), the blocks found are the blocks asked for, the guest code
  of a live block is write-protected, and the search by code address is a search in the array.
\<close>

section \<open>The invariant\<close>

text \<open>A block is live when a chain of the hash table leads to it.\<close>

definition live_tbs :: "tb_context \<Rightarrow> nat set" where
  "live_tbs s = {t. \<exists>h xs. chain (hash_link s) (tb_phys_hash s h) xs \<and> t \<in> set xs}"

lemma live_tbs_rep:
  assumes "tb_rep g s B P" shows "live_tbs s = live B"
proof -
  have c: "chain (hash_link s) (tb_phys_hash s h) (B h)" for h by (rule hash_repD(1) [OF tb_repD(2) [OF assms]])
  then have "chain (hash_link s) (tb_phys_hash s h) xs \<longleftrightarrow> xs = B h" for h xs using chain_unique by metis
  then show ?thesis by (auto simp: live_tbs_def live_def)
qed

definition tb_inv :: "translator \<Rightarrow> tb_context \<Rightarrow> bool" where
  "tb_inv tr s \<longleftrightarrow> (\<exists>B P. tb_good tr s B P)"

lemma tb_invI: "tb_good tr s B P \<Longrightarrow> tb_inv tr s"
  by (auto simp: tb_inv_def)

section \<open>Steps\<close>

text \<open>
  A processor that is not on the list of processors is a prefetch core: its jump cache is a copy of
  another one. \<^verbatim>\<open>tb_phys_invalidate\<close> and \<^verbatim>\<open>tb_free\<close> are called with the block that \<^verbatim>\<open>cpu_exec_nocache\<close> has just
  generated and run. What the run of the block does to the cache: each of its stores that faults goes
  to \<^verbatim>\<open>page_unprotect\<close>, and a block that is left by an exception (\<open>left\<close>) does not get to the invalidation.
\<close>

fun run_stores :: "u32 list \<Rightarrow> tb_context \<Rightarrow> tb_context result" where
  "run_stores [] s = Inr s"
| "run_stores (a # as) s = res_bind (page_unprotect a s) (\<lambda>(r, s1). run_stores as s1)"

definition run_nocache :: "translator \<Rightarrow> u32 \<Rightarrow> u32 \<Rightarrow> u64 \<Rightarrow> u16 \<Rightarrow> u32 list \<Rightarrow> bool \<Rightarrow> tb_context \<Rightarrow> tb_context result" where
  "run_nocache tr pc cs_base flags max_cycles stores left s =
     res_bind (tb_gen_code tr pc cs_base flags (if max_cycles > 0x7fff then 0x7fff else max_cycles) s) (\<lambda>(t, s1).
     res_bind (run_stores stores s1) (\<lambda>s2.
     if left then Inr s2
     else res_bind (tb_phys_invalidate t (- 1) s2) (\<lambda>s3. Inr (tb_free t s3))))"

inductive tb_step :: "translator \<Rightarrow> tb_context \<Rightarrow> tb_context \<Rightarrow> bool" for tr where
  flush: "tb_flush s = Inr s' \<Longrightarrow> tb_step tr s s'"
| find: "tb_find_fast tr env pc cs_base flags s = Inr (t, s') \<Longrightarrow> tb_step tr s s'"
| nocache: "run_nocache tr pc cs_base flags n stores left s = Inr s' \<Longrightarrow> tb_step tr s s'"
| invalidate_page: "tb_invalidate_phys_page addr s = Inr s' \<Longrightarrow> tb_step tr s s'"
| set_flags: "page_set_flags a b flags s = Inr s' \<Longrightarrow> tb_step tr s s'"
| unprotect: "page_unprotect a s = Inr (r, s') \<Longrightarrow> tb_step tr s s'"
| check_range: "page_check_range a len flags s = Inr (r, s') \<Longrightarrow> tb_step tr s s'"
| copy_core: "e \<notin> set (cpu_list s) \<Longrightarrow> tb_step tr s (s\<lparr>tb_jmp_cache := (tb_jmp_cache s)(e := tb_jmp_cache s e')\<rparr>)"

definition translator_fits :: "translator \<Rightarrow> bool" where
  "translator_fits tr \<longleftrightarrow> (\<forall>pc cs_base flags cflags. 1 \<le> g_size (tr pc cs_base flags cflags) \<and> g_size (tr pc cs_base flags cflags) \<le> 4096 \<and>
     0 < g_code_size (tr pc cs_base flags cflags) \<and> g_code_size (tr pc cs_base flags cflags) + 15 \<le> 192 * 4096)"

inductive tb_reachable :: "translator \<Rightarrow> tb_context \<Rightarrow> bool" for tr where
  init: "length blocks = code_gen_max_blocks \<Longrightarrow> tb_reachable tr (tcg_exec_init blocks cpus)"
| step: "tb_reachable tr s \<Longrightarrow> tb_step tr s s' \<Longrightarrow> tb_reachable tr s'"

lemma init_good:
  assumes "length blocks = code_gen_max_blocks" "translator_fits tr"
  shows "tb_good tr (tcg_exec_init blocks cpus) (\<lambda>_. []) (\<lambda>_. [])"
proof -
  have "tb_rep {} (tcg_exec_init blocks cpus) (\<lambda>_. []) (\<lambda>_. [])"
    by (auto simp: tb_rep_def hash_rep_def page_rep_def cache_rep_def live_def on_page_def tcg_exec_init_def page_get_def zero_page_def)
  moreover have "code_rep (tcg_exec_init blocks cpus)" by (simp add: code_rep_def tcg_exec_init_def)
  moreover have "buffer_ok (tcg_exec_init blocks cpus)"
    using assms(1) by (simp add: buffer_ok_def tcg_exec_init_def code_gen_max_blocks_def flip: length_greater_0_conv)
  moreover have "translator_ok tr (tcg_exec_init blocks cpus)"
    using assms(2) unfolding translator_ok_def translator_fits_def by (simp add: tcg_exec_init_def) 
  ultimately show ?thesis by (simp add: tb_good_def)
qed

section \<open>Every operation returns, and keeps the invariant\<close>

lemma tb_flush_good:
  assumes "tb_good tr s B P"
  obtains s' where "tb_flush s = Inr s'" "tb_good tr s' (\<lambda>_. []) (\<lambda>_. [])"
proof -
  note g = tb_goodD [OF assms]
  obtain s' where f: "tb_flush s = Inr s'" using g(3) by (simp add: tb_flush_def check_def buffer_ok_def Let_def)
  note f' = tb_flush_Inr [OF f]
  have "code_rep s'" by (simp add: code_rep_def f')
  moreover have "buffer_ok s'" using g(3) by (simp add: buffer_ok_def f')
  moreover have "translator_ok tr s'" using g(4) translator_ok_cong [of s' s] by (simp add: f')
  ultimately show ?thesis using that [OF f] tb_flush_rep [OF f] by (simp add: tb_good_def)
qed

lemma not_masked_minus_1: "a AND TARGET_PAGE_MASK = a \<Longrightarrow> a \<noteq> - 1"
  using second_page_other [of a 0] by (auto simp: masked_iff)

lemma tb_free_good:
  assumes good: "tb_good tr s B P" and t: "t \<notin> live B"
  shows "tb_good tr (tb_free t s) B P"
proof (cases "nb_tbs s > 0 \<and> t = nb_tbs s - 1")
  case False
  then show ?thesis using good by (auto simp: tb_free_def)
next
  case True
  then have n: "nb_tbs s = Suc t" by simp
  let ?s = "s\<lparr>code_gen_ptr := tc_ptr (tbs s ! t), nb_tbs := t\<rparr>"
  have e: "tb_free t s = ?s" by (simp add: tb_free_def n)
  note g = tb_goodD [OF good] and r = tb_repD [OF tb_goodD(1) [OF good]]
  have l: "page_link ?s = page_link s" "hash_link ?s = hash_link s" "page_get ?s = page_get s"
    by (simp_all add: page_link_def hash_link_def page_get_def fun_eq_iff)
  have op: "on_page ?s L p = on_page s L p" for L p by (simp add: on_page_def)
  have "page_rep {} ?s (live B) P" using r(3) unfolding page_rep_def l op .
  moreover have "hash_rep ?s B" using r(2) by (simp add: hash_rep_def l)
  moreover have "cache_rep ?s (live B)" using r(4) by (simp add: cache_rep_def)
  moreover have "x < t" if "x \<in> live B" for x using r(5) [OF that] n that t by (cases "x = t") auto
  ultimately have "tb_rep {} ?s B P" using r(1,6) by (simp add: tb_rep_def n)
  moreover have "code_rep ?s" using g(2) by (simp add: code_rep_def n)
  moreover have "buffer_ok ?s" using g(2,3) by (auto simp: code_rep_def buffer_ok_def n dest: spec [of _ t])
  moreover have "translator_ok tr ?s" using g(4) by (simp add: translator_ok_def)
  ultimately show ?thesis by (simp add: tb_good_def e)
qed

lemma run_stores_good:
  "tb_good tr s B P \<Longrightarrow> \<exists>s' B' P'. run_stores as s = Inr s' \<and> tb_good tr s' B' P'"
proof (induction as arbitrary: s B P)
  case (Cons a as)
  obtain r s1 B1 P1 where s1: "page_unprotect a s = Inr (r, s1)" "tb_rep {} s1 B1 P1" "code_frame s s1"
    by (rule page_unprotect_rep [OF tb_goodD(1) [OF Cons.prems], of a]) blast
  have "tb_good tr s1 B1 P1" by (rule tb_good_code_frame [OF Cons.prems s1(3,2)])
  from Cons.IH [OF this] s1(1) show ?case by simp
qed auto

text \<open>A block that is not live is not found in its chain, and the search walks off the end of it.\<close>

lemma tb_phys_invalidate_dead:
  assumes rep: "tb_rep g s B P" and t: "t \<notin> live B"
  shows "tb_phys_invalidate t pg s = Inl NullDeref"
proof -
  note r = tb_repD [OF rep]
  have miss: "tb_remove h t s = Inl NullDeref" for h
  proof -
    have c: "chain (hash_link s) (tb_phys_hash s h) (B h)" by (rule hash_repD(1) [OF r(2)])
    have "x < length (tbs s)" if "x \<in> set (B h)" for x using r(1) r(5) [of x] that by (fastforce simp: live_def)
    then have "card (set (B h)) \<le> card {..<length (tbs s)}" by (intro card_mono) auto
    then have "length (B h) < chain_fuel s" using chain_distinct [OF c] by (simp add: distinct_card chain_fuel_def)
    then have "find_slot (chain_fuel s) (hash_link s) None Some (tb_phys_hash s h) (\<lambda>p. p = t) = Inl NullDeref"
      using t by (intro find_slot_miss [OF c]) (auto simp: live_def)
    then show ?thesis by (simp add: tb_remove_def)
  qed
  show ?thesis by (simp add: tb_phys_invalidate_def Let_def miss)
qed

lemma run_nocache_cases:
  assumes good: "tb_good tr s B P"
  shows "\<exists>t s1 s2. tb_gen_code tr pc cs_base flags (if n > 0x7fff then 0x7fff else n) s = Inr (t, s1) \<and> tb_inv tr s1 \<and>
    t \<in> live_tbs s1 \<and> tb_pc (tbs s1 ! t) = pc \<and> run_stores stores s1 = Inr s2 \<and>
    (if left \<or> t \<in> live_tbs s2 then \<exists>s'. run_nocache tr pc cs_base flags n stores left s = Inr s' \<and> tb_inv tr s'
     else run_nocache tr pc cs_base flags n stores left s = Inl NullDeref)"
proof -
  let ?cf = "if n > 0x7fff then 0x7fff else n"
  note g = tb_goodD [OF good]
  obtain t s1 B0 P1 where s1: "tb_gen_code tr pc cs_base flags ?cf s = Inr (t, s1)" "tb_rep {} s1 (B0(tb_phys_hash_func pc := t # B0 (tb_phys_hash_func pc))) P1"
      "code_rep s1" "buffer_ok s1" "translator_ok tr s1" "tb_pc (tbs s1 ! t) = pc"
    by (rule tb_gen_code_rep [OF g, of pc cs_base flags ?cf]) blast
  let ?B = "B0(tb_phys_hash_func pc := t # B0 (tb_phys_hash_func pc))"
  have good1: "tb_good tr s1 ?B P1" using s1 by (simp add: tb_good_def)
  have t1: "t \<in> live_tbs s1" unfolding live_tbs_rep [OF s1(2)] by (auto simp: live_def intro: exI [of _ "tb_phys_hash_func pc"])
  obtain s2 B2 P2 where s2: "run_stores stores s1 = Inr s2" "tb_good tr s2 B2 P2" using run_stores_good [OF good1] by blast
  note r2 = tb_goodD(1) [OF s2(2)]
  have G: "\<forall>a. a AND TARGET_PAGE_MASK = a \<longrightarrow> (page_of a \<in> {} \<longleftrightarrow> a = - 1)" using not_masked_minus_1 by blast
  have alive: "\<exists>s'. run_nocache tr pc cs_base flags n stores left s = Inr s' \<and> tb_inv tr s'" if "\<not> left" "t \<in> live_tbs s2"
  proof -
    have t: "t \<in> live B2" using that(2) by (simp add: live_tbs_rep [OF r2])
    obtain s3 B3 P3 where s3: "tb_phys_invalidate t (- 1) s2 = Inr s3" "tb_rep {} s3 B3 P3" "live B3 = live B2 - {t}" "block_frame s2 s3"
      by (rule tb_phys_invalidate_rep [OF r2 t G]) blast
    have good3: "tb_good tr s3 B3 P3" by (rule tb_good_code_frame [OF s2(2) block_code_frame [OF s3(4)] s3(2)])
    have "tb_good tr (tb_free t s3) B3 P3" by (rule tb_free_good [OF good3]) (simp add: s3(3))
    moreover have "run_nocache tr pc cs_base flags n stores left s = Inr (tb_free t s3)" using that(1) by (simp add: run_nocache_def s1(1) s2(1) s3(1))
    ultimately show ?thesis using tb_invI by blast
  qed
  have gone: "\<exists>s'. run_nocache tr pc cs_base flags n stores left s = Inr s' \<and> tb_inv tr s'" if left
    using that tb_invI [OF s2(2)] by (simp add: run_nocache_def s1(1) s2(1))
  have dead: "run_nocache tr pc cs_base flags n stores left s = Inl NullDeref" if "\<not> left" "t \<notin> live_tbs s2"
    using that tb_phys_invalidate_dead [OF r2, of t "- 1"] by (simp add: run_nocache_def s1(1) s2(1) live_tbs_rep [OF r2])
  have "if left \<or> t \<in> live_tbs s2 then \<exists>s'. run_nocache tr pc cs_base flags n stores left s = Inr s' \<and> tb_inv tr s'
     else run_nocache tr pc cs_base flags n stores left s = Inl NullDeref"
    using alive dead gone by (cases left) auto
  then show ?thesis using s1(1,6) tb_invI [OF good1] t1 s2(1) by blast
qed

lemma run_nocache_inv:
  assumes "run_nocache tr pc cs_base flags n stores left s = Inr s'" "tb_good tr s B P"
  shows "tb_inv tr s'"
  using run_nocache_cases [OF assms(2), of pc cs_base flags n stores left] assms(1) by (auto split: if_splits)

lemma tb_invalidate_phys_page_good:
  assumes good: "tb_good tr s B P"
  obtains s' B' P' where "tb_invalidate_phys_page addr s = Inr s'" "tb_good tr s' B' P'"
    "live B' = live B - page_blocks s (live B) (page_of addr)"
proof -
  note r = tb_goodD(1) [OF good]
  obtain s' B' P' where s': "tb_invalidate_phys_page addr s = Inr s'" "tb_rep {} s' B' P'"
    "live B' = live B - page_blocks s (live B) (page_of addr)" "block_frame s s'"
    by (rule tb_invalidate_phys_page_rep [OF tb_rep_weaken [OF r] tb_rep_page(1,2) [OF r]]) blast
  then show ?thesis using tb_good_code_frame [OF good block_code_frame [OF s'(4)] s'(2)] by (intro that [OF s'(1)])
qed

lemma page_set_flags_good:
  assumes good: "tb_good tr s B P" and "a < b"
  obtains s' B' P' where "page_set_flags a b flags s = Inr s'" "tb_good tr s' B' P'"
proof -
  let ?start = "a AND TARGET_PAGE_MASK" and ?stop = "(b + 4096 - 1) AND TARGET_PAGE_MASK"
    and ?flags = "if flags AND PAGE_WRITE \<noteq> 0 then flags OR PAGE_WRITE_ORG else flags"
  obtain s' B' P' where s': "page_set_loop (unat (?stop - ?start) div 4096) ?start ?flags s = Inr s'" "tb_rep {} s' B' P'" "code_frame s s'"
    by (rule page_set_loop_rep [OF tb_goodD(1) [OF good]]) blast
  have "page_set_flags a b flags s = Inr s'" using assms(2) s'(1) by (simp add: page_set_flags_def Let_def)
  then show ?thesis by (rule that [OF _ tb_good_code_frame [OF good s'(3,2)]])
qed

lemma page_set_flags_order: "page_set_flags a b flags s = Inr s' \<Longrightarrow> a < b"
  by (auto simp: page_set_flags_def check_def split: if_splits)

lemma page_unprotect_good:
  assumes good: "tb_good tr s B P"
  obtains r s' B' P' where "page_unprotect a s = Inr (r, s')" "tb_good tr s' B' P'"
proof -
  obtain r s' B' P' where s': "page_unprotect a s = Inr (r, s')" "tb_rep {} s' B' P'" "code_frame s s'"
    by (rule page_unprotect_rep [OF tb_goodD(1) [OF good]]) blast
  then show ?thesis by (intro that [OF s'(1) tb_good_code_frame [OF good s'(3,2)]])
qed

lemma page_check_range_good:
  assumes good: "tb_good tr s B P"
  obtains r s' B' P' where "page_check_range a len flags s = Inr (r, s')" "tb_good tr s' B' P'"
proof (cases "len = 0 \<or> a + len - 1 < a")
  case True
  then show ?thesis by (cases "len = 0") (auto simp: page_check_range_def intro: that [OF _ good])
next
  case False
  let ?start = "a AND TARGET_PAGE_MASK" and ?stop = "(a + len + 4096 - 1) AND TARGET_PAGE_MASK"
  obtain r s' B' P' where s': "page_check_loop (unat (?stop - ?start) div 4096) ?start flags s = Inr (r, s')" "tb_rep {} s' B' P'" "code_frame s s'"
    by (rule page_check_loop_rep [OF tb_goodD(1) [OF good]]) blast
  have "page_check_range a len flags s = Inr (r, s')" using False s'(1) by (simp add: page_check_range_def Let_def)
  then show ?thesis by (rule that [OF _ tb_good_code_frame [OF good s'(3,2)]])
qed

lemma copy_core_good:
  assumes good: "tb_good tr s B P" and e: "e \<notin> set (cpu_list s)"
  shows "tb_good tr (s\<lparr>tb_jmp_cache := (tb_jmp_cache s)(e := c)\<rparr>) B P" (is "tb_good tr ?s B P")
proof -
  note r = tb_repD [OF tb_goodD(1) [OF good]]
  have l: "page_link ?s = page_link s" "hash_link ?s = hash_link s" "page_get ?s = page_get s"
    by (simp_all add: page_link_def hash_link_def page_get_def fun_eq_iff)
  have op: "on_page ?s L p = on_page s L p" for L p by (simp add: on_page_def)
  have "page_rep {} ?s (live B) P" using r(3) unfolding page_rep_def l op .
  moreover have "hash_rep ?s B" using r(2) by (simp add: hash_rep_def l)
  moreover have "cache_rep ?s (live B)" using r(4) e by (auto simp: cache_rep_def)
  ultimately have "tb_rep {} ?s B P" using r by (simp add: tb_rep_def)
  then show ?thesis by (rule tb_good_code_frame [OF good, rotated]) (simp add: code_frame_def)
qed

text \<open>For any processor, also one whose jump cache is out of date\<close>

lemma tb_find_fast_any:
  assumes good: "tb_good tr s B P"
  obtains t s' B' P' where "tb_find_fast tr env pc cs_base flags s = Inr (t, s')" "tb_good tr s' B' P'"
proof (cases "tb_find_fast tr env pc cs_base flags s = tb_find_slow tr env pc cs_base flags s")
  case True
  show ?thesis by (rule tb_find_slow_good [OF good, of env pc cs_base flags]) (use True in \<open>auto intro: that\<close>)
next
  case False
  then obtain t where "tb_find_fast tr env pc cs_base flags s = Inr (t, s)"
    by (auto simp: tb_find_fast_def split: option.splits if_splits)
  then show ?thesis by (rule that [OF _ good])
qed

lemma tb_step_inv:
  assumes "tb_step tr s s'" "tb_inv tr s"
  shows "tb_inv tr s'"
proof -
  obtain B P where good: "tb_good tr s B P" using assms(2) by (auto simp: tb_inv_def)
  have the: "tb_inv tr s'" if "x = Inr s'" "x = Inr s''" "tb_good tr s'' B' P'" for x s'' B' P'
    using that by (auto simp: tb_inv_def)
  have the2: "tb_inv tr s'" if "x = Inr (r, s')" "x = Inr (r', s'')" "tb_good tr s'' B' P'" for x r r' s'' B' P'
    using that by (auto simp: tb_inv_def)
  from assms(1) show ?thesis
  proof cases
    case flush
    show ?thesis by (rule tb_flush_good [OF good]) (rule the [OF flush])
  next
    case (find env pc cs_base flags t)
    show ?thesis by (rule tb_find_fast_any [OF good, of env pc cs_base flags]) (rule the2 [OF find])
  next
    case (nocache pc cs_base flags n stores left)
    then show ?thesis by (rule run_nocache_inv [OF _ good])
  next
    case (invalidate_page addr)
    show ?thesis by (rule tb_invalidate_phys_page_good [OF good, of addr]) (rule the [OF invalidate_page])
  next
    case (set_flags a b flags)
    show ?thesis by (rule page_set_flags_good [OF good page_set_flags_order [OF set_flags]]) (rule the [OF set_flags])
  next
    case (unprotect a r)
    show ?thesis by (rule page_unprotect_good [OF good, of a]) (rule the2 [OF unprotect])
  next
    case (check_range a len flags r)
    show ?thesis by (rule page_check_range_good [OF good, of a len flags]) (rule the2 [OF check_range])
  next
    case (copy_core e e')
    then show ?thesis using copy_core_good [OF good] by (auto intro: tb_invI)
  qed
qed

lemma reachable_inv: "tb_reachable tr s \<Longrightarrow> translator_fits tr \<Longrightarrow> tb_inv tr s"
proof (induction rule: tb_reachable.induct)
  case (init blocks cpus)
  then show ?case by (intro tb_invI [OF init_good])
next
  case (step s s')
  then show ?case using tb_step_inv by blast
qed

section \<open>Protection of translated code\<close>

lemma page_get_flags_page: "page_get_flags a s = page_flags (page_get s (page_of a))"
  by (auto simp: page_get_flags_def page_find_def page_get_def page_of_def zero_page_def split: option.splits)

lemma block_page_byte:
  assumes ok: "block_ok t b" and i: "i < unat (tb_size b)"
  shows "(tb_pc b + of_nat i) AND TARGET_PAGE_MASK = page_addr b 0 \<or>
    page_addr b 1 \<noteq> - 1 \<and> (tb_pc b + of_nat i) AND TARGET_PAGE_MASK = page_addr b 1"
proof -
  let ?pc = "tb_pc b" and ?j = "unat (tb_size b) - 1"
  have sz: "1 \<le> tb_size b" "unat (tb_size b) \<le> 4096" using ok by (simp_all add: block_ok_def word_le_nat_alt)
  have j: "i \<le> ?j" "?j < 4096" using i sz(2) by linarith+
  have m: "(?pc + of_nat i) AND TARGET_PAGE_MASK \<in> {?pc AND TARGET_PAGE_MASK, (?pc + of_nat ?j) AND TARGET_PAGE_MASK}"
    by (rule page_within(1) [OF j])
  have p0: "page_addr b 0 = ?pc AND TARGET_PAGE_MASK" and p1: "page_addr b 1 = second_page ?pc (tb_size b)"
    using ok by (simp_all add: block_ok_def)
  have sp: "second_page ?pc (tb_size b) = (if ?pc AND TARGET_PAGE_MASK \<noteq> (?pc + of_nat ?j) AND TARGET_PAGE_MASK
      then (?pc + of_nat ?j) AND TARGET_PAGE_MASK else - 1)"
    by (simp only: second_page_def Let_def last_byte [OF sz(1)])
  have "(?pc + of_nat ?j) AND TARGET_PAGE_MASK \<noteq> - 1" by (rule not_masked_minus_1) simp
  with m p0 p1 sp show ?thesis by auto
qed

lemma live_byte_protected:
  assumes rep: "tb_rep {} s B P" and t: "t \<in> live B" and i: "i < unat (tb_size (tbs s ! t))"
  shows "page_get_flags (tb_pc (tbs s ! t) + of_nat i) s AND PAGE_WRITE = 0"
proof -
  let ?a = "tb_pc (tbs s ! t) + of_nat i :: u32"
  note r = tb_repD [OF rep]
  from block_page_byte [OF r(6) [OF t] i]
  consider "?a AND TARGET_PAGE_MASK = page_addr (tbs s ! t) 0"
    | "page_addr (tbs s ! t) 1 \<noteq> - 1" "?a AND TARGET_PAGE_MASK = page_addr (tbs s ! t) 1" by blast
  then have "\<exists>n. (t, n) \<in> on_page s (live B) (page_of ?a)"
  proof cases
    case 1
    then show ?thesis using t page_of_masked [of ?a] by (intro exI [of _ 0]) (simp add: on_page_def)
  next
    case 2
    then show ?thesis using t page_of_masked [of ?a] by (intro exI [of _ 1]) (simp add: on_page_def)
  qed
  then have "P (page_of ?a) \<noteq> []" using tb_rep_page(2) [OF rep, of "page_of ?a"] by force
  then show ?thesis using tb_rep_page(3) [OF rep] by (simp add: page_get_flags_page)
qed

section \<open>Search by code address\<close>

text \<open>The last block whose code starts at or before the address\<close>

definition find_pc_spec :: "nat \<Rightarrow> tb_context \<Rightarrow> nat option" where
  "find_pc_spec tc s =
     (let xs = filter (\<lambda>i. tc_ptr (tbs s ! i) \<le> tc) [0..<nb_tbs s]
      in if xs = [] \<or> code_gen_ptr s \<le> tc then None else Some (last xs))"

declare find_pc_loop.simps [simp del]

lemma find_pc_loop_sound:
  assumes "\<And>j i. j < n \<Longrightarrow> i < j \<Longrightarrow> tc_ptr (bs ! i) < tc_ptr (bs ! j)"
    and "0 \<le> lo" "hi < int n" "lo \<le> hi + 1"
    and "\<And>i. int i < lo \<Longrightarrow> tc_ptr (bs ! i) \<le> tc" "\<And>i. hi < int i \<Longrightarrow> i < n \<Longrightarrow> tc < tc_ptr (bs ! i)"
  shows "find_pc_loop bs tc lo hi < int n \<and> (\<forall>i < n. tc_ptr (bs ! i) \<le> tc \<longleftrightarrow> int i \<le> find_pc_loop bs tc lo hi)"
  using assms
proof (induction bs tc lo hi rule: find_pc_loop.induct)
  case (1 bs tc lo hi)
  note sorted = "1.prems"(1) and lo = "1.prems"(2) and hi = "1.prems"(3) and gap = "1.prems"(4)
    and below = "1.prems"(5) and above = "1.prems"(6)
  have mono: "tc_ptr (bs ! i) \<le> tc_ptr (bs ! j)" if "i \<le> j" "j < n" for i j
    using sorted [of j i] that by (cases "i = j") auto
  show ?case
  proof (cases "lo \<le> hi")
    case False
    then have e: "find_pc_loop bs tc lo hi = hi" and h: "lo = hi + 1" using gap by (simp_all add: find_pc_loop.simps [of bs tc lo hi])
    have "tc_ptr (bs ! i) \<le> tc \<longleftrightarrow> int i \<le> hi" if "i < n" for i
      using below [of i] above [of i] that by (cases "int i \<le> hi") (auto simp: h)
    then show ?thesis using hi unfolding e by blast
  next
    case True
    define m where "m = (lo + hi) div 2"
    have m: "lo \<le> m" "m \<le> hi" "0 \<le> m" using True lo by (auto simp: m_def)
    have mn: "nat m < n" using m hi by linarith
    have step: "find_pc_loop bs tc lo hi = (if tc_ptr (bs ! nat m) = tc then m
        else if tc < tc_ptr (bs ! nat m) then find_pc_loop bs tc lo (m - 1) else find_pc_loop bs tc (m + 1) hi)"
      using True by (simp add: find_pc_loop.simps [of bs tc lo hi] m_def Let_def)
    consider "tc_ptr (bs ! nat m) = tc" | "tc < tc_ptr (bs ! nat m)" | "tc_ptr (bs ! nat m) < tc" by linarith
    then show ?thesis
    proof cases
      case 1
      have "tc_ptr (bs ! i) \<le> tc \<longleftrightarrow> int i \<le> m" if "i < n" for i
      proof (cases "i \<le> nat m")
        case True
        then show ?thesis using mono [OF True mn] 1 m(3) by (simp add: le_nat_iff)
      next
        case False
        then have "nat m < i" by simp
        from sorted [OF that this] False show ?thesis using 1 m(3) by (simp add: le_nat_iff)
      qed
      then show ?thesis using 1 m(2) hi by (simp add: step)
    next
      case 2
      then have ne: "tc_ptr (bs ! nat m) \<noteq> tc" by simp
      have "tc < tc_ptr (bs ! i)" if "m - 1 < int i" "i < n" for i
        using mono [of "nat m" i] that 2 m(3) by (simp add: nat_le_iff)
      then have "find_pc_loop bs tc lo (m - 1) < int n \<and> (\<forall>i < n. tc_ptr (bs ! i) \<le> tc \<longleftrightarrow> int i \<le> find_pc_loop bs tc lo (m - 1))"
        using m hi lo below sorted ne by (intro "1.IH"(1) [OF True m_def refl]) (simp_all add: 2)
      then show ?thesis using 2 by (simp add: step)
    next
      case 3
      then have ne: "tc_ptr (bs ! nat m) \<noteq> tc" by simp
      have "tc_ptr (bs ! i) \<le> tc" if "int i < m + 1" for i
        using mono [of i "nat m"] that 3 mn m(3) by (simp add: le_nat_iff)
      then have "find_pc_loop bs tc (m + 1) hi < int n \<and> (\<forall>i < n. tc_ptr (bs ! i) \<le> tc \<longleftrightarrow> int i \<le> find_pc_loop bs tc (m + 1) hi)"
        using m hi lo above sorted ne by (intro "1.IH"(2) [OF True m_def refl]) (simp_all add: 3 not_less less_imp_le)
      then show ?thesis using 3 by (simp add: step)
    qed
  qed
qed

lemma filter_upto: "k \<le> n \<Longrightarrow> (\<And>i. i < n \<Longrightarrow> Q i \<longleftrightarrow> i < k) \<Longrightarrow> filter Q [0..<n] = [0..<k]"
proof (induction n)
  case (Suc n)
  show ?case
  proof (cases "k = Suc n")
    case True
    show ?thesis unfolding True by (rule filter_True) (use Suc.prems(2) True in auto)
  next
    case False
    then have "k \<le> n" "\<not> Q n" using Suc.prems(1) Suc.prems(2) [of n] by auto
    then show ?thesis using Suc.IH Suc.prems(2) by auto
  qed
qed simp

lemma tb_find_pc_spec:
  assumes c: "code_rep s" shows "tb_find_pc tc s = find_pc_spec tc s"
proof (cases "nb_tbs s = 0 \<or> code_gen_ptr s \<le> tc")
  case True
  then show ?thesis unfolding tb_find_pc_def find_pc_spec_def Let_def by (cases "nb_tbs s = 0") simp_all
next
  case False
  define r where "r = find_pc_loop (tbs s) tc 0 (int (nb_tbs s) - 1)"
  have sorted: "tc_ptr (tbs s ! i) < tc_ptr (tbs s ! j)" if "j < nb_tbs s" "i < j" for i j
    using c that unfolding code_rep_def by blast
  have r: "r < int (nb_tbs s)" "\<forall>i < nb_tbs s. tc_ptr (tbs s ! i) \<le> tc \<longleftrightarrow> int i \<le> r"
    unfolding r_def using find_pc_loop_sound [of "nb_tbs s" "tbs s" 0 "int (nb_tbs s) - 1" tc, OF sorted] by simp_all
  have n: "0 < nb_tbs s" using False by simp
  then have "tc_ptr (tbs s ! 0) \<le> tc" using c unfolding code_rep_def by linarith
  then have r0: "0 \<le> r" using r(2) n by force
  have "filter (\<lambda>i. tc_ptr (tbs s ! i) \<le> tc) [0..<nb_tbs s] = [0..<Suc (nat r)]"
  proof (rule filter_upto)
    show "Suc (nat r) \<le> nb_tbs s" using r(1) n by linarith
    show "tc_ptr (tbs s ! i) \<le> tc \<longleftrightarrow> i < Suc (nat r)" if "i < nb_tbs s" for i
      using r(2) that r0 by (simp add: less_Suc_eq_le le_nat_iff)
  qed
  then have "find_pc_spec tc s = Some (nat r)" using False unfolding find_pc_spec_def by simp
  moreover have "tb_find_pc tc s = Some (nat r)" using False unfolding tb_find_pc_def r_def by simp
  ultimately show ?thesis by simp
qed

section \<open>Properties\<close>

text \<open>A translator that makes blocks of one instruction, for the witnesses\<close>

definition single_inst_translator :: translator where
  "single_inst_translator pc cs_base flags cflags =
     \<lparr>g_size = 4, g_next_pc = pc + 4, g_next_offset = (\<lambda>_. 0xffff), g_jmp_offset = (\<lambda>_. 0xffff), g_icount = 1, g_code_size = 40\<rparr>"

definition blank_tb :: TranslationBlock where
  "blank_tb = \<lparr>tb_pc = 0, tb_next_pc = 0, tb_cs_base = 0, tb_flags = 0, tb_size = 0, tb_cflags = 0, tc_ptr = 0,
     phys_hash_next = None, page_next = (\<lambda>_. None), page_addr = (\<lambda>_. 0), tb_next_offset = (\<lambda>_. 0), tb_jmp_offset = (\<lambda>_. 0),
     jmp_next = (\<lambda>_. None), jmp_first = (0, 0), tb_icount = 0\<rparr>"

definition start_context :: tb_context where
  "start_context = tcg_exec_init (replicate code_gen_max_blocks blank_tb) [0]"

lemma single_inst_fits: "translator_fits single_inst_translator"
  by (simp add: translator_fits_def single_inst_translator_def)

lemma start_reachable: "tb_reachable tr start_context"
  unfolding start_context_def by (rule tb_reachable.init) simp

lemma start_good: "tb_good single_inst_translator start_context (\<lambda>_. []) (\<lambda>_. [])"
  unfolding start_context_def by (rule init_good [OF _ single_inst_fits]) simp

lemma first_block:
  obtains t s where "tb_find_fast single_inst_translator 0 0x8000 0 0 start_context = Inr (t, s)" "tb_reachable single_inst_translator s"
    "t \<in> live_tbs s" "tb_size (tbs s ! t) \<noteq> 0"
proof -
  have e: "(0::nat) \<in> set (cpu_list start_context)" by (simp add: start_context_def tcg_exec_init_def)
  obtain t s B P where f: "tb_find_fast single_inst_translator 0 0x8000 0 0 start_context = Inr (t, s)"
      "tb_good single_inst_translator s B P" "t \<in> live B"
    by (rule tb_find_fast_good [OF start_good e, of "0x8000" 0 0]) blast
  note r = tb_goodD(1) [OF f(2)]
  have "tb_reachable single_inst_translator s" by (rule tb_reachable.step [OF start_reachable tb_step.find [OF f(1)]])
  moreover have "t \<in> live_tbs s" using f(3) by (simp add: live_tbs_rep [OF r])
  moreover have "tb_size (tbs s ! t) \<noteq> 0" using tb_repD(6) [OF r f(3)] by (auto simp: block_ok_def)
  ultimately show ?thesis by (rule that [OF f(1)])
qed

text \<open>
  C10. The invariant of the translation cache: in every state that the operations reach from the
  start (lookups by any core, generation, flushes, invalidation, changes of the page protection,
  and copies of a jump cache to a prefetch core), the hash chains and the page lists end, hold
  exactly the live blocks in the bucket and on the pages of their code, the jump caches of the
  listed processors point to live blocks, no page with live blocks is writable, and the code
  addresses of the blocks grow with their index below the fill pointer.
\<close>

theorem tb_cache_invariant:
  assumes "tb_reachable tr s" "translator_fits tr"
  shows "tb_inv tr s"
  using assms by (rule reachable_inv)

theorem tb_cache_invariant_witness:
  "tb_reachable single_inst_translator start_context \<and> translator_fits single_inst_translator \<and> tb_inv single_inst_translator start_context"
  using tb_cache_invariant [OF start_reachable single_inst_fits] start_reachable single_inst_fits by blast

text \<open>
  C11. Self-modifying code is always noticed: every guest byte that a live block was translated from
  lies on a page that is not writable, so that a store to it faults and goes to \<^verbatim>\<open>page_unprotect\<close>.
\<close>

theorem translated_code_protected:
  assumes "tb_reachable tr s" "translator_fits tr" "t \<in> live_tbs s" "i < unat (tb_size (tbs s ! t))"
  shows "page_get_flags (tb_pc (tbs s ! t) + of_nat i) s AND PAGE_WRITE = 0"
proof -
  obtain B P where g: "tb_good tr s B P" using reachable_inv [OF assms(1,2)] by (auto simp: tb_inv_def)
  note r = tb_goodD(1) [OF g]
  show ?thesis using live_byte_protected [OF r _ assms(4)] assms(3) by (simp add: live_tbs_rep [OF r])
qed

theorem translated_code_protected_witness:
  "\<exists>s t. tb_reachable single_inst_translator s \<and> t \<in> live_tbs s \<and> 0 < unat (tb_size (tbs s ! t)) \<and>
     page_get_flags (tb_pc (tbs s ! t) + of_nat 0) s AND PAGE_WRITE = 0"
proof -
  obtain t s where s: "tb_find_fast single_inst_translator 0 0x8000 0 0 start_context = Inr (t, s)" "tb_reachable single_inst_translator s"
    "t \<in> live_tbs s" "tb_size (tbs s ! t) \<noteq> 0" by (rule first_block)
  have "0 < unat (tb_size (tbs s ! t))" using s(4) by (simp add: unat_gt_0)
  then show ?thesis using translated_code_protected [OF s(2) single_inst_fits s(3)] s(2,3) by blast
qed

text \<open>
  C12. \<^verbatim>\<open>tb_find_fast\<close> on a listed processor returns a live block for exactly the program counter, code
  segment and flags asked for, whether it comes from the jump cache, from the hash table, or is
  generated; a block is generated, or the cache flushed, only when no live block matches.
\<close>

theorem tb_find_fast_correct:
  assumes "tb_reachable tr s" "translator_fits tr" "env \<in> set (cpu_list s)"
  shows "\<exists>t s'. tb_find_fast tr env pc cs_base flags s = Inr (t, s') \<and> t \<in> live_tbs s' \<and>
    tb_matches pc cs_base flags (tbs s' ! t) \<and>
    ((\<exists>x \<in> live_tbs s. tb_matches pc cs_base flags (tbs s ! x)) \<longrightarrow> live_tbs s' = live_tbs s)"
proof -
  obtain B P where g: "tb_good tr s B P" using reachable_inv [OF assms(1,2)] by (auto simp: tb_inv_def)
  obtain t s' B' P' where f: "tb_find_fast tr env pc cs_base flags s = Inr (t, s')" "tb_good tr s' B' P'" "t \<in> live B'"
    "tb_matches pc cs_base flags (tbs s' ! t)"
    "(\<exists>x \<in> live B. tb_matches pc cs_base flags (tbs s ! x)) \<Longrightarrow> live B' = live B"
    by (rule tb_find_fast_good [OF g assms(3)]) blast
  have l: "live_tbs s = live B" "live_tbs s' = live B'" by (rule live_tbs_rep, rule tb_goodD(1), fact)+
  show ?thesis unfolding l(1) by (rule exI [of _ t], rule exI [of _ s']) (use f l(2) in blast)
qed

theorem tb_find_fast_correct_witness:
  "\<exists>t s'. tb_find_fast single_inst_translator 0 0x8000 0 0 start_context = Inr (t, s') \<and> t \<in> live_tbs s' \<and>
    tb_matches 0x8000 0 0 (tbs s' ! t)"
proof -
  have "(0::nat) \<in> set (cpu_list start_context)" by (simp add: start_context_def tcg_exec_init_def)
  from tb_find_fast_correct [OF start_reachable single_inst_fits this, of "0x8000" 0 0] show ?thesis by blast
qed

text \<open>A store to the page of a live block that the guest may write drops the block.\<close>

lemma own_page_unprotect:
  assumes good: "tb_good tr s B P" and t: "t \<in> live_tbs s" and a: "a AND TARGET_PAGE_MASK = tb_pc (tbs s ! t) AND TARGET_PAGE_MASK"
    and org: "page_get_flags a s AND PAGE_WRITE_ORG \<noteq> 0" and u: "page_unprotect a s = Inr (r, s')"
  shows "t \<notin> live_tbs s'"
proof -
  note rep = tb_goodD(1) [OF good]
  have tB: "t \<in> live B" using t by (simp add: live_tbs_rep [OF rep])
  have ok: "block_ok t (tbs s ! t)" by (rule tb_repD(6) [OF rep tB])
  have pg: "page_addr (tbs s ! t) 0 = tb_pc (tbs s ! t) AND TARGET_PAGE_MASK" "0 < unat (tb_size (tbs s ! t))"
    using ok by (auto simp: block_ok_def unat_gt_0)
  have p: "page_of a = page_of (page_addr (tbs s ! t) 0)" using a pg(1) by (metis page_of_masked)
  have "page_get_flags (tb_pc (tbs s ! t) + of_nat 0) s AND PAGE_WRITE = 0" by (rule live_byte_protected [OF rep tB pg(2)])
  then have "page_get_flags a s AND PAGE_WRITE = 0"
    using a by (simp add: page_get_flags_page) (metis page_of_masked)
  then have x: "page_get_flags a s AND PAGE_WRITE_ORG \<noteq> 0 \<and> page_get_flags a s AND PAGE_WRITE = 0" using org by simp
  obtain B' P' s'' where s'': "page_unprotect a s = Inr (True, s'')" "tb_rep {} s'' B' P'" "live B' = live B - page_blocks s (live B) (page_of a)"
    by (rule page_unprotect_rep [OF rep, of a]) (use x in auto)
  have "(t, 0) \<in> on_page s (live B) (page_of a)" using tB p pg(1) ok by (auto simp: on_page_def block_ok_def)
  then have "t \<in> page_blocks s (live B) (page_of a)" by (force simp: page_blocks_def)
  then show ?thesis using s'' u by (simp add: live_tbs_rep [OF s''(2)])
qed

text \<open>
  C13. In every reachable state the operations on the cache return: the loops over the chains end, no
  null pointer is followed, and the overflow check of \<^verbatim>\<open>tb_flush\<close> does not abort. \<^verbatim>\<open>page_set_flags\<close>
  fails exactly when its assertion on the bounds fails. The one operation that can go wrong is \<^verbatim>\<open>cpu_exec_nocache\<close>:
  its block is generated and run, and when a store of the run has dropped the block from the cache, the
  invalidation after the run looks for it in a chain that it is not in, and follows a null pointer in
  \<^verbatim>\<open>tb_remove\<close>. In every other case, and when the block is left by an exception, it returns.
\<close>

theorem tb_operations_return:
  assumes "tb_reachable tr s" "translator_fits tr"
  shows "(\<exists>s'. tb_flush s = Inr s') \<and> (\<exists>t s'. tb_find_fast tr env pc cs_base flags s = Inr (t, s')) \<and>
    (\<exists>s'. tb_invalidate_phys_page a s = Inr s') \<and>
    ((\<exists>s'. page_set_flags a b fl s = Inr s') \<longleftrightarrow> a < b) \<and> (\<exists>r s'. page_unprotect a s = Inr (r, s')) \<and>
    (\<exists>r s'. page_check_range a len fl s = Inr (r, s')) \<and>
    (\<exists>t s1 s2. tb_gen_code tr pc cs_base flags (if n > 0x7fff then 0x7fff else n) s = Inr (t, s1) \<and> run_stores stores s1 = Inr s2 \<and>
      (if left \<or> t \<in> live_tbs s2 then \<exists>s'. run_nocache tr pc cs_base flags n stores left s = Inr s'
       else run_nocache tr pc cs_base flags n stores left s = Inl NullDeref))"
proof -
  obtain B P where g: "tb_good tr s B P" using reachable_inv [OF assms] by (auto simp: tb_inv_def)
  have "\<exists>s'. page_set_flags a b fl s = Inr s'" if "a < b" by (rule page_set_flags_good [OF g that, of fl]) blast
  moreover have "a < b" if "\<exists>s'. page_set_flags a b fl s = Inr s'" using that page_set_flags_order by blast
  moreover have "\<exists>s'. tb_flush s = Inr s'" by (rule tb_flush_good [OF g]) blast
  moreover have "\<exists>t s'. tb_find_fast tr env pc cs_base flags s = Inr (t, s')" by (rule tb_find_fast_any [OF g, of env pc cs_base flags]) blast
  moreover have "\<exists>t s1 s2. tb_gen_code tr pc cs_base flags (if n > 0x7fff then 0x7fff else n) s = Inr (t, s1) \<and> run_stores stores s1 = Inr s2 \<and>
      (if left \<or> t \<in> live_tbs s2 then \<exists>s'. run_nocache tr pc cs_base flags n stores left s = Inr s'
       else run_nocache tr pc cs_base flags n stores left s = Inl NullDeref)"
    using run_nocache_cases [OF g, of pc cs_base flags n stores left] by (elim exE conjE) (intro exI conjI, assumption+, auto split: if_splits)
  moreover have "\<exists>s'. tb_invalidate_phys_page a s = Inr s'" by (rule tb_invalidate_phys_page_good [OF g, of a]) blast
  moreover have "\<exists>r s'. page_unprotect a s = Inr (r, s')" by (rule page_unprotect_good [OF g, of a]) blast
  moreover have "\<exists>r s'. page_check_range a len fl s = Inr (r, s')" by (rule page_check_range_good [OF g, of a len fl]) blast
  ultimately show ?thesis by blast
qed

text \<open>The start with one page that the guest may write\<close>

definition writable_context :: tb_context where
  "writable_context = start_context\<lparr>l1_map := (l1_map start_context)(0 \<mapsto> (\<lambda>_. zero_page)(8 := zero_page\<lparr>page_flags := 0x13\<rparr>))\<rparr>"

lemma slot_8000: "page_slot (drop_bit 12 0x8000) = (0, 8)"
  by code_simp

lemma writable_start: "page_set_flags 0x8000 0x9000 3 start_context = Inr writable_context"
proof -
  have k: "unat ((((0x9000 :: u32) + 4096 - 1) AND TARGET_PAGE_MASK) - 0x8000) div 4096 = Suc 0"
    by (simp add: TARGET_PAGE_MASK_def)
  have m: "(0x8000 :: u32) AND TARGET_PAGE_MASK = 0x8000" by (simp add: TARGET_PAGE_MASK_def)
  have l: "page_set_loop (Suc 0) 0x8000 0x13 start_context = Inr writable_context"
    unfolding page_set_loop.simps page_alloc_def slot_8000 Let_def
    by (simp add: start_context_def tcg_exec_init_def page_get_def page_upd_def zero_page_def writable_context_def)
  have f: "(if (3 :: u64) AND PAGE_WRITE \<noteq> 0 then 3 OR PAGE_WRITE_ORG else 3) = 0x13" by (simp add: PAGE_WRITE_def PAGE_WRITE_ORG_def)
  have "page_set_flags 0x8000 0x9000 3 start_context = page_set_loop (unat ((((0x9000 :: u32) + 4096 - 1) AND TARGET_PAGE_MASK) - (0x8000 AND TARGET_PAGE_MASK)) div 4096) (0x8000 AND TARGET_PAGE_MASK)
      (if (3 :: u64) AND PAGE_WRITE \<noteq> 0 then 3 OR PAGE_WRITE_ORG else 3) start_context"
    by (simp add: page_set_flags_def Let_def)
  then show ?thesis unfolding k f m l .
qed

lemma writable_org:
  assumes "tb_gen_code single_inst_translator 0x8000 0 0 1 writable_context = Inr (t, s)"
  shows "page_get_flags 0x8000 s AND PAGE_WRITE_ORG \<noteq> 0"
proof -
  let ?s1 = "tb_upd 0 (\<lambda>b. b\<lparr>tb_pc := 0x8000, tb_cflags := 0\<rparr>) (writable_context\<lparr>nb_tbs := 1\<rparr>)"
  have a: "tb_alloc 0x8000 writable_context = (Some 0, ?s1)"
    by (simp add: tb_alloc_def writable_context_def start_context_def tcg_exec_init_def code_gen_max_blocks_def)
  have g: "page_get s' (page_of 0x8000) = zero_page\<lparr>page_flags := 0x13\<rparr>" if "l1_map s' = l1_map writable_context" for s'
    using that unfolding page_get_def page_of_def slot_8000 by (simp add: writable_context_def)
  have m: "(0x8000 :: u32) AND TARGET_PAGE_MASK = 0x8000" "((0x8000 :: u32) + ucast (4 :: u16) - 1) AND TARGET_PAGE_MASK = 0x8000" by (simp_all add: TARGET_PAGE_MASK_def)
  define g4 where "g4 = single_inst_translator 0x8000 0 0 1"
  define s5 where "s5 = tb_upd 0 (\<lambda>b. b\<lparr>tc_ptr := code_gen_ptr ?s1, tb_cs_base := 0, tb_flags := 0, tb_cflags := 1,
                  tb_size := g_size g4, tb_next_pc := g_next_pc g4, tb_next_offset := g_next_offset g4,
                  tb_jmp_offset := g_jmp_offset g4, tb_icount := g_icount g4\<rparr>) ?s1"
  define s6 where "s6 = s5\<lparr>code_gen_ptr := (code_gen_ptr s5 + g_code_size g4 + 15) div 16 * 16\<rparr>"
  obtain pgx where s: "s = tb_link_page 0 0x8000 pgx s6"
    using assms unfolding tb_gen_code_def a Let_def by (simp add: s5_def s6_def g4_def) blast
  have s6: "l1_map s6 = l1_map writable_context" "0 < length (tbs s6)"
    by (simp_all add: s6_def s5_def writable_context_def start_context_def tcg_exec_init_def code_gen_max_blocks_def)
  have "page_flags (page_get s (page_of 0x8000)) = 0x13 AND NOT PAGE_WRITE"
    unfolding s tb_link_page_proj(18) [OF s6(2)] m g [OF s6(1)] by simp
  then show ?thesis unfolding page_get_flags_page by (simp add: PAGE_WRITE_def PAGE_WRITE_ORG_def)
qed
theorem tb_operations_return_witness:
  "tb_reachable single_inst_translator writable_context \<and> (\<exists>s'. tb_flush writable_context = Inr s') \<and>
    (\<exists>s'. run_nocache single_inst_translator 0x8000 0 0 1 [] False writable_context = Inr s') \<and>
    run_nocache single_inst_translator 0x8000 0 0 1 [0x8004] False writable_context = Inl NullDeref"
proof -
  have r: "tb_reachable single_inst_translator writable_context"
    by (rule tb_reachable.step [OF start_reachable tb_step.set_flags [OF writable_start]])
  note ops = tb_operations_return [OF r single_inst_fits, where pc = "0x8000" and cs_base = 0 and flags = 0 and n = 1]
  obtain B P where g: "tb_good single_inst_translator writable_context B P" using reachable_inv [OF r single_inst_fits] by (auto simp: tb_inv_def)
  obtain t s1 where t: "tb_gen_code single_inst_translator 0x8000 0 0 1 writable_context = Inr (t, s1)" "tb_inv single_inst_translator s1"
    "t \<in> live_tbs s1" "tb_pc (tbs s1 ! t) = 0x8000"
    using run_nocache_cases [OF g, of "0x8000" 0 0 1 "[]" False] by auto
  obtain B1 P1 where g1: "tb_good single_inst_translator s1 B1 P1" using t(2) by (auto simp: tb_inv_def)
  have a: "\<exists>s'. run_nocache single_inst_translator 0x8000 0 0 1 [] False writable_context = Inr s'"
    using ops [where stores = "[]" and left = False] t(1,3) by simp
  have d: "drop_bit 12 (0x8004 :: u32) = drop_bit 12 0x8000" by code_simp
  have o: "page_get_flags 0x8004 s1 AND PAGE_WRITE_ORG \<noteq> 0" using writable_org [OF t(1)] unfolding page_get_flags_def d .
  have m: "(0x8004 :: u32) AND TARGET_PAGE_MASK = tb_pc (tbs s1 ! t) AND TARGET_PAGE_MASK" unfolding t(4) by code_simp
  let ?n = "run_nocache single_inst_translator 0x8000 0 0 1 [0x8004] False writable_context"
  have "\<exists>s2. run_stores [0x8004] s1 = Inr s2 \<and> (if False \<or> t \<in> live_tbs s2 then \<exists>s'. ?n = Inr s' else ?n = Inl NullDeref)"
    using ops [where stores = "[0x8004]" and left = False] t(1) by simp
  then obtain s2 where s2: "run_stores [0x8004] s1 = Inr s2" "t \<notin> live_tbs s2 \<Longrightarrow> ?n = Inl NullDeref" by (auto split: if_splits)
  have "t \<notin> live_tbs s2" using s2(1) own_page_unprotect [OF g1 t(3) m o] by auto
  then have "?n = Inl NullDeref" by (rule s2(2))
  then show ?thesis using r a ops by blast
qed

text \<open>
  C14. The binary search of \<^verbatim>\<open>tb_find_pc\<close>, which maps an address in the generated code back to its block
  when a host signal arrives, finds what a linear search finds: the last block whose code starts at
  or before the address, and nothing for an address beyond the generated code.
\<close>

theorem tb_find_pc_correct:
  assumes "tb_reachable tr s" "translator_fits tr"
  shows "tb_find_pc tc s = find_pc_spec tc s"
proof -
  obtain B P where g: "tb_good tr s B P" using reachable_inv [OF assms] by (auto simp: tb_inv_def)
  show ?thesis by (rule tb_find_pc_spec [OF tb_goodD(2) [OF g]])
qed

theorem tb_find_pc_correct_witness:
  "\<exists>s. tb_reachable single_inst_translator s \<and> live_tbs s \<noteq> {} \<and> tb_find_pc 8 s = find_pc_spec 8 s"
proof -
  obtain t s where s: "tb_find_fast single_inst_translator 0 0x8000 0 0 start_context = Inr (t, s)" "tb_reachable single_inst_translator s"
    "t \<in> live_tbs s" "tb_size (tbs s ! t) \<noteq> 0" by (rule first_block)
  then show ?thesis using tb_find_pc_correct [OF s(2) single_inst_fits, of 8] by blast
qed

text \<open>
  C15. A flush does not reach the jump cache of a core that is not on the list of processors: the
  prefetch core, whose cache was copied from the main core, goes on finding the block of its
  program counter in it, although the hash table is empty and the code buffer is being reused.
\<close>

theorem unlisted_core_stale:
  assumes "env \<notin> set (cpu_list s)" "tb_jmp_cache s env (tb_jmp_cache_hash_func pc) = Some t"
    "tb_pc (tbs s ! t) = pc" "tb_cs_base (tbs s ! t) = cs_base" "tb_flags (tbs s ! t) = flags" "tb_flush s = Inr s'"
  shows "tb_find_fast tr env pc cs_base flags s' = Inr (t, s') \<and> live_tbs s' = {} \<and> code_gen_ptr s' = 0"
proof -
  note f = tb_flush_Inr [OF assms(6)]
  have "tb_find_fast tr env pc cs_base flags s' = Inr (t, s')"
    using assms(1-5) by (simp add: tb_find_fast_def f clear_caches_def)
  moreover have "live_tbs s' = {}" by (simp add: live_tbs_def f)
  ultimately show ?thesis by (simp add: f)
qed

theorem unlisted_core_stale_witness:
  "let s = (tcg_exec_init [blank_tb] [0])\<lparr>nb_tbs := 1, tb_jmp_cache := (\<lambda>env. if env = 1 then (\<lambda>_. Some 0) else (\<lambda>_. None))\<rparr>
   in \<exists>s'. tb_flush s = Inr s' \<and> tb_find_fast single_inst_translator 1 0 0 0 s' = Inr (0, s') \<and> live_tbs s' = {}"
proof -
  let ?s = "(tcg_exec_init [blank_tb] [0])\<lparr>nb_tbs := 1, tb_jmp_cache := (\<lambda>env. if env = 1 then (\<lambda>_. Some 0) else (\<lambda>_. None))\<rparr>"
  obtain s' where f: "tb_flush ?s = Inr s'" by (simp add: tb_flush_def check_def Let_def tcg_exec_init_def)
  have "tb_find_fast single_inst_translator 1 0 0 0 s' = Inr (0, s') \<and> live_tbs s' = {} \<and> code_gen_ptr s' = 0"
    by (rule unlisted_core_stale [OF _ _ _ _ _ f]) (simp_all add: tcg_exec_init_def blank_tb_def)
  then show ?thesis unfolding Let_def using f by blast
qed

end
