(* ===== verification/CpuExec.thy ===== *)
theory CpuExec
  imports GuestAccess Trace TbInv
begin

text \<open>
  The main loop of \<^verbatim>\<open>cpu-exec.c\<close> with the main core and the prefetch core: the monitors of the
  program counter, creation and destruction of the prefetch core, the skipping of instructions
  that are not in the slice, the prefetch distance and accuracy, the reports to the simulator,
  and the round-robin switch between the two cores. The cores are the two values of \<open>core\<close>; a
  pointer to a core is such a value, and the pointers \<^verbatim>\<open>PCore\<close> and \<^verbatim>\<open>MCore\<close> of \<^verbatim>\<open>CPUState\<close>, which never
  change after \<^verbatim>\<open>linux-user/main.c\<close> has set them, are left out. The model speaks of runs without pending
  interrupts (\<^verbatim>\<open>interrupt_request\<close>, \<^verbatim>\<open>exit_request\<close> and \<^verbatim>\<open>halted\<close> are 0), without an instruction counter
  (\<^verbatim>\<open>use_icount\<close> is 0 in user mode), and of processors without the M profile. The assertions on the
  roles of the cores at the head of the inner loop hold by the invariant of \<open>CoreSwitch\<close>. The generated
  code is a parameter of the loop. A \<^verbatim>\<open>SIGSEGV\<close> of the host in generated code, in a helper it calls or in the
  loop itself is delivered to the main core by \<^verbatim>\<open>handle_cpu_signal\<close>; a fault while instructions are being
  translated is not modelled, since the translator is a parameter that always returns.
\<close>

section \<open>State\<close>

text \<open>
  The architectural state: the registers, the fields that select a translation, the address of the
  last data abort (\<^verbatim>\<open>cp15.c6_data\<close>), and the rest of type \<open>'r\<close> (condition flags, vector and system registers).
\<close>

record 'r arm_arch =
  regs :: "nat \<Rightarrow> u32"
  thumb :: u32
  vec_len :: u32
  vec_stride :: u32
  condexec_bits :: u32
  uncached_cpsr :: u32
  fpexc :: u32
  c6_data :: u32
  arch_rest :: 'r

text \<open>The slices that \<^verbatim>\<open>parse_file_to_pcs\<close> reads, with the sizes of the arrays in \<^verbatim>\<open>target-arm/cpu.h\<close>\<close>

record slices =
  ptrc_pc_idx :: "u32 list"
  ptrc_pc :: "u32 list list"
  stop_pc_idx :: u32
  stop_pc :: "u32 list"
  skip_pc_idx :: "u32 list"
  skip_pc :: "u32 list list"
  sppslice_pc_idx :: u32
  sppslice_pc :: "u32 list"

record 'r CPUState = shadow_env +
  arch :: "'r arm_arch"
  tcnt :: trace_cnt
  fid :: u32
  slice :: slices
  current_stop_pc_idx :: nat
  current_sppslice_pc_idx :: u32
  processor_state :: u32
  InstQuatum :: u32
  prefetchDistance :: int
  maxPrefetchDistance :: int
  exception_index :: int

datatype core = MainCore | PrefetchCore

text \<open>
  What \<^verbatim>\<open>QEMUReader_queue_inst\<close> is called with; the last argument stands for the register numbers,
  register values and branch fields of an expanded trace point, and \<open>None\<close> for zeros.
\<close>

record queued_inst =
  q_insn :: u32
  q_pc :: u32
  q_addr :: u32
  q_data :: u32
  q_fid :: u32
  q_op :: u32
  q_icount :: u32
  q_IsPCore :: u32
  q_xp :: "ExpandedCPUTracePoint option"

text \<open>
  The two cores, the current one (\<^verbatim>\<open>env\<close>), guest memory, the translation cache, the trace buffers
  (both cores point to the same ones, since \<^verbatim>\<open>qemu_cpu_create_pcore\<close> copies the pointers), and the
  globals of the file.
\<close>

record 'r exec_state =
  mcore :: "'r CPUState"
  pcore :: "'r CPUState"
  cur :: core
  mem :: host_mem
  pf :: prefetch_buf
  cache :: tb_context
  tbuf :: trace_buf
  total_cnt :: u64
  prefetchAccuracy :: int
  confidence :: int
  sppsliceAllowed :: bool
  has_sppslice :: bool
  max_sbytes_size :: u32
  esesc_allow_large_tb :: "nat \<Rightarrow> u32"
  esesc_single_inst_tb :: "nat \<Rightarrow> u32"
  queue :: "queued_inst list"

definition PRE_TRACE :: u32 where "PRE_TRACE = 0"
definition IN_TRACE :: u32 where "IN_TRACE = 1"
definition ROUNDROBIN_EXECUTION_SLICE :: u32 where "ROUNDROBIN_EXECUTION_SLICE = 1"

definition IS_INTRACE :: "'r CPUState \<Rightarrow> bool" where
  "IS_INTRACE env \<longleftrightarrow> processor_state env = IN_TRACE"

definition IS_PRETRACE :: "'r CPUState \<Rightarrow> bool" where
  "IS_PRETRACE env \<longleftrightarrow> processor_state env = PRE_TRACE"

definition GET_PC :: "'r CPUState \<Rightarrow> u32" where
  "GET_PC env = regs (arch env) 15"

definition SET_PC :: "u32 \<Rightarrow> 'r CPUState \<Rightarrow> 'r CPUState" where
  "SET_PC x env = env\<lparr>arch := (arch env)\<lparr>regs := (regs (arch env))(15 := x)\<rparr>\<rparr>"

definition cur_env :: "'r exec_state \<Rightarrow> 'r CPUState" where
  "cur_env st = (case cur st of MainCore \<Rightarrow> mcore st | PrefetchCore \<Rightarrow> pcore st)"

definition upd_env :: "('r CPUState \<Rightarrow> 'r CPUState) \<Rightarrow> 'r exec_state \<Rightarrow> 'r exec_state" where
  "upd_env f st = (case cur st of MainCore \<Rightarrow> st\<lparr>mcore := f (mcore st)\<rparr> | PrefetchCore \<Rightarrow> st\<lparr>pcore := f (pcore st)\<rparr>)"

fun env_id :: "core \<Rightarrow> nat" where
  "env_id MainCore = 0"
| "env_id PrefetchCore = 1"

section \<open>Modes\<close>

definition esesc_set_rabbit :: "nat \<Rightarrow> 'r exec_state \<Rightarrow> 'r exec_state" where
  "esesc_set_rabbit f st =
     (if esesc_allow_large_tb st f = 1 \<and> esesc_single_inst_tb st f = 0 then st
      else st\<lparr>esesc_allow_large_tb := (esesc_allow_large_tb st)(f := 1),
              esesc_single_inst_tb := (esesc_single_inst_tb st)(f := 0)\<rparr>)"

definition esesc_set_warmup :: "nat \<Rightarrow> 'r exec_state \<Rightarrow> 'r exec_state" where
  "esesc_set_warmup f st =
     (if esesc_allow_large_tb st f = 0 \<and> esesc_single_inst_tb st f = 0 then st
      else st\<lparr>esesc_allow_large_tb := (esesc_allow_large_tb st)(f := 0),
              esesc_single_inst_tb := (esesc_single_inst_tb st)(f := 0)\<rparr>)"

definition esesc_set_timing :: "nat \<Rightarrow> 'r exec_state \<Rightarrow> 'r exec_state" where
  "esesc_set_timing f st =
     (if esesc_allow_large_tb st f = 0 \<and> esesc_single_inst_tb st f = 1 then st
      else st\<lparr>esesc_allow_large_tb := (esesc_allow_large_tb st)(f := 0),
              esesc_single_inst_tb := (esesc_single_inst_tb st)(f := 1)\<rparr>)"

section \<open>Lookup of the next block\<close>

definition cpu_get_tb_cpu_state :: "'r arm_arch \<Rightarrow> u32 \<times> u32 \<times> u64" where
  "cpu_get_tb_cpu_state a =
     (let flags = thumb a OR push_bit 1 (vec_len a) OR push_bit 4 (vec_stride a) OR push_bit 8 (condexec_bits a);
          flags = (if uncached_cpsr a AND 0x1f \<noteq> 0x10 then flags OR push_bit 6 1 else flags);
          flags = (if fpexc a AND push_bit 30 1 \<noteq> 0 then flags OR push_bit 7 1 else flags)
      in (regs a 15, 0, scast flags))"

definition find_tb :: "translator \<Rightarrow> 'r exec_state \<Rightarrow> (nat \<times> 'r exec_state) result" where
  "find_tb tr st =
     (case cpu_get_tb_cpu_state (arch (cur_env st)) of (pc, cs_base, flags) \<Rightarrow>
        res_bind (tb_find_fast tr (env_id (cur st)) pc cs_base flags (cache st)) (\<lambda>(t, c).
          Inr (t, st\<lparr>cache := c\<rparr>)))"

section \<open>Monitors\<close>

definition qemu_entry_pc_monitor :: "'r CPUState \<Rightarrow> bool result" where
  "qemu_entry_pc_monitor env =
     (let n = unat (stop_pc_idx (slice env))
      in check (n \<le> length (stop_pc (slice env))) OutOfBounds
           (Inr (GET_PC env \<in> set (take n (stop_pc (slice env))))))"

definition qemu_stop_pc_monitor :: "'r CPUState \<Rightarrow> bool result" where
  "qemu_stop_pc_monitor env =
     check (current_stop_pc_idx env < length (stop_pc (slice env))) OutOfBounds
       (Inr (GET_PC env = stop_pc (slice env) ! current_stop_pc_idx env))"

text \<open>Is the program counter among the first \<^verbatim>\<open>idx[k]\<close> entries of row \<^verbatim>\<open>k\<close>?\<close>

definition pc_in_row :: "u32 list \<Rightarrow> u32 list list \<Rightarrow> nat \<Rightarrow> u32 \<Rightarrow> bool result" where
  "pc_in_row idx rows k pc =
     check (k < length idx \<and> k < length rows \<and> unat (idx ! k) \<le> length (rows ! k)) OutOfBounds
       (Inr (pc \<in> set (take (unat (idx ! k)) (rows ! k))))"

definition qemu_exit_pc_monitor :: "'r CPUState \<Rightarrow> bool result" where
  "qemu_exit_pc_monitor env =
     res_bind (pc_in_row (ptrc_pc_idx (slice env)) (ptrc_pc (slice env)) (current_stop_pc_idx env) (GET_PC env))
       (\<lambda>found. Inr (\<not> found))"

definition qemu_skip_pc_monitor :: "translator \<Rightarrow> nat \<Rightarrow> 'r exec_state \<Rightarrow> (nat \<times> 'r exec_state) result" where
  "qemu_skip_pc_monitor tr t st =
     (let env = cur_env st
      in check (ISPCORE env) AssertFail
         (res_bind (pc_in_row (skip_pc_idx (slice env)) (skip_pc (slice env)) (current_stop_pc_idx env) (GET_PC env)) (\<lambda>found.
          if found then find_tb tr (upd_env (SET_PC (tb_next_pc (tbs (cache st) ! t))) st) else Inr (t, st))))"

definition qemu_next_pc_sppslice :: "translator \<Rightarrow> nat \<Rightarrow> 'r exec_state \<Rightarrow> (nat \<times> 'r exec_state) result" where
  "qemu_next_pc_sppslice tr t st =
     (let env = cur_env st;
          i = (if current_sppslice_pc_idx env = sppslice_pc_idx (slice env) - 1 then 0 else current_sppslice_pc_idx env + 1);
          st1 = upd_env (\<lambda>e. e\<lparr>current_sppslice_pc_idx := i\<rparr>) st
      in check (ISPCORE env) AssertFail
         (check (unat i < length (sppslice_pc (slice env))) OutOfBounds
           (if GET_PC env = sppslice_pc (slice env) ! unat i then Inr (t, st1)
            else find_tb tr (upd_env (SET_PC (sppslice_pc (slice env) ! unat i)) st1))))"

section \<open>The prefetch core\<close>

fun find_stop_idx :: "u32 \<Rightarrow> u32 list \<Rightarrow> nat \<Rightarrow> nat \<Rightarrow> nat option result" where
  "find_stop_idx pc stops i 0 = Inr None"
| "find_stop_idx pc stops i (Suc k) =
     check (i < length stops) OutOfBounds
       (if pc = stops ! i then Inr (Some i) else find_stop_idx pc stops (Suc i) k)"

definition qemu_cpu_create_pcore :: "'r exec_state \<Rightarrow> 'r exec_state result" where
  "qemu_cpu_create_pcore st =
     check (\<not> ISPCORE (mcore st)) AssertFail
     (check (ISPCORE (pcore st)) AssertFail
       (let p = (mcore st)\<lparr>IsPCore := 1, sbytes_size := 0, processor_state := IN_TRACE, prefetchDistance := 0\<rparr>;
            st1 = st\<lparr>pcore := p, mcore := (mcore st)\<lparr>maxPrefetchDistance := 0\<rparr>,
                     cache := (cache st)\<lparr>tb_jmp_cache := (tb_jmp_cache (cache st))(1 := tb_jmp_cache (cache st) 0)\<rparr>,
                     prefetchAccuracy := uint (runAheadThreshold (pf st) div 2)\<rparr>
        in res_bind (find_stop_idx (GET_PC (mcore st)) (stop_pc (slice (mcore st))) 0 (unat (stop_pc_idx (slice (mcore st))))) (\<lambda>found.
           Inr (case found of None \<Rightarrow> st1
                | Some i \<Rightarrow> st1\<lparr>mcore := (mcore st1)\<lparr>current_stop_pc_idx := i\<rparr>, pcore := (pcore st1)\<lparr>current_stop_pc_idx := i\<rparr>\<rparr>))))"

definition qemu_cpu_destroy_pcore :: "'r exec_state \<Rightarrow> 'r exec_state result" where
  "qemu_cpu_destroy_pcore st =
     check (ISPCORE (cur_env st)) AssertFail
       (Inr (upd_env (\<lambda>e. e\<lparr>processor_state := PRE_TRACE, sbytes := (\<lambda>_. [])\<rparr>) st))"

text \<open>\<^verbatim>\<open>load_main_core\<close>\<close>

definition load_main_core :: "'r exec_state \<Rightarrow> 'r exec_state" where
  "load_main_core st = st\<lparr>cur := MainCore, mcore := (mcore st)\<lparr>InstQuatum := ROUNDROBIN_EXECUTION_SLICE\<rparr>\<rparr>"

section \<open>Faults of the host\<close>

definition EXCP_DATA_ABORT :: int where "EXCP_DATA_ABORT = 4"

text \<open>\<^verbatim>\<open>handle_cpu_signal\<close> never passes 2 (an instruction fetch) as \<^verbatim>\<open>rw\<close>.\<close>

definition cpu_arm_handle_mmu_fault :: "u64 \<Rightarrow> 'r CPUState \<Rightarrow> 'r CPUState" where
  "cpu_arm_handle_mmu_fault address env =
     env\<lparr>exception_index := EXCP_DATA_ABORT, arch := (arch env)\<lparr>c6_data := ucast address\<rparr>\<rparr>"

text \<open>What \<^verbatim>\<open>gen_opc_pc\<close> and \<^verbatim>\<open>gen_opc_condexec_bits\<close> hold for the operation that faulted\<close>

definition restore_state_to_opc :: "u32 \<times> u32 \<Rightarrow> 'r arm_arch \<Rightarrow> 'r arm_arch" where
  "restore_state_to_opc opc a = a\<lparr>regs := (regs a)(15 := fst opc), condexec_bits := snd opc\<rparr>"

text \<open>
  \<^verbatim>\<open>handle_cpu_signal\<close> on \<^verbatim>\<open>cpu_single_env\<close>, for a read, or for a write that \<^verbatim>\<open>page_unprotect\<close> did not
  permit (one that it permits is repeated, and is not seen here). The second argument is \<open>None\<close> when \<^verbatim>\<open>tb_find_pc\<close>
  finds no block for the host program counter, which is the case in C code. The handler ends in
  \<^verbatim>\<open>cpu_loop_exit\<close>.
\<close>

definition handle_cpu_signal :: "u64 \<Rightarrow> (u32 \<times> u32) option \<Rightarrow> 'r CPUState \<Rightarrow> 'r CPUState" where
  "handle_cpu_signal address opc env =
     (let env1 = cpu_arm_handle_mmu_fault address env
      in case opc of None \<Rightarrow> env1 | Some r \<Rightarrow> env1\<lparr>arch := restore_state_to_opc r (arch env1)\<rparr>)"

text \<open>\<^verbatim>\<open>cpu_single_env\<close> is set at the start of \<^verbatim>\<open>cpu_exec\<close> only: it is the main core, whichever core runs.\<close>

definition deliver_segv :: "u64 \<Rightarrow> (u32 \<times> u32) option \<Rightarrow> 'r exec_state \<Rightarrow> 'r exec_state" where
  "deliver_segv address opc st = st\<lparr>mcore := handle_cpu_signal address opc (mcore st)\<rparr>"

section \<open>Accuracy\<close>

text \<open>The buffer has \<^verbatim>\<open>runAheadThreshold\<close> entries; \<open>quot\<close> is the division of C.\<close>

definition quot2 :: "int \<Rightarrow> int" where
  "quot2 x = (if x < 0 then - (- x div 2) else x div 2)"

definition findAddressInPrefetchBuffer :: "u32 \<Rightarrow> int \<Rightarrow> prefetch_buf \<Rightarrow> int result" where
  "findAddressInPrefetchBuffer laddr currentAccuracy b =
     check (unat (runAheadThreshold b) \<le> length (prefetch_address b)) OutOfBounds
       (Inr (if laddr \<in> set (take (unat (runAheadThreshold b)) (prefetch_address b)) then quot2 currentAccuracy else - 1))"

text \<open>The comparison with the unsigned threshold converts the accuracy to \<^verbatim>\<open>unsigned int\<close>.\<close>

definition update_accuracy :: "u32 \<Rightarrow> 'r exec_state \<Rightarrow> 'r exec_state result" where
  "update_accuracy laddr st =
     res_bind (findAddressInPrefetchBuffer laddr (prefetchAccuracy st) (pf st)) (\<lambda>d.
       let a = prefetchAccuracy st + d; limit = runAheadThreshold (pf st)
       in Inr (st\<lparr>prefetchAccuracy := (if (of_int a :: u32) > limit then sint limit else a)\<rparr>))"

section \<open>Reports\<close>

definition check_prefetched :: "ExpandedCPUTracePoint \<Rightarrow> 'r exec_state \<Rightarrow> 'r exec_state result" where
  "check_prefetched xp st =
     (if has_sppslice st
      then check (sppslice_pc (slice (cur_env st)) \<noteq> []) OutOfBounds
           (if xp_pc xp = sppslice_pc (slice (cur_env st)) ! 0
            then if ISPCORE (cur_env st)
                 then res_bind (prefetch_insert (xp_memadd xp) (pf st)) (\<lambda>b. Inr (st\<lparr>pf := b\<rparr>))
                 else update_accuracy (xp_memadd xp) st
            else Inr st)
      else Inr st)"

definition ldl_code :: "host_mem \<Rightarrow> u32 \<Rightarrow> host_read" where
  "ldl_code m a = host_ld 2 m (ucast a)"

definition queue_xp :: "u32 \<Rightarrow> ExpandedCPUTracePoint \<Rightarrow> 'r CPUState \<Rightarrow> queued_inst" where
  "queue_xp insn xp env =
     \<lparr>q_insn = insn, q_pc = xp_pc xp, q_addr = xp_memadd xp, q_data = xp_memval xp, q_fid = fid env,
      q_op = xp_opcode xp, q_icount = 1, q_IsPCore = IsPCore env, q_xp = Some xp\<rparr>"

text \<open>The flag says that the loop was left by a fault of the host.\<close>

fun report_loop :: "bool \<Rightarrow> nat \<Rightarrow> nat \<Rightarrow> 'r exec_state \<Rightarrow> (bool \<times> 'r exec_state) result" where
  "report_loop timing i 0 st = Inr (False, st)"
| "report_loop timing i (Suc k) st =
     check (i < length (xtrace_xp_op_tp (tbuf st))) OutOfBounds
       (let xp = xtrace_xp_op_tp (tbuf st) ! i
        in res_bind (check_prefetched xp st) (\<lambda>st1.
           case (if timing then ldl_code (mem st1) (xp_pc xp) else Loaded 0xdeadbeaf) of
             Segv a \<Rightarrow> Inr (True, deliver_segv a None st1)
           | Loaded w \<Rightarrow>
               report_loop timing (Suc i) k (st1\<lparr>queue := queue st1 @ [queue_xp (ucast w) xp (cur_env st1)]\<rparr>)))"

definition report :: "nat \<Rightarrow> 'r exec_state \<Rightarrow> (bool \<times> 'r exec_state) result" where
  "report t st =
     (let env = cur_env st; f = unat (fid env); n = unat (op_cnt (tcnt env))
      in if esesc_allow_large_tb st f \<noteq> 0
         then let ninst = (if n = 0 then unat (tb_icount (tbs (cache st) ! t)) else n)
              in check (0 < ninst \<and> ninst \<le> length (op_pc (tbuf st)) \<and> ninst \<le> length (op_insn (tbuf st))) OutOfBounds
                 (Inr (False, st\<lparr>queue := queue st @
                    [\<lparr>q_insn = 0xdeaddead, q_pc = op_pc (tbuf st) ! (ninst - 1), q_addr = 0, q_data = 0, q_fid = fid env,
                      q_op = op_insn (tbuf st) ! (ninst - 1), q_icount = of_nat ninst, q_IsPCore = IsPCore env, q_xp = None\<rparr>]\<rparr>))
         else report_loop (esesc_single_inst_tb st f \<noteq> 0) 0 n st)"

text \<open>From the return of the generated code to the end of the ESESC block\<close>

definition trace_and_report :: "nat \<Rightarrow> 'r exec_state \<Rightarrow> (bool \<times> 'r exec_state) result" where
  "trace_and_report t st =
     res_bind (xtrm_trace_sanity_check (tcnt (cur_env st)) (tbuf st) (total_cnt st)) (\<lambda>c.
     res_bind (xtrm_trace_expand (tcnt (cur_env st)) (tbuf st)) (\<lambda>(tc, tb).
     res_bind (report t (upd_env (\<lambda>e. e\<lparr>tcnt := tc\<rparr>) (st\<lparr>tbuf := tb, total_cnt := c\<rparr>))) (\<lambda>(left, st1).
     if left then Inr (True, st1)
     else
     res_bind (xtrace_reset_trace_points (tcnt (cur_env st1)) (tbuf st1)) (\<lambda>(tc, tb).
       Inr (False, upd_env (\<lambda>e. e\<lparr>tcnt := tc\<lparr>op_cnt := 0, xtrace_op_cnt := 0\<rparr>\<rparr>) (st1\<lparr>tbuf := tb\<rparr>))))))"

section \<open>One iteration\<close>

text \<open>How the code of a block is left: it returns, through \<^verbatim>\<open>cpu_loop_exit\<close>, or by a fault of the host.\<close>

datatype leaving = Returned | LoopExit | HostSegv u64 "(u32 \<times> u32) option"

text \<open>
  What running the code of a block does to the current core, the trace buffers, guest memory and
  the buffer of prefetched addresses.
\<close>

type_synonym 'r tb_exec =
  "TranslationBlock \<Rightarrow> 'r CPUState \<Rightarrow> trace_buf \<Rightarrow> host_mem \<Rightarrow> prefetch_buf \<Rightarrow>
   (leaving \<times> 'r CPUState \<times> trace_buf \<times> host_mem \<times> prefetch_buf) result"

text \<open>The monitor for the entry\<close>

definition enter_trace :: "'r exec_state \<Rightarrow> 'r exec_state result" where
  "enter_trace st =
     (if \<not> ISPCORE (cur_env st) \<and> IS_PRETRACE (cur_env st)
      then res_bind (qemu_entry_pc_monitor (cur_env st)) (\<lambda>hit.
           if hit \<and> prefetchDistance (pcore st) \<le> 0 \<and> (\<not> has_sppslice st \<or> has_sppslice st \<and> sppsliceAllowed st)
           then res_bind (qemu_cpu_create_pcore st) (\<lambda>st1. Inr (upd_env (\<lambda>e. e\<lparr>processor_state := IN_TRACE\<rparr>) st1))
           else Inr st)
      else Inr st)"

text \<open>The monitor for the exit; the flag says that control goes to \<^verbatim>\<open>load_main_core\<close>.\<close>

definition leave_trace :: "'r exec_state \<Rightarrow> (bool \<times> 'r exec_state) result" where
  "leave_trace st =
     (let env = cur_env st
      in if ISPCORE env \<and> \<not> has_sppslice st \<and> IS_INTRACE env
         then res_bind (qemu_exit_pc_monitor env) (\<lambda>exit.
              if exit
              then let st1 = upd_env (\<lambda>e. e\<lparr>processor_state := PRE_TRACE, InstQuatum := 0\<rparr>) st;
                       st2 = st1\<lparr>mcore := (mcore st1)\<lparr>processor_state := PRE_TRACE\<rparr>,
                                 max_sbytes_size := (if max_sbytes_size st1 < sbytes_size env then sbytes_size env else max_sbytes_size st1)\<rparr>
                   in res_bind (qemu_cpu_destroy_pcore st2) (\<lambda>st3. Inr (True, load_main_core st3))
              else Inr (False, st))
         else if ISPCORE env \<and> has_sppslice st \<and> IS_INTRACE env \<and> prefetchAccuracy st \<le> 0
         then let st1 = st\<lparr>confidence := confidence st - 1\<rparr>;
                  st2 = (if confidence st1 = 0 then st1\<lparr>sppsliceAllowed := False\<rparr> else st1);
                  st3 = upd_env (\<lambda>e. e\<lparr>processor_state := PRE_TRACE, InstQuatum := 0, prefetchDistance := 0\<rparr>) st2;
                  st4 = st3\<lparr>mcore := (mcore st3)\<lparr>processor_state := PRE_TRACE\<rparr>\<rparr>
              in res_bind (qemu_cpu_destroy_pcore st4) (\<lambda>st5. Inr (True, load_main_core st5))
         else Inr (False, st))"

fun skip_loop :: "nat \<Rightarrow> translator \<Rightarrow> nat \<Rightarrow> 'r exec_state \<Rightarrow> (nat \<times> 'r exec_state) result" where
  "skip_loop 0 tr t st = Inl OutOfFuel"
| "skip_loop (Suc n) tr t st =
     (if ISPCORE (cur_env st) \<and> IS_INTRACE (cur_env st) \<and> \<not> has_sppslice st
      then res_bind (qemu_skip_pc_monitor tr t st) (\<lambda>(new_tb, st1).
           if new_tb = t then Inr (t, st1) else skip_loop n tr new_tb st1)
      else Inr (t, st))"

definition spp_next :: "translator \<Rightarrow> nat \<Rightarrow> 'r exec_state \<Rightarrow> (nat \<times> 'r exec_state) result" where
  "spp_next tr t st =
     (if ISPCORE (cur_env st) \<and> IS_INTRACE (cur_env st) \<and> has_sppslice st then qemu_next_pc_sppslice tr t st else Inr (t, st))"

definition track_distance :: "'r exec_state \<Rightarrow> 'r exec_state result" where
  "track_distance st =
     (let env = cur_env st
      in if ISPCORE env
         then if IS_INTRACE env
              then res_bind (qemu_stop_pc_monitor env) (\<lambda>hit.
                   if hit
                   then let st1 = upd_env (\<lambda>e. e\<lparr>prefetchDistance := prefetchDistance e + 1\<rparr>) st
                        in Inr (if maxPrefetchDistance (mcore st1) < prefetchDistance (cur_env st1)
                                then st1\<lparr>mcore := (mcore st1)\<lparr>maxPrefetchDistance := prefetchDistance (cur_env st1)\<rparr>\<rparr> else st1)
                   else Inr st)
              else Inr st
         else res_bind (qemu_stop_pc_monitor env) (\<lambda>hit.
              Inr (if hit then st\<lparr>pcore := (pcore st)\<lparr>prefetchDistance := prefetchDistance (pcore st) - 1\<rparr>\<rparr> else st)))"

text \<open>The switch between the cores at the end of the loop\<close>

definition switch_core :: "'r exec_state \<Rightarrow> 'r exec_state" where
  "switch_core st =
     (if IS_INTRACE (cur_env st) \<and> InstQuatum (cur_env st) = 0
      then let st1 = (if ISPCORE (cur_env st) then st\<lparr>cur := MainCore\<rparr>
                      else if prefetchDistance (pcore st) < uint (runAheadThreshold (pf st)) then st\<lparr>cur := PrefetchCore\<rparr> else st)
           in upd_env (\<lambda>e. e\<lparr>InstQuatum := ROUNDROBIN_EXECUTION_SLICE\<rparr>) st1
      else st)"

definition run_tb :: "'r tb_exec \<Rightarrow> nat \<Rightarrow> 'r exec_state \<Rightarrow> (bool \<times> 'r exec_state) result" where
  "run_tb tb_exec t st =
     res_bind (tb_exec (tbs (cache st) ! t) (cur_env st) (tbuf st) (mem st) (pf st)) (\<lambda>(l, env, tb, m, p).
       let st1 = upd_env (\<lambda>_. env) (st\<lparr>tbuf := tb, mem := m, pf := p\<rparr>)
       in Inr (case l of Returned \<Rightarrow> (False, st1) | LoopExit \<Rightarrow> (True, st1) | HostSegv a opc \<Rightarrow> (True, deliver_segv a opc st1)))"

definition finish_tb :: "nat \<Rightarrow> 'r exec_state \<Rightarrow> (bool \<times> 'r exec_state) result" where
  "finish_tb t st =
     (let st1 = (if IS_INTRACE (cur_env st) then upd_env (\<lambda>e. e\<lparr>InstQuatum := InstQuatum e - 1\<rparr>) st else st)
      in res_bind (trace_and_report t st1) (\<lambda>(left, st2). Inr (left, if left then st2 else switch_core st2)))"

definition run_next :: "translator \<Rightarrow> 'r tb_exec \<Rightarrow> nat \<Rightarrow> nat \<Rightarrow> 'r exec_state \<Rightarrow> (bool \<times> 'r exec_state) result" where
  "run_next tr tb_exec fuel t st =
     res_bind (skip_loop fuel tr t st) (\<lambda>(t, st1).
     res_bind (spp_next tr t st1) (\<lambda>(t, st2).
     res_bind (track_distance st2) (\<lambda>st3.
     res_bind (run_tb tb_exec t st3) (\<lambda>(left, st4).
       if left then Inr (True, st4) else finish_tb t st4))))"

text \<open>
  The flag of an iteration says that it was left by \<^verbatim>\<open>longjmp\<close>. The iteration has no result when the
  search for the next block of the slice does not end within the fuel.
\<close>

definition exec_iteration :: "translator \<Rightarrow> 'r tb_exec \<Rightarrow> nat \<Rightarrow> 'r exec_state \<Rightarrow> (bool \<times> 'r exec_state) result" where
  "exec_iteration tr tb_exec fuel st =
     res_bind (find_tb tr st) (\<lambda>(t, st1).
     res_bind (enter_trace st1) (\<lambda>st2.
     res_bind (leave_trace st2) (\<lambda>(left, st3).
       if left then Inr (False, st3) else run_next tr tb_exec fuel t st3)))"

text \<open>
  The start of \<^verbatim>\<open>cpu_exec\<close>, called on the main core when the slice files have been read (theory
  \<open>Program\<close> has the first call). After \<^verbatim>\<open>cpu_loop_exit\<close> the loop continues on the
  main core (\<^verbatim>\<open>cpu_single_env\<close>); it returns when that core has an exception pending.
\<close>

definition cpu_exec_entry :: "'r exec_state \<Rightarrow> 'r exec_state" where
  "cpu_exec_entry st =
     st\<lparr>cur := MainCore,
        mcore := (mcore st)\<lparr>InstQuatum := ROUNDROBIN_EXECUTION_SLICE, exception_index := - 1,
          tcnt := (tcnt (mcore st))\<lparr>op_cnt := 0, xtrace_op_cnt := 0\<rparr>\<rparr>,
        prefetchAccuracy := uint (runAheadThreshold (pf st) div 2)\<rparr>"

text \<open>
  Steps of the loop: an iteration, an iteration left by an exception on the prefetch core, and a
  return of \<^verbatim>\<open>cpu_exec\<close> with an exception pending on the main core, after which \<^verbatim>\<open>cpu_loop\<close> changes the registers
  and memory of the guest (a system call, a signal) and calls \<^verbatim>\<open>cpu_exec\<close> again.
\<close>

inductive exec_step :: "translator \<Rightarrow> 'r tb_exec \<Rightarrow> nat \<Rightarrow> 'r exec_state \<Rightarrow> 'r exec_state \<Rightarrow> bool" for tr tb_exec fuel where
  iterate: "exec_iteration tr tb_exec fuel st = Inr (False, st') \<Longrightarrow> exec_step tr tb_exec fuel st st'"
| stay: "exec_iteration tr tb_exec fuel st = Inr (True, st') \<Longrightarrow> exception_index (mcore st') < 0 \<Longrightarrow>
    exec_step tr tb_exec fuel st (st'\<lparr>cur := MainCore\<rparr>)"

inductive return_step :: "translator \<Rightarrow> 'r tb_exec \<Rightarrow> nat \<Rightarrow> 'r exec_state \<Rightarrow> 'r exec_state \<Rightarrow> bool" for tr tb_exec fuel where
  return: "exec_iteration tr tb_exec fuel st = Inr (True, st') \<Longrightarrow> 0 \<le> exception_index (mcore st') \<Longrightarrow>
    return_step tr tb_exec fuel st (cpu_exec_entry (st'\<lparr>cur := MainCore, mcore := (mcore st')\<lparr>arch := a\<rparr>, mem := m\<rparr>))"

section \<open>Generated code\<close>

text \<open>
  The code of a block as a sequence of operations on the architectural state, with loads and
  stores in the form that \<^verbatim>\<open>tcg_out_qemu_ld\<close> and \<^verbatim>\<open>tcg_out_qemu_st\<close> emit, writes to the trace buffers,
  forward jumps and exceptions. A load or store carries the program counter and IT bits that the block
  recorded for its instruction. The load of the prefetch core faults in \<^verbatim>\<open>fetch_translated_linear\<close>,
  which is C code; its stores go to the shadow buffer and do not fault.
\<close>

datatype 'r micro =
    Compute "'r arm_arch \<Rightarrow> 'r arm_arch"
  | Load "u32 \<times> u32" nat "'r arm_arch \<Rightarrow> u64" "u64 \<Rightarrow> 'r arm_arch \<Rightarrow> 'r arm_arch"
  | Store "u32 \<times> u32" nat "'r arm_arch \<Rightarrow> u64" "'r arm_arch \<Rightarrow> u64"
  | Record "'r arm_arch \<Rightarrow> trace_cnt \<Rightarrow> trace_buf \<Rightarrow> trace_cnt \<times> trace_buf"
  | Jump "'r arm_arch \<Rightarrow> bool" nat
  | Raise int

function run_micros :: "'r micro list \<Rightarrow> 'r CPUState \<Rightarrow> trace_buf \<Rightarrow> host_mem \<Rightarrow> prefetch_buf \<Rightarrow>
    (leaving \<times> 'r CPUState \<times> trace_buf \<times> host_mem \<times> prefetch_buf) result" where
  "run_micros [] env tb m p = Inr (Returned, env, tb, m, p)"
| "run_micros (Compute f # ms) env tb m p = run_micros ms (env\<lparr>arch := f (arch env)\<rparr>) tb m p"
| "run_micros (Load opc sizeop addr f # ms) env tb m p =
     res_bind (qemu_ld_direct sizeop (addr (arch env)) 0 env m p) (\<lambda>(r, env1, p1).
       case r of
         Segv a \<Rightarrow> Inr (HostSegv a (if ISPCORE env then None else Some opc), env1, tb, m, p1)
       | Loaded v \<Rightarrow> run_micros ms (env1\<lparr>arch := f v (arch env1)\<rparr>) tb m p1)"
| "run_micros (Store opc sizeop addr data # ms) env tb m p =
     res_bind (qemu_st_direct sizeop (data (arch env)) 0 (addr (arch env)) 0 env m) (\<lambda>(segv, env1, m1).
       case segv of
         Some a \<Rightarrow> Inr (HostSegv a (Some opc), env1, tb, m1, p)
       | None \<Rightarrow> run_micros ms env1 tb m1 p)"
| "run_micros (Record f # ms) env tb m p =
     (case f (arch env) (tcnt env) tb of (tc, tb1) \<Rightarrow> run_micros ms (env\<lparr>tcnt := tc\<rparr>) tb1 m p)"
| "run_micros (Jump c k # ms) env tb m p = run_micros (if c (arch env) then drop k ms else ms) env tb m p"
| "run_micros (Raise n # ms) env tb m p = Inr (LoopExit, env\<lparr>exception_index := n\<rparr>, tb, m, p)"
  by pat_completeness auto
termination
  by (relation "measure (\<lambda>(ms, env, tb, m, p). length ms)") auto

text \<open>The same code on a machine that is only an ARM processor with its memory\<close>

function plain_micros :: "'r micro list \<Rightarrow> 'r arm_arch \<Rightarrow> host_mem \<Rightarrow> (leaving \<times> 'r arm_arch \<times> host_mem) result" where
  "plain_micros [] a m = Inr (Returned, a, m)"
| "plain_micros (Compute f # ms) a m = plain_micros ms (f a) m"
| "plain_micros (Load opc sizeop addr f # ms) a m =
     (if sizeop \<notin> {0, 1, 2, 3, 4, 5, 6} then Inl AbortCall
      else case host_ld sizeop m (addr a) of
        Segv x \<Rightarrow> Inr (HostSegv x (Some opc), a, m)
      | Loaded v \<Rightarrow> plain_micros ms (f v a) m)"
| "plain_micros (Store opc sizeop addr data # ms) a m =
     (if sizeop \<notin> {0, 1, 2, 3} then Inl AbortCall
      else case host_segv (writable m) (addr a) (2 ^ sizeop) of
        Some x \<Rightarrow> Inr (HostSegv x (Some opc), a, m)
      | None \<Rightarrow> plain_micros ms a (host_store m (addr a) (le_bytes (2 ^ sizeop) (data a))))"
| "plain_micros (Record f # ms) a m = plain_micros ms a m"
| "plain_micros (Jump c k # ms) a m = plain_micros (if c a then drop k ms else ms) a m"
| "plain_micros (Raise n # ms) a m = Inr (LoopExit, a, m)"
  by pat_completeness auto
termination
  by (relation "measure (\<lambda>(ms, a, m). length ms)") auto

definition run_code :: "(TranslationBlock \<Rightarrow> 'r micro list) \<Rightarrow> 'r tb_exec" where
  "run_code code b = run_micros (code b)"

end
