(* ===== verification/CoreSwitch.thy ===== *)
theory CoreSwitch
  imports CpuExec
begin

text \<open>
  How far the two cores disturb each other's guest: laws of the generated code as a locale, what each
  part of an iteration keeps, and the invariant of the pair of cores. The properties are that the
  main core runs exactly as a processor without a prefetch core would until \<^verbatim>\<open>cpu_exec\<close> returns, what a single
  iteration can do (a fault of the host on the prefetch core is delivered to the main core), and what an
  exception on the prefetch core does to the schedule.
\<close>

declare One_nat_def [simp del]

section \<open>What the parts of an iteration keep\<close>

definition cache_inv :: "translator \<Rightarrow> tb_context \<Rightarrow> bool" where
  "cache_inv tr c \<longleftrightarrow> tb_inv tr c \<and> cpu_list c = [0]"

definition mctl :: "'r CPUState \<Rightarrow> 'r arm_arch \<times> u32 \<times> u32 \<times> u32 \<times> int" where
  "mctl e = (arch e, IsPCore e, processor_state e, InstQuatum e, exception_index e)"

definition pctl :: "'r CPUState \<Rightarrow> u32 \<times> u32 \<times> u32" where
  "pctl e = (IsPCore e, processor_state e, InstQuatum e)"

text \<open>
  Everything but the registers of the prefetch core, counters and traces is kept, and the cache
  stays in order.
\<close>

definition keeps :: "translator \<Rightarrow> 'r exec_state \<Rightarrow> 'r exec_state \<Rightarrow> bool" where
  "keeps tr st st' \<longleftrightarrow> mctl (mcore st') = mctl (mcore st) \<and> pctl (pcore st') = pctl (pcore st) \<and> mem st' = mem st \<and>
     cur st' = cur st \<and> (cache_inv tr (cache st) \<longrightarrow> cache_inv tr (cache st'))"

lemma keeps_refl [simp]: "keeps tr st st"
  by (simp add: keeps_def)

lemma keeps_trans: "keeps tr st st1 \<Longrightarrow> keeps tr st1 st2 \<Longrightarrow> keeps tr st st2"
  by (simp add: keeps_def)

lemma keepsD:
  assumes "keeps tr st st'"
  shows "arch (mcore st') = arch (mcore st)" "IsPCore (mcore st') = IsPCore (mcore st)"
    "processor_state (mcore st') = processor_state (mcore st)" "InstQuatum (mcore st') = InstQuatum (mcore st)"
    "exception_index (mcore st') = exception_index (mcore st)"
    "IsPCore (pcore st') = IsPCore (pcore st)" "processor_state (pcore st') = processor_state (pcore st)"
    "InstQuatum (pcore st') = InstQuatum (pcore st)" "mem st' = mem st" "cur st' = cur st"
    "cache_inv tr (cache st) \<Longrightarrow> cache_inv tr (cache st')"
  using assms by (simp_all add: keeps_def mctl_def pctl_def)

text \<open>
  The main core gets a data abort for an address that is not mapped, from C code, and everything else is
  kept.
\<close>

definition aborts :: "translator \<Rightarrow> 'r exec_state \<Rightarrow> 'r exec_state \<Rightarrow> bool" where
  "aborts tr st st' \<longleftrightarrow> (\<exists>a s. keeps tr st s \<and> mem s a = None \<and> st' = deliver_segv a None s)"

text \<open>One or the other; the second only when control leaves by \<^verbatim>\<open>longjmp\<close>\<close>

definition calm :: "translator \<Rightarrow> bool \<Rightarrow> 'r exec_state \<Rightarrow> 'r exec_state \<Rightarrow> bool" where
  "calm tr x st st' \<longleftrightarrow> keeps tr st st' \<or> x \<and> aborts tr st st'"

lemma calm_keeps:
  assumes k: "keeps tr st st1" and c: "calm tr x st1 st2"
  shows "calm tr x st st2"
proof -
  have "aborts tr st st2" if "aborts tr st1 st2"
    using that keeps_trans [OF k] unfolding aborts_def by blast
  then show ?thesis using c keeps_trans [OF k] unfolding calm_def by blast
qed

lemma calm_False [simp]: "calm tr False st st' \<longleftrightarrow> keeps tr st st'"
  by (simp add: calm_def)

lemma keeps_calm: "keeps tr st st' \<Longrightarrow> calm tr x st st'"
  by (simp add: calm_def)

lemma deliver_simps [simp]:
  "cur (deliver_segv a opc st) = cur st" "mem (deliver_segv a opc st) = mem st" "cache (deliver_segv a opc st) = cache st"
  "pcore (deliver_segv a opc st) = pcore st" "pctl (mcore (deliver_segv a opc st)) = pctl (mcore st)"
  "exception_index (mcore (deliver_segv a opc st)) = EXCP_DATA_ABORT"
  "arch (mcore (deliver_segv a None st)) = (arch (mcore st))\<lparr>c6_data := ucast a\<rparr>"
  by (simp_all add: deliver_segv_def handle_cpu_signal_def cpu_arm_handle_mmu_fault_def pctl_def Let_def split: option.splits)

lemma abortsE:
  assumes "aborts tr st st'"
  obtains a where "mem st a = None" "arch (mcore st') = (arch (mcore st))\<lparr>c6_data := ucast a\<rparr>" "exception_index (mcore st') = EXCP_DATA_ABORT"
proof -
  obtain a s where "keeps tr st s" "mem s a = None" "st' = deliver_segv a None s" using assms by (auto simp: aborts_def)
  then show ?thesis using keepsD [of tr st s] by (intro that [of a]) simp_all
qed

lemma calmD:
  assumes "calm tr x st st'"
  shows "pctl (mcore st') = pctl (mcore st)" "pctl (pcore st') = pctl (pcore st)" "mem st' = mem st" "cur st' = cur st"
    "cache_inv tr (cache st) \<Longrightarrow> cache_inv tr (cache st')"
proof -
  have *: "pctl (mcore s) = pctl (mcore st) \<and> pctl (pcore s) = pctl (pcore st) \<and> mem s = mem st \<and> cur s = cur st \<and>
      (cache_inv tr (cache st) \<longrightarrow> cache_inv tr (cache s))" if "keeps tr st s" for s
    using that unfolding keeps_def mctl_def pctl_def by simp
  have "pctl (mcore st') = pctl (mcore st) \<and> pctl (pcore st') = pctl (pcore st) \<and> mem st' = mem st \<and> cur st' = cur st \<and>
      (cache_inv tr (cache st) \<longrightarrow> cache_inv tr (cache st'))"
  proof (cases "keeps tr st st'")
    case True
    then show ?thesis by (rule *)
  next
    case False
    then obtain a s where s: "keeps tr st s" "st' = deliver_segv a None s" using assms unfolding calm_def aborts_def by blast
    show ?thesis using * [OF s(1)] unfolding s(2) deliver_simps .
  qed
  then show "pctl (mcore st') = pctl (mcore st)" "pctl (pcore st') = pctl (pcore st)" "mem st' = mem st" "cur st' = cur st"
    "cache_inv tr (cache st) \<Longrightarrow> cache_inv tr (cache st')" by blast+
qed

lemma host_ld_Segv:
  assumes "host_ld sizeop m a = Segv p" shows "m p = None"
proof -
  have "host_segv (readable m) a (ld_width sizeop) = Some p" using assms by (simp add: host_ld_def split: option.splits)
  then have "\<not> readable m p" by (rule host_segv_Some)
  then show ?thesis unfolding readable_def not_not .
qed

lemma cur_env_simps [simp]:
  "cur st = MainCore \<Longrightarrow> cur_env st = mcore st" "cur st = PrefetchCore \<Longrightarrow> cur_env st = pcore st"
  by (simp_all add: cur_env_def)

lemma upd_env_simps [simp]:
  "cur st = MainCore \<Longrightarrow> upd_env f st = st\<lparr>mcore := f (mcore st)\<rparr>"
  "cur st = PrefetchCore \<Longrightarrow> upd_env f st = st\<lparr>pcore := f (pcore st)\<rparr>"
  "cur (upd_env f st) = cur st" "mem (upd_env f st) = mem st" "cache (upd_env f st) = cache st" "pf (upd_env f st) = pf st"
  "has_sppslice (upd_env f st) = has_sppslice st"
  by (simp_all add: upd_env_def split: core.splits)

lemma cache_inv_find:
  assumes "cache_inv tr c" "tb_find_fast tr env pc cs_base flags c = Inr (t, c')"
  shows "cache_inv tr c'" "env = 0 \<Longrightarrow> tb_matches pc cs_base flags (tbs c' ! t)"
proof -
  obtain B P where g: "tb_good tr c B P" using assms(1) by (auto simp: cache_inv_def tb_inv_def)
  have l: "cpu_list c = [0]" using assms(1) by (simp add: cache_inv_def)
  show "cache_inv tr c'"
  proof (cases "tb_find_fast tr env pc cs_base flags c = tb_find_slow tr env pc cs_base flags c")
    case True
    obtain t1 c1 B' P' where c1: "tb_find_slow tr env pc cs_base flags c = Inr (t1, c1)" "tb_good tr c1 B' P'" "cpu_list c1 = cpu_list c"
      by (rule tb_find_slow_good [OF g, of env pc cs_base flags]) blast
    then have "c1 = c'" using True assms(2) by simp
    then show ?thesis using tb_invI [OF c1(2)] c1(3) l by (simp add: cache_inv_def)
  next
    case False
    then have "c' = c" using assms(2) by (auto simp: tb_find_fast_def split: option.splits if_splits)
    then show ?thesis using assms(1) by simp
  qed
  show "tb_matches pc cs_base flags (tbs c' ! t)" if "env = 0"
  proof -
    have e: "env \<in> set (cpu_list c)" using l that by simp
    obtain t1 c1 where "tb_find_fast tr env pc cs_base flags c = Inr (t1, c1)" "tb_matches pc cs_base flags (tbs c1 ! t1)"
      by (rule tb_find_fast_good [OF g e, of pc cs_base flags]) blast
    then show ?thesis using assms(2) by simp
  qed
qed

lemma find_tb_keeps:
  assumes "find_tb tr st = Inr (t, st')"
  shows "keeps tr st st'" "\<exists>c. st' = st\<lparr>cache := c\<rparr>"
    "cache_inv tr (cache st) \<Longrightarrow> cur st = MainCore \<Longrightarrow> cpu_get_tb_cpu_state (arch (mcore st)) = (pc, cs_base, flags) \<Longrightarrow>
      tb_matches pc cs_base flags (tbs (cache st') ! t)"
proof -
  obtain pc0 cs0 fl0 where f: "cpu_get_tb_cpu_state (arch (cur_env st)) = (pc0, cs0, fl0)" by (metis prod_cases3)
  obtain c where c: "tb_find_fast tr (env_id (cur st)) pc0 cs0 fl0 (cache st) = Inr (t, c)" "st' = st\<lparr>cache := c\<rparr>"
    using assms by (auto simp: find_tb_def f)
  show "keeps tr st st'" using cache_inv_find(1) [OF _ c(1)] by (simp add: keeps_def c(2))
  show "\<exists>c. st' = st\<lparr>cache := c\<rparr>" using c(2) by blast
  show "tb_matches pc cs_base flags (tbs (cache st') ! t)"
    if "cache_inv tr (cache st)" "cur st = MainCore" "cpu_get_tb_cpu_state (arch (mcore st)) = (pc, cs_base, flags)"
    using cache_inv_find(2) [OF that(1) c(1)] that(2,3) f by (simp add: c(2))
qed

lemma upd_pcore_keeps:
  assumes "cur st = PrefetchCore" "pctl (f (pcore st)) = pctl (pcore st)"
  shows "keeps tr st (upd_env f st)"
  using assms by (simp add: keeps_def)

lemma skip_monitor_keeps:
  assumes "qemu_skip_pc_monitor tr t st = Inr (t', st')" "cur st = PrefetchCore"
  shows "keeps tr st st'"
proof -
  have k: "keeps tr st (upd_env (SET_PC x) st)" for x
    by (rule upd_pcore_keeps [OF assms(2)]) (simp add: SET_PC_def pctl_def)
  consider "st' = st" | x where "find_tb tr (upd_env (SET_PC x) st) = Inr (t', st')"
    using assms(1) by (auto simp: qemu_skip_pc_monitor_def check_def Let_def split: if_splits)
  then show ?thesis
  proof cases
    case 2
    show ?thesis by (rule keeps_trans [OF k find_tb_keeps(1) [OF 2]])
  qed simp
qed

lemma skip_loop_keeps:
  "skip_loop n tr t st = Inr (t', st') \<Longrightarrow> cur st = PrefetchCore \<Longrightarrow> keeps tr st st'"
proof (induction n arbitrary: t st)
  case (Suc n)
  show ?case
  proof (cases "ISPCORE (cur_env st) \<and> IS_INTRACE (cur_env st) \<and> \<not> has_sppslice st")
    case False
    then have "st' = st" using Suc.prems(1) by (simp split: if_splits)
    then show ?thesis by simp
  next
    case True
    then obtain t1 st1 where m: "qemu_skip_pc_monitor tr t st = Inr (t1, st1)"
      and r: "(if t1 = t then Inr (t, st1) else skip_loop n tr t1 st1) = Inr (t', st')"
      using Suc.prems(1) by auto
    have k: "keeps tr st st1" by (rule skip_monitor_keeps [OF m Suc.prems(2)])
    show ?thesis
    proof (cases "t1 = t")
      case True
      then show ?thesis using r k by simp
    next
      case False
      then have "keeps tr st1 st'" using Suc.IH [of t1 st1] r keepsD(10) [OF k] Suc.prems(2) by simp
      then show ?thesis by (rule keeps_trans [OF k])
    qed
  qed
qed simp

lemma skip_loop_main:
  assumes "skip_loop n tr t st = Inr (t', st')" "cur st = MainCore" "IsPCore (mcore st) = 0"
  shows "t' = t" "st' = st"
  using assms by (cases n; simp add: ISPCORE_def)+

lemma spp_next_keeps:
  assumes "spp_next tr t st = Inr (t', st')" "cur st = PrefetchCore"
  shows "keeps tr st st'"
proof -
  have k: "keeps tr st (upd_env (\<lambda>e. e\<lparr>current_sppslice_pc_idx := i\<rparr>) st)" for i
    by (rule upd_pcore_keeps [OF assms(2)]) (simp add: pctl_def)
  have k2: "keeps tr st (upd_env (SET_PC x) (upd_env (\<lambda>e. e\<lparr>current_sppslice_pc_idx := i\<rparr>) st))" for x i
    by (rule keeps_trans [OF k upd_pcore_keeps]) (simp_all add: assms(2) SET_PC_def pctl_def)
  consider "st' = st" | i where "st' = upd_env (\<lambda>e. e\<lparr>current_sppslice_pc_idx := i\<rparr>) st"
    | x i where "find_tb tr (upd_env (SET_PC x) (upd_env (\<lambda>e. e\<lparr>current_sppslice_pc_idx := i\<rparr>) st)) = Inr (t', st')"
    using assms(1) unfolding spp_next_def qemu_next_pc_sppslice_def Let_def check_def by (auto split: if_splits)
  then show ?thesis
  proof cases
    case 3
    show ?thesis by (rule keeps_trans [OF k2 find_tb_keeps(1) [OF 3]])
  qed (use k in simp_all)
qed

lemma spp_next_main:
  assumes "spp_next tr t st = Inr (t', st')" "cur st = MainCore" "IsPCore (mcore st) = 0"
  shows "t' = t" "st' = st"
  using assms by (simp_all add: spp_next_def ISPCORE_def)

definition roles :: "'r exec_state \<Rightarrow> bool" where
  "roles st \<longleftrightarrow> IsPCore (mcore st) = 0 \<and> IsPCore (pcore st) \<noteq> 0"

lemma roles_keeps: "keeps tr st st' \<Longrightarrow> roles st' = roles st"
  using keepsD(2,6) [of tr st st'] by (simp add: roles_def)

lemma ISPCORE_cur: "roles st \<Longrightarrow> ISPCORE (cur_env st) \<longleftrightarrow> cur st = PrefetchCore"
  by (cases "cur st") (simp_all add: roles_def ISPCORE_def)

text \<open>The tracking of the prefetch distance changes the two counters only.\<close>

lemma track_distance_cases:
  assumes "track_distance st = Inr st'" "roles st"
  shows "\<exists>x y. st' = st\<lparr>mcore := (mcore st)\<lparr>maxPrefetchDistance := x\<rparr>, pcore := (pcore st)\<lparr>prefetchDistance := y\<rparr>\<rparr>" (is "\<exists>x y. _ = ?u x y")
proof -
  have self: "st = ?u (maxPrefetchDistance (mcore st)) (prefetchDistance (pcore st))" by simp
  show ?thesis
  proof (cases "cur st")
    case MainCore
    then have "st' = st \<or> st' = ?u (maxPrefetchDistance (mcore st)) (prefetchDistance (pcore st) - 1)"
      using assms ISPCORE_cur [OF assms(2)] by (auto simp: track_distance_def Let_def)
    then show ?thesis using self by blast
  next
    case PrefetchCore
    let ?d = "prefetchDistance (pcore st) + 1"
    have "st' = st \<or> st' = ?u (maxPrefetchDistance (mcore st)) ?d \<or> st' = ?u ?d ?d"
      using assms PrefetchCore ISPCORE_cur [OF assms(2)] by (auto simp: track_distance_def Let_def split: if_splits)
    then show ?thesis using self by blast
  qed
qed

lemma track_distance_keeps:
  assumes "track_distance st = Inr st'" "roles st"
  shows "keeps tr st st'" "cache st' = cache st"
  using track_distance_cases [OF assms] by (auto simp: keeps_def mctl_def pctl_def)

lemma upd_tcnt_keeps: "keeps tr st (upd_env (\<lambda>e. e\<lparr>tcnt := x\<rparr>) st)"
  by (cases "cur st") (simp_all add: keeps_def mctl_def pctl_def)

lemma check_prefetched_keeps: "check_prefetched xp st = Inr st' \<Longrightarrow> keeps tr st st'"
  by (auto simp: check_prefetched_def update_accuracy_def Let_def check_def keeps_def split: if_splits)

lemma report_loop_calm: "report_loop timing i k st = Inr (x, st') \<Longrightarrow> calm tr x st st'"
proof (induction k arbitrary: i st)
  case (Suc k)
  let ?xp = "xtrace_xp_op_tp (tbuf st) ! i"
  have i: "i < length (xtrace_xp_op_tp (tbuf st))" by (rule ccontr) (use Suc.prems in simp)
  obtain st1 where st1: "check_prefetched ?xp st = Inr st1"
    and r: "(case (if timing then ldl_code (mem st1) (xp_pc ?xp) else Loaded 0xdeadbeaf) of
        Segv a \<Rightarrow> Inr (True, deliver_segv a None st1)
      | Loaded w \<Rightarrow> report_loop timing (Suc i) k (st1\<lparr>queue := queue st1 @ [queue_xp (ucast w) ?xp (cur_env st1)]\<rparr>)) = Inr (x, st')"
    using Suc.prems unfolding report_loop.simps check_def if_P [OF i] Let_def res_bind_eq_Inr_iff by blast
  note k = check_prefetched_keeps [OF st1, of tr]
  show ?case
  proof (cases "if timing then ldl_code (mem st1) (xp_pc ?xp) else Loaded 0xdeadbeaf")
    case (Segv a)
    then have "host_ld 2 (mem st1) (ucast (xp_pc ?xp)) = Segv a" by (simp add: ldl_code_def split: if_splits)
    then have "mem st1 a = None" by (rule host_ld_Segv)
    then have "aborts tr st (deliver_segv a None st1)" using k by (auto simp: aborts_def)
    then show ?thesis using r Segv by (auto simp: calm_def)
  next
    case (Loaded w)
    let ?q = "st1\<lparr>queue := queue st1 @ [queue_xp (ucast w) ?xp (cur_env st1)]\<rparr>"
    have "keeps tr st1 ?q" by (simp add: keeps_def)
    then have q: "keeps tr st ?q" by (rule keeps_trans [OF k])
    show ?thesis by (rule calm_keeps [OF q Suc.IH]) (use r Loaded in simp)
  qed
qed simp

lemma report_calm: "report t st = Inr (x, st') \<Longrightarrow> calm tr x st st'"
proof -
  assume r: "report t st = Inr (x, st')"
  consider q where "st' = st\<lparr>queue := q\<rparr>" | b n where "report_loop b 0 n st = Inr (x, st')"
    using r unfolding report_def Let_def check_def by (auto split: if_splits)
  then show ?thesis
  proof cases
    case 1
    then show ?thesis by (simp add: keeps_def calm_def)
  next
    case 2
    then show ?thesis by (rule report_loop_calm)
  qed
qed

lemma trace_and_report_calm:
  assumes "trace_and_report t st = Inr (x, st')"
  shows "calm tr x st st'"
proof -
  obtain c tc tb y st1 where
    r: "report t (upd_env (\<lambda>e. e\<lparr>tcnt := tc\<rparr>) (st\<lparr>tbuf := tb, total_cnt := c\<rparr>)) = Inr (y, st1)"
    and f: "(if y then Inr (True, st1) else res_bind (xtrace_reset_trace_points (tcnt (cur_env st1)) (tbuf st1)) (\<lambda>(tc, tb).
       Inr (False, upd_env (\<lambda>e. e\<lparr>tcnt := tc\<lparr>op_cnt := 0, xtrace_op_cnt := 0\<rparr>\<rparr>) (st1\<lparr>tbuf := tb\<rparr>)))) = Inr (x, st')"
    using assms unfolding trace_and_report_def res_bind_eq_Inr_iff split_paired_Ex prod.case by blast
  have e: "y \<and> x \<and> st' = st1 \<or> \<not> y \<and> \<not> x \<and> (\<exists>tc1 tb1. st' = upd_env (\<lambda>e. e\<lparr>tcnt := tc1\<lparr>op_cnt := 0, xtrace_op_cnt := 0\<rparr>\<rparr>) (st1\<lparr>tbuf := tb1\<rparr>))"
    using f by (cases y) auto
  let ?s0 = "st\<lparr>tbuf := tb, total_cnt := c\<rparr>"
  have "keeps tr st ?s0" by (simp add: keeps_def)
  then have "keeps tr st (upd_env (\<lambda>e. e\<lparr>tcnt := tc\<rparr>) ?s0)" by (rule keeps_trans [OF _ upd_tcnt_keeps])
  then have c: "calm tr y st st1" by (rule calm_keeps [OF _ report_calm [OF r]])
  show ?thesis using e
  proof (elim disjE conjE exE)
    fix tc1 tb1
    assume a: "\<not> y" "\<not> x" "st' = upd_env (\<lambda>e. e\<lparr>tcnt := tc1\<lparr>op_cnt := 0, xtrace_op_cnt := 0\<rparr>\<rparr>) (st1\<lparr>tbuf := tb1\<rparr>)"
    have "keeps tr st st1" using c a(1) by (simp add: calm_def)
    moreover have "keeps tr st1 (st1\<lparr>tbuf := tb1\<rparr>)" by (simp add: keeps_def)
    ultimately have "keeps tr st (st1\<lparr>tbuf := tb1\<rparr>)" by (rule keeps_trans)
    then show ?thesis unfolding a(3) by (rule keeps_calm [OF keeps_trans [OF _ upd_tcnt_keeps]])
  qed (use c in simp)
qed

section \<open>The shape of an iteration\<close>

lemma exec_iterationE:
  assumes "exec_iteration tr tb_exec fuel st = Inr (x, st')"
  obtains (leave) t st1 st2 where "find_tb tr st = Inr (t, st1)" "enter_trace st1 = Inr st2" "leave_trace st2 = Inr (True, st')" "\<not> x"
  | (run) t st1 st2 st3 where "find_tb tr st = Inr (t, st1)" "enter_trace st1 = Inr st2" "leave_trace st2 = Inr (False, st3)"
      "run_next tr tb_exec fuel t st3 = Inr (x, st')"
proof -
  obtain t st1 st2 l st3 where a: "find_tb tr st = Inr (t, st1)" "enter_trace st1 = Inr st2" "leave_trace st2 = Inr (l, st3)"
    and r: "(if l then Inr (False, st3) else run_next tr tb_exec fuel t st3) = Inr (x, st')"
    using assms unfolding exec_iteration_def res_bind_eq_Inr_iff split_paired_Ex prod.case by blast
  show ?thesis
  proof (cases l)
    case True
    then show ?thesis using leave [OF a(1,2)] a(3) r by simp
  next
    case False
    then show ?thesis using run [OF a(1,2)] a(3) r by simp
  qed
qed

lemma exec_step_shape:
  assumes "exec_step tr tb_exec fuel st st'"
  shows "\<exists>x st1. exec_iteration tr tb_exec fuel st = Inr (x, st1) \<and> st' = (if x then st1\<lparr>cur := MainCore\<rparr> else st1)"
  using assms
proof (cases rule: exec_step.cases)
  case iterate
  then show ?thesis by (intro exI [of _ False] exI [of _ st']) simp
next
  case (stay st1)
  then show ?thesis by (intro exI [of _ True] exI [of _ st1]) simp
qed

lemma run_nextE:
  assumes "run_next tr tb_exec fuel t st = Inr (x, st')"
  obtains (raise) t1 st1 t2 st2 st3 where "skip_loop fuel tr t st = Inr (t1, st1)" "spp_next tr t1 st1 = Inr (t2, st2)"
      "track_distance st2 = Inr st3" "run_tb tb_exec t2 st3 = Inr (True, st')" "x"
  | (finish) t1 st1 t2 st2 st3 st4 where "skip_loop fuel tr t st = Inr (t1, st1)" "spp_next tr t1 st1 = Inr (t2, st2)"
      "track_distance st2 = Inr st3" "run_tb tb_exec t2 st3 = Inr (False, st4)" "finish_tb t2 st4 = Inr (x, st')"
proof -
  obtain t1 st1 t2 st2 st3 l st4 where a: "skip_loop fuel tr t st = Inr (t1, st1)" "spp_next tr t1 st1 = Inr (t2, st2)"
      "track_distance st2 = Inr st3" "run_tb tb_exec t2 st3 = Inr (l, st4)"
    and r: "(if l then Inr (True, st4) else finish_tb t2 st4) = Inr (x, st')"
    using assms unfolding run_next_def res_bind_eq_Inr_iff split_paired_Ex prod.case by blast
  show ?thesis
  proof (cases l)
    case True
    then show ?thesis using raise [OF a(1-3)] a(4) r by simp
  next
    case False
    then show ?thesis using finish [OF a(1-3)] a(4) r by auto
  qed
qed

section \<open>Entering and leaving the trace\<close>

lemma cache_inv_copy:
  assumes "cache_inv tr c" shows "cache_inv tr (c\<lparr>tb_jmp_cache := (tb_jmp_cache c)(1 := x)\<rparr>)"
proof -
  obtain B P where g: "tb_good tr c B P" using assms by (auto simp: cache_inv_def tb_inv_def)
  have "1 \<notin> set (cpu_list c)" using assms by (simp add: cache_inv_def)
  from tb_invI [OF copy_core_good [OF g this]] assms show ?thesis by (simp add: cache_inv_def)
qed

lemma create_pcore_cases:
  assumes "qemu_cpu_create_pcore st = Inr st'"
  obtains i where "st' = st\<lparr>mcore := (mcore st)\<lparr>maxPrefetchDistance := 0, current_stop_pc_idx := i\<rparr>,
    pcore := (mcore st)\<lparr>IsPCore := 1, sbytes_size := 0, processor_state := IN_TRACE, prefetchDistance := 0, current_stop_pc_idx := i\<rparr>,
    cache := (cache st)\<lparr>tb_jmp_cache := (tb_jmp_cache (cache st))(1 := tb_jmp_cache (cache st) 0)\<rparr>,
    prefetchAccuracy := uint (runAheadThreshold (pf st) div 2)\<rparr>"
proof -
  obtain f where f: "find_stop_idx (GET_PC (mcore st)) (stop_pc (slice (mcore st))) 0 (unat (stop_pc_idx (slice (mcore st)))) = Inr f"
    using assms by (auto simp: qemu_cpu_create_pcore_def check_def Let_def split: if_splits)
  show ?thesis
  proof (rule that [of "case f of None \<Rightarrow> current_stop_pc_idx (mcore st) | Some i \<Rightarrow> i"])
    show "st' = st\<lparr>mcore := (mcore st)\<lparr>maxPrefetchDistance := 0, current_stop_pc_idx := (case f of None \<Rightarrow> current_stop_pc_idx (mcore st) | Some i \<Rightarrow> i)\<rparr>,
      pcore := (mcore st)\<lparr>IsPCore := 1, sbytes_size := 0, processor_state := IN_TRACE, prefetchDistance := 0,
        current_stop_pc_idx := (case f of None \<Rightarrow> current_stop_pc_idx (mcore st) | Some i \<Rightarrow> i)\<rparr>,
      cache := (cache st)\<lparr>tb_jmp_cache := (tb_jmp_cache (cache st))(1 := tb_jmp_cache (cache st) 0)\<rparr>,
      prefetchAccuracy := uint (runAheadThreshold (pf st) div 2)\<rparr>"
      using assms f by (cases f) (auto simp: qemu_cpu_create_pcore_def check_def Let_def split: if_splits)
  qed
qed

lemma enter_main:
  assumes "enter_trace st = Inr st'" "roles st" "cur st = MainCore" "cache_inv tr (cache st)"
  shows "st' = st \<or> processor_state (mcore st') = IN_TRACE \<and> processor_state (pcore st') = IN_TRACE"
    "arch (mcore st') = arch (mcore st)" "mem st' = mem st" "cur st' = MainCore" "tbs (cache st') = tbs (cache st)" "roles st'"
    "cache_inv tr (cache st')" "InstQuatum (mcore st') = InstQuatum (mcore st)" "exception_index (mcore st') = exception_index (mcore st)"
proof -
  consider "st' = st" | st1 where "qemu_cpu_create_pcore st = Inr st1" "st' = upd_env (\<lambda>e. e\<lparr>processor_state := IN_TRACE\<rparr>) st1"
    using assms(1) by (auto simp: enter_trace_def split: if_splits)
  then have "(st' = st \<or> processor_state (mcore st') = IN_TRACE \<and> processor_state (pcore st') = IN_TRACE) \<and>
      arch (mcore st') = arch (mcore st) \<and> mem st' = mem st \<and> cur st' = MainCore \<and> tbs (cache st') = tbs (cache st) \<and> roles st' \<and>
      cache_inv tr (cache st') \<and> InstQuatum (mcore st') = InstQuatum (mcore st) \<and> exception_index (mcore st') = exception_index (mcore st)"
  proof cases
    case 1
    then show ?thesis using assms by simp
  next
    case 2
    from 2(1) show ?thesis
      by (rule create_pcore_cases) (use assms(2-4) 2(2) in \<open>simp add: roles_def cache_inv_copy\<close>)
  qed
  then show "st' = st \<or> processor_state (mcore st') = IN_TRACE \<and> processor_state (pcore st') = IN_TRACE"
    "arch (mcore st') = arch (mcore st)" "mem st' = mem st" "cur st' = MainCore" "tbs (cache st') = tbs (cache st)" "roles st'"
    "cache_inv tr (cache st')" "InstQuatum (mcore st') = InstQuatum (mcore st)" "exception_index (mcore st') = exception_index (mcore st)"
    by blast+
qed

lemma enter_pcore:
  assumes "enter_trace st = Inr st'" "roles st" "cur st = PrefetchCore" shows "st' = st"
  using assms ISPCORE_cur [OF assms(2)] by (simp add: enter_trace_def)

lemma leave_main:
  assumes "leave_trace st = Inr (x, st')" "roles st" "cur st = MainCore" shows "x = False" "st' = st"
  using assms ISPCORE_cur [OF assms(2)] by (simp_all add: leave_trace_def Let_def)

lemma leave_pcore:
  assumes "leave_trace st = Inr (x, st')" "roles st" "cur st = PrefetchCore"
  shows "\<not> x \<Longrightarrow> st' = st"
    and "x \<Longrightarrow> cur st' = MainCore \<and> arch (mcore st') = arch (mcore st) \<and> mem st' = mem st \<and> cache st' = cache st \<and> roles st' \<and>
      processor_state (mcore st') = PRE_TRACE \<and> InstQuatum (mcore st') = 1 \<and> exception_index (mcore st') = exception_index (mcore st)"
  using assms ISPCORE_cur [OF assms(2)]
  by (auto simp: leave_trace_def Let_def qemu_cpu_destroy_pcore_def load_main_core_def roles_def ISPCORE_def
      ROUNDROBIN_EXECUTION_SLICE_def check_def split: if_splits)

section \<open>The invariant of the two cores\<close>

definition core_inv :: "translator \<Rightarrow> 'r exec_state \<Rightarrow> bool" where
  "core_inv tr st \<longleftrightarrow> roles st \<and> cache_inv tr (cache st) \<and>
     (processor_state (mcore st) = IN_TRACE \<longrightarrow> processor_state (pcore st) = IN_TRACE) \<and>
     (cur st = PrefetchCore \<longrightarrow> processor_state (mcore st) = IN_TRACE \<and> InstQuatum (pcore st) = 1 \<and> InstQuatum (mcore st) = 0)"

lemma core_inv_keeps: "keeps tr st st' \<Longrightarrow> core_inv tr st \<Longrightarrow> core_inv tr st'"
  using keepsD [of tr st st'] roles_keeps [of tr st st'] by (simp add: core_inv_def)

lemma switch_main:
  assumes "roles st" "cur st = MainCore" "cache_inv tr (cache st)"
    "processor_state (mcore st) = IN_TRACE \<longrightarrow> processor_state (pcore st) = IN_TRACE"
  shows "core_inv tr (switch_core st)" "arch (mcore (switch_core st)) = arch (mcore st)" "mem (switch_core st) = mem st"
    "exception_index (mcore (switch_core st)) = exception_index (mcore st)"
  using assms ISPCORE_cur [OF assms(1)]
  by (auto simp: switch_core_def Let_def core_inv_def roles_def IS_INTRACE_def ROUNDROBIN_EXECUTION_SLICE_def)

lemma switch_pcore:
  assumes "roles st" "cur st = PrefetchCore" "cache_inv tr (cache st)" "processor_state (mcore st) = IN_TRACE"
    "processor_state (pcore st) = IN_TRACE" "InstQuatum (pcore st) = 0"
  shows "core_inv tr (switch_core st)" "cur (switch_core st) = MainCore" "arch (mcore (switch_core st)) = arch (mcore st)"
    "mem (switch_core st) = mem st" "InstQuatum (mcore (switch_core st)) = 1"
    "exception_index (mcore (switch_core st)) = exception_index (mcore st)"
  using assms ISPCORE_cur [OF assms(1)]
  by (auto simp: switch_core_def Let_def core_inv_def roles_def IS_INTRACE_def ROUNDROBIN_EXECUTION_SLICE_def)

text \<open>The part of an iteration after the block has run, for either core\<close>

lemma finish_main:
  assumes "finish_tb t st = Inr (x, st')" "roles st" "cur st = MainCore" "cache_inv tr (cache st)"
    "processor_state (mcore st) = IN_TRACE \<longrightarrow> processor_state (pcore st) = IN_TRACE"
  shows "core_inv tr st'" "mem st' = mem st" "\<not> x \<Longrightarrow> arch (mcore st') = arch (mcore st)"
    "x \<Longrightarrow> cur st' = MainCore \<and> exception_index (mcore st') = EXCP_DATA_ABORT \<and> (\<exists>a. mem st a = None \<and> arch (mcore st') = (arch (mcore st))\<lparr>c6_data := ucast a\<rparr>)
      \<or> arch (mcore st') = arch (mcore st)"
proof -
  define st1 where "st1 = (if IS_INTRACE (cur_env st) then upd_env (\<lambda>e. e\<lparr>InstQuatum := InstQuatum e - 1\<rparr>) st else st)"
  obtain st2 where r: "trace_and_report t st1 = Inr (x, st2)" and e: "st' = (if x then st2 else switch_core st2)"
    using assms(1) by (auto simp: finish_tb_def st1_def Let_def)
  have k: "calm tr x st1 st2" by (rule trace_and_report_calm [OF r])
  have s1: "roles st1" "cur st1 = MainCore" "cache st1 = cache st" "arch (mcore st1) = arch (mcore st)" "mem st1 = mem st"
    "processor_state (mcore st1) = processor_state (mcore st)" "pcore st1 = pcore st"
    using assms(2,3) by (simp_all add: st1_def roles_def)
  have s2: "roles st2" "cur st2 = MainCore" "cache_inv tr (cache st2)"
    "processor_state (mcore st2) = IN_TRACE \<longrightarrow> processor_state (pcore st2) = IN_TRACE" "mem st2 = mem st"
    using calmD [OF k] s1 assms(4,5) by (simp_all add: roles_def pctl_def)
  note sw = switch_main [OF s2(1-4)]
  show "core_inv tr st'" using sw(1) s2 by (simp add: e core_inv_def)
  show "mem st' = mem st" using sw(3) s2(5) by (simp add: e)
  show "arch (mcore st') = arch (mcore st)" if "\<not> x"
    using that k keepsD(1) [of tr st1 st2] sw(2) s1(4) by (simp add: e)
  show "cur st' = MainCore \<and> exception_index (mcore st') = EXCP_DATA_ABORT \<and> (\<exists>a. mem st a = None \<and> arch (mcore st') = (arch (mcore st))\<lparr>c6_data := ucast a\<rparr>)
      \<or> arch (mcore st') = arch (mcore st)" if "x"
  proof (cases "keeps tr st1 st2")
    case True
    then show ?thesis using that s1(4) keepsD(1) [OF True] by (simp add: e)
  next
    case False
    then have "aborts tr st1 st2" using k by (simp add: calm_def)
    then show ?thesis by (rule abortsE) (use that s1 s2 in \<open>auto simp: e\<close>)
  qed
qed

lemma finish_pcore:
  assumes "finish_tb t st = Inr (x, st')" "core_inv tr st" "cur st = PrefetchCore"
  shows "core_inv tr (if x then st'\<lparr>cur := MainCore\<rparr> else st')" "mem st' = mem st" "InstQuatum (mcore st') = (if x then 0 else 1)"
    "\<not> x \<Longrightarrow> cur st' = MainCore \<and> arch (mcore st') = arch (mcore st)"
    "calm tr x (st\<lparr>pcore := (pcore st)\<lparr>InstQuatum := 0\<rparr>\<rparr>) st' \<or> \<not> x"
proof -
  define st1 where "st1 = st\<lparr>pcore := (pcore st)\<lparr>InstQuatum := 0\<rparr>\<rparr>"
  have i: "roles st" "cache_inv tr (cache st)" "processor_state (mcore st) = IN_TRACE" "processor_state (pcore st) = IN_TRACE" "InstQuatum (pcore st) = 1"
      "InstQuatum (mcore st) = 0"
    using assms(2,3) by (simp_all add: core_inv_def)
  have u: "upd_env (\<lambda>e. e\<lparr>InstQuatum := InstQuatum e - 1\<rparr>) st = st1" using assms(3) i(5) by (simp add: st1_def)
  obtain st2 where r: "trace_and_report t st1 = Inr (x, st2)" and e: "st' = (if x then st2 else switch_core st2)"
    using assms(1,3) i(4) by (auto simp: finish_tb_def u Let_def IS_INTRACE_def)
  have k: "calm tr x st1 st2" by (rule trace_and_report_calm [OF r])
  have s1: "roles st1" "cur st1 = PrefetchCore" "cache st1 = cache st" "mcore st1 = mcore st" "mem st1 = mem st"
    "processor_state (pcore st1) = IN_TRACE" "InstQuatum (pcore st1) = 0"
    using assms(3) i by (simp_all add: st1_def roles_def)
  have s2: "roles st2" "cur st2 = PrefetchCore" "cache_inv tr (cache st2)" "processor_state (mcore st2) = IN_TRACE"
    "processor_state (pcore st2) = IN_TRACE" "InstQuatum (pcore st2) = 0" "mem st2 = mem st" "InstQuatum (mcore st2) = 0"
    using calmD [OF k] s1 i by (simp_all add: roles_def pctl_def)
  note sw = switch_pcore [OF s2(1-6)]
  show "core_inv tr (if x then st'\<lparr>cur := MainCore\<rparr> else st')" using sw(1) s2 by (simp add: e core_inv_def roles_def)
  show "mem st' = mem st" "InstQuatum (mcore st') = (if x then 0 else 1)" using sw(4,5) s2 by (simp_all add: e)
  show "cur st' = MainCore \<and> arch (mcore st') = arch (mcore st)" if "\<not> x"
    using that k keepsD(1) [of tr st1 st2] sw(2,3) s1(4) by (simp add: e)
  show "calm tr x (st\<lparr>pcore := (pcore st)\<lparr>InstQuatum := 0\<rparr>\<rparr>) st' \<or> \<not> x" using k by (auto simp: e st1_def)
qed

section \<open>Runs\<close>

text \<open>What the guest program sees: the registers of the main core and memory\<close>

definition view :: "'r exec_state \<Rightarrow> 'r arm_arch \<times> host_mem" where
  "view st = (arch (mcore st), mem st)"

text \<open>
  One block of the program on a machine without a prefetch core; an access to memory that is not
  mapped for it leaves the block with a data abort at the instruction of the access.
\<close>

fun abort_arch :: "leaving \<Rightarrow> 'r arm_arch \<Rightarrow> 'r arm_arch" where
  "abort_arch (HostSegv x (Some opc)) a = restore_state_to_opc opc (a\<lparr>c6_data := ucast x\<rparr>)"
| "abort_arch (HostSegv x None) a = a\<lparr>c6_data := ucast x\<rparr>"
| "abort_arch l a = a"

definition plain_step :: "(TranslationBlock \<Rightarrow> 'r arm_arch \<Rightarrow> host_mem \<Rightarrow> (leaving \<times> 'r arm_arch \<times> host_mem) result) \<Rightarrow>
    'r arm_arch \<times> host_mem \<Rightarrow> 'r arm_arch \<times> host_mem \<Rightarrow> bool" where
  "plain_step plain v v' \<longleftrightarrow> (\<exists>b l a. (case cpu_get_tb_cpu_state (fst v) of (pc, cs_base, flags) \<Rightarrow> tb_matches pc cs_base flags b) \<and>
     plain b (fst v) (snd v) = Inr (l, a, snd v') \<and> fst v' = abort_arch l a)"

text \<open>
  What one iteration does to the guest: on the main core one block of the program, on the prefetch core
  nothing; and when it was left by \<^verbatim>\<open>longjmp\<close> there may be a data abort for an address that is not mapped.
\<close>

definition guest_effect :: "(TranslationBlock \<Rightarrow> 'r arm_arch \<Rightarrow> host_mem \<Rightarrow> (leaving \<times> 'r arm_arch \<times> host_mem) result) \<Rightarrow>
    'r exec_state \<Rightarrow> bool \<Rightarrow> 'r exec_state \<Rightarrow> bool" where
  "guest_effect plain st x st' \<longleftrightarrow> (\<exists>v. (if cur st = MainCore then plain_step plain (view st) v else v = view st) \<and>
     (view st' = v \<or> x \<and> exception_index (mcore st') = EXCP_DATA_ABORT \<and>
       (\<exists>y. mem st' y = None \<and> view st' = ((fst v)\<lparr>c6_data := ucast y\<rparr>, snd v))))"

text \<open>
  A run of \<open>n\<close> steps of the loop within one call of \<^verbatim>\<open>cpu_exec\<close>, \<open>k\<close> of them on the main core. A write fault is a
  store of the main core to a page that is not writable because it holds translated code: \<^verbatim>\<open>page_unprotect\<close>
  drops the code of the page and permits the store.
\<close>

inductive exec_run :: "translator \<Rightarrow> 'r tb_exec \<Rightarrow> nat \<Rightarrow> 'r exec_state \<Rightarrow> nat \<Rightarrow> nat \<Rightarrow> 'r exec_state \<Rightarrow> bool" for tr tb_exec fuel where
  none: "exec_run tr tb_exec fuel st 0 0 st"
| more: "exec_run tr tb_exec fuel st n k st1 \<Longrightarrow> exec_step tr tb_exec fuel st1 st2 \<Longrightarrow>
    exec_run tr tb_exec fuel st (Suc n) (if cur st1 = MainCore then Suc k else k) st2"
| write_fault: "exec_run tr tb_exec fuel st n k st1 \<Longrightarrow> page_unprotect a (cache st1) = Inr (r, c) \<Longrightarrow>
    exec_run tr tb_exec fuel st n k (st1\<lparr>cache := c\<rparr>)"

lemma page_unprotect_list:
  assumes "page_unprotect a s = Inr (r, s')" "tb_inv tr s"
  shows "cpu_list s' = cpu_list s"
proof -
  obtain B P where "tb_good tr s B P" using assms(2) by (auto simp: tb_inv_def)
  then have g: "tb_rep {} s B P" by (rule tb_goodD(1))
  obtain r1 s1 where "page_unprotect a s = Inr (r1, s1)" "code_frame s s1"
    by (rule page_unprotect_rep [OF g, of a]) blast
  then show ?thesis using assms(1) by (simp add: code_frame_def)
qed

lemma core_inv_cache: "core_inv tr st \<Longrightarrow> cache_inv tr c \<Longrightarrow> core_inv tr (st\<lparr>cache := c\<rparr>)"
  by (simp add: core_inv_def roles_def)

lemma core_inv_unprotect:
  assumes "page_unprotect a (cache st) = Inr (r, c)" "core_inv tr st"
  shows "core_inv tr (st\<lparr>cache := c\<rparr>)"
proof -
  have t: "tb_inv tr (cache st)" "cpu_list (cache st) = [0]" using assms(2) by (simp_all add: core_inv_def cache_inv_def)
  have "cache_inv tr c"
    using tb_step_inv [OF tb_step.unprotect [OF assms(1)] t(1)] page_unprotect_list [OF assms(1) t(1)] t(2) by (simp add: cache_inv_def)
  then show ?thesis by (rule core_inv_cache [OF assms(2)])
qed

section \<open>Laws of the generated code\<close>

definition control :: "'r CPUState \<Rightarrow> u32 \<times> u32 \<times> u32 \<times> int \<times> int" where
  "control e = (IsPCore e, processor_state e, InstQuatum e, prefetchDistance e, maxPrefetchDistance e)"

locale generated_code =
  fixes tb_exec :: "'r tb_exec"
    and plain :: "TranslationBlock \<Rightarrow> 'r arm_arch \<Rightarrow> host_mem \<Rightarrow> (leaving \<times> 'r arm_arch \<times> host_mem) result"
  assumes exec_control: "tb_exec b e tb m p = Inr (l, e', tb', m', p') \<Longrightarrow> control e' = control e"
    and pcore_memory: "IsPCore e \<noteq> 0 \<Longrightarrow> tb_exec b e tb m p = Inr (l, e', tb', m', p') \<Longrightarrow> m' = m"
    and pcore_segv: "IsPCore e \<noteq> 0 \<Longrightarrow> tb_exec b e tb m p = Inr (HostSegv a opc, e', tb', m', p') \<Longrightarrow> opc = None \<and> m a = None"
    and main_plain: "IsPCore e = 0 \<Longrightarrow> tb_exec b e tb m p = Inr (l, e', tb', m', p') \<Longrightarrow> plain b (arch e) m = Inr (l, arch e', m')"
begin

lemma run_main:
  assumes "run_tb tb_exec t st = Inr (x, st')" "roles st" "cur st = MainCore"
  shows "\<exists>l a. plain (tbs (cache st) ! t) (arch (mcore st)) (mem st) = Inr (l, a, mem st') \<and> arch (mcore st') = abort_arch l a"
    "cur st' = MainCore" "cache st' = cache st" "pcore st' = pcore st" "pctl (mcore st') = pctl (mcore st)"
proof -
  obtain l e tb m p where r: "tb_exec (tbs (cache st) ! t) (mcore st) (tbuf st) (mem st) (pf st) = Inr (l, e, tb, m, p)"
    and f: "(case l of Returned \<Rightarrow> (False, st\<lparr>tbuf := tb, mem := m, pf := p, mcore := e\<rparr>)
      | LoopExit \<Rightarrow> (True, st\<lparr>tbuf := tb, mem := m, pf := p, mcore := e\<rparr>)
      | HostSegv a opc \<Rightarrow> (True, deliver_segv a opc (st\<lparr>tbuf := tb, mem := m, pf := p, mcore := e\<rparr>))) = (x, st')"
    using assms(1,3) by (auto simp: run_tb_def Let_def)
  have e: "st' = (case l of HostSegv a opc \<Rightarrow> deliver_segv a opc (st\<lparr>tbuf := tb, mem := m, pf := p, mcore := e\<rparr>)
      | _ \<Rightarrow> st\<lparr>tbuf := tb, mem := m, pf := p, mcore := e\<rparr>)"
    using f by (cases l; simp)+
  have a: "arch (mcore st') = abort_arch l (arch e)"
    by (cases "(l, arch e)" rule: abort_arch.cases) (simp_all add: e deliver_segv_def handle_cpu_signal_def cpu_arm_handle_mmu_fault_def Let_def)
  have m: "mem st' = m" "cur st' = MainCore" "cache st' = cache st" "pcore st' = pcore st" "pctl (mcore st') = pctl e"
    using assms(3) by (simp_all add: e split: leaving.splits)
  have "IsPCore (mcore st) = 0" using assms(2) by (simp add: roles_def)
  from main_plain [OF this r] a m(1)
  show "\<exists>l a. plain (tbs (cache st) ! t) (arch (mcore st)) (mem st) = Inr (l, a, mem st') \<and> arch (mcore st') = abort_arch l a" by auto
  show "cur st' = MainCore" "cache st' = cache st" "pcore st' = pcore st" "pctl (mcore st') = pctl (mcore st)"
    using exec_control [OF r] m by (simp_all add: control_def pctl_def)
qed

lemma run_pcore:
  assumes "run_tb tb_exec t st = Inr (x, st')" "roles st" "cur st = PrefetchCore"
  shows "calm tr x st st'"
proof -
  obtain l e tb m p where r: "tb_exec (tbs (cache st) ! t) (pcore st) (tbuf st) (mem st) (pf st) = Inr (l, e, tb, m, p)"
    and f: "(case l of Returned \<Rightarrow> (False, st\<lparr>tbuf := tb, mem := m, pf := p, pcore := e\<rparr>)
      | LoopExit \<Rightarrow> (True, st\<lparr>tbuf := tb, mem := m, pf := p, pcore := e\<rparr>)
      | HostSegv a opc \<Rightarrow> (True, deliver_segv a opc (st\<lparr>tbuf := tb, mem := m, pf := p, pcore := e\<rparr>))) = (x, st')"
    using assms(1,3) by (auto simp: run_tb_def Let_def)
  have e: "st' = (case l of HostSegv a opc \<Rightarrow> deliver_segv a opc (st\<lparr>tbuf := tb, mem := m, pf := p, pcore := e\<rparr>)
      | _ \<Rightarrow> st\<lparr>tbuf := tb, mem := m, pf := p, pcore := e\<rparr>)" "x \<longleftrightarrow> l \<noteq> Returned"
    using f by (cases l; simp)+
  have P: "IsPCore (pcore st) \<noteq> 0" using assms(2) by (simp add: roles_def)
  have k: "keeps tr st (st\<lparr>tbuf := tb, mem := m, pf := p, pcore := e\<rparr>)"
    using pcore_memory [OF P r] exec_control [OF r] by (simp add: keeps_def control_def pctl_def mctl_def)
  show ?thesis
  proof (cases l)
    case (HostSegv a opc)
    then have "opc = None" "mem st a = None" using pcore_segv [OF P] r by blast+
    then have "aborts tr st st'" using k keepsD(9) [OF k] unfolding aborts_def
      by (intro exI [of _ a] exI [of _ "st\<lparr>tbuf := tb, mem := m, pf := p, pcore := e\<rparr>"]) (simp add: e(1) HostSegv)
    then show ?thesis using e(2) HostSegv by (simp add: calm_def)
  qed (use k e in \<open>simp_all add: calm_def\<close>)
qed

text \<open>An iteration on the main core is the run of one block of its program.\<close>

lemma run_next_main:
  assumes it: "run_next tr tb_exec fuel t st = Inr (x, st')" and r: "roles st" "cur st = MainCore" "cache_inv tr (cache st)"
    and s: "processor_state (mcore st) = IN_TRACE \<longrightarrow> processor_state (pcore st) = IN_TRACE"
  shows "\<exists>l a. plain (tbs (cache st) ! t) (arch (mcore st)) (mem st) = Inr (l, a, mem st') \<and>
      (arch (mcore st') = abort_arch l a \<or> x \<and> exception_index (mcore st') = EXCP_DATA_ABORT \<and>
        (\<exists>y. mem st' y = None \<and> arch (mcore st') = (abort_arch l a)\<lparr>c6_data := ucast y\<rparr>))"
    "core_inv tr st'" "x \<Longrightarrow> cur st' = MainCore"
proof -
  have p: "IsPCore (mcore st) = 0" using r(1) by (simp add: roles_def)
  have ready: "\<exists>st1. keeps tr st st1 \<and> cache st1 = cache st \<and> run_tb tb_exec t st1 = Inr (y, st2) \<and> t2 = t"
    if "skip_loop fuel tr t st = Inr (t1, st1)" "spp_next tr t1 st1 = Inr (t2, st2')" "track_distance st2' = Inr st3" "run_tb tb_exec t2 st3 = Inr (y, st2)"
    for t1 st1 t2 st2' st3 y st2
  proof -
    have a: "t1 = t" "st1 = st" using skip_loop_main [OF that(1) r(2) p] by simp_all
    have b: "t2 = t" "st2' = st" using spp_next_main [OF that(2) [unfolded a] r(2) p] by simp_all
    show ?thesis using track_distance_keeps(1) [OF that(3) [unfolded b] r(1), of tr] track_distance_keeps(2) [OF that(3) [unfolded b] r(1)] that(4) b(1) by blast
  qed
  have after: "\<exists>l a. plain (tbs (cache st) ! t) (arch (mcore st)) (mem st) = Inr (l, a, mem st2) \<and> arch (mcore st2) = abort_arch l a"
      "roles st2" "cur st2 = MainCore"
      "cache_inv tr (cache st2)" "processor_state (mcore st2) = IN_TRACE \<longrightarrow> processor_state (pcore st2) = IN_TRACE"
    if "keeps tr st st1" "cache st1 = cache st" "run_tb tb_exec t st1 = Inr (y, st2)" for st1 y st2
  proof -
    note k = keepsD [OF that(1)]
    have r1: "roles st1" "cur st1 = MainCore" using roles_keeps [OF that(1)] r k by simp_all
    note run = run_main [OF that(3) r1]
    show "\<exists>l a. plain (tbs (cache st) ! t) (arch (mcore st)) (mem st) = Inr (l, a, mem st2) \<and> arch (mcore st2) = abort_arch l a" using run(1) k that(2) by simp
    show "cur st2 = MainCore" by (rule run(2))
    show "roles st2" "cache_inv tr (cache st2)" "processor_state (mcore st2) = IN_TRACE \<longrightarrow> processor_state (pcore st2) = IN_TRACE"
      using run(3-5) r1(1) r(3) that(2) k s by (simp_all add: roles_def pctl_def)
  qed
  let ?P = "\<lambda>st'. \<exists>l a. plain (tbs (cache st) ! t) (arch (mcore st)) (mem st) = Inr (l, a, mem st') \<and>
      (arch (mcore st') = abort_arch l a \<or> x \<and> exception_index (mcore st') = EXCP_DATA_ABORT \<and>
        (\<exists>y. mem st' y = None \<and> arch (mcore st') = (abort_arch l a)\<lparr>c6_data := ucast y\<rparr>))"
  have "?P st' \<and> core_inv tr st' \<and> (x \<longrightarrow> cur st' = MainCore)" using it
  proof (cases rule: run_nextE)
    case (raise t1 st1 t2 st2 st3)
    obtain st0 where "keeps tr st st0" "cache st0 = cache st" "run_tb tb_exec t st0 = Inr (True, st')" using ready [OF raise(1-4)] by blast
    note a = after [OF this]
    then show ?thesis by (auto simp: core_inv_def)
  next
    case (finish t1 st1 t2 st2 st3 st4)
    obtain st0 where "keeps tr st st0" "cache st0 = cache st" "run_tb tb_exec t st0 = Inr (False, st4)" and t2: "t2 = t" using ready [OF finish(1-4)] by blast
    note a = after [OF this(1-3)]
    note fin = finish_main [OF finish(5) a(2-5)]
    have "cur st' = MainCore" if x
    proof -
      have "trace_and_report t2 (if IS_INTRACE (cur_env st4) then upd_env (\<lambda>e. e\<lparr>InstQuatum := InstQuatum e - 1\<rparr>) st4 else st4) = Inr (True, st')"
        using finish(5) that by (auto simp: finish_tb_def Let_def)
      from calmD(4) [OF trace_and_report_calm [OF this, of tr]] a(3) show ?thesis by (simp split: if_splits)
    qed
    moreover have "?P st'"
    proof (cases x)
      case True
      then show ?thesis using a(1) fin(2) fin(4) [OF True] by metis
    next
      case False
      then show ?thesis using a(1) fin(2,3) by metis
    qed
    ultimately show ?thesis using fin(1) by blast
  qed
  then show "?P st'" "core_inv tr st'" "x \<Longrightarrow> cur st' = MainCore" by blast+
qed

lemma iteration_main:
  assumes it: "exec_iteration tr tb_exec fuel st = Inr (x, st')" and inv: "core_inv tr st" and c: "cur st = MainCore"
  shows "guest_effect plain st x st' \<and> core_inv tr st' \<and> (x \<longrightarrow> cur st' = MainCore)"
proof -
  obtain pc cs_base flags where f: "cpu_get_tb_cpu_state (arch (mcore st)) = (pc, cs_base, flags)" by (metis prod_cases3)
  have i: "roles st" "cache_inv tr (cache st)" using inv by (simp_all add: core_inv_def)
  have start: "roles st2 \<and> cur st2 = MainCore \<and> cache_inv tr (cache st2) \<and> (processor_state (mcore st2) = IN_TRACE \<longrightarrow> processor_state (pcore st2) = IN_TRACE) \<and>
      arch (mcore st2) = arch (mcore st) \<and> mem st2 = mem st \<and> tb_matches pc cs_base flags (tbs (cache st2) ! t)"
    if "find_tb tr st = Inr (t, st1)" "enter_trace st1 = Inr st2" for t st1 st2
  proof -
    have k: "keeps tr st st1" by (rule find_tb_keeps(1) [OF that(1)])
    have r1: "roles st1" "cur st1 = MainCore" "cache_inv tr (cache st1)" using keepsD [OF k] roles_keeps [OF k] i c by simp_all
    note e = enter_main [OF that(2) r1]
    have "processor_state (mcore st1) = IN_TRACE \<longrightarrow> processor_state (pcore st1) = IN_TRACE" using inv keepsD [OF k] by (simp add: core_inv_def)
    then have t2: "processor_state (mcore st2) = IN_TRACE \<longrightarrow> processor_state (pcore st2) = IN_TRACE" using e(1) by metis
    have m2: "tb_matches pc cs_base flags (tbs (cache st2) ! t)" unfolding e(5) by (rule find_tb_keeps(3) [OF that(1) i(2) c f])
    have v2: "arch (mcore st2) = arch (mcore st)" "mem st2 = mem st" using e(2,3) keepsD(1,9) [OF k] by simp_all
    from e(4,6,7) t2 m2 v2 show ?thesis by blast
  qed
  from it show ?thesis
  proof (cases rule: exec_iterationE)
    case (leave t st1 st2)
    note s = start [OF leave(1,2)]
    have False using leave_main(1) [OF leave(3)] s by blast
    then show ?thesis ..
  next
    case (run t st1 st2 st3)
    note s = start [OF run(1,2)]
    have "st3 = st2" using leave_main(2) [OF run(3)] s by simp
    then have "run_next tr tb_exec fuel t st2 = Inr (x, st')" using run(4) by simp
    note n = run_next_main [OF this]
    obtain l a where l: "plain (tbs (cache st2) ! t) (arch (mcore st)) (mem st) = Inr (l, a, mem st')"
      "arch (mcore st') = abort_arch l a \<or> x \<and> exception_index (mcore st') = EXCP_DATA_ABORT \<and>
        (\<exists>y. mem st' y = None \<and> arch (mcore st') = (abort_arch l a)\<lparr>c6_data := ucast y\<rparr>)"
      using n(1) s by metis
    have "plain_step plain (view st) (abort_arch l a, mem st')"
      unfolding plain_step_def using s l(1) f by (auto simp: view_def)
    then have "guest_effect plain st x st'" unfolding guest_effect_def using l(2) c by (intro exI [of _ "(abort_arch l a, mem st')"]) (auto simp: view_def)
    then show ?thesis using n(2,3) s by blast
  qed
qed

text \<open>An iteration on the prefetch core leaves the main core and guest memory alone, and gives control back.\<close>

lemma iteration_pcore:
  assumes it: "exec_iteration tr tb_exec fuel st = Inr (x, st')" and inv: "core_inv tr st" and c: "cur st = PrefetchCore"
  shows "guest_effect plain st x st' \<and> core_inv tr (if x then st'\<lparr>cur := MainCore\<rparr> else st') \<and> (\<not> x \<longrightarrow> cur st' = MainCore) \<and>
    (x \<longrightarrow> InstQuatum (mcore st') = 0 \<and> processor_state (mcore st') = IN_TRACE)"
proof -
  have start: "keeps tr st st2" if "find_tb tr st = Inr (t, st1)" "enter_trace st1 = Inr st2" for t st1 st2
  proof -
    have k: "keeps tr st st1" by (rule find_tb_keeps(1) [OF that(1)])
    have "st2 = st1" by (rule enter_pcore [OF that(2)]) (use keepsD [OF k] roles_keeps [OF k] inv c in \<open>simp_all add: core_inv_def\<close>)
    then show ?thesis using k by simp
  qed
  have q: "InstQuatum (mcore st) = 0" "processor_state (mcore st) = IN_TRACE" using inv c by (simp_all add: core_inv_def)
  have calm_effect: "guest_effect plain st x s'" if "calm tr x s s'" "view s = view st" for s s'
  proof (cases "keeps tr s s'")
    case True
    then show ?thesis using that(2) keepsD(1,9) [OF True] c by (simp add: guest_effect_def view_def)
  next
    case False
    then have a: "x" "aborts tr s s'" using that(1) by (simp_all add: calm_def)
    from a(2) obtain y where "mem s y = None" "arch (mcore s') = (arch (mcore s))\<lparr>c6_data := ucast y\<rparr>" "exception_index (mcore s') = EXCP_DATA_ABORT"
      by (rule abortsE)
    then show ?thesis using a(1) that(2) calmD(3) [OF that(1)] c by (auto simp: guest_effect_def view_def)
  qed
  from it show ?thesis
  proof (cases rule: exec_iterationE)
    case (leave t st1 st2)
    note k = start [OF leave(1,2)]
    have r: "roles st2" "cur st2 = PrefetchCore" "core_inv tr st2" using core_inv_keeps [OF k inv] keepsD(10) [OF k] c by (simp_all add: core_inv_def)
    note l = leave_pcore(2) [OF leave(3) r(1,2) TrueI]
    have "core_inv tr st'" using l r(3) by (simp add: core_inv_def PRE_TRACE_def IN_TRACE_def)
    then show ?thesis using l keepsD(1,9) [OF k] leave(4) c by (simp add: guest_effect_def view_def)
  next
    case (run t st1 st2 st3)
    note k = start [OF run(1,2)]
    have r: "roles st2" "cur st2 = PrefetchCore" "core_inv tr st2" using core_inv_keeps [OF k inv] keepsD(10) [OF k] c by (simp_all add: core_inv_def)
    have "st3 = st2" using leave_pcore(1) [OF run(3) r(1,2)] by simp
    then have rn: "run_next tr tb_exec fuel t st2 = Inr (x, st')" using run(4) by simp
    have ready: "calm tr y st st6" if "skip_loop fuel tr t st2 = Inr (t1, st3)" "spp_next tr t1 st3 = Inr (t2, st4)" "track_distance st4 = Inr st5" "run_tb tb_exec t2 st5 = Inr (y, st6)"
      for t1 st3 t2 st4 st5 y st6
    proof -
      have k3: "keeps tr st2 st3" by (rule skip_loop_keeps [OF that(1) r(2)])
      have c3: "cur st3 = PrefetchCore" using keepsD(10) [OF k3] r(2) by simp
      have k4: "keeps tr st2 st4" by (rule keeps_trans [OF k3 spp_next_keeps [OF that(2) c3]])
      have r4: "roles st4" using roles_keeps [OF k4] r(1) by simp
      have k5: "keeps tr st2 st5" by (rule keeps_trans [OF k4 track_distance_keeps(1) [OF that(3) r4]])
      have r5: "roles st5" "cur st5 = PrefetchCore" using roles_keeps [OF k5] keepsD(10) [OF k5] r by simp_all
      show ?thesis by (rule calm_keeps [OF k calm_keeps [OF k5 run_pcore [OF that(4) r5]]])
    qed
    from rn show ?thesis
    proof (cases rule: run_nextE)
      case (raise t1 st3 t2 st4 st5)
      note k' = ready [OF raise(1-4)]
      have "core_inv tr (st'\<lparr>cur := MainCore\<rparr>)" using calmD [OF k'] inv c by (simp add: core_inv_def roles_def pctl_def)
      then show ?thesis using calm_effect [of st st'] k' calmD(1) [OF k'] raise(5) q by (simp add: pctl_def)
    next
      case (finish t1 st3 t2 st4 st5 st6)
      have k': "keeps tr st st6" using ready [OF finish(1-4)] by simp
      have c6: "cur st6 = PrefetchCore" using keepsD(10) [OF k'] c by simp
      note fin = finish_pcore [OF finish(5) core_inv_keeps [OF k' inv] c6]
      have v6: "view st6 = view st" using keepsD(1,9) [OF k'] by (simp add: view_def)
      show ?thesis
      proof (cases x)
        case True
        then have l: "calm tr x (st6\<lparr>pcore := (pcore st6)\<lparr>InstQuatum := 0\<rparr>\<rparr>) st'" using fin(5) by simp
        have "guest_effect plain st x st'" by (rule calm_effect [OF l]) (use v6 in \<open>simp add: view_def\<close>)
        moreover have "processor_state (mcore st') = IN_TRACE" using calmD(1) [OF l] keepsD(3) [OF k'] q by (simp add: pctl_def)
        ultimately show ?thesis using True fin(1,3) by simp
      next
        case False
        then show ?thesis using fin(1,2,4) v6 c by (simp add: guest_effect_def view_def)
      qed
    qed
  qed
qed

lemma iteration_effect:
  assumes "exec_iteration tr tb_exec fuel st = Inr (x, st')" "core_inv tr st"
  shows "guest_effect plain st x st' \<and> core_inv tr (if x then st'\<lparr>cur := MainCore\<rparr> else st') \<and> (cur st = PrefetchCore \<and> \<not> x \<longrightarrow> cur st' = MainCore)"
proof (cases "cur st")
  case MainCore
  then show ?thesis using iteration_main [OF assms MainCore] by (auto simp: core_inv_def roles_def)
next
  case PrefetchCore
  then show ?thesis using iteration_pcore [OF assms PrefetchCore] by simp
qed

text \<open>Runs: all steps, and those of the main core\<close>

lemma step_inv:
  assumes "exec_step tr tb_exec fuel st st'" "core_inv tr st"
  shows "core_inv tr st' \<and> (if cur st = MainCore then plain_step plain (view st) (view st') else view st' = view st \<and> cur st' = MainCore)"
  using assms(1)
proof (cases rule: exec_step.cases)
  case iterate
  then show ?thesis using iteration_effect [OF iterate assms(2)] by (cases "cur st") (auto simp: guest_effect_def)
next
  case (stay st1)
  then have "view st1 = view st'" "cur st' = MainCore" "exception_index (mcore st1) \<noteq> EXCP_DATA_ABORT" by (auto simp: view_def EXCP_DATA_ABORT_def)
  then show ?thesis using iteration_effect [OF stay(2) assms(2)] stay(1) by (cases "cur st") (auto simp: guest_effect_def)
qed

lemma run_inv:
  assumes "exec_run tr tb_exec fuel st n k st'" "core_inv tr st"
  shows "core_inv tr st' \<and> (plain_step plain ^^ k) (view st) (view st') \<and>
    n + (if cur st' = PrefetchCore then 1 else 0) \<le> 2 * k + (if cur st = PrefetchCore then 1 else 0)"
  using assms
proof (induction rule: exec_run.induct)
  case (more st n k st1 st2)
  note i = more.IH [OF more.prems]
  then have "core_inv tr st1" by blast
  from step_inv [OF more.hyps(2) this] i show ?case by (cases "cur st1") (auto split: if_splits)
next
  case (write_fault st n k st1 a r c)
  then show ?case using core_inv_unprotect [OF write_fault.hyps(2)] by (simp add: view_def)
qed simp

text \<open>In trace, the main core counts its quantum down, and keeps running until it is 0.\<close>

lemma main_quantum:
  assumes "exec_step tr tb_exec fuel st st'" "core_inv tr st" "cur st = MainCore" "processor_state (mcore st) = IN_TRACE" "InstQuatum (mcore st) \<noteq> 1"
  shows "cur st' = MainCore \<and> processor_state (mcore st') = IN_TRACE \<and> InstQuatum (mcore st') \<in> {InstQuatum (mcore st), InstQuatum (mcore st) - 1}"
proof -
  obtain x st1 where it: "exec_iteration tr tb_exec fuel st = Inr (x, st1)" and e: "st' = (if x then st1\<lparr>cur := MainCore\<rparr> else st1)"
    using exec_step_shape [OF assms(1)] by blast
  have quiet: "st2 = st1'" if "enter_trace st1' = Inr st2" "cur st1' = MainCore" "processor_state (mcore st1') = IN_TRACE" for st1' st2
    using that by (simp add: enter_trace_def IS_PRETRACE_def PRE_TRACE_def IN_TRACE_def)
  have i: "roles st" "IsPCore (mcore st) = 0" "processor_state (pcore st) = IN_TRACE" using assms(2,4) by (simp_all add: core_inv_def roles_def)
  have go: "cur st1 = MainCore \<and> processor_state (mcore st1) = IN_TRACE \<and> InstQuatum (mcore st1) \<in> {InstQuatum (mcore st), InstQuatum (mcore st) - 1}"
    if "find_tb tr st = Inr (t, sa)" "enter_trace sa = Inr sb" "leave_trace sb = Inr (False, sc)" "run_next tr tb_exec fuel t sc = Inr (x, st1)" for t sa sb sc
  proof -
    have ka: "keeps tr st sa" by (rule find_tb_keeps(1) [OF that(1)])
    have "sb = sa" by (rule quiet [OF that(2)]) (use keepsD [OF ka] assms(3,4) in simp_all)
    moreover have ra: "roles sa" "cur sa = MainCore" "IsPCore (mcore sa) = 0" using roles_keeps [OF ka] keepsD [OF ka] i assms(3) by simp_all
    ultimately have "sc = sa" using leave_main(2) [OF that(3)] by simp
    with that(4) have "run_next tr tb_exec fuel t sa = Inr (x, st1)" by simp
    have before: "keeps tr st s3 \<and> roles s3 \<and> cur s3 = MainCore"
      if "skip_loop fuel tr t sa = Inr (t1, s1)" "spp_next tr t1 s1 = Inr (t2, s2)" "track_distance s2 = Inr s3" for t1 s1 t2 s2 s3
    proof -
      have a: "s1 = sa" using skip_loop_main(2) [OF that(1) ra(2,3)] .
      have b: "s2 = sa" using spp_next_main(2) [OF that(2) [unfolded a] ra(2,3)] .
      have k: "keeps tr sa s3" by (rule track_distance_keeps(1) [OF that(3) [unfolded b] ra(1)])
      show ?thesis using keeps_trans [OF ka k] roles_keeps [OF k] keepsD(10) [OF k] ra by simp
    qed
    from \<open>run_next tr tb_exec fuel t sa = Inr (x, st1)\<close> show ?thesis
    proof (cases rule: run_nextE)
      case (raise t1 s1 t2 s2 s3)
      note b = before [OF raise(1-3)]
      then have b': "keeps tr st s3" "roles s3" "cur s3 = MainCore" by blast+
      have "pctl (mcore st1) = pctl (mcore s3)" "cur st1 = MainCore" using run_main(2,5) [OF raise(4) b'(2,3)] by simp_all
      then show ?thesis using keepsD(3,4) [OF b'(1)] assms(4) raise(5) by (simp add: pctl_def)
    next
      case (finish t1 s1 t2 s2 s3 s4)
      note b = before [OF finish(1-3)]
      then have b': "keeps tr st s3" "roles s3" "cur s3 = MainCore" by blast+
      note r = run_main(2,5) [OF finish(4) b'(2,3)]
      have s4: "cur s4 = MainCore" "processor_state (mcore s4) = IN_TRACE" "InstQuatum (mcore s4) = InstQuatum (mcore st)"
        using r keepsD(3,4) [OF b'(1)] assms(4) by (simp_all add: pctl_def)
      obtain s5 where t5: "trace_and_report t2 (s4\<lparr>mcore := (mcore s4)\<lparr>InstQuatum := InstQuatum (mcore s4) - 1\<rparr>\<rparr>) = Inr (x, s5)"
        and e5: "st1 = (if x then s5 else switch_core s5)"
        using finish(5) s4 by (auto simp: finish_tb_def Let_def IS_INTRACE_def)
      note k5 = calmD(1,4) [OF trace_and_report_calm [OF t5, of tr]]
      have "cur s5 = MainCore" "processor_state (mcore s5) = IN_TRACE" "InstQuatum (mcore s5) = InstQuatum (mcore st) - 1"
        using k5 s4 by (simp_all add: pctl_def)
      moreover have "InstQuatum (mcore st) - 1 \<noteq> 0" using assms(5) by simp
      ultimately show ?thesis by (simp add: e5 switch_core_def)
    qed
  qed
  from it show ?thesis
  proof (cases rule: exec_iterationE)
    case (leave t sa sb)
    have ka: "keeps tr st sa" by (rule find_tb_keeps(1) [OF leave(1)])
    have "sb = sa" by (rule quiet [OF leave(2)]) (use keepsD [OF ka] assms(3,4) in simp_all)
    then have False using leave_main(1) [OF leave(3)] roles_keeps [OF ka] keepsD(10) [OF ka] i(1) assms(3) by simp
    then show ?thesis ..
  next
    case (run t sa sb sc)
    from go [OF run] show ?thesis by (simp add: e)
  qed
qed

text \<open>In trace with its quantum at 0, the main core runs alone for the next \<open>2^32\<close> iterations.\<close>

lemma starved_run:
  assumes "exec_run tr tb_exec fuel st n k st'" "n \<le> 2 ^ 32" "core_inv tr st" "InstQuatum (mcore st) = 0"
    "processor_state (mcore st) = IN_TRACE" "cur st = MainCore"
  shows "core_inv tr st' \<and> k = n \<and> (n < 2 ^ 32 \<longrightarrow> cur st' = MainCore \<and> processor_state (mcore st') = IN_TRACE \<and>
    (InstQuatum (mcore st') = 0 \<or> 2 ^ 32 - n \<le> unat (InstQuatum (mcore st'))))"
  using assms
proof (induction rule: exec_run.induct)
  case (none st)
  then show ?case by simp
next
  case (more st n k st1 st2)
  have n: "n < 2 ^ 32" using more.prems(1) by simp
  then have h: "core_inv tr st1" "k = n" "cur st1 = MainCore" "processor_state (mcore st1) = IN_TRACE"
    "InstQuatum (mcore st1) = 0 \<or> 2 ^ 32 - n \<le> unat (InstQuatum (mcore st1))"
    using more.IH [OF _ more.prems(2-5)] by simp_all
  have inv: "core_inv tr st2" using step_inv [OF more.hyps(2) h(1)] by blast
  have "cur st2 = MainCore \<and> processor_state (mcore st2) = IN_TRACE \<and> (InstQuatum (mcore st2) = 0 \<or> 2 ^ 32 - Suc n \<le> unat (InstQuatum (mcore st2)))"
    if "Suc n < 2 ^ 32"
  proof -
    let ?q = "InstQuatum (mcore st1)"
    have "?q \<noteq> 1" using h(5) that by auto
    note m = main_quantum [OF more.hyps(2) h(1,3,4) this]
    have "?q - 1 = 0 \<or> 2 ^ 32 - Suc n \<le> unat (?q - 1)"
    proof (cases "?q = 0")
      case True
      have "unat (- 1 :: u32) = 2 ^ 32 - 1" by (simp add: unsigned_minus_1_eq_mask mask_eq_exp_minus_1)
      then show ?thesis by (simp add: True)
    next
      case False
      then have "unat (?q - 1) = unat ?q - 1" by (simp add: unat_minus_one)
      then show ?thesis using h(5) False by auto
    qed
    then show ?thesis using m h(5) by auto
  qed
  then show ?case using inv h(2,3) by simp
next
  case (write_fault st n k st1 a r c)
  then show ?case using core_inv_unprotect [OF write_fault.hyps(2)] by simp
qed

end

section \<open>The code of a block\<close>

lemma scheme_eq:
  assumes "shadow_env.more e' = shadow_env.more e" "IsPCore e' = IsPCore (e :: 'r CPUState)"
  shows "control e' = control e" "arch e' = arch e"
  using assms by (cases e; cases e'; simp add: control_def)+

lemma load_loop_more: "shadow_load_loop m i k e = Inr (segv, e') \<Longrightarrow>
    shadow_env.more e' = shadow_env.more e \<and> IsPCore e' = IsPCore e \<and> (\<forall>a. segv = Some a \<longrightarrow> m a = None)"
proof (induction k arbitrary: i e)
  case (Suc k)
  show ?case
  proof (cases "fetch_translated_linear e m (ld_linear e + of_nat i)")
    case None
    then show ?thesis using Suc.prems by (auto simp: fetch_translated_linear_def split: option.splits)
  next
    case (Some d)
    then have "shadow_load_loop m (Suc i) k (e\<lparr>ld_databytes := (ld_databytes e)[i := d]\<rparr>) = Inr (segv, e')" using Suc.prems by simp
    from Suc.IH [OF this] show ?thesis by simp
  qed
qed simp

lemma shadow_store_more [simp]: "shadow_env.more (shadow_store e a d) = shadow_env.more e"
  by (simp add: shadow_store_def store_byte_eq)

lemma store_loop_more: "shadow_store_loop i k e = Inr e' \<Longrightarrow> shadow_env.more e' = shadow_env.more e \<and> IsPCore e' = IsPCore e"
proof (induction k arbitrary: i e)
  case (Suc k)
  let ?e = "shadow_store e (st_linear e + of_nat i) (st_databytes e ! i)"
  have "shadow_store_loop (Suc i) k ?e = Inr e'"
    using Suc.prems by (simp add: check_def shadow_store_def split: if_splits)
  from Suc.IH [OF this] show ?case by simp
qed simp

lemma ld_direct_frame:
  assumes "qemu_ld_direct sizeop base ofs e m p = Inr (r, e', p')"
  shows "shadow_env.more e' = shadow_env.more e" "IsPCore e' = IsPCore e" "r = Segv a \<Longrightarrow> m a = None"
    "IsPCore e = 0 \<Longrightarrow> e' = e \<and> p' = p \<and> sizeop \<in> {0, 1, 2, 3, 4, 5, 6} \<and> r = host_ld sizeop m (base + ofs)"
proof -
  show m: "IsPCore e = 0 \<Longrightarrow> e' = e \<and> p' = p \<and> sizeop \<in> {0, 1, 2, 3, 4, 5, 6} \<and> r = host_ld sizeop m (base + ofs)"
    using assms by (auto simp: qemu_ld_direct_def split: if_splits)
  have "shadow_env.more e' = shadow_env.more e \<and> IsPCore e' = IsPCore e \<and> (r = Segv a \<longrightarrow> m a = None)"
  proof (cases "IsPCore e = 0")
    case True
    then show ?thesis using m [OF True] host_ld_Segv [of sizeop m "base + ofs" a] by simp
  next
    case False
    then obtain segv where s: "esesc_shadow_load_process (e\<lparr>ld_size := of_nat (ld_width sizeop), ld_linear := ucast (base + ofs)\<rparr>) m p = Inr (segv, e', p')"
      and r: "r = Segv a \<longrightarrow> segv = Some a"
      using assms by (auto simp: qemu_ld_direct_def qemu_ld_shadow_def split: if_splits option.splits)
    then obtain i k e0 where "shadow_load_loop m i k e0 = Inr (segv, e')" "shadow_env.more e0 = shadow_env.more e" "IsPCore e0 = IsPCore e"
      by (fastforce simp: esesc_shadow_load_process_def split: option.splits)
    from load_loop_more [OF this(1)] this(2,3) r show ?thesis by simp
  qed
  then show "shadow_env.more e' = shadow_env.more e" "IsPCore e' = IsPCore e" "r = Segv a \<Longrightarrow> m a = None" by blast+
qed

lemma st_direct_frame:
  assumes "qemu_st_direct sizeop lo hi base ofs e m = Inr (segv, e', m')"
  shows "shadow_env.more e' = shadow_env.more e" "IsPCore e' = IsPCore e" "IsPCore e \<noteq> 0 \<Longrightarrow> m' = m \<and> segv = None"
    "IsPCore e = 0 \<Longrightarrow> e' = e \<and> sizeop \<in> {0, 1, 2, 3} \<and> segv = host_segv (writable m) (base + ofs) (2 ^ sizeop) \<and>
      m' = (if segv = None then host_store m (base + ofs) (le_bytes (2 ^ sizeop) lo) else m)"
proof -
  show *: "IsPCore e = 0 \<Longrightarrow> e' = e \<and> sizeop \<in> {0, 1, 2, 3} \<and> segv = host_segv (writable m) (base + ofs) (2 ^ sizeop) \<and>
      m' = (if segv = None then host_store m (base + ofs) (le_bytes (2 ^ sizeop) lo) else m)"
    using assms by (auto simp: qemu_st_direct_def split: if_splits option.splits)
  have p: "\<exists>i k e0. shadow_store_loop i k e0 = Inr e' \<and> shadow_env.more e0 = shadow_env.more e \<and> IsPCore e0 = IsPCore e \<and> m' = m \<and> segv = None"
    if "IsPCore e \<noteq> 0"
    using assms that by (fastforce simp: qemu_st_direct_def qemu_st_shadow_def esesc_shadow_store_process_def ISPCORE_def split: if_splits)
  then show "IsPCore e \<noteq> 0 \<Longrightarrow> m' = m \<and> segv = None" by blast
  have "shadow_env.more e' = shadow_env.more e \<and> IsPCore e' = IsPCore e"
  proof (cases "IsPCore e = 0")
    case True
    then show ?thesis using * by simp
  next
    case False
    then show ?thesis using p store_loop_more by metis
  qed
  then show "shadow_env.more e' = shadow_env.more e" "IsPCore e' = IsPCore e" by blast+
qed

lemma run_micros_laws:
  assumes "run_micros ms e tb m p = Inr (l, e', tb', m', p')"
  shows "control e' = control e \<and> (IsPCore e \<noteq> 0 \<longrightarrow> m' = m \<and> (\<forall>a opc. l = HostSegv a opc \<longrightarrow> opc = None \<and> m a = None)) \<and>
    (IsPCore e = 0 \<longrightarrow> plain_micros ms (arch e) m = Inr (l, arch e', m'))"
  using assms
proof (induction ms e tb m p rule: run_micros.induct)
  case (2 f ms e tb m p)
  then show ?case by (simp add: control_def)
next
  case (3 opc sizeop addr f ms e tb m p)
  obtain r e1 p1 where ld: "qemu_ld_direct sizeop (addr (arch e)) 0 e m p = Inr (r, e1, p1)"
    using "3.prems" by auto
  note d = ld_direct_frame [OF ld] and q = scheme_eq [OF ld_direct_frame(1,2) [OF ld]]
  show ?case
  proof (cases r)
    case (Segv a)
    then have e: "l = HostSegv a (if ISPCORE e then None else Some opc)" "e' = e1" "m' = m" using "3.prems" ld by auto
    have "host_ld sizeop m (addr (arch e)) = Segv a" "sizeop \<in> {0, 1, 2, 3, 4, 5, 6}" if "IsPCore e = 0" using d(4) [OF that] Segv by simp_all
    then show ?thesis using d(3) [OF Segv] q by (simp add: e ISPCORE_def)
  next
    case (Loaded v)
    then have rn: "run_micros ms (e1\<lparr>arch := f v (arch e1)\<rparr>) tb m p1 = Inr (l, e', tb', m', p')" using "3.prems" ld by simp
    note i = "3.IH" [OF Loaded rn]
    have "host_ld sizeop m (addr (arch e)) = Loaded v" "sizeop \<in> {0, 1, 2, 3, 4, 5, 6}" if "IsPCore e = 0" using d(4) [OF that] Loaded by simp_all
    then show ?thesis using i d(2) q by (simp add: control_def)
  qed
next
  case (4 opc sizeop addr data ms e tb m p)
  obtain segv e1 m1 where st: "qemu_st_direct sizeop (data (arch e)) 0 (addr (arch e)) 0 e m = Inr (segv, e1, m1)"
    using "4.prems" by auto
  note d = st_direct_frame [OF st] and q = scheme_eq [OF st_direct_frame(1,2) [OF st]]
  show ?case
  proof (cases segv)
    case (Some a)
    then have e: "l = HostSegv a (Some opc)" "e' = e1" "m' = m1" using "4.prems" st by auto
    have "host_segv (writable m) (addr (arch e)) (2 ^ sizeop) = Some a" "sizeop \<in> {0, 1, 2, 3}" "m1 = m" if "IsPCore e = 0"
      using d(4) [OF that] Some by simp_all
    moreover have "IsPCore e = 0" using d(3) Some by auto
    ultimately show ?thesis using q by (simp add: e)
  next
    case None
    then have rn: "run_micros ms e1 tb m1 p = Inr (l, e', tb', m', p')" using "4.prems" st by simp
    note i = "4.IH" [OF None rn]
    have "host_segv (writable m) (addr (arch e)) (2 ^ sizeop) = None" "sizeop \<in> {0, 1, 2, 3}"
      "m1 = host_store m (addr (arch e)) (le_bytes (2 ^ sizeop) (data (arch e)))" if "IsPCore e = 0" using d(4) [OF that] None by simp_all
    then show ?thesis using i d(2,3) q by (auto simp: control_def)
  qed
next
  case (5 f ms e tb m p)
  obtain tc tb1 where f: "f (arch e) (tcnt e) tb = (tc, tb1)" by fastforce
  then have r: "run_micros ms (e\<lparr>tcnt := tc\<rparr>) tb1 m p = Inr (l, e', tb', m', p')" using "5.prems" by simp
  from "5.IH" [OF f [symmetric] r] show ?case by (simp add: control_def)
qed (auto simp: control_def)

interpretation code_of: generated_code "run_code code" "\<lambda>b. plain_micros (code b)" for code
  by unfold_locales (unfold run_code_def, (drule run_micros_laws, simp)+)

section \<open>Properties\<close>

text \<open>A start of the loop on an example: a slice with one instruction and both cores in trace\<close>

definition idle_core :: "u32 \<Rightarrow> unit CPUState" where
  "idle_core r = \<lparr>IsPCore = r, st_size = 0, ld_size = 0, st_linear = 0, ld_linear = 0,
     st_databytes = replicate 8 0, ld_databytes = replicate 8 0, blinear = 0, bdata = 0, sbytes = (\<lambda>_. []), sbytes_size = 0,
     arch = \<lparr>regs = (\<lambda>_. 0), thumb = 0, vec_len = 0, vec_stride = 0, condexec_bits = 0, uncached_cpsr = 0x10, fpexc = 0, c6_data = 0, arch_rest = ()\<rparr>,
     tcnt = \<lparr>xtrace_op_cnt = 0, op_cnt = 0, bogus_record = 0\<rparr>, fid = 0,
     slice = \<lparr>ptrc_pc_idx = [1], ptrc_pc = [[0]], stop_pc_idx = 0, stop_pc = [0],
       skip_pc_idx = [0], skip_pc = [[0]], sppslice_pc_idx = 0, sppslice_pc = [0]\<rparr>,
     current_stop_pc_idx = 0, current_sppslice_pc_idx = 0, processor_state = IN_TRACE, InstQuatum = 1,
     prefetchDistance = 0, maxPrefetchDistance = 0, exception_index = - 1\<rparr>"

definition loop_start :: "core \<Rightarrow> unit exec_state" where
  "loop_start c = \<lparr>mcore = (idle_core 0)\<lparr>InstQuatum := (if c = MainCore then 1 else 0)\<rparr>, pcore = idle_core 1, cur = c, mem = ex_mem 0,
     pf = \<lparr>prefetch_address = [0, 0, 0, 0], prefetch_address_idx = 0, runAheadThreshold = 4\<rparr>, cache = start_context,
     tbuf = ex_buf, total_cnt = 0,
     prefetchAccuracy = 2, confidence = 3, sppsliceAllowed = True, has_sppslice = False, max_sbytes_size = 0,
     esesc_allow_large_tb = (\<lambda>_. 0), esesc_single_inst_tb = (\<lambda>_. 1), queue = []\<rparr>"

lemma loop_start_inv: "core_inv single_inst_translator (loop_start c)"
  using tb_invI [OF start_good]
  by (cases c) (simp_all add: core_inv_def roles_def loop_start_def idle_core_def cache_inv_def start_context_def tcg_exec_init_def)

lemma idle_core_simps [simp]:
  "ISPCORE (idle_core r) \<longleftrightarrow> r \<noteq> 0" "IS_INTRACE (idle_core r)" "GET_PC (idle_core r) = 0" "current_stop_pc_idx (idle_core r) = 0"
  "slice (idle_core r) = \<lparr>ptrc_pc_idx = [1], ptrc_pc = [[0]], stop_pc_idx = 0, stop_pc = [0], skip_pc_idx = [0], skip_pc = [[0]], sppslice_pc_idx = 0, sppslice_pc = [0]\<rparr>"
  "cpu_get_tb_cpu_state (arch (idle_core r)) = (0, 0, 0)" "tcnt (idle_core r) = \<lparr>xtrace_op_cnt = 0, op_cnt = 0, bogus_record = 0\<rparr>"
  "fid (idle_core r) = 0" "IsPCore (idle_core r) = r" "processor_state (idle_core r) = IN_TRACE" "InstQuatum (idle_core r) = 1"
  by (simp_all add: idle_core_def ISPCORE_def IS_INTRACE_def GET_PC_def cpu_get_tb_cpu_state_def)

lemma loop_start_simps [simp]:
  "cur (loop_start c) = c" "cache (loop_start c) = start_context" "has_sppslice (loop_start c) = False" "pcore (loop_start c) = idle_core 1"
  "mcore (loop_start MainCore) = idle_core 0" "tbuf (loop_start c) = ex_buf" "esesc_allow_large_tb (loop_start c) = (\<lambda>_. 0)"
  by (simp_all add: loop_start_def idle_core_def)

lemma quiet_trace:
  assumes "tcnt (cur_env st) = \<lparr>xtrace_op_cnt = 0, op_cnt = 0, bogus_record = 0\<rparr>" "tbuf st = ex_buf" "esesc_allow_large_tb st = (\<lambda>_. 0)"
    "cur st = MainCore"
  shows "\<exists>st'. trace_and_report t st = Inr (False, st')"
proof -
  have c: "xtrm_trace_sanity_check \<lparr>xtrace_op_cnt = 0, op_cnt = 0, bogus_record = 0\<rparr> ex_buf n = Inr n" for n
    by (simp add: xtrm_trace_sanity_check_def Let_def ex_buf_def ex_tp_def IS_VALID_OR_NULL_ARCH_REG_def IS_VALID_ARCH_REG_def INVALID_REG_def One_nat_def)
  have x: "xtrm_trace_expand \<lparr>xtrace_op_cnt = 0, op_cnt = 0, bogus_record = 0\<rparr> ex_buf = Inr (\<lparr>xtrace_op_cnt = 0, op_cnt = 0, bogus_record = 0\<rparr>, ex_buf)"
    by (simp add: xtrm_trace_expand_def)
  have r: "\<exists>e b. xtrace_reset_trace_points \<lparr>xtrace_op_cnt = 0, op_cnt = 0, bogus_record = 0\<rparr> ex_buf = Inr (e, b)"
    by (simp add: xtrace_reset_trace_points_def ex_buf_def One_nat_def)
  show ?thesis using assms c x r by (auto simp: trace_and_report_def report_def Let_def)
qed

text \<open>A step of the main core on the example, for code that computes\<close>

lemma main_step:
  assumes inv: "core_inv single_inst_translator st" and c: "cur st = MainCore" and m: "mcore st = (idle_core 0)\<lparr>InstQuatum := q\<rparr>"
    and b: "tbuf st = ex_buf" "esesc_allow_large_tb st = (\<lambda>_. 0)"
    and code: "\<And>b e tb m p. IsPCore e = 0 \<Longrightarrow> GET_PC e = 0 \<Longrightarrow> run_micros (code b) e tb m p = Inr (Returned, e\<lparr>arch := f (arch e)\<rparr>, tb, m, p)"
  shows "\<exists>st'. exec_step single_inst_translator (run_code code) 1 st st'"
proof -
  obtain B P where g: "tb_good single_inst_translator (cache st) B P" using inv by (auto simp: core_inv_def cache_inv_def tb_inv_def)
  obtain t ca where f: "tb_find_fast single_inst_translator 0 0 0 0 (cache st) = Inr (t, ca)"
    by (rule tb_find_fast_any [OF g]) blast
  let ?q = "st\<lparr>cache := ca\<rparr>"
  have a: "find_tb single_inst_translator st = Inr (t, ?q)" using f c m by (simp add: find_tb_def idle_core_def cpu_get_tb_cpu_state_def)
  have cu: "cur ?q = MainCore" "mcore ?q = (idle_core 0)\<lparr>InstQuatum := q\<rparr>" using c m by simp_all
  note i = idle_core_def ISPCORE_def IS_INTRACE_def GET_PC_def
  have e: "enter_trace ?q = Inr ?q" using c m by (simp add: enter_trace_def IS_PRETRACE_def PRE_TRACE_def IN_TRACE_def i)
  have l: "leave_trace ?q = Inr (False, ?q)" using c m by (simp add: leave_trace_def Let_def i)
  have k: "skip_loop 1 single_inst_translator t ?q = Inr (t, ?q)" using c m by (simp add: One_nat_def i)
  have n: "spp_next single_inst_translator t ?q = Inr (t, ?q)" using c m by (simp add: spp_next_def i)
  define r where "r = ?q\<lparr>pcore := (pcore st)\<lparr>prefetchDistance := prefetchDistance (pcore st) - 1\<rparr>\<rparr>"
  have d: "track_distance ?q = Inr r" using c m by (simp add: track_distance_def Let_def qemu_stop_pc_monitor_def r_def i)
  define s where "s = r\<lparr>mcore := (mcore r)\<lparr>arch := f (arch (mcore r))\<rparr>\<rparr>"
  have s: "run_tb (run_code code) t r = Inr (False, s)"
  proof -
    have "run_micros (code b) (mcore r) tb m p = Inr (Returned, (mcore r)\<lparr>arch := f (arch (mcore r))\<rparr>, tb, m, p)" for b tb m p
      by (rule code) (use m in \<open>simp_all add: r_def i\<close>)
    then show ?thesis using c by (simp add: run_tb_def run_code_def s_def r_def)
  qed
  have s': "cur s = MainCore" "tbuf s = ex_buf" "esesc_allow_large_tb s = (\<lambda>_. 0)" "tcnt (mcore s) = tcnt (idle_core 0)" "processor_state (mcore s) = IN_TRACE"
    using c b m by (simp_all add: s_def r_def)
  have "\<exists>u. trace_and_report t (s\<lparr>mcore := (mcore s)\<lparr>InstQuatum := InstQuatum (mcore s) - 1\<rparr>\<rparr>) = Inr (False, u)"
    by (rule quiet_trace) (use s' in simp_all)
  then have "\<exists>u. finish_tb t s = Inr (False, u)" using s' by (auto simp: finish_tb_def Let_def IS_INTRACE_def)
  then have "\<exists>u. exec_iteration single_inst_translator (run_code code) 1 st = Inr (False, u)"
    using a e l k n d s by (auto simp: exec_iteration_def run_next_def)
  then show ?thesis using exec_step.iterate by blast
qed

lemma one_step_run: "exec_step tr e fuel st st' \<Longrightarrow> cur st = MainCore \<Longrightarrow> exec_run tr e fuel st 1 1 st'"
  using exec_run.more [OF exec_run.none] by (fastforce simp: One_nat_def)

text \<open>A program that counts in register 0\<close>

definition count_code :: "TranslationBlock \<Rightarrow> unit micro list" where
  "count_code b = [Compute (\<lambda>a. a\<lparr>regs := (regs a)(0 := regs a 0 + 1)\<rparr>)]"

lemma first_run: "\<exists>st'. exec_run single_inst_translator (run_code count_code) 1 (loop_start MainCore) 1 1 st'"
proof -
  have "\<exists>st'. exec_step single_inst_translator (run_code count_code) 1 (loop_start MainCore) st'"
    by (rule main_step [where q = 1, OF loop_start_inv]) (simp_all add: idle_core_def count_code_def)
  then show ?thesis using one_step_run [OF _ loop_start_simps(1)] by blast
qed

text \<open>The prefetch core ahead at program counter 4, and its iteration up to the run of the block\<close>

definition ahead :: "unit exec_state" where
  "ahead = loop_start PrefetchCore\<lparr>pcore := (idle_core 1)\<lparr>arch := (arch (idle_core 1))\<lparr>regs := (\<lambda>_. 0)(15 := 4)\<rparr>,
     slice := (slice (idle_core 1))\<lparr>ptrc_pc := [[4]]\<rparr>\<rparr>\<rparr>"

lemma ahead_inv: "core_inv single_inst_translator ahead"
  using loop_start_inv [of PrefetchCore] by (simp add: ahead_def core_inv_def roles_def)

lemma ahead_iteration:
  "\<exists>t c. \<forall>code st1. run_tb (run_code code) t (ahead\<lparr>cache := c\<rparr>) = Inr (True, st1) \<longrightarrow>
    exec_iteration single_inst_translator (run_code code) 1 ahead = Inr (True, st1)"
proof -
  obtain t c where f: "tb_find_fast single_inst_translator 1 4 0 0 start_context = Inr (t, c)"
    by (rule tb_find_fast_any [OF start_good]) blast
  let ?q = "ahead\<lparr>cache := c\<rparr>"
  note i = ahead_def ISPCORE_def IS_INTRACE_def GET_PC_def
  have a: "find_tb single_inst_translator ahead = Inr (t, ?q)" using f by (simp add: find_tb_def ahead_def cpu_get_tb_cpu_state_def idle_core_def)
  have b: "enter_trace ?q = Inr ?q" by (simp add: enter_trace_def i)
  have l: "leave_trace ?q = Inr (False, ?q)" by (simp add: leave_trace_def Let_def qemu_exit_pc_monitor_def pc_in_row_def i)
  have k: "skip_loop 1 single_inst_translator t ?q = Inr (t, ?q)" by (simp add: One_nat_def qemu_skip_pc_monitor_def Let_def pc_in_row_def i)
  have n: "spp_next single_inst_translator t ?q = Inr (t, ?q)" by (simp add: spp_next_def i)
  have d: "track_distance ?q = Inr ?q" by (simp add: track_distance_def Let_def qemu_stop_pc_monitor_def i)
  show ?thesis by (intro exI [of _ t] exI [of _ c]) (use a b l k n d in \<open>auto simp: exec_iteration_def run_next_def\<close>)
qed




definition wild_code :: "TranslationBlock \<Rightarrow> unit micro list" where
  "wild_code b = [Load (4, 0) 2 (\<lambda>a. 2 ^ 20) (\<lambda>v a. a)]"

lemma wild_load:
  fixes e :: "unit CPUState"
  assumes "sbytes e = (\<lambda>_. [])" "IsPCore e = 1"
  shows "\<exists>e'. qemu_ld_direct 2 (2 ^ 20) 0 e (ex_mem 0) p = Inr (Segv (2 ^ 20), e', p)"
proof -
  let ?e = "e\<lparr>ld_size := 4, ld_linear := 2 ^ 20\<rparr>"
  have "fetch_translated_linear ?e (ex_mem 0) (2 ^ 20) = None"
    using assms(1) by (simp add: fetch_translated_linear_def ex_mem_def)
  then have "shadow_load_loop (ex_mem 0) 0 (Suc 3) ?e = Inr (Some (2 ^ 20), ?e)" by (simp del: Suc_numeral)
  then have "shadow_load_loop (ex_mem 0) 0 4 ?e = Inr (Some (2 ^ 20), ?e)" by simp
  then have "esesc_shadow_load_process ?e (ex_mem 0) p = Inr (Some (2 ^ 20), ?e, p)"
    using assms(2) unfolding esesc_shadow_load_process_def by (simp add: ISPCORE_def)
  then show ?thesis using assms(2) by (simp add: qemu_ld_direct_def qemu_ld_shadow_def ld_width_def)
qed

lemma wild_iteration:
  "\<exists>st'. exec_iteration single_inst_translator (run_code wild_code) 1 ahead = Inr (True, st') \<and> c6_data (arch (mcore st')) = 2 ^ 20"
proof -
  obtain t c where it: "\<And>code st1. run_tb (run_code code) t (ahead\<lparr>cache := c\<rparr>) = Inr (True, st1) \<Longrightarrow>
      exec_iteration single_inst_translator (run_code code) 1 ahead = Inr (True, st1)"
    using ahead_iteration by blast
  have a: "cur ahead = PrefetchCore" "mem ahead = ex_mem 0" "sbytes (pcore ahead) = (\<lambda>_. [])" "IsPCore (pcore ahead) = 1"
    by (simp_all add: ahead_def loop_start_def idle_core_def)
  obtain e' where "qemu_ld_direct 2 (2 ^ 20) 0 (pcore ahead) (ex_mem 0) (pf ahead) = Inr (Segv (2 ^ 20), e', pf ahead)"
    using wild_load [OF a(3,4)] by blast
  then have "run_micros (wild_code b) (pcore ahead) (tbuf ahead) (ex_mem 0) (pf ahead) = Inr (HostSegv (2 ^ 20) None, e', tbuf ahead, ex_mem 0, pf ahead)" for b
    using a(4) unfolding wild_code_def by (simp add: ISPCORE_def)
  then have "run_tb (run_code wild_code) t (ahead\<lparr>cache := c\<rparr>) = Inr (True, deliver_segv (2 ^ 20) None (ahead\<lparr>cache := c, tbuf := tbuf ahead, mem := ex_mem 0, pf := pf ahead, pcore := e'\<rparr>))"
    using a(1,2) by (simp add: run_tb_def run_code_def)
  from it [OF this] show ?thesis by (intro exI conjI) (assumption, simp)
qed


text \<open>
  C17. An exception on the prefetch core (a system call in the slice, say) that leaves no exception on the
  main core starves the prefetch core: the loop continues on the main core with its quantum at 0 in
  trace; the next block takes the quantum to \<open>2^32 - 1\<close>, and the prefetch core does not run in the next \<open>2^32\<close>
  iterations of this call of \<^verbatim>\<open>cpu_exec\<close>, and no new one is created in them. Only when the call returns, for an
  exception of the main core, and \<^verbatim>\<open>cpu_exec\<close> is entered again is the quantum set to 1.
\<close>

theorem prefetch_exception_starves:
  assumes "core_inv tr st" "cur st = PrefetchCore" "exec_iteration tr (run_code code) fuel st = Inr (True, st1)"
    "exception_index (mcore st1) < 0" "exec_run tr (run_code code) fuel (st1\<lparr>cur := MainCore\<rparr>) n k st'" "n \<le> 2 ^ 32"
  shows "k = n \<and> (n < 2 ^ 32 \<longrightarrow> cur st' = MainCore \<and> processor_state (mcore st') = IN_TRACE)"
proof -
  note i = code_of.iteration_pcore [OF assms(3,1,2)]
  let ?s = "st1\<lparr>cur := MainCore\<rparr>"
  have s: "core_inv tr ?s" "InstQuatum (mcore ?s) = 0" "processor_state (mcore ?s) = IN_TRACE" "cur ?s = MainCore"
    using i by simp_all
  from code_of.starved_run [OF assms(5,6) s] show ?thesis by blast
qed

text \<open>Code that raises an exception at program counter 4 only\<close>

definition trap_code :: "TranslationBlock \<Rightarrow> unit micro list" where
  "trap_code b = [Jump (\<lambda>a. regs a 15 \<noteq> 4) 1, Raise 2]"

theorem prefetch_exception_starves_witness:
  "\<exists>st1 k st'. exec_iteration single_inst_translator (run_code trap_code) 1 ahead = Inr (True, st1) \<and> exception_index (mcore st1) < 0 \<and>
     exec_run single_inst_translator (run_code trap_code) 1 (st1\<lparr>cur := MainCore\<rparr>) 1 k st' \<and>
     k = 1 \<and> cur st' = MainCore \<and> processor_state (mcore st') = IN_TRACE"
proof -
  obtain t c where it: "\<And>code st1. run_tb (run_code code) t (ahead\<lparr>cache := c\<rparr>) = Inr (True, st1) \<Longrightarrow>
      exec_iteration single_inst_translator (run_code code) 1 ahead = Inr (True, st1)"
    using ahead_iteration by blast
  define st1 where "st1 = ahead\<lparr>cache := c, pcore := (pcore ahead)\<lparr>exception_index := 2\<rparr>\<rparr>"
  have a: "cur ahead = PrefetchCore" "mcore ahead = (idle_core 0)\<lparr>InstQuatum := 0\<rparr>" "tbuf ahead = ex_buf" "esesc_allow_large_tb ahead = (\<lambda>_. 0)"
    by (simp_all add: ahead_def loop_start_def)
  have "run_tb (run_code trap_code) t (ahead\<lparr>cache := c\<rparr>) = Inr (True, st1)"
    by (simp add: run_tb_def run_code_def trap_code_def ahead_def st1_def)
  then have i: "exec_iteration single_inst_translator (run_code trap_code) 1 ahead = Inr (True, st1)" by (rule it)
  have x: "exception_index (mcore st1) < 0" by (simp add: st1_def a(2) idle_core_def)
  have "core_inv single_inst_translator (st1\<lparr>cur := MainCore\<rparr>)" using code_of.iteration_effect [OF i ahead_inv] by simp
  then have "\<exists>st'. exec_step single_inst_translator (run_code trap_code) 1 (st1\<lparr>cur := MainCore\<rparr>) st'"
    by (rule main_step [where q = 0 and f = id]) (use a in \<open>simp_all add: st1_def trap_code_def GET_PC_def One_nat_def\<close>)
  then obtain st' where "exec_step single_inst_translator (run_code trap_code) 1 (st1\<lparr>cur := MainCore\<rparr>) st'" by blast
  then have r: "exec_run single_inst_translator (run_code trap_code) 1 (st1\<lparr>cur := MainCore\<rparr>) 1 1 st'"
    by (rule one_step_run) simp
  have "cur st' = MainCore \<and> processor_state (mcore st') = IN_TRACE"
    using prefetch_exception_starves [OF ahead_inv a(1) i x r] by simp
  then show ?thesis using i x r by blast
qed

text \<open>
  C18. An update of the prefetch accuracy returns and stays between 0 and the threshold: an address that
  was prefetched raises it by half, up to the threshold; any other lowers it by one, except that 0
  becomes the threshold, since -1 is compared as an unsigned number.
\<close>

theorem update_accuracy_bounds:
  assumes "unat (runAheadThreshold (pf st)) \<le> length (prefetch_address (pf st))" "runAheadThreshold (pf st) \<le> 2 ^ 30"
    "0 \<le> prefetchAccuracy st" "prefetchAccuracy st \<le> uint (runAheadThreshold (pf st))"
  shows "\<exists>a. update_accuracy laddr st = Inr (st\<lparr>prefetchAccuracy := a\<rparr>) \<and> 0 \<le> a \<and> a \<le> uint (runAheadThreshold (pf st)) \<and>
    a = (if laddr \<in> set (take (unat (runAheadThreshold (pf st))) (prefetch_address (pf st)))
         then min (uint (runAheadThreshold (pf st))) (prefetchAccuracy st + prefetchAccuracy st div 2)
         else if prefetchAccuracy st = 0 then uint (runAheadThreshold (pf st)) else prefetchAccuracy st - 1)"
proof -
  define T where "T = runAheadThreshold (pf st)"
  have T: "uint T \<le> 2 ^ 30" using assms(2) by (simp add: word_le_def T_def)
  have "- (2 ^ 31) \<le> (0 :: int)" "(2 :: int) ^ 30 < 2 ^ 31" by simp_all
  then have "- (2 ^ 31) \<le> uint T" "uint T < 2 ^ 31" using T uint_ge_0 [of T] by linarith+
  then have s: "sint T = uint T" by (simp add: sint_uint signed_take_bit_int_eq_self)
  have g: "(of_int a :: u32) > T \<longleftrightarrow> uint T < a" if "0 \<le> a" "a < 2 ^ 32" for a
    using that by (simp add: word_less_def uint_word_of_int take_bit_int_eq_self)
  have m: "(- 1 :: u32) > T"
  proof -
    have "uint (- 1 :: u32) = 2 ^ 32 - 1" by (simp add: unsigned_minus_1_eq_mask mask_eq_exp_minus_1)
    then show ?thesis using T by (simp add: word_less_def)
  qed
  define A where "A = prefetchAccuracy st"
  have A: "0 \<le> A" "A \<le> uint T" using assms(3,4) by (simp_all add: A_def T_def)
  have "A \<le> 1073741824" using A T by simp
  then have d: "0 \<le> A div 2" "A + A div 2 < 2 ^ 32" using A by simp_all
  show ?thesis
  proof (cases "laddr \<in> set (take (unat T) (prefetch_address (pf st)))")
    case True
    have "update_accuracy laddr st = Inr (st\<lparr>prefetchAccuracy := min (uint T) (A + A div 2)\<rparr>)"
      using assms(1) True A g [of "A + A div 2"] d s
      by (simp add: update_accuracy_def findAddressInPrefetchBuffer_def quot2_def T_def [symmetric] A_def [symmetric] Let_def min_def)
    then show ?thesis using True A d by (simp add: T_def [symmetric] A_def [symmetric])
  next
    case False
    have "update_accuracy laddr st = Inr (st\<lparr>prefetchAccuracy := (if A = 0 then uint T else A - 1)\<rparr>)"
      using assms(1) False A g [of "A - 1"] T m s
      by (simp add: update_accuracy_def findAddressInPrefetchBuffer_def T_def [symmetric] A_def [symmetric] Let_def)
    then show ?thesis using False A by (simp add: T_def [symmetric] A_def [symmetric])
  qed
qed

theorem update_accuracy_bounds_witness:
  "update_accuracy 0 (loop_start MainCore) = Inr (loop_start MainCore\<lparr>prefetchAccuracy := 3\<rparr>)"
proof -
  have f: "pf (loop_start MainCore) = \<lparr>prefetch_address = [0, 0, 0, 0], prefetch_address_idx = 0, runAheadThreshold = 4\<rparr>"
    "prefetchAccuracy (loop_start MainCore) = 2" by (simp_all add: loop_start_def)
  have "\<exists>a. update_accuracy 0 (loop_start MainCore) = Inr (loop_start MainCore\<lparr>prefetchAccuracy := a\<rparr>) \<and> 0 \<le> a \<and>
      a \<le> uint (runAheadThreshold (pf (loop_start MainCore))) \<and>
      a = (if 0 \<in> set (take (unat (runAheadThreshold (pf (loop_start MainCore)))) (prefetch_address (pf (loop_start MainCore))))
        then min (uint (runAheadThreshold (pf (loop_start MainCore)))) (prefetchAccuracy (loop_start MainCore) + prefetchAccuracy (loop_start MainCore) div 2)
        else if prefetchAccuracy (loop_start MainCore) = 0 then uint (runAheadThreshold (pf (loop_start MainCore)))
        else prefetchAccuracy (loop_start MainCore) - 1)"
    by (rule update_accuracy_bounds) (simp_all add: f)
  then show ?thesis by (simp add: f)
qed

end
