(* ===== verification/PSlice.thy ===== *)
theory PSlice
  imports CpuExec
begin

text \<open>
  The reading of the slice files (\<^verbatim>\<open>parse_file_to_pcs\<close>): each delinquent load has a trace of program
  counters and a slice of it; the counters of the trace that are not in the slice are the ones the
  prefetch core skips. A file is the list of the numbers in it, and whether anything follows the
  last number; a number that does not parse is not modelled.
\<close>

section \<open>Files\<close>

record pc_file =
  pcs :: "u32 list"
  trailing :: bool

definition MAX_PC_COUNT :: nat where "MAX_PC_COUNT = 4096"

text \<open>
  \<^verbatim>\<open>while (!feof(f)) fscanf(f, "%x", &a[i++])\<close> on a zeroed array: when something follows the last number,
  one more call fails and counts, too.
\<close>

definition read_pcs :: "pc_file \<Rightarrow> (u32 list \<times> nat) result" where
  "read_pcs f =
     check (length (pcs f) \<le> MAX_PC_COUNT) OutOfBounds
       (Inr (pcs f @ replicate (MAX_PC_COUNT - length (pcs f)) 0,
             length (pcs f) + (if trailing f \<or> pcs f = [] then 1 else 0)))"

section \<open>Slices\<close>

text \<open>\<^verbatim>\<open>row[i++] = x\<close> for every \<^verbatim>\<open>x\<close> of a list\<close>

fun push_pcs :: "u32 list \<Rightarrow> u32 list \<Rightarrow> nat \<Rightarrow> (u32 list \<times> nat) result" where
  "push_pcs [] row i = Inr (row, i)"
| "push_pcs (x # xs) row i = check (i < length row) OutOfBounds (push_pcs xs (row[i := x]) (Suc i))"

definition push_row :: "u32 list \<Rightarrow> nat \<Rightarrow> u32 list \<Rightarrow> u32 list list \<Rightarrow> (u32 list \<times> u32 list list) result" where
  "push_row xs k idx rows =
     check (k < length idx \<and> k < length rows) OutOfBounds
       (res_bind (push_pcs xs (rows ! k) (unat (idx ! k))) (\<lambda>(row, i). Inr (idx[k := of_nat i], rows[k := row])))"

definition push_stop :: "u32 \<Rightarrow> slices \<Rightarrow> slices result" where
  "push_stop pc sl =
     check (unat (stop_pc_idx sl) < length (stop_pc sl)) OutOfBounds
       (Inr (sl\<lparr>stop_pc := (stop_pc sl)[unat (stop_pc_idx sl) := pc], stop_pc_idx := stop_pc_idx sl + 1\<rparr>))"

definition parse_pair :: "nat \<Rightarrow> pc_file \<Rightarrow> pc_file \<Rightarrow> slices \<Rightarrow> slices result" where
  "parse_pair k ptrace pslice sl =
     res_bind (read_pcs ptrace) (\<lambda>(trace_pc, trace_idx).
     res_bind (read_pcs pslice) (\<lambda>(slice_pc, slice_idx).
     check (\<not> (trace_idx \<ge> MAX_PC_COUNT \<or> slice_idx \<ge> MAX_PC_COUNT)) ExitCall
     (check (trace_pc ! 0 = slice_pc ! 0) AssertFail
       (let askip_pc = filter (\<lambda>pc. pc \<notin> set slice_pc) trace_pc
        in res_bind (push_stop (trace_pc ! 0) sl) (\<lambda>sl1.
           res_bind (push_row (take (trace_idx - 1) trace_pc) k (ptrc_pc_idx sl1) (ptrc_pc sl1)) (\<lambda>(ti, tr).
           res_bind (push_row askip_pc k (skip_pc_idx sl1) (skip_pc sl1)) (\<lambda>(ki, kr).
           check (ki ! k \<noteq> ti ! k) ExitCall
             (Inr (sl1\<lparr>ptrc_pc_idx := ti, ptrc_pc := tr, skip_pc_idx := ki, skip_pc := kr\<rparr>)))))))))"

fun parse_pairs :: "nat \<Rightarrow> (pc_file \<times> pc_file) list \<Rightarrow> slices \<Rightarrow> slices result" where
  "parse_pairs k [] sl = Inr sl"
| "parse_pairs k ((t, s) # fs) sl = res_bind (parse_pair k t s sl) (parse_pairs (Suc k) fs)"

text \<open>The single-path slice; its array is not zeroed, so the first entry of an empty file is not defined.\<close>

definition parse_sppslice :: "pc_file \<Rightarrow> slices \<Rightarrow> (u32 \<times> slices) result" where
  "parse_sppslice f sl =
     check (pcs f \<noteq> []) OutOfBounds
     (res_bind (read_pcs f) (\<lambda>(pc, idx).
      res_bind (push_stop (pc ! 0) sl) (\<lambda>sl1.
      res_bind (push_pcs (take (idx - 1) pc) (sppslice_pc sl1) (unat (sppslice_pc_idx sl1))) (\<lambda>(row, i).
        Inr (of_nat i - 1, sl1\<lparr>sppslice_pc := row, sppslice_pc_idx := of_nat i\<rparr>)))))"

definition parse_file_to_pcs :: "bool \<Rightarrow> pc_file list \<Rightarrow> pc_file list \<Rightarrow> pc_file option \<Rightarrow> 'r CPUState \<Rightarrow> 'r CPUState result" where
  "parse_file_to_pcs disable_pcore ptraces pslices spp env =
     (if disable_pcore then Inr env
      else res_bind (if length pslices = length ptraces then parse_pairs 0 (zip ptraces pslices) (slice env) else Inr (slice env)) (\<lambda>sl.
           case spp of None \<Rightarrow> Inr (env\<lparr>slice := sl\<rparr>)
           | Some f \<Rightarrow> res_bind (parse_sppslice f sl) (\<lambda>(i, sl1). Inr (env\<lparr>slice := sl1, current_sppslice_pc_idx := i\<rparr>))))"

section \<open>What a pair of files gives\<close>

lemma push_pcs_eq:
  "i + length xs \<le> length row \<Longrightarrow> push_pcs xs row i = Inr (take i row @ xs @ drop (i + length xs) row, i + length xs)"
proof (induction xs arbitrary: row i)
  case (Cons x xs)
  then have "push_pcs (x # xs) row i = push_pcs xs (row[i := x]) (Suc i)" by simp
  also have "\<dots> = Inr (take (Suc i) (row[i := x]) @ xs @ drop (Suc i + length xs) (row[i := x]), Suc i + length xs)"
    by (rule Cons.IH) (use Cons.prems in simp)
  also have "take (Suc i) (row[i := x]) = take i row @ [x]" using Cons.prems by (simp add: take_Suc_conv_app_nth)
  finally show ?case by simp
qed simp

lemma push_row_eq:
  assumes "k < length idx" "k < length rows" "idx ! k = 0" "length xs \<le> length (rows ! k)" "length xs < 2 ^ 32"
  shows "\<exists>idx' rows'. push_row xs k idx rows = Inr (idx', rows') \<and> unat (idx' ! k) = length xs \<and>
    length idx' = length idx \<and> length rows' = length rows \<and> length xs \<le> length (rows' ! k) \<and> take (length xs) (rows' ! k) = xs"
  using assms push_pcs_eq [of 0 xs "rows ! k"] by (simp add: push_row_def unat_of_nat take_bit_nat_eq_self)

text \<open>The counters of the trace that reach the table: all of them when something follows the last one\<close>

definition trace_counters :: "pc_file \<Rightarrow> u32 list" where
  "trace_counters f = (if trailing f then pcs f else butlast (pcs f))"

lemma read_trace:
  assumes "length (pcs f) < 4095"
  shows "\<exists>a i. read_pcs f = Inr (a, i) \<and> i < 4096 \<and> take (i - 1) a = trace_counters f \<and> a = pcs f @ replicate (4096 - length (pcs f)) 0"
  using assms by (auto simp: read_pcs_def trace_counters_def MAX_PC_COUNT_def butlast_conv_take)

lemma skip_counters:
  assumes "length (pcs s) < 4096"
  shows "filter (\<lambda>pc. pc \<notin> set (pcs s @ replicate (4096 - length (pcs s)) 0)) (pcs t @ replicate n 0) = filter (\<lambda>pc. pc \<notin> set (pcs s) \<and> pc \<noteq> 0) (pcs t)"
proof -
  have z: "set (replicate (4096 - length (pcs s)) (0 :: u32)) = {0}" using assms by simp
  show ?thesis by (auto simp: z intro!: filter_cong)
qed

lemma parse_pair_rows:
  assumes f: "length (pcs t) < 4095" "length (pcs s) < 4095" "(pcs t @ [0]) ! 0 = (pcs s @ [0]) ! 0"
    and k: "k < length (ptrc_pc_idx sl)" "k < length (ptrc_pc sl)" "k < length (skip_pc_idx sl)" "k < length (skip_pc sl)"
      "ptrc_pc_idx sl ! k = 0" "skip_pc_idx sl ! k = 0"
    and room: "length (pcs t) \<le> length (ptrc_pc sl ! k)" "length (pcs t) \<le> length (skip_pc sl ! k)" "unat (stop_pc_idx sl) < length (stop_pc sl)"
    and some: "length (filter (\<lambda>pc. pc \<notin> set (pcs s) \<and> pc \<noteq> 0) (pcs t)) \<noteq> length (trace_counters t)"
  obtains sl' where "parse_pair k t s sl = Inr sl'"
    "k < length (ptrc_pc_idx sl')" "k < length (ptrc_pc sl')" "unat (ptrc_pc_idx sl' ! k) \<le> length (ptrc_pc sl' ! k)"
    "take (unat (ptrc_pc_idx sl' ! k)) (ptrc_pc sl' ! k) = trace_counters t"
    "k < length (skip_pc_idx sl')" "k < length (skip_pc sl')" "unat (skip_pc_idx sl' ! k) \<le> length (skip_pc sl' ! k)"
    "take (unat (skip_pc_idx sl' ! k)) (skip_pc sl' ! k) = filter (\<lambda>pc. pc \<notin> set (pcs s) \<and> pc \<noteq> 0) (pcs t)"
    "stop_pc sl' = (stop_pc sl)[unat (stop_pc_idx sl) := (pcs t @ [0]) ! 0]" "stop_pc_idx sl' = stop_pc_idx sl + 1"
proof -
  obtain a i where a: "read_pcs t = Inr (a, i)" "i < 4096" "take (i - 1) a = trace_counters t" "a = pcs t @ replicate (4096 - length (pcs t)) 0"
    using read_trace [OF f(1)] by blast
  obtain b j where b: "read_pcs s = Inr (b, j)" "j < 4096" "b = pcs s @ replicate (4096 - length (pcs s)) 0"
    using read_trace [OF f(2)] by blast
  have hd: "(pcs x @ replicate (4096 - length (pcs x)) 0) ! 0 = (pcs x @ [0]) ! 0" if "length (pcs x) < 4095" for x :: pc_file
    using that by (cases "pcs x") simp_all
  have first: "a ! 0 = b ! 0" "a ! 0 = (pcs t @ [0]) ! 0" using f hd [of t] hd [of s] by (simp_all add: a b)
  define ks where "ks = filter (\<lambda>pc. pc \<notin> set (pcs s) \<and> pc \<noteq> 0) (pcs t)"
  have ks: "filter (\<lambda>pc. pc \<notin> set b) a = ks" unfolding a(4) b(3) ks_def by (rule skip_counters) (use f(2) in simp)
  have len: "length (trace_counters t) \<le> length (pcs t)" "length ks \<le> length (pcs t)" by (simp_all add: trace_counters_def ks_def)
  define sl1 where "sl1 = sl\<lparr>stop_pc := (stop_pc sl)[unat (stop_pc_idx sl) := a ! 0], stop_pc_idx := stop_pc_idx sl + 1\<rparr>"
  have p: "push_stop (a ! 0) sl = Inr sl1" using room(3) by (simp add: push_stop_def sl1_def)
  obtain ti tr where t: "push_row (trace_counters t) k (ptrc_pc_idx sl) (ptrc_pc sl) = Inr (ti, tr)" "unat (ti ! k) = length (trace_counters t)"
    "length ti = length (ptrc_pc_idx sl)" "length tr = length (ptrc_pc sl)" "length (trace_counters t) \<le> length (tr ! k)"
    "take (length (trace_counters t)) (tr ! k) = trace_counters t"
    using push_row_eq [OF k(1,2,5), of "trace_counters t"] room(1) len f(1) by auto
  obtain ki kr where q: "push_row ks k (skip_pc_idx sl) (skip_pc sl) = Inr (ki, kr)" "unat (ki ! k) = length ks"
    "length ki = length (skip_pc_idx sl)" "length kr = length (skip_pc sl)" "length ks \<le> length (kr ! k)" "take (length ks) (kr ! k) = ks"
    using push_row_eq [OF k(3,4,6), of ks] room(2) len f(1) by auto
  have ne: "ki ! k \<noteq> ti ! k" using some t(2) q(2) by (auto simp: ks_def)
  define sl' where "sl' = sl1\<lparr>ptrc_pc_idx := ti, ptrc_pc := tr, skip_pc_idx := ki, skip_pc := kr\<rparr>"
  have "parse_pair k t s sl = Inr sl'"
    using a(1-3) b(1,2) first(1) p ks t(1) q(1) ne by (simp add: parse_pair_def Let_def MAX_PC_COUNT_def sl1_def sl'_def)
  then show ?thesis by (rule that) (use k t q first(2) in \<open>simp_all add: sl'_def sl1_def ks_def [symmetric]\<close>)
qed

section \<open>Properties\<close>

text \<open>
  C19. A pair of files for the same delinquent load, of fewer than 4095 program counters each, that fits the
  tables and does not skip everything is read as slice \<open>k\<close>. Afterwards the prefetch core that runs for it
  leaves the trace exactly at the program counters that did not reach the table of the trace: those outside
  the trace file, and the last one of the file when nothing, not even a line end, follows it. It moves on to
  the block behind the current one exactly at the program counters of the trace file that are not in the
  slice file and are not 0, and stays with its block at every other.
\<close>

theorem parse_pair_monitors:
  assumes "length (pcs t) < 4095" "length (pcs s) < 4095" "(pcs t @ [0]) ! 0 = (pcs s @ [0]) ! 0"
    and "k < length (ptrc_pc_idx sl)" "k < length (ptrc_pc sl)" "k < length (skip_pc_idx sl)" "k < length (skip_pc sl)"
      "ptrc_pc_idx sl ! k = 0" "skip_pc_idx sl ! k = 0"
    and "length (pcs t) \<le> length (ptrc_pc sl ! k)" "length (pcs t) \<le> length (skip_pc sl ! k)" "unat (stop_pc_idx sl) < length (stop_pc sl)"
    and "length (filter (\<lambda>pc. pc \<notin> set (pcs s) \<and> pc \<noteq> 0) (pcs t)) \<noteq> length (trace_counters t)"
  shows "\<exists>sl'. parse_pair k t s sl = Inr sl' \<and>
    (\<forall>(st :: 'r exec_state) tr b. slice (cur_env st) = sl' \<and> current_stop_pc_idx (cur_env st) = k \<and> ISPCORE (cur_env st) \<longrightarrow>
       qemu_exit_pc_monitor (cur_env st) = Inr (GET_PC (cur_env st) \<notin> set (trace_counters t)) \<and>
       qemu_skip_pc_monitor tr b st =
         (if GET_PC (cur_env st) \<in> set (pcs t) \<and> GET_PC (cur_env st) \<notin> set (pcs s) \<and> GET_PC (cur_env st) \<noteq> 0
          then find_tb tr (upd_env (SET_PC (tb_next_pc (tbs (cache st) ! b))) st) else Inr (b, st)))"
proof -
  obtain sl' where r: "parse_pair k t s sl = Inr sl'"
    "k < length (ptrc_pc_idx sl')" "k < length (ptrc_pc sl')" "unat (ptrc_pc_idx sl' ! k) \<le> length (ptrc_pc sl' ! k)"
    "take (unat (ptrc_pc_idx sl' ! k)) (ptrc_pc sl' ! k) = trace_counters t"
    "k < length (skip_pc_idx sl')" "k < length (skip_pc sl')" "unat (skip_pc_idx sl' ! k) \<le> length (skip_pc sl' ! k)"
    "take (unat (skip_pc_idx sl' ! k)) (skip_pc sl' ! k) = filter (\<lambda>pc. pc \<notin> set (pcs s) \<and> pc \<noteq> 0) (pcs t)"
    by (rule parse_pair_rows [OF assms]) blast
  have rows: "pc_in_row (ptrc_pc_idx sl') (ptrc_pc sl') k x = Inr (x \<in> set (trace_counters t))"
    "pc_in_row (skip_pc_idx sl') (skip_pc sl') k x = Inr (x \<in> set (pcs t) \<and> x \<notin> set (pcs s) \<and> x \<noteq> 0)" for x
    using r(2-9) by (auto simp: pc_in_row_def)
  have "qemu_exit_pc_monitor (cur_env st) = Inr (GET_PC (cur_env st) \<notin> set (trace_counters t)) \<and>
      qemu_skip_pc_monitor tr b st =
         (if GET_PC (cur_env st) \<in> set (pcs t) \<and> GET_PC (cur_env st) \<notin> set (pcs s) \<and> GET_PC (cur_env st) \<noteq> 0
          then find_tb tr (upd_env (SET_PC (tb_next_pc (tbs (cache st) ! b))) st) else Inr (b, st))"
    if "slice (cur_env st) = sl'" "current_stop_pc_idx (cur_env st) = k" "ISPCORE (cur_env st)" for st :: "'r exec_state" and tr b
    using that by (simp add: qemu_exit_pc_monitor_def qemu_skip_pc_monitor_def Let_def rows)
  then show ?thesis using r(1) by blast
qed

definition empty_slices :: slices where
  "empty_slices = \<lparr>ptrc_pc_idx = [0], ptrc_pc = [[0, 0, 0]], stop_pc_idx = 0, stop_pc = [0], skip_pc_idx = [0], skip_pc = [[0, 0, 0]],
     sppslice_pc_idx = 0, sppslice_pc = [0]\<rparr>"

theorem parse_pair_monitors_witness:
  "\<exists>sl'. parse_pair 0 \<lparr>pcs = [0x8000, 0x8004, 0x8008], trailing = True\<rparr> \<lparr>pcs = [0x8000, 0x8008], trailing = True\<rparr> empty_slices = Inr sl' \<and>
    (\<forall>(st :: unit exec_state) tr b. slice (cur_env st) = sl' \<and> current_stop_pc_idx (cur_env st) = 0 \<and> ISPCORE (cur_env st) \<longrightarrow>
       qemu_exit_pc_monitor (cur_env st) = Inr (GET_PC (cur_env st) \<notin> {0x8000, 0x8004, 0x8008}) \<and>
       qemu_skip_pc_monitor tr b st =
         (if GET_PC (cur_env st) = 0x8004 then find_tb tr (upd_env (SET_PC (tb_next_pc (tbs (cache st) ! b))) st) else Inr (b, st)))"
proof -
  let ?t = "\<lparr>pcs = [0x8000, 0x8004, 0x8008], trailing = True\<rparr> :: pc_file" and ?s = "\<lparr>pcs = [0x8000, 0x8008], trailing = True\<rparr> :: pc_file"
  have x: "x \<in> set (pcs ?t) \<and> x \<notin> set (pcs ?s) \<and> x \<noteq> 0 \<longleftrightarrow> x = 0x8004" "x \<notin> set (trace_counters ?t) \<longleftrightarrow> x \<notin> {0x8000, 0x8004, 0x8008}" for x
    by (auto simp: trace_counters_def)
  have "\<exists>sl'. parse_pair 0 ?t ?s empty_slices = Inr sl' \<and>
    (\<forall>(st :: unit exec_state) tr b. slice (cur_env st) = sl' \<and> current_stop_pc_idx (cur_env st) = 0 \<and> ISPCORE (cur_env st) \<longrightarrow>
       qemu_exit_pc_monitor (cur_env st) = Inr (GET_PC (cur_env st) \<notin> set (trace_counters ?t)) \<and>
       qemu_skip_pc_monitor tr b st =
         (if GET_PC (cur_env st) \<in> set (pcs ?t) \<and> GET_PC (cur_env st) \<notin> set (pcs ?s) \<and> GET_PC (cur_env st) \<noteq> 0
          then find_tb tr (upd_env (SET_PC (tb_next_pc (tbs (cache st) ! b))) st) else Inr (b, st)))"
    by (rule parse_pair_monitors) (simp_all add: empty_slices_def trace_counters_def)
  then show ?thesis unfolding x .
qed

end
