(* ===== verification/Program.thy ===== *)
theory Program
  imports CoreSwitch PSlice
begin

text \<open>
  The emulator from its launch: \<^verbatim>\<open>main\<close> of \<^verbatim>\<open>linux-user/main.c\<close> gives the two cores their roles, the first
  call of \<^verbatim>\<open>cpu_exec\<close> reads the slice files and allocates the buffer of prefetched addresses, and the loop
  runs, returns for the system calls and signals of the guest, and is entered again. System calls and
  page faults change the protection of guest pages. The invariant of the two cores and the translation
  cache holds at every moment of this.
\<close>

section \<open>Launch\<close>

text \<open>Both processors are on the list when \<^verbatim>\<open>main\<close> has created them; clearing \<^verbatim>\<open>next_cpu\<close> leaves the first one.\<close>

definition launch :: "'r exec_state \<Rightarrow> 'r exec_state" where
  "launch st = st\<lparr>mcore := (mcore st)\<lparr>IsPCore := 0, fid := 0\<rparr>, pcore := (pcore st)\<lparr>IsPCore := 1\<rparr>,
     cache := (cache st)\<lparr>cpu_list := take 1 (cpu_list (cache st))\<rparr>\<rparr>"

text \<open>
  The first call of \<^verbatim>\<open>cpu_exec\<close>; \<open>fresh\<close> is what \<^verbatim>\<open>malloc\<close> returns, an array of the given length with any
  contents.
\<close>

definition cpu_exec_first :: "(nat \<Rightarrow> u32 list) \<Rightarrow> bool \<Rightarrow> pc_file list \<Rightarrow> pc_file list \<Rightarrow> pc_file option \<Rightarrow>
    'r exec_state \<Rightarrow> 'r exec_state result" where
  "cpu_exec_first fresh disable_pcore ptraces pslices spp st =
     res_bind (parse_file_to_pcs disable_pcore ptraces pslices spp (mcore st)) (\<lambda>env.
       Inr (cpu_exec_entry (st\<lparr>mcore := env, has_sppslice := \<not> disable_pcore \<and> spp \<noteq> None,
         pf := (pf st)\<lparr>prefetch_address := fresh (unat (runAheadThreshold (pf st)))\<rparr>\<rparr>)))"

section \<open>Reachable states\<close>

text \<open>
  Before \<^verbatim>\<open>launch\<close> the processors are zeroed, so both are before the trace, and the cache is empty. A
  \<open>mapping\<close> is \<^verbatim>\<open>target_mmap\<close>, \<^verbatim>\<open>target_mprotect\<close> or the loading of the program, a \<open>fault\<close> a store to a page that
  is not writable.
\<close>

inductive program_reachable :: "translator \<Rightarrow> (TranslationBlock \<Rightarrow> 'r micro list) \<Rightarrow> nat \<Rightarrow> 'r exec_state \<Rightarrow> bool"
  for tr code fuel where
  start: "length blocks = code_gen_max_blocks \<Longrightarrow> cache st = tcg_exec_init blocks [0, 1] \<Longrightarrow>
    processor_state (mcore st) = PRE_TRACE \<Longrightarrow> processor_state (pcore st) = PRE_TRACE \<Longrightarrow>
    cpu_exec_first fresh disable_pcore ptraces pslices spp (launch st) = Inr st' \<Longrightarrow> program_reachable tr code fuel st'"
| iteration: "program_reachable tr code fuel st \<Longrightarrow> exec_step tr (run_code code) fuel st st' \<Longrightarrow> program_reachable tr code fuel st'"
| system_call: "program_reachable tr code fuel st \<Longrightarrow> return_step tr (run_code code) fuel st st' \<Longrightarrow> program_reachable tr code fuel st'"
| mapping: "program_reachable tr code fuel st \<Longrightarrow> page_set_flags a b flags (cache st) = Inr c \<Longrightarrow>
    program_reachable tr code fuel (st\<lparr>cache := c\<rparr>)"
| fault: "program_reachable tr code fuel st \<Longrightarrow> page_unprotect a (cache st) = Inr (r, c) \<Longrightarrow>
    program_reachable tr code fuel (st\<lparr>cache := c\<rparr>)"

lemma page_set_flags_list:
  assumes "page_set_flags a b flags s = Inr s'" "tb_inv tr s"
  shows "cpu_list s' = cpu_list s"
proof -
  obtain B P where "tb_good tr s B P" using assms(2) by (auto simp: tb_inv_def)
  then have r: "tb_rep {} s B P" by (rule tb_goodD(1))
  define k where "k = unat (((b + 4096 - 1) AND TARGET_PAGE_MASK) - (a AND TARGET_PAGE_MASK)) div 4096"
  define fl where "fl = (if flags AND PAGE_WRITE \<noteq> 0 then flags OR PAGE_WRITE_ORG else flags)"
  have e: "page_set_loop k (a AND TARGET_PAGE_MASK) fl s = Inr s'"
    using assms(1) by (auto simp: page_set_flags_def Let_def check_def k_def fl_def split: if_splits)
  obtain s1 where "page_set_loop k (a AND TARGET_PAGE_MASK) fl s = Inr s1" "code_frame s s1"
    by (rule page_set_loop_rep [OF r, of k "a AND TARGET_PAGE_MASK" fl]) blast
  then show ?thesis using e by (simp add: code_frame_def)
qed

lemma core_inv_entry:
  "core_inv tr st \<Longrightarrow> cur st = MainCore \<Longrightarrow> core_inv tr (cpu_exec_entry (st\<lparr>mcore := (mcore st)\<lparr>arch := a\<rparr>, mem := m\<rparr>))"
  by (simp add: core_inv_def roles_def cpu_exec_entry_def)

lemma parse_file_keeps:
  assumes "parse_file_to_pcs d pt ps spp env = Inr env'"
  shows "IsPCore env' = IsPCore env" "processor_state env' = processor_state env"
  using assms by (auto simp: parse_file_to_pcs_def split: if_splits option.splits)

lemma start_inv:
  assumes "length blocks = code_gen_max_blocks" "cache st = tcg_exec_init blocks [0, 1]" "translator_fits tr"
    "processor_state (mcore st) = PRE_TRACE" "cpu_exec_first fresh d pt ps spp (launch st) = Inr st'"
  shows "core_inv tr st'"
proof -
  have "(tcg_exec_init blocks [0, 1])\<lparr>cpu_list := [0]\<rparr> = tcg_exec_init blocks [0]" by (simp add: tcg_exec_init_def)
  then have "cache (launch st) = tcg_exec_init blocks [0]" using assms(2) by (simp add: launch_def tcg_exec_init_def)
  moreover have "cache_inv tr (tcg_exec_init blocks [0])"
    using tb_invI [OF init_good [OF assms(1,3)]] by (simp add: cache_inv_def tcg_exec_init_def)
  ultimately have c: "cache_inv tr (cache (launch st))" by simp
  obtain env where e: "parse_file_to_pcs d pt ps spp (mcore (launch st)) = Inr env" and s: "st' = cpu_exec_entry (launch st\<lparr>mcore := env,
      has_sppslice := \<not> d \<and> spp \<noteq> None, pf := (pf (launch st))\<lparr>prefetch_address := fresh (unat (runAheadThreshold (pf (launch st))))\<rparr>\<rparr>)"
    using assms(5) by (auto simp: cpu_exec_first_def)
  show ?thesis using parse_file_keeps [OF e] c assms(4)
    by (simp add: s core_inv_def roles_def cpu_exec_entry_def launch_def PRE_TRACE_def IN_TRACE_def)
qed

lemma return_inv:
  assumes "return_step tr (run_code code) fuel st st'" "core_inv tr st"
  shows "core_inv tr st'"
proof -
  obtain s a m where it: "exec_iteration tr (run_code code) fuel st = Inr (True, s)" and
      e: "st' = cpu_exec_entry (s\<lparr>cur := MainCore, mcore := (mcore s)\<lparr>arch := a\<rparr>, mem := m\<rparr>)"
    using assms(1) by (auto elim: return_step.cases)
  have "core_inv tr (s\<lparr>cur := MainCore\<rparr>)" using code_of.iteration_effect [OF it assms(2)] by simp
  from core_inv_entry [OF this, where a = a and m = m] show ?thesis by (simp add: e)
qed

lemma program_inv: "program_reachable tr code fuel st \<Longrightarrow> translator_fits tr \<Longrightarrow> core_inv tr st"
proof (induction rule: program_reachable.induct)
  case (start blocks st fresh disable_pcore ptraces pslices spp st')
  show ?case by (rule start_inv [OF start(1,2,6,3,5)])
next
  case (iteration st st')
  then show ?case using code_of.step_inv [OF iteration.hyps(2)] by blast
next
  case (system_call st st')
  then show ?case using return_inv [OF system_call.hyps(2)] by blast
next
  case (mapping st a b flags c)
  then have i: "core_inv tr st" by blast
  then have t: "tb_inv tr (cache st)" "cpu_list (cache st) = [0]" by (simp_all add: core_inv_def cache_inv_def)
  have "cache_inv tr c"
    using tb_step_inv [OF tb_step.set_flags [OF mapping.hyps(2)] t(1)] page_set_flags_list [OF mapping.hyps(2) t(1)] t(2) by (simp add: cache_inv_def)
  then show ?case by (rule core_inv_cache [OF i])
next
  case (fault st a r c)
  then show ?case using core_inv_unprotect [OF fault.hyps(2)] by blast
qed

section \<open>Properties\<close>

text \<open>
  C9. At every moment of a run of the emulator, from its launch with any slice files, through
  iterations of the loop, system calls, mappings and page faults, exactly the prefetch core has the
  role of a prefetch core; it is the current core only while the main core is in trace, waits with its
  quantum used up, and is itself in trace with one block to run; and the translation cache, which the
  two cores share, satisfies its invariant.
\<close>

theorem program_core_invariant:
  assumes "program_reachable tr code fuel st" "translator_fits tr"
  shows "IsPCore (mcore st) = 0 \<and> IsPCore (pcore st) \<noteq> 0 \<and> tb_inv tr (cache st) \<and> cpu_list (cache st) = [0] \<and>
    (IS_INTRACE (mcore st) \<longrightarrow> IS_INTRACE (pcore st)) \<and>
    (cur st = PrefetchCore \<longrightarrow> IS_INTRACE (mcore st) \<and> IS_INTRACE (pcore st) \<and> InstQuatum (mcore st) = 0 \<and> InstQuatum (pcore st) = 1)"
  using program_inv [OF assms] by (auto simp: core_inv_def roles_def cache_inv_def IS_INTRACE_def)

text \<open>A launch on the example core, with one pair of slice files\<close>

definition launch_start :: "unit exec_state" where
  "launch_start = loop_start MainCore\<lparr>
     mcore := (idle_core 0)\<lparr>processor_state := PRE_TRACE, slice := empty_slices\<rparr>, pcore := (idle_core 0)\<lparr>processor_state := PRE_TRACE\<rparr>,
     cache := tcg_exec_init (replicate code_gen_max_blocks blank_tb) [0, 1]\<rparr>"

definition launched :: "unit exec_state" where
  "launched = (case cpu_exec_first (\<lambda>n. replicate n 0) False [\<lparr>pcs = [0x8000, 0x8004], trailing = True\<rparr>] [\<lparr>pcs = [0x8000], trailing = True\<rparr>] None
     (launch launch_start) of Inr st \<Rightarrow> st | Inl _ \<Rightarrow> launch_start)"

lemma launch_returns:
  "\<exists>st. cpu_exec_first (\<lambda>n. replicate n 0) False [\<lparr>pcs = [0x8000, 0x8004], trailing = True\<rparr>] [\<lparr>pcs = [0x8000], trailing = True\<rparr>] None
     (launch launch_start) = Inr st"
proof -
  let ?t = "\<lparr>pcs = [0x8000, 0x8004], trailing = True\<rparr> :: pc_file" and ?s = "\<lparr>pcs = [0x8000], trailing = True\<rparr> :: pc_file"
  have sl: "slice (mcore (launch launch_start)) = empty_slices" by (simp add: launch_def launch_start_def)
  obtain sl' where p: "parse_pair 0 ?t ?s empty_slices = Inr sl'"
    by (rule parse_pair_rows [of ?t ?s 0 empty_slices]) (simp_all add: empty_slices_def trace_counters_def)
  then show ?thesis by (simp add: cpu_exec_first_def parse_file_to_pcs_def sl)
qed

lemma launched_reachable: "program_reachable single_inst_translator count_code 1 launched"
proof -
  let ?t = "\<lparr>pcs = [0x8000, 0x8004], trailing = True\<rparr> :: pc_file" and ?s = "\<lparr>pcs = [0x8000], trailing = True\<rparr> :: pc_file"
  obtain st where s: "cpu_exec_first (\<lambda>n. replicate n 0) False [?t] [?s] None (launch launch_start) = Inr st"
    using launch_returns by blast
  have "launched = st" by (simp add: launched_def s)
  moreover have "program_reachable single_inst_translator count_code 1 st"
    by (rule program_reachable.start [OF _ _ _ _ s, of "replicate code_gen_max_blocks blank_tb"]) (simp_all add: launch_start_def)
  ultimately show ?thesis by simp
qed

theorem program_core_invariant_witness:
  "program_reachable single_inst_translator count_code 1 launched \<and> IsPCore (mcore launched) = 0 \<and> IsPCore (pcore launched) \<noteq> 0"
  using program_core_invariant [OF launched_reachable single_inst_fits] launched_reachable by blast

end
