(* ===== verification/Spec2Isabelle.thy ===== *)
theory Spec2Isabelle
  imports Trace TcgGen ArmArith NeonBits NeonLaneOps NeonZip Program
begin

text \<open>
  Verification of the emulation engine of PESESC (\<^verbatim>\<open>src/emul/qemu\<close>).

  \<^bold>\<open>The program.\<close> PESESC is an architectural simulator of ARM programs. Its engine is a modified QEMU in
  user mode: guest code is translated block by block into host code, which is run by the loop \<^verbatim>\<open>cpu_exec\<close>.
  The modification adds a second processor, the prefetch core. When the main core reaches a delinquent
  load of a slice file, the prefetch core becomes a copy of it and runs ahead through the slice,
  alternating with the main core block by block; its stores go to a shadow buffer, its loads are the
  prefetches, and the instructions of both cores are reported to the timing simulator. The parts:

  \<^item> \<^verbatim>\<open>cpu-exec.c\<close>, \<^verbatim>\<open>user-exec.c\<close>, \<^verbatim>\<open>linux-user/main.c\<close>: the loop, the control of the prefetch core, the slice files,
    the instruction trace, the delivery of host faults, the launch;
  \<^item> \<^verbatim>\<open>tcg/i386/tcg-target.c\<close>: the code emitted for guest loads and stores and the shadow buffer it calls;
  \<^item> \<^verbatim>\<open>exec.c\<close>, \<^verbatim>\<open>exec-all.h\<close> and the lookup in \<^verbatim>\<open>cpu-exec.c\<close>: the cache of translation blocks, which the two cores
    share, with the write protection of translated guest pages;
  \<^item> \<^verbatim>\<open>tcg/optimize.c\<close>, \<^verbatim>\<open>tcg/tcg.c\<close>: the optimiser and the liveness analysis that every block passes on its way
    from the translator to the register allocator;
  \<^item> \<^verbatim>\<open>target-arm/op_helper.c\<close>, \<^verbatim>\<open>helper.c\<close>, \<^verbatim>\<open>neon_helper.c\<close>: the helpers that translated code calls.

  \<^bold>\<open>The configuration.\<close> \<^verbatim>\<open>TARGET_ARM\<close>, \<^verbatim>\<open>CONFIG_USER_ONLY\<close>, \<^verbatim>\<open>CONFIG_ESESC_user\<close>, a little-endian x86-64 host. C integers
  are words of their width. A C function is a function on its state that returns \<open>Inr\<close> its result or \<open>Inl\<close> a
  \<open>fault\<close> of theory \<open>Prelude\<close>: a failed assertion, a null pointer, an index outside an array, an abort, an
  undefined shift, a jump to an address that was never patched, or a loop that ran out of its bound.

  \<^bold>\<open>The theories.\<close>

  \<^descr> \<open>Prelude\<close>: the integer types, faults and results, lemmas on words, masks and lists.

  \<^descr> \<open>ShadowMem\<close>: \<^verbatim>\<open>fetch_translated_linear\<close>, \<^verbatim>\<open>esesc_shadow_load_process\<close>, \<^verbatim>\<open>esesc_shadow_store_process(_byte)\<close> on the hash
    table \<^verbatim>\<open>sbytes\<close> and the buffer of prefetched addresses. Memory is a partial map: its domain is what is mapped, and
    every byte knows whether the guest may write it; a read outside the domain is a \<^verbatim>\<open>SIGSEGV\<close> of the host. The
    locale \<open>byte_overlay\<close> states what a store buffer over a memory promises (a fetch after a store) and
    proves that it then behaves as the memory written directly; it is interpreted on the shadow buffer.

  \<^descr> \<open>GuestAccess\<close>: the run-time effect of the emitted loads and stores on either core. A prefetch core loads
    what the main core would load, up to an 8-byte store, where it goes astray; the exact effect of
    shadow stores.

  \<^descr> \<open>Trace\<close>: the trace records of a block, their sanity check and expansion.

  \<^descr> \<open>TcgOpt\<close>, \<open>TcgRings\<close>, \<open>TcgOptSound\<close>, \<open>TcgOptimize\<close>: the optimiser. Folding is exact; the rings of copies
    keep their invariant; the optimised block runs in lock step with the original for every meaning of
    the operations it does not interpret; it returns but for two kinds of operation. \<open>wt_op\<close> demands
    operands of the width of the operation; \<open>trunc_move_miscompiled\<close> shows that this cannot be dropped.

  \<^descr> \<open>TcgLive\<close>, \<open>TcgLiveSound\<close>, \<open>TcgScope\<close>, \<open>TcgGen\<close>: the liveness analysis: it returns and keeps the layout of the
    block, the operations it removes are not needed, the dead bits it gives to the register
    allocator are right, and it composes with the optimiser.

  \<^descr> \<open>ArmArith\<close>: saturating arithmetic, flags, shifts and division against integer specifications.

  \<^descr> \<open>NeonLanes\<close>, \<open>NeonSat\<close>, \<open>NeonShift\<close>, \<open>NeonArith\<close>, \<open>NeonSwar\<close>, \<open>NeonBits\<close>, \<open>NeonLaneOps\<close>, \<open>NeonWiden\<close>, \<open>NeonZip\<close>: the integer vector
    helpers. The locale \<open>lanes\<close> states what packing and unpacking of lanes promise and is interpreted for
    every layout in use; the helpers are shown to be operations on integers lane by lane.
    What \<^verbatim>\<open>SET_QC\<close> writes is taken from the code as it is, in the helpers and in their specifications.

  \<^descr> \<open>TbCache\<close>, \<open>TbLists\<close>, \<open>TbRemove\<close>, \<open>TbPages\<close>, \<open>TbLookup\<close>, \<open>TbInv\<close>: the translation cache. The definitions follow \<^verbatim>\<open>exec.c\<close>;
    \<open>tb_rep\<close> relates the linked structures to lists, and each operation is shown to act on the lists. Over
    all operations (\<open>tb_step\<close>) the invariant holds, translated code is write-protected,
    lookups return live matching blocks, operations return but for \<^verbatim>\<open>cpu_exec_nocache\<close> of a block that drops
    itself, the search by code address is right, and a core off the processor list keeps
    stale entries.

  \<^descr> \<open>CpuExec\<close>: one iteration of the loop with all that is in it, the entry of \<^verbatim>\<open>cpu_exec\<close>, faults of the host, and the
    code of blocks as sequences of operations (\<open>micro\<close>) over the emitted loads and stores.

  \<^descr> \<open>CoreSwitch\<close>: the locale \<open>generated_code\<close> states what the loop relies on of generated code on each core (what the
    main core's code does to the guest, that the prefetch core's leaves memory alone); it is interpreted on
    all code that blocks can have (\<open>code_of\<close>). Within a call of \<^verbatim>\<open>cpu_exec\<close> the prefetch core is invisible to the guest;
    an iteration does nothing else to the guest but deliver a host fault of C code to the main core, which
    the prefetch core can cause; an exception on the prefetch core starves it; bounds of the accuracy.

  \<^descr> \<open>PSlice\<close>: \<^verbatim>\<open>parse_file_to_pcs\<close>, and what the monitors answer afterwards.

  \<^descr> \<open>Program\<close>: the launch and the first call of \<^verbatim>\<open>cpu_exec\<close>, and the invariant of cores and cache over the whole run,
    with system calls, mappings and page faults as steps.

  \<^bold>\<open>Bounds and fuel.\<close> The walks over the rings of copies have \<open>Suc nb_temps\<close> rounds, and those over the chains of
  blocks \<open>chain_fuel\<close>, \<open>3 * length tbs + 1\<close>, rounds; both are proved to be enough in every state that can be
  reached, so \<open>OutOfFuel\<close> never happens there. The loop that skips blocks outside the slice (\<open>skip_loop\<close>) has its
  fuel as a parameter; an iteration that does not finish it has no result and is not a step, and no
  property claims that it finishes. Properties of \<^verbatim>\<open>cpu_exec\<close> are about completed iterations, whatever the fuel.

  \<^bold>\<open>Not modelled.\<close> The translator of ARM and Thumb instructions is a parameter, a function of the block's
  address and flags with the size of its output as a hypothesis; it always returns, so a host fault while
  it fetches instructions is not modelled. Register allocation and host encodings are left out; the
  operands of emitted accesses are taken to be in registers the emitted code does not overwrite. Also left
  out: pending interrupts, the instruction counter and the M profile in \<^verbatim>\<open>cpu_exec\<close>; system calls and signal
  frames, beyond their effect on registers, memory and page flags; floating point; big-endian and 32-bit
  hosts; system emulation and devices; the timing simulator, written in C++; the vendored libraries.
\<close>

end
